(* ===== verification/Prelude.thy ===== *)
theory Prelude
  imports Main "HOL-Library.List_Lexorder" "HOL-Library.Char_ord"
begin

section \<open>Shared types, maps and arithmetic of the model\<close>

text \<open>
  What every component of the model shares: Go strings as byte lists, Go maps with string keys
  as key-sorted association lists, the wrap-around of a 64-bit \<open>int\<close>, cutset trimming, and the
  collections \<open>go_defs\<close> (definitions unfolded when a branch is evaluated) and \<open>smap_simps\<close>
  (the rewrite rules of the maps).

  A Go map is extensional and has no order of its own; the library only ever walks one after
  sorting its keys, or in a way that does not depend on the order. Its model is the list of its
  entries in the byte order of the keys (\<open>smap_ok\<close>), so that two maps are equal exactly when
  they hold the same entries (\<open>smap_eqI\<close>).
\<close>

named_theorems go_defs "definitions unfolded to evaluate a branch of the code"
named_theorems smap_simps "rewrite rules of the key-sorted maps"

type_synonym bytes = string
type_synonym 'v smap = "(string \<times> 'v) list"

subsection \<open>Key-sorted maps\<close>

definition smap_ok :: "'v smap \<Rightarrow> bool" where
  "smap_ok m \<longleftrightarrow> sorted_wrt (<) (map fst m)"

fun smap_put :: "string \<Rightarrow> 'v \<Rightarrow> 'v smap \<Rightarrow> 'v smap" where
  "smap_put k v [] = [(k, v)]"
| "smap_put k v ((k', v') # m) =
     (if k = k' then (k, v) # m
      else if k < k' then (k, v) # (k', v') # m
      else (k', v') # smap_put k v m)"

fun smap_del :: "string \<Rightarrow> 'v smap \<Rightarrow> 'v smap" where
  "smap_del k [] = []"
| "smap_del k ((k', v') # m) = (if k = k' then m else (k', v') # smap_del k m)"

abbreviation smap_get :: "'v smap \<Rightarrow> string \<Rightarrow> 'v option" where
  "smap_get \<equiv> map_of"

abbreviation smap_keys :: "'v smap \<Rightarrow> string list" where
  "smap_keys m \<equiv> map fst m"

lemma smap_ok_Nil [simp]: "smap_ok []"
  by (simp add: smap_ok_def)

lemma smap_ok_Cons [simp]:
  "smap_ok ((k, v) # m) \<longleftrightarrow> (\<forall>k' \<in> fst ` set m. k < k') \<and> smap_ok m"
  by (auto simp: smap_ok_def)

lemma set_smap_keys_put [smap_simps]: "fst ` set (smap_put k v m) = insert k (fst ` set m)"
  by (induction k v m rule: smap_put.induct) (simp_all add: insert_commute)

lemma smap_get_put [smap_simps]: "smap_get (smap_put k v m) = (smap_get m)(k \<mapsto> v)"
  by (induction m) (auto simp: fun_eq_iff)

lemma smap_ok_put [simp, intro]: "smap_ok m \<Longrightarrow> smap_ok (smap_put k v m)"
proof (induction k v m rule: smap_put.induct)
  case (2 k v k' v' m)
  show ?case
  proof (cases "k < k'")
    case True
    then have "\<forall>j \<in> fst ` set m. k < j" using "2.prems" less_trans by fastforce
    then show ?thesis using True "2.prems" by simp
  next
    case False
    then have "k' < k" if "k \<noteq> k'" using that by simp
    then show ?thesis using False 2 by (auto simp: set_smap_keys_put)
  qed
qed simp

lemma set_smap_put_subset: "set (smap_put k v m) \<subseteq> insert (k, v) (set m)"
  by (induction k v m rule: smap_put.induct) (auto split: if_splits)

lemma smap_ok_distinct: "smap_ok m \<Longrightarrow> distinct (map fst m)"
proof (induction m)
  case (Cons kv m)
  then show ?case by (cases kv) fastforce
qed simp

lemma smap_del_absent: "k \<notin> fst ` set m \<Longrightarrow> smap_del k m = m"
  by (induction m) auto

lemma set_smap_keys_del [smap_simps]:
  "smap_ok m \<Longrightarrow> fst ` set (smap_del k m) = fst ` set m - {k}"
proof (induction m)
  case (Cons kv m)
  obtain k' v' where kv: "kv = (k', v')" by (cases kv)
  have "k' \<notin> fst ` set m" using Cons.prems kv by force
  then show ?case using Cons kv by auto
qed simp

lemma smap_get_del [smap_simps]: "smap_ok m \<Longrightarrow> smap_get (smap_del k m) = (smap_get m)(k := None)"
proof (induction m)
  case Nil
  then show ?case by (simp add: fun_eq_iff)
next
  case (Cons kv m)
  obtain k' v' where kv: "kv = (k', v')" by (cases kv)
  show ?case
  proof (cases "k = k'")
    case True
    then have "map_of m k = None"
      using Cons.prems kv by (force simp: map_of_eq_None_iff)
    then show ?thesis using True kv by (auto simp: fun_eq_iff)
  next
    case False
    then show ?thesis using Cons kv by (auto simp: fun_eq_iff)
  qed
qed

lemma smap_ok_del [simp, intro]: "smap_ok m \<Longrightarrow> smap_ok (smap_del k m)"
proof (induction m)
  case (Cons kv m)
  then show ?case
    by (cases kv) (auto simp: set_smap_keys_del)
qed simp

text \<open>Extensionality: a key-sorted list is determined by the map it represents.\<close>

lemma smap_head_min:
  assumes "smap_ok ((k, v) # m)" and "smap_get ((k, v) # m) j = Some w"
  shows "k \<le> j"
proof (cases "j = k")
  case False
  then have "(j, w) \<in> set m" using assms(2) by (auto dest: map_of_SomeD)
  then have "j \<in> fst ` set m" by force
  then show ?thesis using assms(1) by auto
qed simp

lemma smap_eqI:
  assumes "smap_ok m" and "smap_ok m'" and "smap_get m = smap_get m'"
  shows "m = m'"
  using assms
proof (induction m arbitrary: m')
  case Nil
  then show ?case by (cases m') (auto simp: fun_eq_iff split: if_splits)
next
  case (Cons kv m)
  obtain k v where kv: "kv = (k, v)" by (cases kv)
  have "smap_get m' k \<noteq> None" using Cons.prems(3) kv by (metis map_of_Cons_code(2) option.distinct(1))
  then have "m' \<noteq> []" by auto
  then obtain k' v' n where m': "m' = (k', v') # n" by (cases m') auto
  have "k \<le> k'"
    using smap_head_min [of k v m k' v'] Cons.prems kv m' by (metis map_of_Cons_code(2))
  moreover have "k' \<le> k"
    using smap_head_min [of k' v' n k v] Cons.prems kv m' by (metis map_of_Cons_code(2))
  ultimately have k: "k' = k" by simp
  have v: "v' = v"
    using Cons.prems(3) kv m' k by (metis map_of_Cons_code(2) option.inject)
  have "smap_get m j = smap_get n j" for j
  proof (cases "j = k")
    case True
    have "smap_get m k = None" "smap_get n k = None"
      using Cons.prems(1,2) kv m' k by (force simp: map_of_eq_None_iff)+
    then show ?thesis using True by simp
  next
    case False
    then show ?thesis using Cons.prems(3) kv m' k by (metis map_of_Cons_code(2))
  qed
  then have "m = n" using Cons kv m' by (intro Cons.IH) auto
  then show ?case using kv m' k v by simp
qed

text \<open>Rebuilding a sorted map by inserting its entries in order gives the same list.\<close>

lemma smap_put_last:
  "\<forall>k' \<in> fst ` set m. k' < k \<Longrightarrow> smap_put k v m = m @ [(k, v)]"
  by (induction m) auto

fun smap_of :: "(string \<times> 'v) list \<Rightarrow> 'v smap \<Rightarrow> 'v smap" where
  "smap_of [] m = m"
| "smap_of ((k, v) # kvs) m = smap_of kvs (smap_put k v m)"

lemma smap_ok_of [simp]: "smap_ok m \<Longrightarrow> smap_ok (smap_of kvs m)"
  by (induction kvs m rule: smap_of.induct) auto

lemma set_smap_of: "set (smap_of kvs m) \<subseteq> set kvs \<union> set m"
proof (induction kvs m rule: smap_of.induct)
  case (2 k v kvs m)
  then show ?case using set_smap_put_subset [of k v m] by auto
qed simp

lemma smap_of_sorted:
  "smap_ok (m @ kvs) \<Longrightarrow> smap_of kvs m = m @ kvs"
proof (induction kvs arbitrary: m)
  case (Cons kv kvs)
  obtain k v where kv: "kv = (k, v)" by (cases kv)
  have "\<forall>k' \<in> fst ` set m. k' < k"
    using Cons.prems by (simp add: kv smap_ok_def sorted_wrt_append)
  then have "smap_put k v m = m @ [(k, v)]" by (rule smap_put_last)
  then show ?case using Cons kv by simp
qed simp

corollary smap_of_id: "smap_ok kvs \<Longrightarrow> smap_of kvs [] = kvs"
  using smap_of_sorted [of "[]" kvs] by simp

subsection \<open>64-bit integers\<close>

text \<open>
  Go's \<open>int\<close> and \<open>int64\<close> are 64-bit two's complement and wrap silently. A model value is the
  integer it denotes; \<open>wrap64\<close> is applied after each arithmetic operation that can leave the
  range.
\<close>

definition min_int64 :: int where "min_int64 = - 9223372036854775808"
definition max_int64 :: int where "max_int64 = 9223372036854775807"

definition wrap64 :: "int \<Rightarrow> int" where
  "wrap64 x = (x + 9223372036854775808) mod 18446744073709551616 - 9223372036854775808"

definition int64_ok :: "int \<Rightarrow> bool" where
  "int64_ok x \<longleftrightarrow> min_int64 \<le> x \<and> x \<le> max_int64"

lemma wrap64_ok [simp]: "int64_ok (wrap64 x)"
  by (simp add: wrap64_def int64_ok_def min_int64_def max_int64_def)

lemma wrap64_id: "int64_ok x \<Longrightarrow> wrap64 x = x"
  by (simp add: wrap64_def int64_ok_def min_int64_def max_int64_def)

lemma wrap64_max: "wrap64 (max_int64 + 1) = min_int64"
  by (simp add: wrap64_def max_int64_def min_int64_def)

subsection \<open>Cutset trimming\<close>

text \<open>\<open>strings.Trim(s, cutset)\<close> for an ASCII cutset: the bytes of the cutset are dropped from
  both ends.\<close>

definition trim_cutset :: "char list \<Rightarrow> string \<Rightarrow> string" where
  "trim_cutset cs s = rev (dropWhile (\<lambda>c. c \<in> set cs) (rev (dropWhile (\<lambda>c. c \<in> set cs) s)))"

lemma trim_cutset_Nil [simp]: "trim_cutset cs [] = []"
  by (simp add: trim_cutset_def)

lemma trim_cutset_eq_Nil_iff: "trim_cutset cs s = [] \<longleftrightarrow> set s \<subseteq> set cs"
proof -
  let ?P = "\<lambda>c. c \<in> set cs"
  let ?t = "dropWhile ?P s"
  have "trim_cutset cs s = [] \<longleftrightarrow> (\<forall>c \<in> set ?t. ?P c)"
    by (simp add: trim_cutset_def dropWhile_eq_Nil_conv)
  also have "\<dots> \<longleftrightarrow> ?t = []"
  proof
    assume "\<forall>c \<in> set ?t. ?P c"
    then have "dropWhile ?P ?t = []" by (simp only: dropWhile_eq_Nil_conv)
    then show "?t = []" by (simp only: dropWhile_idem)
  next
    assume "?t = []"
    then show "\<forall>c \<in> set ?t. ?P c" by (simp only: list.set empty_iff ball_simps)
  qed
  also have "\<dots> \<longleftrightarrow> set s \<subseteq> set cs"
    by (simp only: dropWhile_eq_Nil_conv subset_iff Ball_def)
  finally show ?thesis .
qed

lemma trim_cutset_untouched:
  assumes "s = [] \<or> hd s \<notin> set cs \<and> last s \<notin> set cs"
  shows "trim_cutset cs s = s"
proof (cases "s = []")
  case False
  then have "dropWhile (\<lambda>c. c \<in> set cs) s = s"
    using assms by (cases s) auto
  moreover have "dropWhile (\<lambda>c. c \<in> set cs) (rev s) = rev s"
    using assms False by (cases s rule: rev_cases) auto
  ultimately show ?thesis by (simp only: trim_cutset_def rev_rev_ident)
qed simp

lemma trim_cutset_ends:
  assumes "trim_cutset cs s \<noteq> []"
  shows "hd (trim_cutset cs s) \<notin> set cs" and "last (trim_cutset cs s) \<notin> set cs"
proof -
  let ?P = "\<lambda>c. c \<in> set cs"
  let ?t = "dropWhile ?P s"
  let ?u = "dropWhile ?P (rev ?t)"
  have u: "?u \<noteq> []" using assms by (simp add: trim_cutset_def)
  then have "\<not> ?P (hd ?u)" by (rule hd_dropWhile)
  then show "last (trim_cutset cs s) \<notin> set cs"
    using u by (simp add: trim_cutset_def last_rev)
  have t: "?t \<noteq> []" using u by (metis dropWhile.simps(1) rev.simps(1))
  have "last ?u = last (rev ?t)"
    using u by (metis dropWhile_eq_self_iff last_append takeWhile_dropWhile_id)
  then have "hd (rev ?u) = hd ?t" using u t by (simp add: hd_rev last_rev)
  moreover have "\<not> ?P (hd ?t)" using t by (rule hd_dropWhile)
  ultimately show "hd (trim_cutset cs s) \<notin> set cs"
    by (simp add: trim_cutset_def)
qed

lemma trim_cutset_idem [simp]: "trim_cutset cs (trim_cutset cs s) = trim_cutset cs s"
  by (rule trim_cutset_untouched) (metis trim_cutset_ends)

end
