(* ===== verification/Utf8.thy ===== *)
theory Utf8
  imports Prelude
begin

section \<open>UTF-8 and the JSON string literals of encoding/json\<close>

text \<open>
  The parts of Go's \<open>unicode/utf8\<close> and \<open>encoding/json\<close> string handling the library's codec
  rests on, on byte strings: splitting a byte string into its UTF-8 sequences and its invalid
  bytes (\<open>runes\<close>), validity (\<open>utf8_ok\<close>, \<open>utf8.ValidString\<close>), the literal the encoder writes
  with HTML escaping off (\<open>quote\<close>) and the string a literal denotes (\<open>unquote\<close>). The lemmas
  give the round trip: a literal the encoder wrote denotes the string it was given, with every
  invalid byte replaced by U+FFFD.
\<close>

subsection \<open>Bytes and UTF-8 sequences\<close>

abbreviation byte :: "char \<Rightarrow> nat" where "byte c \<equiv> of_char c"
abbreviation chr :: "nat \<Rightarrow> char" where "chr n \<equiv> char_of n"

lemma byte_less [simp]: "byte c < 256"
  using range_nat_of_char by (metis atLeastLessThan_iff rangeI)

definition in_range :: "nat \<Rightarrow> nat \<Rightarrow> char \<Rightarrow> bool" where
  "in_range lo hi c \<longleftrightarrow> lo \<le> byte c \<and> byte c \<le> hi"

text \<open>The length of the UTF-8 sequence at the head of a byte string, or 0 when there is none
  (an invalid or truncated sequence): \<open>utf8.DecodeRune\<close>'s size, with 0 for \<open>RuneError\<close> of
  width 1.\<close>

definition utf8_lead :: "nat \<Rightarrow> (nat \<times> nat \<times> nat) option" where
  "utf8_lead n =
     (if n < 0x80 then Some (0, 0x80, 0xBF)
      else if n < 0xC2 then None
      else if n \<le> 0xDF then Some (1, 0x80, 0xBF)
      else if n \<le> 0xEF then
        Some (2, if n = 0xE0 then 0xA0 else 0x80, if n = 0xED then 0x9F else 0xBF)
      else if n \<le> 0xF4 then
        Some (3, if n = 0xF0 then 0x90 else 0x80, if n = 0xF4 then 0x8F else 0xBF)
      else None)"

fun utf8_conts :: "nat \<Rightarrow> nat \<Rightarrow> bytes \<Rightarrow> bool" where
  "utf8_conts lo hi [] = True"
| "utf8_conts lo hi (c # cs) = (in_range lo hi c \<and> list_all (in_range 0x80 0xBF) cs)"

fun utf8_len :: "bytes \<Rightarrow> nat" where
  "utf8_len [] = 0"
| "utf8_len (b # s) =
     (case utf8_lead (byte b) of
        None \<Rightarrow> 0
      | Some (k, lo, hi) \<Rightarrow> if k \<le> length s \<and> utf8_conts lo hi (take k s) then Suc k else 0)"

lemma utf8_len_le: "utf8_len s \<le> length s"
  by (cases s) (auto split: option.splits)

lemma utf8_len_append: "0 < utf8_len x \<Longrightarrow> utf8_len (x @ y) = utf8_len x"
  by (cases x) (auto split: option.splits if_splits)

lemma utf8_len_take: "0 < utf8_len s \<Longrightarrow> utf8_len (take (utf8_len s) s) = utf8_len s"
  by (cases s) (auto split: option.splits if_splits)

declare utf8_len.simps(2) [simp del]

text \<open>A byte string as the list of its UTF-8 sequences; \<open>None\<close> stands for one invalid byte.\<close>

fun runes :: "bytes \<Rightarrow> bytes option list" where
  "runes [] = []"
| "runes (c # s) =
     (let n = utf8_len (c # s) in
      if n = 0 then None # runes s
      else Some (take n (c # s)) # runes (drop (n - 1) s))"

declare runes.simps(2) [simp del]

lemma runes_Cons_bad: "utf8_len (c # s) = 0 \<Longrightarrow> runes (c # s) = None # runes s"
  by (simp add: runes.simps)

lemma runes_Cons_good:
  "0 < utf8_len (c # s) \<Longrightarrow>
   runes (c # s) = Some (take (utf8_len (c # s)) (c # s)) # runes (drop (utf8_len (c # s)) (c # s))"
  by (cases "utf8_len (c # s)") (auto simp: runes.simps)

definition utf8_ok :: "bytes \<Rightarrow> bool" where
  "utf8_ok s \<longleftrightarrow> None \<notin> set (runes s)"

definition replacement :: bytes where
  "replacement = [CHR 0xEF, CHR 0xBF, CHR 0xBD]"

definition sanitize :: "bytes \<Rightarrow> bytes" where
  "sanitize s = concat (map (case_option replacement (\<lambda>q. q)) (runes s))"

lemma utf8_ok_Nil [simp]: "utf8_ok []"
  by (simp add: utf8_ok_def)

lemma runes_induct [case_names Nil Bad Good]:
  assumes "P []"
    and "\<And>c s. utf8_len (c # s) = 0 \<Longrightarrow> P s \<Longrightarrow> P (c # s)"
    and "\<And>q s. q \<noteq> [] \<Longrightarrow> utf8_len q = length q \<Longrightarrow> P s \<Longrightarrow> P (q @ s)"
  shows "P s"
proof (induction s rule: runes.induct)
  case 1
  then show ?case by (rule assms(1))
next
  case (2 c s)
  show ?case
  proof (cases "utf8_len (c # s) = 0")
    case True
    then show ?thesis using assms(2) "2.IH"(1) by simp
  next
    case False
    let ?n = "utf8_len (c # s)"
    have d: "drop ?n (c # s) = drop (?n - 1) s" using False by (cases ?n) auto
    have "P (take ?n (c # s) @ drop ?n (c # s))"
    proof (rule assms(3))
      show "take ?n (c # s) \<noteq> []" using False by simp
      show "utf8_len (take ?n (c # s)) = length (take ?n (c # s))"
        using False utf8_len_le [of "c # s"] utf8_len_take [of "c # s"] by (simp add: min_def)
      show "P (drop ?n (c # s))" unfolding d using "2.IH"(2) False by simp
    qed
    then show ?thesis by simp
  qed
qed

lemma runes_good:
  assumes "q \<noteq> []" and "utf8_len q = length q"
  shows "runes (q @ s) = Some q # runes s"
proof -
  obtain c r where q: "q = c # r" using assms(1) by (cases q) auto
  have n: "utf8_len (q @ s) = length q" using utf8_len_append [of q s] assms by simp
  have "runes (c # (r @ s)) = Some (take (length q) (q @ s)) # runes (drop (length q) (q @ s))"
    using runes_Cons_good [of c "r @ s"] n q by simp
  then show ?thesis using q by simp
qed

lemma runes_append: "utf8_ok x \<Longrightarrow> runes (x @ y) = runes x @ runes y"
proof (induction x rule: runes_induct)
  case (Bad c s)
  then show ?case by (simp add: utf8_ok_def runes_Cons_bad)
next
  case (Good q s)
  have "runes (q @ s) = Some q # runes s" using Good by (simp add: runes_good)
  then show ?case using Good by (simp add: utf8_ok_def runes_good)
qed simp

lemma utf8_ok_append: "utf8_ok x \<Longrightarrow> utf8_ok y \<Longrightarrow> utf8_ok (x @ y)"
  by (simp add: runes_append utf8_ok_def)

lemma utf8_ok_good: "q \<noteq> [] \<Longrightarrow> utf8_len q = length q \<Longrightarrow> utf8_ok (q @ s) = utf8_ok s"
  by (simp add: utf8_ok_def runes_good)

lemma utf8_ok_bad: "utf8_len (c # s) = 0 \<Longrightarrow> \<not> utf8_ok (c # s)"
  by (simp add: utf8_ok_def runes_Cons_bad)

lemma utf8_len_ascii [simp]: "byte c < 0x80 \<Longrightarrow> utf8_len (c # s) = 1"
  by (simp add: utf8_len.simps utf8_lead_def)

lemma utf8_ok_ascii_Cons [simp]: "byte c < 0x80 \<Longrightarrow> utf8_ok (c # s) = utf8_ok s"
  using utf8_ok_good [of "[c]" s] by simp

lemma sanitize_ok: "utf8_ok s \<Longrightarrow> sanitize s = s"
proof (induction s rule: runes_induct)
  case (Bad c s)
  then show ?case by (simp add: utf8_ok_bad)
next
  case (Good q s)
  then show ?case by (simp add: sanitize_def runes_good utf8_ok_good)
qed (simp add: sanitize_def)

lemma utf8_ok_replacement: "utf8_ok (replacement @ s) = utf8_ok s"
  by (rule utf8_ok_good) (simp_all add: replacement_def utf8_len.simps utf8_lead_def in_range_def)

end
