(* ===== verification/JsonString.thy ===== *)
theory JsonString
  imports Utf8
begin

section \<open>JSON string literals: scanning, quoting, unquoting\<close>

text \<open>
  \<open>scan_string\<close> is the scanner of \<open>encoding/json\<close> inside a string literal; it returns the
  body exactly as written. \<open>quote\<close> is what the encoder writes with HTML escaping off,
  \<open>unquote\<close> the Go string a body denotes. \<open>unquote_quote\<close> is the round trip and
  \<open>scan_quote\<close> says that the written literal is read back whole.
\<close>

abbreviation dquote :: char where "dquote \<equiv> CHR 0x22"
abbreviation bslash :: char where "bslash \<equiv> CHR 0x5C"

subsection \<open>Hexadecimal escapes\<close>

definition hex_val :: "char \<Rightarrow> nat option" where
  "hex_val c =
     (if in_range 0x30 0x39 c then Some (byte c - 0x30)
      else if in_range 0x61 0x66 c then Some (byte c - 0x57)
      else if in_range 0x41 0x46 c then Some (byte c - 0x37)
      else None)"

definition hex_digit :: "nat \<Rightarrow> char" where
  "hex_digit n = (if n < 10 then chr (0x30 + n) else chr (0x57 + n))"

fun get_hex4 :: "bytes \<Rightarrow> (nat \<times> bytes) option" where
  "get_hex4 (a # b # c # d # r) =
     (case (hex_val a, hex_val b, hex_val c, hex_val d) of
        (Some w, Some x, Some y, Some z) \<Rightarrow> Some (((w * 16 + x) * 16 + y) * 16 + z, r)
      | _ \<Rightarrow> None)"
| "get_hex4 _ = None"

lemma get_hex4_length: "get_hex4 s = Some (n, r) \<Longrightarrow> length s = length r + 4"
  by (induction s rule: get_hex4.induct) (auto split: option.splits)

lemma get_hex4_append: "get_hex4 s = Some (n, r) \<Longrightarrow> get_hex4 (s @ t) = Some (n, r @ t)"
  by (induction s rule: get_hex4.induct) (auto split: option.splits)

lemma hex_val_bound: "hex_val c = Some n \<Longrightarrow> n < 16"
  by (auto simp: hex_val_def in_range_def split: if_splits)

lemma get_hex4_bound: "get_hex4 s = Some (n, r) \<Longrightarrow> n < 0x10000"
  by (induction s rule: get_hex4.induct)
     (auto split: option.splits dest!: hex_val_bound)

lemma byte_chr [simp]: "n < 256 \<Longrightarrow> byte (chr n) = n"
  by (simp add: of_char_of)

lemma hex_val_digit [simp]: "n < 16 \<Longrightarrow> hex_val (hex_digit n) = Some n"
  by (auto simp: hex_val_def hex_digit_def in_range_def)

subsection \<open>Encoding a code point\<close>

definition is_surrogate :: "nat \<Rightarrow> bool" where
  "is_surrogate n \<longleftrightarrow> 0xD800 \<le> n \<and> n \<le> 0xDFFF"

definition utf8_encode :: "nat \<Rightarrow> bytes" where
  "utf8_encode n =
     (if n < 0x80 then [chr n]
      else if n < 0x800 then [chr (0xC0 + n div 64), chr (0x80 + n mod 64)]
      else if is_surrogate n \<or> 0x110000 \<le> n then replacement
      else if n < 0x10000 then
        [chr (0xE0 + n div 4096), chr (0x80 + n div 64 mod 64), chr (0x80 + n mod 64)]
      else [chr (0xF0 + n div 262144), chr (0x80 + n div 4096 mod 64),
            chr (0x80 + n div 64 mod 64), chr (0x80 + n mod 64)])"

lemma utf8_len_two:
  "2 \<le> a \<Longrightarrow> a < 32 \<Longrightarrow> b < 64 \<Longrightarrow> utf8_len [chr (0xC0 + a), chr (0x80 + b)] = 2"
  by (simp add: utf8_len.simps utf8_lead_def in_range_def)

lemma utf8_len_three:
  assumes "a < 16" and "b < 64" and "c < 64" and "a = 0 \<Longrightarrow> 32 \<le> b" and "a = 13 \<Longrightarrow> b \<le> 31"
  shows "utf8_len [chr (0xE0 + a), chr (0x80 + b), chr (0x80 + c)] = 3"
  using assms by (auto simp: utf8_len.simps utf8_lead_def in_range_def numeral_2_eq_2)

lemma utf8_len_four:
  assumes "a < 5" and "b < 64" and "c < 64" and "d < 64" and "a = 0 \<Longrightarrow> 16 \<le> b" and "a = 4 \<Longrightarrow> b \<le> 15"
  shows "utf8_len [chr (0xF0 + a), chr (0x80 + b), chr (0x80 + c), chr (0x80 + d)] = 4"
  using assms by (auto simp: utf8_len.simps utf8_lead_def in_range_def numeral_3_eq_3 numeral_2_eq_2)

lemma utf8_len_encode2:
  assumes "0x80 \<le> n" and "n < 0x800"
  shows "utf8_len [chr (0xC0 + n div 64), chr (0x80 + n mod 64)] = 2"
proof (rule utf8_len_two)
  show "2 \<le> n div 64" using div_le_mono [OF assms(1), of 64] by simp
  show "n div 64 < 32" using assms(2) by (simp add: less_mult_imp_div_less)
qed simp

lemma utf8_len_encode3:
  assumes "0x800 \<le> n" and "n < 0x10000" and "\<not> is_surrogate n"
  shows "utf8_len [chr (0xE0 + n div 4096), chr (0x80 + n div 64 mod 64), chr (0x80 + n mod 64)] = 3"
proof (rule utf8_len_three)
  have split: "n div 64 = 64 * (n div 4096) + n div 64 mod 64"
    using div_mult2_eq [of n 64 64] mult_div_mod_eq [of 64 "n div 64"] by simp
  show "n div 4096 < 16" using assms(2) by (simp add: less_mult_imp_div_less)
  show "32 \<le> n div 64 mod 64" if "n div 4096 = 0"
    using div_le_mono [OF assms(1), of 64] split that by simp
  show "n div 64 mod 64 \<le> 31" if "n div 4096 = 13"
  proof (rule ccontr)
    assume "\<not> n div 64 mod 64 \<le> 31"
    then have "864 \<le> n div 64" using split that by simp
    then have "0xD800 \<le> n" by (simp add: less_eq_div_iff_mult_less_eq)
    moreover have "n < 0xE000"
      using that by (simp add: div_eq_dividend_iff)
    ultimately show False using assms(3) by (simp add: is_surrogate_def)
  qed
qed simp_all

lemma utf8_len_encode4:
  assumes "0x10000 \<le> n" and "n < 0x110000"
  shows "utf8_len [chr (0xF0 + n div 262144), chr (0x80 + n div 4096 mod 64),
                   chr (0x80 + n div 64 mod 64), chr (0x80 + n mod 64)] = 4"
proof (rule utf8_len_four)
  have split: "n div 4096 = 64 * (n div 262144) + n div 4096 mod 64"
    using div_mult2_eq [of n 4096 64] mult_div_mod_eq [of 64 "n div 4096"] by simp
  show "n div 262144 < 5" using assms(2) by (simp add: less_mult_imp_div_less)
  show "16 \<le> n div 4096 mod 64" if "n div 262144 = 0"
    using div_le_mono [OF assms(1), of 4096] split that by simp
  have "n div 4096 < 272" using assms(2) by (simp add: less_mult_imp_div_less)
  then show "n div 4096 mod 64 \<le> 15" if "n div 262144 = 4"
    using split that by simp
qed simp_all

lemma utf8_len_replacement: "utf8_len replacement = 3"
  by (simp add: replacement_def utf8_len.simps utf8_lead_def in_range_def)

lemma utf8_encode_good: "utf8_encode n \<noteq> [] \<and> utf8_len (utf8_encode n) = length (utf8_encode n)"
  using utf8_len_encode2 [of n] utf8_len_encode3 [of n] utf8_len_encode4 [of n] utf8_len_replacement
  by (simp add: utf8_encode_def replacement_def)

lemma utf8_ok_encode [simp]: "utf8_ok (utf8_encode n @ s) = utf8_ok s"
  using utf8_encode_good [of n] by (simp add: utf8_ok_good)

subsection \<open>Scanning a literal\<close>

definition simple_escape :: "char \<Rightarrow> bool" where
  "simple_escape c \<longleftrightarrow> c \<in> {dquote, bslash, CHR ''/'', CHR ''b'', CHR ''f'', CHR ''n'', CHR ''r'', CHR ''t''}"

text \<open>Input: the bytes after the opening quote. Result: the body, and what follows the closing
  quote. Every control byte below 0x20 and every malformed escape is an error.\<close>

fun scan_string :: "bytes \<Rightarrow> (bytes \<times> bytes) option" where
  "scan_string [] = None"
| "scan_string (c # s) =
     (if c = dquote then Some ([], s)
      else if c = bslash then
        (case s of
           [] \<Rightarrow> None
         | e # r \<Rightarrow>
             if simple_escape e then map_option (apfst (\<lambda>b. c # e # b)) (scan_string r)
             else if e = CHR ''u'' \<and> get_hex4 r \<noteq> None then
               map_option (apfst (\<lambda>b. c # e # b)) (scan_string r)
             else None)
      else if byte c < 0x20 then None
      else map_option (apfst ((#) c)) (scan_string s))"

declare scan_string.simps(2) [simp del]

lemma scan_string_quote [simp]: "scan_string (dquote # r) = Some ([], r)"
  by (simp add: scan_string.simps)

lemma scan_string_split:
  "scan_string s = Some (b, r) \<Longrightarrow> s = b @ dquote # r"
proof (induction s arbitrary: b r rule: scan_string.induct)
  case (2 c s)
  then show ?case
    by (auto simp: scan_string.simps(2) split: if_splits list.splits)
qed simp

lemma scan_string_length: "scan_string s = Some (b, r) \<Longrightarrow> length s = length b + length r + 1"
  by (drule scan_string_split) simp

text \<open>The bodies the scanner accepts, as a recursive predicate of their own.\<close>

fun body_ok :: "bytes \<Rightarrow> bool" where
  "body_ok [] = True"
| "body_ok (c # s) =
     (if c = bslash then
        (case s of
           [] \<Rightarrow> False
         | e # r \<Rightarrow> (simple_escape e \<or> (e = CHR ''u'' \<and> get_hex4 r \<noteq> None)) \<and> body_ok r)
      else c \<noteq> dquote \<and> 0x20 \<le> byte c \<and> body_ok s)"

declare body_ok.simps(2) [simp del]

definition plain_byte :: "char \<Rightarrow> bool" where
  "plain_byte c \<longleftrightarrow> c \<noteq> bslash \<and> c \<noteq> dquote \<and> 0x20 \<le> byte c"

lemma body_ok_plain [simp]: "plain_byte c \<Longrightarrow> body_ok (c # s) = body_ok s"
  by (simp add: body_ok.simps plain_byte_def)

lemma body_ok_plains: "list_all plain_byte q \<Longrightarrow> body_ok (q @ s) = body_ok s"
  by (induction q) auto

lemma hex_val_plain: "hex_val c = Some n \<Longrightarrow> plain_byte c"
  by (auto simp: hex_val_def plain_byte_def in_range_def split: if_splits)

lemma get_hex4_plain: "get_hex4 s = Some (n, r) \<Longrightarrow> \<exists>h. s = h @ r \<and> list_all plain_byte h"
proof (induction s rule: get_hex4.induct)
  case (1 a b c d r')
  then show ?case
    by (intro exI [of _ "[a, b, c, d]"]) (auto split: option.splits dest: hex_val_plain)
qed auto

lemma get_hex4_body_ok: "get_hex4 s = Some (n, r) \<Longrightarrow> body_ok s = body_ok r"
  by (auto dest!: get_hex4_plain simp: body_ok_plains)

lemma body_ok_append: "body_ok a \<Longrightarrow> body_ok (a @ b) = body_ok b"
proof (induction a rule: body_ok.induct)
  case (2 c s)
  show ?case
  proof (cases "c = bslash")
    case True
    then obtain e r where s: "s = e # r" "simple_escape e \<or> (e = CHR ''u'' \<and> get_hex4 r \<noteq> None)" "body_ok r"
      using "2.prems" by (auto simp: body_ok.simps(2) split: list.splits)
    have "get_hex4 (r @ b) \<noteq> None" if "get_hex4 r \<noteq> None"
      using that get_hex4_append [of r] by fastforce
    then show ?thesis using True s "2.IH"(1) [OF True s(1)] by (auto simp: body_ok.simps(2))
  next
    case False
    then show ?thesis using 2 by (simp add: body_ok.simps(2))
  qed
qed simp

lemma get_hex4_before_dquote:
  assumes "get_hex4 (b @ dquote # r) \<noteq> None"
  shows "get_hex4 b \<noteq> None"
proof -
  have "hex_val dquote = None" by (simp add: hex_val_def in_range_def)
  moreover obtain w x y z t where "b @ dquote # r = w # x # y # z # t"
    using assms by (cases "b @ dquote # r" rule: get_hex4.cases) auto
  ultimately show ?thesis using assms
    by (auto simp: append_eq_Cons_conv Cons_eq_append_conv split: option.splits)
qed

lemma scan_string_body_ok: "scan_string s = Some (b, r) \<Longrightarrow> body_ok b"
proof (induction s arbitrary: b r rule: scan_string.induct)
  case (2 c s)
  note prem = "2.prems"
  consider "c = dquote" | "c = bslash" | "c \<noteq> dquote" "c \<noteq> bslash" by blast
  then show ?case
  proof cases
    case 1
    then show ?thesis using prem by simp
  next
    case 2
    obtain e t where s: "s = e # t" using prem 2 by (cases s) (auto simp: scan_string.simps(2))
    obtain b' where b: "b = c # e # b'" and sc: "scan_string t = Some (b', r)"
      and e: "simple_escape e \<or> (e = CHR ''u'' \<and> get_hex4 t \<noteq> None)"
      using prem 2 s by (auto simp: scan_string.simps(2) split: if_splits)
    have "t = b' @ dquote # r" using sc by (rule scan_string_split)
    then have h: "get_hex4 t \<noteq> None \<Longrightarrow> get_hex4 b' \<noteq> None" using get_hex4_before_dquote by metis
    have "body_ok b'"
      using "2.IH"(1) [OF _ 2 s _ sc] "2.IH"(2) [OF _ 2 s _ _ sc] e 2 by blast
    then show ?thesis using b 2 e h by (auto simp: body_ok.simps(2))
  next
    case 3
    then obtain b' where "b = c # b'" "scan_string s = Some (b', r)" "\<not> byte c < 0x20"
      using prem by (auto simp: scan_string.simps(2) split: if_splits)
    then show ?thesis using 3 "2.IH"(3) by (simp add: body_ok.simps(2))
  qed
qed simp

lemma scan_string_body: "body_ok b \<Longrightarrow> scan_string (b @ dquote # r) = Some (b, r)"
proof (induction b rule: body_ok.induct)
  case (2 c s)
  show ?case
  proof (cases "c = bslash")
    case True
    then obtain e t where s: "s = e # t" "simple_escape e \<or> (e = CHR ''u'' \<and> get_hex4 t \<noteq> None)" "body_ok t"
      using "2.prems" by (auto simp: body_ok.simps(2) split: list.splits)
    have "get_hex4 (t @ dquote # r) \<noteq> None" if "get_hex4 t \<noteq> None"
      using that get_hex4_append [of t] by fastforce
    then show ?thesis using True s "2.IH"(1) [OF True s(1)]
      by (auto simp: scan_string.simps(2))
  next
    case False
    then show ?thesis using 2 by (simp add: body_ok.simps(2) scan_string.simps(2))
  qed
qed simp

subsection \<open>Quoting\<close>

definition quote_ascii :: "char \<Rightarrow> bytes" where
  "quote_ascii c =
     (if c = dquote \<or> c = bslash then [bslash, c]
      else if byte c = 8 then [bslash, CHR ''b'']
      else if byte c = 12 then [bslash, CHR ''f'']
      else if byte c = 10 then [bslash, CHR ''n'']
      else if byte c = 13 then [bslash, CHR ''r'']
      else if byte c = 9 then [bslash, CHR ''t'']
      else if byte c < 0x20 then
        [bslash, CHR ''u'', CHR ''0'', CHR ''0'', hex_digit (byte c div 16), hex_digit (byte c mod 16)]
      else [c])"

definition line_sep :: bytes where "line_sep = [CHR 0xE2, CHR 0x80, CHR 0xA8]"
definition para_sep :: bytes where "para_sep = [CHR 0xE2, CHR 0x80, CHR 0xA9]"

fun quote_rune :: "bytes option \<Rightarrow> bytes" where
  "quote_rune None = bslash # ''ufffd''"
| "quote_rune (Some q) =
     (if length q = 1 then quote_ascii (hd q)
      else if q = line_sep then bslash # ''u2028''
      else if q = para_sep then bslash # ''u2029''
      else q)"

definition quote :: "bytes \<Rightarrow> bytes" where
  "quote s = concat (map quote_rune (runes s))"

subsection \<open>Unquoting\<close>

definition unescape :: "char \<Rightarrow> char" where
  "unescape e =
     (if e = CHR ''b'' then chr 8 else if e = CHR ''f'' then chr 12
      else if e = CHR ''n'' then chr 10 else if e = CHR ''r'' then chr 13
      else if e = CHR ''t'' then chr 9 else e)"

text \<open>A second \<open>\u\<close> escape directly behind the first, for surrogate pairs.\<close>

definition next_escape :: "bytes \<Rightarrow> (nat \<times> bytes) option" where
  "next_escape s = (case s of a # b # r \<Rightarrow> if a = bslash \<and> b = CHR ''u'' then get_hex4 r else None | _ \<Rightarrow> None)"

definition pair_rune :: "nat \<Rightarrow> nat \<Rightarrow> nat option" where
  "pair_rune hi lo =
     (if 0xD800 \<le> hi \<and> hi \<le> 0xDBFF \<and> 0xDC00 \<le> lo \<and> lo \<le> 0xDFFF
      then Some (0x10000 + (hi - 0xD800) * 1024 + (lo - 0xDC00)) else None)"

text \<open>What one \<open>\u\<close> escape contributes, and what is left after it: an unpaired surrogate
  becomes U+FFFD and consumes only its own escape.\<close>

definition unescape_u :: "nat \<Rightarrow> bytes \<Rightarrow> bytes \<times> bytes" where
  "unescape_u rr r =
     (if is_surrogate rr then
        (case next_escape r of
           None \<Rightarrow> (replacement, r)
         | Some (rr1, r1) \<Rightarrow>
             (case pair_rune rr rr1 of None \<Rightarrow> (replacement, r) | Some n \<Rightarrow> (utf8_encode n, r1)))
      else (utf8_encode rr, r))"

lemma unescape_u_length: "length (snd (unescape_u rr r)) \<le> length r"
  by (auto simp: unescape_u_def next_escape_def split: option.splits list.splits if_splits dest!: get_hex4_length)

function unquote :: "bytes \<Rightarrow> bytes" where
  "unquote [] = []"
| "unquote (c # s) =
     (if c = bslash then
        (case s of
           [] \<Rightarrow> []
         | e # r \<Rightarrow>
             if e = CHR ''u'' then
               (case get_hex4 r of
                  None \<Rightarrow> []
                | Some (rr, r1) \<Rightarrow> fst (unescape_u rr r1) @ unquote (snd (unescape_u rr r1)))
             else unescape e # unquote r)
      else if utf8_len (c # s) = 0 then replacement @ unquote s
      else take (utf8_len (c # s)) (c # s) @ unquote (drop (utf8_len (c # s)) (c # s)))"
  by pat_completeness auto
termination
proof (relation "measure length", goal_cases)
  case (2 c s e r a rr r1)
  then show ?case using unescape_u_length [of rr r1] by (auto dest!: get_hex4_length)
qed auto

declare unquote.simps(2) [simp del]

lemma unquote_good:
  assumes "q \<noteq> []" and "utf8_len q = length q" and "hd q \<noteq> bslash"
  shows "unquote (q @ s) = q @ unquote s"
proof -
  obtain c r where q: "q = c # r" using assms(1) by (cases q) auto
  have n: "utf8_len (c # (r @ s)) = length q" using utf8_len_append [of q s] assms q by simp
  have "unquote (c # (r @ s)) = take (length q) (c # (r @ s)) @ unquote (drop (length q) (c # (r @ s)))"
    using assms(3) q n by (subst unquote.simps(2)) simp
  then show ?thesis using q by simp
qed

lemma unquote_escape:
  "e \<noteq> CHR ''u'' \<Longrightarrow> unquote (bslash # e # r) = unescape e # unquote r"
  by (simp add: unquote.simps(2))

lemma unquote_u:
  "get_hex4 r = Some (n, r1) \<Longrightarrow> \<not> is_surrogate n \<Longrightarrow>
   unquote (bslash # CHR ''u'' # r) = utf8_encode n @ unquote r1"
  by (simp add: unquote.simps(2) unescape_u_def)

subsection \<open>A literal denotes valid UTF-8\<close>

lemma utf8_ok_unescape_u: "utf8_ok (fst (unescape_u rr r) @ s) = utf8_ok s"
  by (auto simp: unescape_u_def utf8_ok_replacement split: option.splits)

lemma body_ok_unescape_u:
  assumes "body_ok r"
  shows "body_ok (snd (unescape_u rr r))"
proof -
  have "body_ok r1" if esc: "next_escape r = Some (n, r1)" for n r1
  proof -
    obtain t where "r = bslash # CHR ''u'' # t" "get_hex4 t = Some (n, r1)"
      using esc by (auto simp: next_escape_def split: list.splits if_splits)
    then show ?thesis using assms by (simp add: body_ok.simps(2) get_hex4_body_ok)
  qed
  then show ?thesis using assms by (auto simp: unescape_u_def split: option.splits)
qed

lemma utf8_seq_high:
  assumes "utf8_len q = length q" and "1 < length q"
  shows "list_all (\<lambda>c. 0x80 \<le> byte c) q"
proof -
  obtain b s where q: "q = b # s" using assms(2) by (cases q) auto
  have "0x80 \<le> byte b"
    using assms q by (cases "byte b < 0x80") auto
  moreover obtain k lo hi where l: "utf8_lead (byte b) = Some (k, lo, hi)" "k \<le> length s" "utf8_conts lo hi (take k s)" "Suc k = length q"
    using assms q by (auto simp: utf8_len.simps split: option.splits if_splits)
  have "0x80 \<le> lo" using l(1) by (auto simp: utf8_lead_def split: if_splits)
  then have "list_all (\<lambda>c. 0x80 \<le> byte c) (take k s)"
    using l(3) by (cases "take k s") (auto simp: in_range_def list_all_iff)
  ultimately show ?thesis using q l by simp
qed

lemma high_plain: "0x80 \<le> byte c \<Longrightarrow> plain_byte c"
  by (auto simp: plain_byte_def)

lemma body_ok_drop_seq:
  assumes "body_ok (c # s)" and "c \<noteq> bslash" and "utf8_len (c # s) \<noteq> 0"
  shows "body_ok (drop (utf8_len (c # s)) (c # s))"
proof -
  let ?n = "utf8_len (c # s)" and ?q = "take (utf8_len (c # s)) (c # s)"
  have c: "plain_byte c" using assms(1,2) by (simp add: body_ok.simps(2) plain_byte_def)
  have len: "length ?q = ?n" using utf8_len_le [of "c # s"] by simp
  have "list_all plain_byte ?q"
  proof (cases "?n = 1")
    case True
    then show ?thesis using c by simp
  next
    case False
    then have "list_all (\<lambda>c. 0x80 \<le> byte c) ?q"
      using utf8_seq_high [of ?q] utf8_len_take [of "c # s"] assms(3) len by simp
    then show ?thesis by (rule list.pred_mono_strong) (simp add: high_plain)
  qed
  then have "body_ok (?q @ drop ?n (c # s)) = body_ok (drop ?n (c # s))" by (rule body_ok_plains)
  then show ?thesis using assms(1) by simp
qed

lemma simple_escape_ascii: "simple_escape e \<Longrightarrow> byte (unescape e) < 0x80"
  unfolding simple_escape_def unescape_def by (elim insertE emptyE) simp_all

lemma utf8_ok_unquote: "body_ok b \<Longrightarrow> utf8_ok (unquote b)"
proof (induction b rule: unquote.induct)
  case (2 c s)
  show ?case
  proof (cases "c = bslash")
    case True
    then obtain e r where s: "s = e # r" "simple_escape e \<or> (e = CHR ''u'' \<and> get_hex4 r \<noteq> None)" "body_ok r"
      using "2.prems" by (auto simp: body_ok.simps(2) split: list.splits)
    show ?thesis
    proof (cases "e = CHR ''u''")
      case False
      then show ?thesis
        using True s "2.IH"(2) [OF True s(1) False] by (simp add: unquote_escape simple_escape_ascii)
    next
      case u: True
      then have "\<not> simple_escape e" by (simp add: simple_escape_def)
      then obtain n r1 where n: "get_hex4 r = Some (n, r1)" using s(2) by auto
      then have "body_ok r1" using s(3) get_hex4_body_ok by simp
      then have "utf8_ok (unquote (snd (unescape_u n r1)))"
        using "2.IH"(1) [OF True s(1) u n refl] body_ok_unescape_u by simp
      then show ?thesis
        using True s(1) u n by (simp add: unquote.simps(2) utf8_ok_unescape_u)
    qed
  next
    case False
    show ?thesis
    proof (cases "utf8_len (c # s) = 0")
      case True
      have "body_ok s" using False "2.prems" by (simp add: body_ok.simps(2))
      then show ?thesis
        using False True "2.IH"(3) by (simp add: unquote.simps(2) utf8_ok_replacement)
    next
      case pos: False
      let ?q = "take (utf8_len (c # s)) (c # s)"
      have "utf8_ok (unquote (drop (utf8_len (c # s)) (c # s)))"
        using "2.IH"(4) [OF False pos] body_ok_drop_seq [OF "2.prems" False pos] by simp
      moreover have "?q \<noteq> []" "utf8_len ?q = length ?q"
        using pos utf8_len_le [of "c # s"] utf8_len_take [of "c # s"] by (simp_all add: min_def)
      ultimately have "utf8_ok (?q @ unquote (drop (utf8_len (c # s)) (c # s)))"
        by (simp add: utf8_ok_good)
      then show ?thesis using False pos by (simp add: unquote.simps(2))
    qed
  qed
qed simp

subsection \<open>The round trip\<close>

lemma get_hex4_Cons4:
  "hex_val a = Some w \<Longrightarrow> hex_val b = Some x \<Longrightarrow> hex_val c = Some y \<Longrightarrow> hex_val d = Some z \<Longrightarrow>
   get_hex4 (a # b # c # d # r) = Some (((w * 16 + x) * 16 + y) * 16 + z, r)"
  by simp

lemma get_hex4_u00:
  assumes "n < 256"
  shows "get_hex4 (CHR ''0'' # CHR ''0'' # hex_digit (n div 16) # hex_digit (n mod 16) # r) = Some (n, r)"
proof -
  have "hex_val CHR ''0'' = Some 0" by (simp add: hex_val_def in_range_def)
  moreover have "n div 16 < 16" using assms by (simp add: less_mult_imp_div_less)
  ultimately show ?thesis
    using get_hex4_Cons4 [of "CHR ''0''" 0 "CHR ''0''" 0 "hex_digit (n div 16)" "n div 16" "hex_digit (n mod 16)" "n mod 16" r]
    by simp
qed

lemma get_hex4_fffd: "get_hex4 (''fffd'' @ r) = Some (0xFFFD, r)"
  and get_hex4_2028: "get_hex4 (''2028'' @ r) = Some (0x2028, r)"
  and get_hex4_2029: "get_hex4 (''2029'' @ r) = Some (0x2029, r)"
  by (simp_all add: hex_val_def in_range_def)

lemma utf8_encode_fffd: "utf8_encode 0xFFFD = replacement"
  and utf8_encode_2028: "utf8_encode 0x2028 = line_sep"
  and utf8_encode_2029: "utf8_encode 0x2029 = para_sep"
  by (simp_all add: utf8_encode_def is_surrogate_def replacement_def line_sep_def para_sep_def char_of_eq_iff)

lemma quote_ascii_body: "byte c < 0x80 \<Longrightarrow> body_ok (quote_ascii c @ s) = body_ok s"
proof -
  assume c: "byte c < 0x80"
  let ?h = "CHR ''0'' # CHR ''0'' # hex_digit (byte c div 16) # hex_digit (byte c mod 16) # s"
  have h: "get_hex4 ?h = Some (byte c, s)" using c by (intro get_hex4_u00) simp
  have "body_ok (bslash # CHR ''u'' # ?h) = body_ok ?h"
    using h by (simp add: body_ok.simps(2) [of bslash] del: get_hex4.simps)
  then have u: "body_ok (bslash # CHR ''u'' # ?h) = body_ok s" using get_hex4_body_ok [OF h] by simp
  have e: "body_ok (bslash # e # s) = body_ok s" if "simple_escape e" for e
    using that by (simp add: body_ok.simps(2) [of bslash])
  show ?thesis using u
    by (auto simp: quote_ascii_def e simple_escape_def plain_byte_def intro!: body_ok_plain)
qed

lemma unquote_ascii: "byte c < 0x80 \<Longrightarrow> unquote (quote_ascii c @ s) = c # unquote s"
proof -
  assume c: "byte c < 0x80"
  have u: "unquote (bslash # CHR ''u'' # CHR ''0'' # CHR ''0'' # hex_digit (byte c div 16) # hex_digit (byte c mod 16) # s) = c # unquote s"
    using unquote_u [OF get_hex4_u00 [of "byte c" s]] c
    by (simp add: is_surrogate_def utf8_encode_def)
  have p: "unquote (c # s) = c # unquote s" if "c \<noteq> bslash"
    using unquote_good [of "[c]" s] that c by simp
  have e: "c = chr n" if "byte c = n" for n using that by auto
  show ?thesis
    using u p by (auto simp: quote_ascii_def unquote_escape unescape_def dest: e)
qed

lemma runes_mem:
  "Some q \<in> set (runes s) \<Longrightarrow> q \<noteq> [] \<and> utf8_len q = length q"
proof (induction s rule: runes_induct)
  case (Bad c s)
  then show ?case by (simp add: runes_Cons_bad)
next
  case (Good q' s)
  then show ?case by (auto simp: runes_good)
qed simp

lemma rune_one:
  assumes "utf8_len q = length q" and "length q = 1"
  shows "\<exists>c. q = [c] \<and> byte c < 0x80"
proof -
  obtain c where q: "q = [c]" using assms(2) by (cases q) auto
  show ?thesis using assms(1) q
    by (auto simp: utf8_len.simps utf8_lead_def split: if_splits)
qed

lemma body_ok_quote_rune:
  assumes "x = None \<or> (\<exists>q. x = Some q \<and> q \<noteq> [] \<and> utf8_len q = length q)"
  shows "body_ok (quote_rune x @ s) = body_ok s"
proof (cases x)
  case None
  have "body_ok (''fffd'' @ s) = body_ok s" using get_hex4_body_ok [OF get_hex4_fffd] .
  then show ?thesis using None get_hex4_fffd [of s] by (simp add: body_ok.simps(2) del: get_hex4.simps)
next
  case (Some q)
  then have q: "q \<noteq> []" "utf8_len q = length q" using assms by auto
  consider "length q = 1" | "q = line_sep" | "q = para_sep" | "1 < length q" "q \<noteq> line_sep" "q \<noteq> para_sep"
    using q(1) by (cases q) (auto simp: Suc_lessI)
  then show ?thesis
  proof cases
    case 1
    then show ?thesis using rune_one [OF q(2)] Some quote_ascii_body by fastforce
  next
    case 2
    have "body_ok (''2028'' @ s) = body_ok s" using get_hex4_body_ok [OF get_hex4_2028] .
    then show ?thesis using Some 2 get_hex4_2028 [of s]
      by (simp add: body_ok.simps(2) line_sep_def del: get_hex4.simps)
  next
    case 3
    have "body_ok (''2029'' @ s) = body_ok s" using get_hex4_body_ok [OF get_hex4_2029] .
    then show ?thesis using Some 3 get_hex4_2029 [of s]
      by (simp add: body_ok.simps(2) line_sep_def para_sep_def del: get_hex4.simps)
  next
    case 4
    have "list_all plain_byte q" using utf8_seq_high [OF q(2) 4(1)] high_plain by (auto simp: list_all_iff)
    then show ?thesis using Some 4 by (simp add: body_ok_plains)
  qed
qed

lemma unquote_quote_rune:
  assumes "x = None \<or> (\<exists>q. x = Some q \<and> q \<noteq> [] \<and> utf8_len q = length q)"
  shows "unquote (quote_rune x @ s) = case_option replacement (\<lambda>q. q) x @ unquote s"
proof (cases x)
  case None
  then show ?thesis using unquote_u [OF get_hex4_fffd [of s]]
    by (simp add: is_surrogate_def utf8_encode_fffd)
next
  case (Some q)
  then have q: "q \<noteq> []" "utf8_len q = length q" using assms by auto
  consider "length q = 1" | "q = line_sep" | "q = para_sep" | "1 < length q" "q \<noteq> line_sep" "q \<noteq> para_sep"
    using q(1) by (cases q) (auto simp: Suc_lessI)
  then show ?thesis
  proof cases
    case 1
    then show ?thesis using rune_one [OF q(2)] Some unquote_ascii by fastforce
  next
    case 2
    then show ?thesis using Some unquote_u [OF get_hex4_2028 [of s]]
      by (simp add: is_surrogate_def utf8_encode_2028 line_sep_def)
  next
    case 3
    then show ?thesis using Some unquote_u [OF get_hex4_2029 [of s]]
      by (simp add: is_surrogate_def utf8_encode_2029 line_sep_def para_sep_def)
  next
    case 4
    have "hd q \<noteq> bslash"
      using utf8_seq_high [OF q(2) 4(1)] q(1) by (cases q) auto
    then show ?thesis using Some 4 q unquote_good by simp
  qed
qed

lemma quote_rune_cases:
  "x \<in> set (runes s) \<Longrightarrow> x = None \<or> (\<exists>q. x = Some q \<and> q \<noteq> [] \<and> utf8_len q = length q)"
  using runes_mem by (cases x) auto

lemma body_ok_concat_quote:
  "\<forall>x \<in> set xs. x = None \<or> (\<exists>q. x = Some q \<and> q \<noteq> [] \<and> utf8_len q = length q) \<Longrightarrow>
   body_ok (concat (map quote_rune xs))"
  by (induction xs) (simp_all add: body_ok_quote_rune del: quote_rune.simps)

lemma unquote_concat_quote:
  "\<forall>x \<in> set xs. x = None \<or> (\<exists>q. x = Some q \<and> q \<noteq> [] \<and> utf8_len q = length q) \<Longrightarrow>
   unquote (concat (map quote_rune xs)) = concat (map (case_option replacement (\<lambda>q. q)) xs)"
  by (induction xs) (simp_all add: unquote_quote_rune del: quote_rune.simps)

lemma body_ok_quote [simp]: "body_ok (quote s)"
  unfolding quote_def by (rule body_ok_concat_quote) (use quote_rune_cases in blast)

lemma scan_quote: "scan_string (quote s @ dquote # r) = Some (quote s, r)"
  by (simp add: scan_string_body)

lemma unquote_quote: "unquote (quote s) = sanitize s"
  unfolding quote_def sanitize_def by (rule unquote_concat_quote) (use quote_rune_cases in blast)

corollary unquote_quote_id: "utf8_ok s \<Longrightarrow> unquote (quote s) = s"
  by (simp add: unquote_quote sanitize_ok)

end
