(* ===== verification/Json.thy ===== *)
theory Json
  imports JsonString
begin

section \<open>JSON documents: syntax tree, parser, compact printer\<close>

text \<open>
  What the codec uses of \<open>encoding/json\<close> on whole documents. A document is a tree whose
  string and number literals are kept exactly as written (the body between the quotes, the
  number's characters), so that a \<open>json.RawMessage\<close> is a subtree and writing it back compactly
  (\<open>json_print\<close>, what the encoder's \<open>compact\<close> produces) loses nothing but white space.
  \<open>json_parse\<close> accepts what \<open>json.Valid\<close> accepts: RFC 8259, nesting at most 10000 deep.

  The parser spends one unit of fuel per call; \<open>json_parse\<close> supplies twice the input's length
  plus two, and \<open>pvalue_fuel\<close> shows that more fuel never changes the result.
  \<open>json_parse_print\<close> is the round trip.
\<close>

datatype json =
    JNull
  | JBool bool
  | JNum bytes
  | JStr bytes
  | JArr "json list"
  | JObj "(bytes \<times> json) list"

subsection \<open>White space and numbers\<close>

definition is_ws :: "char \<Rightarrow> bool" where
  "is_ws c \<longleftrightarrow> byte c = 0x20 \<or> byte c = 9 \<or> byte c = 10 \<or> byte c = 13"

definition skip_ws :: "bytes \<Rightarrow> bytes" where
  "skip_ws s = dropWhile is_ws s"

definition is_digit :: "char \<Rightarrow> bool" where
  "is_digit c \<longleftrightarrow> in_range 0x30 0x39 c"

text \<open>The four parts of a number literal; each returns the text it consumed.\<close>

definition scan_sign :: "bytes \<Rightarrow> bytes \<times> bytes" where
  "scan_sign s = (case s of c # r \<Rightarrow> if c = CHR ''-'' then ([c], r) else ([], s) | [] \<Rightarrow> ([], s))"

definition scan_digits :: "bytes \<Rightarrow> (bytes \<times> bytes) option" where
  "scan_digits s =
     (if takeWhile is_digit s = [] then None else Some (takeWhile is_digit s, dropWhile is_digit s))"

definition scan_int :: "bytes \<Rightarrow> (bytes \<times> bytes) option" where
  "scan_int s = (case s of c # r \<Rightarrow> if c = CHR ''0'' then Some ([c], r) else scan_digits s | [] \<Rightarrow> None)"

definition scan_frac :: "bytes \<Rightarrow> (bytes \<times> bytes) option" where
  "scan_frac s =
     (case s of
        c # r \<Rightarrow> if c = CHR ''.'' then map_option (apfst ((#) c)) (scan_digits r) else Some ([], s)
      | [] \<Rightarrow> Some ([], s))"

definition scan_exp_digits :: "bytes \<Rightarrow> (bytes \<times> bytes) option" where
  "scan_exp_digits s =
     (case s of
        c # r \<Rightarrow> if c = CHR ''+'' \<or> c = CHR ''-'' then map_option (apfst ((#) c)) (scan_digits r)
                 else scan_digits s
      | [] \<Rightarrow> None)"

definition scan_exp :: "bytes \<Rightarrow> (bytes \<times> bytes) option" where
  "scan_exp s =
     (case s of
        c # r \<Rightarrow> if c = CHR ''e'' \<or> c = CHR ''E'' then map_option (apfst ((#) c)) (scan_exp_digits r)
                 else Some ([], s)
      | [] \<Rightarrow> Some ([], s))"

definition scan_number :: "bytes \<Rightarrow> (bytes \<times> bytes) option" where
  "scan_number s =
     (case scan_sign s of (sg, s1) \<Rightarrow>
      case scan_int s1 of None \<Rightarrow> None | Some (i, s2) \<Rightarrow>
      case scan_frac s2 of None \<Rightarrow> None | Some (f, s3) \<Rightarrow>
      case scan_exp s3 of None \<Rightarrow> None | Some (e, s4) \<Rightarrow> Some (sg @ i @ f @ e, s4))"

definition num_ok :: "bytes \<Rightarrow> bool" where
  "num_ok l \<longleftrightarrow> scan_number l = Some (l, [])"

text \<open>What may follow a number without being read as part of it.\<close>

definition num_stop :: "bytes \<Rightarrow> bool" where
  "num_stop r \<longleftrightarrow> (case r of [] \<Rightarrow> True | c # _ \<Rightarrow> \<not> is_digit c \<and> c \<notin> {CHR ''.'', CHR ''e'', CHR ''E''})"

lemma num_stop_Nil [simp]: "num_stop []"
  by (simp add: num_stop_def)

definition no_digit :: "bytes \<Rightarrow> bool" where
  "no_digit r \<longleftrightarrow> (case r of [] \<Rightarrow> True | c # _ \<Rightarrow> \<not> is_digit c)"

lemma no_digit_simps [simp]: "no_digit []" "no_digit (c # r) = (\<not> is_digit c)"
  by (simp_all add: no_digit_def)

lemma num_stop_no_digit: "num_stop r \<Longrightarrow> no_digit r"
  by (auto simp: num_stop_def no_digit_def split: list.splits)

lemma scan_digits_iff:
  "scan_digits s = Some (x, r) \<longleftrightarrow> s = x @ r \<and> x \<noteq> [] \<and> list_all is_digit x \<and> no_digit r"
proof
  assume a: "scan_digits s = Some (x, r)"
  then have "x = takeWhile is_digit s" "r = dropWhile is_digit s" "x \<noteq> []"
    by (auto simp: scan_digits_def split: if_splits)
  moreover have "no_digit (dropWhile is_digit s)"
    by (induction s) auto
  ultimately show "s = x @ r \<and> x \<noteq> [] \<and> list_all is_digit x \<and> no_digit r"
    by (auto simp: list_all_iff dest: set_takeWhileD)
next
  assume a: "s = x @ r \<and> x \<noteq> [] \<and> list_all is_digit x \<and> no_digit r"
  have "takeWhile is_digit r = []" "dropWhile is_digit r = r"
    using a by (cases r; simp)+
  then have "takeWhile is_digit s = x" "dropWhile is_digit s = r"
    using a by (simp_all add: list_all_iff)
  then show "scan_digits s = Some (x, r)" using a by (simp add: scan_digits_def)
qed

definition int_part :: "bytes \<Rightarrow> bytes \<Rightarrow> bool" where
  "int_part x r \<longleftrightarrow> x = ''0'' \<or> (x \<noteq> [] \<and> list_all is_digit x \<and> hd x \<noteq> CHR ''0'' \<and> no_digit r)"

definition frac_part :: "bytes \<Rightarrow> bytes \<Rightarrow> bool" where
  "frac_part x r \<longleftrightarrow>
     (x = [] \<and> (r = [] \<or> hd r \<noteq> CHR ''.'')) \<or>
     (\<exists>ds. x = CHR ''.'' # ds \<and> ds \<noteq> [] \<and> list_all is_digit ds \<and> no_digit r)"

definition exp_digits :: "bytes \<Rightarrow> bool" where
  "exp_digits x \<longleftrightarrow>
     (x \<noteq> [] \<and> list_all is_digit x) \<or>
     (\<exists>c ds. x = c # ds \<and> c \<in> {CHR ''+'', CHR ''-''} \<and> ds \<noteq> [] \<and> list_all is_digit ds)"

definition exp_part :: "bytes \<Rightarrow> bytes \<Rightarrow> bool" where
  "exp_part x r \<longleftrightarrow>
     (x = [] \<and> (r = [] \<or> hd r \<notin> {CHR ''e'', CHR ''E''})) \<or>
     (\<exists>e ds. x = e # ds \<and> e \<in> {CHR ''e'', CHR ''E''} \<and> exp_digits ds \<and> no_digit r)"

lemma scan_int_iff: "scan_int s = Some (x, r) \<longleftrightarrow> s = x @ r \<and> int_part x r"
proof (cases s)
  case (Cons c t)
  have z: "is_digit CHR ''0''" by (simp add: is_digit_def in_range_def)
  show ?thesis
  proof (cases "c = CHR ''0''")
    case True
    then show ?thesis using Cons
      by (auto simp: scan_int_def int_part_def Cons_eq_append_conv)
  next
    case False
    then show ?thesis using Cons z
      by (auto simp: scan_int_def int_part_def scan_digits_iff Cons_eq_append_conv)
  qed
qed (auto simp: scan_int_def int_part_def)

lemma scan_frac_iff: "scan_frac s = Some (x, r) \<longleftrightarrow> s = x @ r \<and> frac_part x r"
proof (cases s)
  case (Cons c t)
  then show ?thesis
    by (cases "c = CHR ''.''")
       (auto simp: scan_frac_def frac_part_def scan_digits_iff Cons_eq_append_conv)
qed (auto simp: scan_frac_def frac_part_def)

lemma digit_not_sign: "is_digit c \<Longrightarrow> c \<noteq> CHR ''+'' \<and> c \<noteq> CHR ''-''"
  by (auto simp: is_digit_def in_range_def)

lemma scan_exp_digits_iff:
  "scan_exp_digits s = Some (x, r) \<longleftrightarrow> s = x @ r \<and> exp_digits x \<and> no_digit r"
proof (cases s)
  case (Cons c t)
  show ?thesis
  proof (cases "c = CHR ''+'' \<or> c = CHR ''-''")
    case True
    then have "\<not> is_digit c" using digit_not_sign by blast
    then show ?thesis using Cons True
      by (auto simp: scan_exp_digits_def exp_digits_def scan_digits_iff Cons_eq_append_conv)
  next
    case False
    then show ?thesis using Cons
      by (auto simp: scan_exp_digits_def exp_digits_def scan_digits_iff Cons_eq_append_conv)
  qed
qed (auto simp: scan_exp_digits_def exp_digits_def)

lemma scan_exp_iff: "scan_exp s = Some (x, r) \<longleftrightarrow> s = x @ r \<and> exp_part x r"
proof (cases s)
  case (Cons c t)
  show ?thesis
  proof (cases "c = CHR ''e'' \<or> c = CHR ''E''")
    case True
    have "(\<exists>y. scan_exp_digits t = Some (y, r) \<and> x = c # y) \<longleftrightarrow> s = x @ r \<and> exp_part x r"
      unfolding scan_exp_digits_iff exp_part_def using Cons True
      by (auto simp: Cons_eq_append_conv)
    then show ?thesis using Cons True by (auto simp: scan_exp_def)
  next
    case False
    then show ?thesis using Cons
      by (auto simp: scan_exp_def exp_part_def Cons_eq_append_conv)
  qed
qed (auto simp: scan_exp_def exp_part_def)

lemma scan_sign_split: "scan_sign s = (sg, t) \<Longrightarrow> s = sg @ t"
  by (auto simp: scan_sign_def split: list.splits if_splits)

lemma scan_sign_int: "int_part i r \<Longrightarrow> hd i \<noteq> CHR ''-'' \<and> i \<noteq> []"
  by (cases i) (auto simp: int_part_def dest: digit_not_sign)

lemma scan_sign_shape:
  "scan_sign s = (sg, i @ t) \<Longrightarrow> int_part i r \<Longrightarrow> scan_sign (sg @ i @ u) = (sg, i @ u)"
  using scan_sign_int [of i r] by (cases i) (auto simp: scan_sign_def split: list.splits if_splits)

lemma scan_numberI:
  assumes "scan_sign s = (sg, i @ f @ e @ r)"
    and "int_part i (f @ e @ r)" and "frac_part f (e @ r)" and "exp_part e r"
  shows "scan_number s = Some (sg @ i @ f @ e, r)"
proof -
  have "scan_int (i @ f @ e @ r) = Some (i, f @ e @ r)" using assms by (simp only: scan_int_iff simp_thms)
  moreover have "scan_frac (f @ e @ r) = Some (f, e @ r)" using assms by (simp only: scan_frac_iff simp_thms)
  moreover have "scan_exp (e @ r) = Some (e, r)" using assms by (simp only: scan_exp_iff simp_thms)
  ultimately show ?thesis using assms(1) by (simp add: scan_number_def)
qed

lemma scan_numberD:
  assumes "scan_number s = Some (l, r)"
  obtains sg i f e where "l = sg @ i @ f @ e" and "scan_sign s = (sg, i @ f @ e @ r)"
    and "int_part i (f @ e @ r)" and "frac_part f (e @ r)" and "exp_part e r"
proof -
  obtain sg s1 where 1: "scan_sign s = (sg, s1)" by fastforce
  obtain i s2 where 2: "scan_int s1 = Some (i, s2)"
    using assms 1 by (auto simp: scan_number_def split: option.splits)
  obtain f s3 where 3: "scan_frac s2 = Some (f, s3)"
    using assms 1 2 by (auto simp: scan_number_def split: option.splits)
  obtain e s4 where 4: "scan_exp s3 = Some (e, s4)"
    using assms 1 2 3 by (auto simp: scan_number_def split: option.splits)
  have "l = sg @ i @ f @ e" "s4 = r" using assms 1 2 3 4 by (simp_all add: scan_number_def)
  then show ?thesis using that 1 2 3 4 by (simp add: scan_int_iff scan_frac_iff scan_exp_iff)
qed

text \<open>A number literal is read the same way whatever stands behind it, as long as that cannot
  continue the number.\<close>

lemma scan_number_swap:
  assumes "scan_number s = Some (l, r)" and "num_stop t"
  shows "scan_number (l @ t) = Some (l, t)"
  using assms(1)
proof (rule scan_numberD)
  fix sg i f e
  assume l: "l = sg @ i @ f @ e" and sg: "scan_sign s = (sg, i @ f @ e @ r)"
    and i: "int_part i (f @ e @ r)" and f: "frac_part f (e @ r)" and e: "exp_part e r"
  have nd: "no_digit t" using assms(2) by (rule num_stop_no_digit)
  have "exp_part e t" using e assms(2) nd by (cases t) (auto simp: exp_part_def num_stop_def)
  moreover have "no_digit (e @ r) \<Longrightarrow> no_digit (e @ t)" using nd by (cases e) auto
  moreover have "e @ r = [] \<or> hd (e @ r) \<noteq> CHR ''.'' \<Longrightarrow> e @ t = [] \<or> hd (e @ t) \<noteq> CHR ''.''"
    using assms(2) by (cases e; cases t) (auto simp: num_stop_def)
  ultimately have f': "frac_part f (e @ t)" and e': "exp_part e t"
    using f by (auto simp: frac_part_def)
  have "no_digit (f @ e @ r) \<Longrightarrow> no_digit (f @ e @ t)" using nd by (cases f; cases e) auto
  then have i': "int_part i (f @ e @ t)" using i by (auto simp: int_part_def)
  have "scan_sign (sg @ i @ f @ e @ t) = (sg, i @ f @ e @ t)"
    using scan_sign_shape [OF sg i, of "f @ e @ t"] .
  then show ?thesis using scan_numberI [OF _ i' f' e'] l by simp
qed

lemma scan_number_split: "scan_number s = Some (l, r) \<Longrightarrow> s = l @ r"
  by (erule scan_numberD) (drule scan_sign_split, simp)

lemma scan_number_nonempty: "scan_number s = Some (l, r) \<Longrightarrow> l \<noteq> []"
  by (erule scan_numberD) (auto simp: int_part_def)

lemma scan_number_ok: "scan_number s = Some (l, r) \<Longrightarrow> num_ok l"
  using scan_number_swap [of s l r "[]"] by (simp add: num_ok_def)

lemma num_ok_scan: "num_ok l \<Longrightarrow> num_stop t \<Longrightarrow> scan_number (l @ t) = Some (l, t)"
  unfolding num_ok_def by (rule scan_number_swap)

lemma num_ok_hd:
  assumes "num_ok l"
  shows "l \<noteq> [] \<and> (hd l = CHR ''-'' \<or> is_digit (hd l))"
  using assms unfolding num_ok_def
proof (rule scan_numberD)
  fix sg i f e
  assume l: "l = sg @ i @ f @ e" and sg: "scan_sign l = (sg, i @ f @ e @ [])" and i: "int_part i (f @ e @ [])"
  have "is_digit (hd i)" "i \<noteq> []"
    using i by (cases i; auto simp: int_part_def is_digit_def in_range_def)+
  moreover have "sg = [] \<or> sg = ''-''" using sg by (auto simp: scan_sign_def split: list.splits if_splits)
  ultimately show ?thesis using l by auto
qed

subsection \<open>The parser\<close>

definition max_depth :: nat where "max_depth = 10000"

definition scan_word :: "bytes \<Rightarrow> json \<Rightarrow> bytes \<Rightarrow> (json \<times> bytes) option" where
  "scan_word w v s = (if take (length w) s = w then Some (v, drop (length w) s) else None)"

fun pvalue :: "nat \<Rightarrow> nat \<Rightarrow> bytes \<Rightarrow> (json \<times> bytes) option"
  and pelems :: "nat \<Rightarrow> nat \<Rightarrow> bytes \<Rightarrow> (json list \<times> bytes) option"
  and pmembers :: "nat \<Rightarrow> nat \<Rightarrow> bytes \<Rightarrow> ((bytes \<times> json) list \<times> bytes) option"
where
  "pvalue 0 d s = None"
| "pvalue (Suc n) d s =
     (case skip_ws s of
        [] \<Rightarrow> None
      | c # r \<Rightarrow>
          if c = CHR ''{'' then
            (if max_depth \<le> d then None
             else case skip_ws r of
                    [] \<Rightarrow> None
                  | x # r' \<Rightarrow> if x = CHR ''}'' then Some (JObj [], r')
                              else map_option (apfst JObj) (pmembers n (Suc d) r))
          else if c = CHR ''['' then
            (if max_depth \<le> d then None
             else case skip_ws r of
                    [] \<Rightarrow> None
                  | x # r' \<Rightarrow> if x = CHR '']'' then Some (JArr [], r')
                              else map_option (apfst JArr) (pelems n (Suc d) r))
          else if c = dquote then map_option (apfst JStr) (scan_string r)
          else if c = CHR ''t'' then scan_word ''rue'' (JBool True) r
          else if c = CHR ''f'' then scan_word ''alse'' (JBool False) r
          else if c = CHR ''n'' then scan_word ''ull'' JNull r
          else map_option (apfst JNum) (scan_number (c # r)))"
| "pelems 0 d s = None"
| "pelems (Suc n) d s =
     (case pvalue n d s of
        None \<Rightarrow> None
      | Some (v, r) \<Rightarrow>
          (case skip_ws r of
             [] \<Rightarrow> None
           | x # r' \<Rightarrow> if x = CHR '','' then map_option (apfst ((#) v)) (pelems n d r')
                       else if x = CHR '']'' then Some ([v], r') else None))"
| "pmembers 0 d s = None"
| "pmembers (Suc n) d s =
     (case skip_ws s of
        [] \<Rightarrow> None
      | q # r0 \<Rightarrow>
          if q \<noteq> dquote then None
          else (case scan_string r0 of
             None \<Rightarrow> None
           | Some (k, r1) \<Rightarrow>
               (case skip_ws r1 of
                  [] \<Rightarrow> None
                | y # r2 \<Rightarrow>
                    if y \<noteq> CHR '':'' then None
                    else (case pvalue n d r2 of
                       None \<Rightarrow> None
                     | Some (v, r) \<Rightarrow>
                         (case skip_ws r of
                            [] \<Rightarrow> None
                          | x # r' \<Rightarrow>
                              if x = CHR '','' then map_option (apfst ((#) (k, v))) (pmembers n d r')
                              else if x = CHR ''}'' then Some ([(k, v)], r') else None)))))"

definition json_parse :: "bytes \<Rightarrow> json option" where
  "json_parse s =
     (case pvalue (2 * length s + 2) 0 s of
        None \<Rightarrow> None
      | Some (v, r) \<Rightarrow> if skip_ws r = [] then Some v else None)"

subsection \<open>The compact printer\<close>

fun intersperse :: "bytes \<Rightarrow> bytes list \<Rightarrow> bytes" where
  "intersperse sep [] = []"
| "intersperse sep [x] = x"
| "intersperse sep (x # xs) = x @ sep @ intersperse sep xs"

definition print_str :: "bytes \<Rightarrow> bytes" where
  "print_str b = dquote # b @ [dquote]"

fun json_print :: "json \<Rightarrow> bytes" where
  "json_print JNull = ''null''"
| "json_print (JBool b) = (if b then ''true'' else ''false'')"
| "json_print (JNum l) = l"
| "json_print (JStr b) = print_str b"
| "json_print (JArr vs) = ''['' @ intersperse '','' (map json_print vs) @ '']''"
| "json_print (JObj ms) =
     ''{'' @ intersperse '','' (map (\<lambda>(k, v). print_str k @ '':'' @ json_print v) ms) @ ''}''"

text \<open>Trees that stand at nesting depth \<open>d\<close> of a valid document: their literals are ones the
  scanner accepts and they stay within the depth limit.\<close>

fun json_ok :: "nat \<Rightarrow> json \<Rightarrow> bool" where
  "json_ok d (JNum l) = num_ok l"
| "json_ok d (JStr b) = body_ok b"
| "json_ok d (JArr vs) = (d < max_depth \<and> (\<forall>v \<in> set vs. json_ok (Suc d) v))"
| "json_ok d (JObj ms) = (d < max_depth \<and> (\<forall>(k, v) \<in> set ms. body_ok k \<and> json_ok (Suc d) v))"
| "json_ok d JNull = True"
| "json_ok d (JBool b) = True"

lemma json_ok_mono: "json_ok d v \<Longrightarrow> d' \<le> d \<Longrightarrow> json_ok d' v"
proof (induction d v arbitrary: d' rule: json_ok.induct)
  case (3 d vs)
  then show ?case by (auto dest!: spec [where x = "Suc d'"])
next
  case (4 d ms)
  then show ?case by (fastforce)
qed auto

subsection \<open>What a successful parse says about its input and its result\<close>

declare pvalue.simps(2) [simp del] pelems.simps(2) [simp del] pmembers.simps(2) [simp del]

lemma skip_ws_length: "length (skip_ws s) \<le> length s"
  by (simp add: skip_ws_def length_dropWhile_le)

lemma skip_ws_Cons_length: "skip_ws s = c # r \<Longrightarrow> length r < length s"
  using skip_ws_length [of s] by simp

lemma scan_word_length: "scan_word w v s = Some (u, r) \<Longrightarrow> u = v \<and> s = w @ r"
  by (auto simp: scan_word_def split: if_splits) (metis append_take_drop_id)

text \<open>Inversion of one call of each function, used by every induction below.\<close>

lemma pvalue_SomeE:
  assumes "pvalue (Suc n) d s = Some (v, r)"
  obtains
    (obj_nil) t where "skip_ws s = CHR ''{'' # t" "d < max_depth" "skip_ws t = CHR ''}'' # r" "v = JObj []"
  | (obj) t x u ms where "skip_ws s = CHR ''{'' # t" "d < max_depth" "skip_ws t = x # u" "x \<noteq> CHR ''}''"
      "pmembers n (Suc d) t = Some (ms, r)" "v = JObj ms"
  | (arr_nil) t where "skip_ws s = CHR ''['' # t" "d < max_depth" "skip_ws t = CHR '']'' # r" "v = JArr []"
  | (arr) t x u vs where "skip_ws s = CHR ''['' # t" "d < max_depth" "skip_ws t = x # u" "x \<noteq> CHR '']''"
      "pelems n (Suc d) t = Some (vs, r)" "v = JArr vs"
  | (str) t b where "skip_ws s = dquote # t" "scan_string t = Some (b, r)" "v = JStr b"
  | (word) c w where "skip_ws s = c # w @ r" "c \<in> {CHR ''t'', CHR ''f'', CHR ''n''}" "v \<in> {JNull, JBool True, JBool False}"
  | (num) c u l where "skip_ws s = c # u"
      "c \<notin> {CHR ''{'', CHR ''['', dquote, CHR ''t'', CHR ''f'', CHR ''n''}"
      "scan_number (c # u) = Some (l, r)" "v = JNum l"
proof -
  obtain c t where s: "skip_ws s = c # t"
    using assms by (auto simp: pvalue.simps(2) split: list.splits)
  consider "c = CHR ''{''" | "c = CHR ''[''" | "c = dquote" | "c = CHR ''t''" | "c = CHR ''f''" | "c = CHR ''n''"
    | "c \<notin> {CHR ''{'', CHR ''['', dquote, CHR ''t'', CHR ''f'', CHR ''n''}" by blast
  then show ?thesis
  proof cases
    case 1
    obtain x u where t: "skip_ws t = x # u"
      using assms s 1 by (auto simp: pvalue.simps(2) split: list.splits if_splits)
    have d: "d < max_depth" using assms s 1 by (simp add: pvalue.simps(2) split: if_splits)
    show ?thesis
    proof (cases "x = CHR ''}''")
      case True
      then show ?thesis using assms s 1 t d that(1) by (simp add: pvalue.simps(2))
    next
      case False
      then obtain ms where "pmembers n (Suc d) t = Some (ms, r)" "v = JObj ms"
        using assms s 1 t d by (auto simp: pvalue.simps(2))
      then show ?thesis using s 1 t d False that(2) by blast
    qed
  next
    case 2
    obtain x u where t: "skip_ws t = x # u"
      using assms s 2 by (auto simp: pvalue.simps(2) split: list.splits if_splits)
    have d: "d < max_depth" using assms s 2 by (simp add: pvalue.simps(2) split: if_splits)
    show ?thesis
    proof (cases "x = CHR '']''")
      case True
      then show ?thesis using assms s 2 t d that(3) by (simp add: pvalue.simps(2))
    next
      case False
      then obtain vs where "pelems n (Suc d) t = Some (vs, r)" "v = JArr vs"
        using assms s 2 t d by (auto simp: pvalue.simps(2))
      then show ?thesis using s 2 t d False that(4) by blast
    qed
  next
    case 3
    then show ?thesis using assms s that(5) by (auto simp: pvalue.simps(2))
  next
    case 7
    then obtain l where "scan_number (c # t) = Some (l, r)" "v = JNum l"
      using assms s by (auto simp: pvalue.simps(2))
    then show ?thesis using that(7) [OF s] 7 by simp
  qed (use assms s that(6) scan_word_length in \<open>fastforce simp: pvalue.simps(2)\<close>)+
qed

lemma pelems_SomeE:
  assumes "pelems (Suc n) d s = Some (vs, r)"
  obtains
    (last) v t where "pvalue n d s = Some (v, t)" "skip_ws t = CHR '']'' # r" "vs = [v]"
  | (more) v t u vs' where "pvalue n d s = Some (v, t)" "skip_ws t = CHR '','' # u"
      "pelems n d u = Some (vs', r)" "vs = v # vs'"
  using assms by (auto simp: pelems.simps(2) split: option.splits list.splits if_splits)

lemma pmembers_SomeE:
  assumes "pmembers (Suc n) d s = Some (ms, r)"
  obtains
    (last) t k u w v x where "skip_ws s = dquote # t" "scan_string t = Some (k, u)" "skip_ws u = CHR '':'' # w"
      "pvalue n d w = Some (v, x)" "skip_ws x = CHR ''}'' # r" "ms = [(k, v)]"
  | (more) t k u w v x y ms' where "skip_ws s = dquote # t" "scan_string t = Some (k, u)" "skip_ws u = CHR '':'' # w"
      "pvalue n d w = Some (v, x)" "skip_ws x = CHR '','' # y" "pmembers n d y = Some (ms', r)" "ms = (k, v) # ms'"
  using assms by (auto simp: pmembers.simps(2) split: option.splits list.splits if_splits)

lemma parser_shrink:
  "(\<forall>d s v r. pvalue n d s = Some (v, r) \<longrightarrow> length r < length s) \<and>
   (\<forall>d s vs r. pelems n d s = Some (vs, r) \<longrightarrow> length r < length s) \<and>
   (\<forall>d s ms r. pmembers n d s = Some (ms, r) \<longrightarrow> length r < length s)"
proof (induction n)
  case (Suc n)
  note V = Suc.IH [THEN conjunct1, rule_format]
  note E = Suc.IH [THEN conjunct2, THEN conjunct1, rule_format]
  note M = Suc.IH [THEN conjunct2, THEN conjunct2, rule_format]
  have "length r < length s" if p: "pvalue (Suc n) d s = Some (v, r)" for d s v r
    using p
  proof (cases rule: pvalue_SomeE)
    case (word c w)
    then show ?thesis using skip_ws_length [of s] by simp
  next
    case (num c u l)
    then show ?thesis
      using skip_ws_length [of s] scan_number_split [OF num(3)] scan_number_nonempty [OF num(3)]
      by (cases l) auto
  qed (auto dest!: skip_ws_Cons_length scan_string_length E M)
  moreover have "length r < length s" if p: "pelems (Suc n) d s = Some (vs, r)" for d s vs r
    using p by (cases rule: pelems_SomeE) (auto dest!: skip_ws_Cons_length V E)
  moreover have "length r < length s" if p: "pmembers (Suc n) d s = Some (ms, r)" for d s ms r
    using p by (cases rule: pmembers_SomeE) (auto dest!: skip_ws_Cons_length scan_string_length V M)
  ultimately show ?case by blast
qed simp

lemmas pvalue_shrink = parser_shrink [THEN conjunct1, rule_format]

text \<open>The parser only builds trees the scanner accepts, within the depth limit.\<close>

lemma parser_ok:
  "(\<forall>d s v r. pvalue n d s = Some (v, r) \<longrightarrow> json_ok d v) \<and>
   (\<forall>d s vs r. pelems n d s = Some (vs, r) \<longrightarrow> (\<forall>v \<in> set vs. json_ok d v)) \<and>
   (\<forall>d s ms r. pmembers n d s = Some (ms, r) \<longrightarrow> (\<forall>(k, v) \<in> set ms. body_ok k \<and> json_ok d v))"
proof (induction n)
  case (Suc n)
  note V = Suc.IH [THEN conjunct1, rule_format]
  note E = Suc.IH [THEN conjunct2, THEN conjunct1, rule_format]
  note M = Suc.IH [THEN conjunct2, THEN conjunct2, rule_format]
  have "json_ok d v" if p: "pvalue (Suc n) d s = Some (v, r)" for d s v r
    using p
  proof (cases rule: pvalue_SomeE)
    case (obj t x u ms)
    then show ?thesis using M [OF obj(5)] by auto
  qed (auto dest!: scan_string_body_ok scan_number_ok E)
  moreover have "\<forall>v \<in> set vs. json_ok d v" if p: "pelems (Suc n) d s = Some (vs, r)" for d s vs r
    using p
  proof (cases rule: pelems_SomeE)
    case (last v t)
    then show ?thesis using V by simp
  next
    case (more v t u vs')
    then show ?thesis using V [OF more(1)] E [OF more(3)] by simp
  qed
  moreover have "\<forall>(k, v) \<in> set ms. body_ok k \<and> json_ok d v" if p: "pmembers (Suc n) d s = Some (ms, r)" for d s ms r
    using p
  proof (cases rule: pmembers_SomeE)
    case (last t k u w v x)
    then show ?thesis using V [OF last(4)] scan_string_body_ok [OF last(2)] by simp
  next
    case (more t k u w v x y ms')
    then show ?thesis using V [OF more(4)] scan_string_body_ok [OF more(2)] M [OF more(6)] by simp
  qed
  ultimately show ?case by blast
qed simp

lemmas pvalue_ok = parser_ok [THEN conjunct1, rule_format]

lemma json_parse_ok: "json_parse s = Some v \<Longrightarrow> json_ok 0 v"
  by (auto simp: json_parse_def split: option.splits if_splits intro: pvalue_ok)

subsection \<open>Fuel\<close>

text \<open>A result does not change with more fuel.\<close>

lemma parser_fuel_mono:
  "(\<forall>d s x. pvalue n d s = Some x \<longrightarrow> pvalue (Suc n) d s = Some x) \<and>
   (\<forall>d s x. pelems n d s = Some x \<longrightarrow> pelems (Suc n) d s = Some x) \<and>
   (\<forall>d s x. pmembers n d s = Some x \<longrightarrow> pmembers (Suc n) d s = Some x)"
proof (induction n)
  case (Suc n)
  note V = Suc.IH [THEN conjunct1, rule_format]
  note E = Suc.IH [THEN conjunct2, THEN conjunct1, rule_format]
  note M = Suc.IH [THEN conjunct2, THEN conjunct2, rule_format]
  have "pvalue (Suc (Suc n)) d s = Some (v, r)" if p: "pvalue (Suc n) d s = Some (v, r)" for d s v r
    using p
  proof (cases rule: pvalue_SomeE)
    case (obj t x u ms)
    then show ?thesis using M [OF obj(5)] by (simp add: pvalue.simps(2) [of "Suc n"])
  next
    case (arr t x u vs)
    then show ?thesis using E [OF arr(5)] by (simp add: pvalue.simps(2) [of "Suc n"])
  next
    case (num c u l)
    then show ?thesis using p by (simp add: pvalue.simps(2))
  next
    case (word c w)
    then show ?thesis using p by (elim insertE emptyE) (simp_all add: pvalue.simps(2))
  qed (use p in \<open>simp_all add: pvalue.simps(2)\<close>)
  moreover have "pelems (Suc (Suc n)) d s = Some (vs, r)" if p: "pelems (Suc n) d s = Some (vs, r)" for d s vs r
    using p by (cases rule: pelems_SomeE) (auto simp: pelems.simps(2) [of "Suc n"] dest!: V E)
  moreover have "pmembers (Suc (Suc n)) d s = Some (ms, r)" if p: "pmembers (Suc n) d s = Some (ms, r)" for d s ms r
    using p by (cases rule: pmembers_SomeE) (auto simp: pmembers.simps(2) [of "Suc n"] dest!: V M)
  ultimately show ?case by (metis surj_pair)
qed simp

lemmas pvalue_Suc = parser_fuel_mono [THEN conjunct1, rule_format]
lemmas pelems_Suc = parser_fuel_mono [THEN conjunct2, THEN conjunct1, rule_format]
lemmas pmembers_Suc = parser_fuel_mono [THEN conjunct2, THEN conjunct2, rule_format]

lemma pvalue_more_fuel: "pvalue n d s = Some x \<Longrightarrow> n \<le> m \<Longrightarrow> pvalue m d s = Some x"
  and pelems_more_fuel: "pelems n d s = Some y \<Longrightarrow> n \<le> m \<Longrightarrow> pelems m d s = Some y"
  and pmembers_more_fuel: "pmembers n d s = Some z \<Longrightarrow> n \<le> m \<Longrightarrow> pmembers m d s = Some z"
  by (induction m) (auto simp: le_Suc_eq intro: pvalue_Suc pelems_Suc pmembers_Suc)

text \<open>Twice the length of the input plus one is enough for every call the parser makes.\<close>

lemma parser_fuel_enough:
  "(\<forall>d s. 2 * length s + 1 \<le> n \<longrightarrow> pvalue n d s = pvalue (Suc n) d s) \<and>
   (\<forall>d s. 2 * length s + 2 \<le> n \<longrightarrow> pelems n d s = pelems (Suc n) d s) \<and>
   (\<forall>d s. 2 * length s + 1 \<le> n \<longrightarrow> pmembers n d s = pmembers (Suc n) d s)"
proof (induction n)
  case (Suc n)
  note V = Suc.IH [THEN conjunct1, rule_format]
  note E = Suc.IH [THEN conjunct2, THEN conjunct1, rule_format]
  note M = Suc.IH [THEN conjunct2, THEN conjunct2, rule_format]
  have "pvalue (Suc n) d s = pvalue (Suc (Suc n)) d s" if l: "2 * length s + 1 \<le> Suc n" for d s
  proof (cases "skip_ws s")
    case (Cons c t)
    then have "length t < length s" by (rule skip_ws_Cons_length)
    then have "pelems n (Suc d) t = pelems (Suc n) (Suc d) t" "pmembers n (Suc d) t = pmembers (Suc n) (Suc d) t"
      using l by (intro E M; simp)+
    then show ?thesis unfolding pvalue.simps(2) [of n] pvalue.simps(2) [of "Suc n"] Cons list.case by (simp only:)
  qed (simp add: pvalue.simps(2))
  moreover have "pelems (Suc n) d s = pelems (Suc (Suc n)) d s" if l: "2 * length s + 2 \<le> Suc n" for d s
  proof -
    have v: "pvalue n d s = pvalue (Suc n) d s" using l by (intro V) simp
    have e: "pelems n d u = pelems (Suc n) d u" if "pvalue (Suc n) d s = Some (w, r)" "skip_ws r = x # u" for w r x u
      using pvalue_shrink [OF that(1)] skip_ws_Cons_length [OF that(2)] l by (intro E) simp
    show ?thesis unfolding pelems.simps(2) [of n] unfolding pelems.simps(2) [of "Suc n"] using v e
      by (auto split: option.split list.split)
  qed
  moreover have "pmembers (Suc n) d s = pmembers (Suc (Suc n)) d s" if l: "2 * length s + 1 \<le> Suc n" for d s
  proof -
    have v: "pvalue n d w = pvalue (Suc n) d w"
      if "skip_ws s = c # t" "scan_string t = Some (k, u)" "skip_ws u = y # w" for c t k u y w
      using skip_ws_Cons_length [OF that(1)] scan_string_length [OF that(2)] skip_ws_Cons_length [OF that(3)] l
      by (intro V) simp
    have m: "pmembers n d q = pmembers (Suc n) d q"
      if "skip_ws s = c # t" "scan_string t = Some (k, u)" "skip_ws u = y # w"
        "pvalue (Suc n) d w = Some (a, r)" "skip_ws r = x # q" for c t k u y w a r x q
      using skip_ws_Cons_length [OF that(1)] scan_string_length [OF that(2)] skip_ws_Cons_length [OF that(3)]
        pvalue_shrink [OF that(4)] skip_ws_Cons_length [OF that(5)] l
      by (intro M) simp
    show ?thesis unfolding pmembers.simps(2) [of n] unfolding pmembers.simps(2) [of "Suc n"] using v m
      by (auto split: option.split list.split)
  qed
  ultimately show ?case by blast
qed simp

lemma pvalue_fuel: "2 * length s + 1 \<le> n \<Longrightarrow> n \<le> m \<Longrightarrow> pvalue m d s = pvalue n d s"
proof (induction m)
  case (Suc m)
  show ?case
  proof (cases "n = Suc m")
    case False
    then have "n \<le> m" using Suc.prems by simp
    moreover from this have "pvalue m d s = pvalue (Suc m) d s"
      using parser_fuel_enough [of m] Suc.prems(1) by simp
    ultimately show ?thesis using Suc by simp
  qed simp
qed simp

lemma json_parse_fuel:
  assumes "pvalue n 0 s = Some (v, r)" and "skip_ws r = []"
  shows "json_parse s = Some v"
proof -
  let ?m = "max n (2 * length s + 2)"
  have "pvalue ?m 0 s = Some (v, r)" using assms(1) by (rule pvalue_more_fuel) simp
  moreover have "pvalue ?m 0 s = pvalue (2 * length s + 2) 0 s" by (rule pvalue_fuel) simp_all
  ultimately have "pvalue (2 * length s + 2) 0 s = Some (v, r)" by (simp only:)
  then show ?thesis using assms(2) unfolding json_parse_def by simp
qed

subsection \<open>Printing and parsing\<close>

definition parses :: "nat \<Rightarrow> bytes \<Rightarrow> json \<Rightarrow> bytes \<Rightarrow> bool" where
  "parses d s v r \<longleftrightarrow> (\<exists>n. pvalue n d s = Some (v, r))"

lemma skip_ws_id: "s \<noteq> [] \<Longrightarrow> \<not> is_ws (hd s) \<Longrightarrow> skip_ws s = s"
  by (cases s) (auto simp: skip_ws_def)

lemma skip_ws_simps [simp]: "skip_ws [] = []" "\<not> is_ws c \<Longrightarrow> skip_ws (c # s) = c # s"
  by (simp_all add: skip_ws_def)

lemma not_ws [simp]:
  "\<not> is_ws CHR ''{''" "\<not> is_ws CHR ''}''" "\<not> is_ws CHR ''[''" "\<not> is_ws CHR '']''" "\<not> is_ws CHR '',''"
  "\<not> is_ws CHR '':''" "\<not> is_ws dquote" "\<not> is_ws CHR ''t''" "\<not> is_ws CHR ''f''" "\<not> is_ws CHR ''n''" "\<not> is_ws CHR ''-''"
  by (simp_all add: is_ws_def)

lemma num_stop_closers [simp]: "num_stop (CHR '','' # r)" "num_stop (CHR '']'' # r)" "num_stop (CHR ''}'' # r)"
  by (simp_all add: num_stop_def is_digit_def in_range_def)

lemma parses_num: "num_ok l \<Longrightarrow> num_stop r \<Longrightarrow> parses d (l @ r) (JNum l) r"
proof -
  assume l: "num_ok l" and r: "num_stop r"
  obtain c t where c: "l = c # t" "c = CHR ''-'' \<or> is_digit c" using num_ok_hd [OF l] by (cases l) auto
  have "\<not> is_ws c" using c(2) by (auto simp: is_ws_def is_digit_def in_range_def)
  moreover have "c \<notin> {CHR ''{'', CHR ''['', dquote, CHR ''t'', CHR ''f'', CHR ''n''}"
    using c(2) by (auto simp: is_digit_def in_range_def)
  ultimately have "pvalue (Suc 0) d (l @ r) = Some (JNum l, r)"
    using num_ok_scan [OF l r] c(1) by (simp add: pvalue.simps(2))
  then show ?thesis by (auto simp: parses_def)
qed

lemma parses_atoms:
  "parses d (''null'' @ r) JNull r" "parses d (''true'' @ r) (JBool True) r" "parses d (''false'' @ r) (JBool False) r"
  by (auto simp: parses_def pvalue.simps(2) scan_word_def intro!: exI [of _ "Suc 0"])

lemma parses_str: "body_ok b \<Longrightarrow> parses d (print_str b @ r) (JStr b) r"
  using scan_string_body [of b r]
  by (auto simp: parses_def pvalue.simps(2) print_str_def intro!: exI [of _ "Suc 0"])

lemma json_print_hd: "json_ok d v \<Longrightarrow> json_print v \<noteq> [] \<and> hd (json_print v) \<notin> {CHR '']'', CHR ''}''} \<and> \<not> is_ws (hd (json_print v))"
proof (cases v)
  case (JNum l)
  moreover assume "json_ok d v"
  ultimately show ?thesis using num_ok_hd [of l] by (auto simp: is_ws_def is_digit_def in_range_def)
qed (auto simp: print_str_def is_ws_def)

lemma pelems_print:
  assumes "\<And>v r. v \<in> set (u # vs) \<Longrightarrow> num_stop r \<Longrightarrow> parses d (json_print v @ r) v r"
  shows "\<exists>n. pelems n d (intersperse '','' (map json_print (u # vs)) @ '']'' @ r) = Some (u # vs, r)"
  using assms
proof (induction vs arbitrary: u)
  case Nil
  obtain n where "pvalue n d (json_print u @ '']'' @ r) = Some (u, '']'' @ r)"
    using Nil.prems [of u "'']'' @ r"] by (auto simp: parses_def)
  then have "pelems (Suc n) d (json_print u @ '']'' @ r) = Some ([u], r)" by (simp add: pelems.simps(2))
  then show ?case by auto
next
  case (Cons w vs)
  let ?t = "intersperse '','' (map json_print (w # vs)) @ '']'' @ r"
  obtain n where n: "pelems n d ?t = Some (w # vs, r)" using Cons.IH [of w] Cons.prems by auto
  obtain m where m: "pvalue m d (json_print u @ '','' @ ?t) = Some (u, '','' @ ?t)"
    using Cons.prems [of u "'','' @ ?t"] by (auto simp: parses_def)
  let ?k = "max n m"
  have "pelems ?k d ?t = Some (w # vs, r)" "pvalue ?k d (json_print u @ '','' @ ?t) = Some (u, '','' @ ?t)"
    using n m by (auto intro: pelems_more_fuel pvalue_more_fuel)
  then have "pelems (Suc ?k) d (json_print u @ '','' @ ?t) = Some (u # w # vs, r)"
    by (simp add: pelems.simps(2))
  then show ?case by auto
qed

lemma pmembers_print:
  assumes "\<And>k v r. (k, v) \<in> set (u # ms) \<Longrightarrow> num_stop r \<Longrightarrow> body_ok k \<and> parses d (json_print v @ r) v r"
  shows "\<exists>n. pmembers n d (intersperse '','' (map (\<lambda>(k, v). print_str k @ '':'' @ json_print v) (u # ms)) @ ''}'' @ r)
           = Some (u # ms, r)"
  using assms
proof (induction ms arbitrary: u)
  case Nil
  obtain k v where u: "u = (k, v)" by fastforce
  have b: "body_ok k" using Nil.prems [of k v "''}'' @ r"] u by simp
  obtain n where "pvalue n d (json_print v @ ''}'' @ r) = Some (v, ''}'' @ r)"
    using Nil.prems [of k v "''}'' @ r"] u by (auto simp: parses_def)
  then have "pmembers (Suc n) d (print_str k @ '':'' @ json_print v @ ''}'' @ r) = Some ([(k, v)], r)"
    using scan_string_body [OF b] by (simp add: pmembers.simps(2) print_str_def)
  then show ?case using u by auto
next
  case (Cons w ms)
  obtain k v where u: "u = (k, v)" by fastforce
  let ?t = "intersperse '','' (map (\<lambda>(k, v). print_str k @ '':'' @ json_print v) (w # ms)) @ ''}'' @ r"
  have b: "body_ok k" using Cons.prems [of k v "'','' @ ?t"] u by simp
  obtain n where n: "pmembers n d ?t = Some (w # ms, r)" using Cons.IH [of w] Cons.prems by auto
  obtain m where m: "pvalue m d (json_print v @ '','' @ ?t) = Some (v, '','' @ ?t)"
    using Cons.prems [of k v "'','' @ ?t"] u by (auto simp: parses_def)
  let ?k = "max n m"
  have "pmembers ?k d ?t = Some (w # ms, r)" "pvalue ?k d (json_print v @ '','' @ ?t) = Some (v, '','' @ ?t)"
    using n m by (auto intro: pmembers_more_fuel pvalue_more_fuel)
  then have "pmembers (Suc ?k) d (print_str k @ '':'' @ json_print v @ '','' @ ?t) = Some (u # w # ms, r)"
    using scan_string_body [OF b] u by (simp add: pmembers.simps(2) print_str_def)
  then show ?case using u by auto
qed

lemma intersperse_hd: "x \<noteq> [] \<Longrightarrow> \<exists>t. intersperse sep (x # xs) = hd x # t"
  by (cases xs; cases x) auto

lemma parses_arr:
  assumes "d < max_depth" and "\<And>v. v \<in> set vs \<Longrightarrow> json_ok (Suc d) v"
    and "\<And>v r. v \<in> set vs \<Longrightarrow> num_stop r \<Longrightarrow> parses (Suc d) (json_print v @ r) v r"
  shows "parses d (json_print (JArr vs) @ r) (JArr vs) r"
proof (cases vs)
  case Nil
  then show ?thesis using assms(1)
    by (auto simp: parses_def pvalue.simps(2) intro!: exI [of _ "Suc 0"])
next
  case (Cons u us)
  let ?t = "intersperse '','' (map json_print (u # us)) @ '']'' @ r"
  obtain n where n: "pelems n (Suc d) ?t = Some (u # us, r)" using pelems_print [of u us "Suc d" r] assms(3) Cons by auto
  have u: "json_print u \<noteq> []" "hd (json_print u) \<noteq> CHR '']''" "\<not> is_ws (hd (json_print u))"
    using json_print_hd [of "Suc d" u] assms(2) Cons by auto
  obtain t where t: "?t = hd (json_print u) # t" using intersperse_hd [OF u(1), of "'',''" "map json_print us"] by auto
  have "pvalue (Suc n) d (CHR ''['' # ?t) = Some (JArr vs, r)"
    using assms(1) u n Cons unfolding t by (simp add: pvalue.simps(2))
  then show ?thesis using Cons by (auto simp: parses_def)
qed

lemma parses_obj:
  assumes "d < max_depth"
    and "\<And>k v r. (k, v) \<in> set ms \<Longrightarrow> num_stop r \<Longrightarrow> body_ok k \<and> parses (Suc d) (json_print v @ r) v r"
  shows "parses d (json_print (JObj ms) @ r) (JObj ms) r"
proof (cases ms)
  case Nil
  then show ?thesis using assms(1)
    by (auto simp: parses_def pvalue.simps(2) intro!: exI [of _ "Suc 0"])
next
  case (Cons u us)
  obtain k v where kv: "u = (k, v)" by fastforce
  let ?t = "intersperse '','' (map (\<lambda>(k, v). print_str k @ '':'' @ json_print v) (u # us)) @ ''}'' @ r"
  obtain n where n: "pmembers n (Suc d) ?t = Some (u # us, r)" using pmembers_print [of u us "Suc d" r] assms(2) Cons by auto
  obtain t where t: "?t = dquote # t"
    using intersperse_hd [of "print_str k @ '':'' @ json_print v" "'',''"
        "map (\<lambda>(k, v). print_str k @ '':'' @ json_print v) us"] kv
    by (auto simp: print_str_def)
  have "pvalue (Suc n) d (CHR ''{'' # ?t) = Some (JObj ms, r)"
    using assms(1) n Cons unfolding t by (simp add: pvalue.simps(2))
  then show ?thesis using Cons by (auto simp: parses_def)
qed

lemma parses_print: "json_ok d v \<Longrightarrow> num_stop r \<Longrightarrow> parses d (json_print v @ r) v r"
proof (induction d v arbitrary: r rule: json_ok.induct)
  case (1 d l)
  then show ?case by (simp add: parses_num)
next
  case (2 d b)
  then show ?case using parses_str by simp
next
  case (3 d vs)
  then show ?case by (intro parses_arr) auto
next
  case (4 d ms)
  then show ?case by (intro parses_obj) auto
next
  case (5 d)
  then show ?case using parses_atoms(1) by simp
next
  case (6 d b)
  then show ?case using parses_atoms(2,3) by simp
qed

lemma json_parse_print: "json_ok 0 v \<Longrightarrow> json_parse (json_print v) = Some v"
  using parses_print [of 0 v "[]"] json_parse_fuel [of _ "json_print v" v "[]"]
  by (auto simp: parses_def num_stop_def)

lemma json_parse_reprint: "json_parse s = Some v \<Longrightarrow> json_parse (json_print v) = Some v"
  by (rule json_parse_print) (rule json_parse_ok)

end
