(* ===== verification/Number.thy ===== *)
theory Number
  imports Json
begin

section \<open>Number literals: integers and float64\<close>

text \<open>
  What \<open>encoding/json\<close> and \<open>strconv\<close> do with the number literals of a document.

  An \<open>int\<close> or \<open>int64\<close> field takes a literal without fraction or exponent that is in range
  (\<open>parse_int\<close>, \<open>strconv.ParseInt\<close>) and is written in decimal (\<open>int_text\<close>).

  A number inside \<open>map[string]any\<close> becomes a \<open>float64\<close>: the literal's exact value rounded to
  the nearest double, ties to even, with an error past the largest one (\<open>parse_float\<close>). A finite
  double is a sign and two integers \<open>(m, s)\<close> with value \<open>m * 2^s * 2^-1074\<close>, so that
  the unit is the smallest subnormal and all arithmetic is on integers. The encoder writes the
  shortest decimal that reads back as the same double, in plain notation between \<open>1e-6\<close> and
  \<open>1e21\<close> and in scientific notation outside (\<open>float_text\<close>).

  \<open>canon_num\<close> composes the two: the literal a number has after one trip through a handler. The
  model identifies a double with this literal; \<open>canon_num_ok\<close> and \<open>canon_num_idem\<close> say that
  the literal is valid and does not change again.
\<close>

subsection \<open>Decimal digits\<close>

definition dig :: "int \<Rightarrow> char" where
  "dig n = chr (48 + nat n)"

function dec :: "int \<Rightarrow> bytes" where
  "dec n = (if n < 10 then [dig n] else dec (n div 10) @ [dig (n mod 10)])"
  by auto
termination by (relation "measure nat") auto

declare dec.simps [simp del]

definition dec_val :: "bytes \<Rightarrow> int" where
  "dec_val ds = foldl (\<lambda>a c. 10 * a + (int (byte c) - 48)) 0 ds"

lemma byte_dig: "0 \<le> n \<Longrightarrow> n < 10 \<Longrightarrow> byte (dig n) = 48 + nat n"
  unfolding dig_def by (rule byte_chr) simp

lemma is_digit_dig [simp]: "0 \<le> n \<Longrightarrow> n < 10 \<Longrightarrow> is_digit (dig n)"
  by (simp add: is_digit_def in_range_def byte_dig)

lemma dec_val_snoc [simp]: "dec_val (ds @ [c]) = 10 * dec_val ds + (int (byte c) - 48)"
  by (simp add: dec_val_def)

lemma dec_val_Nil [simp]: "dec_val [] = 0"
  by (simp add: dec_val_def)

lemma dec_val_dec [simp]: "0 \<le> n \<Longrightarrow> dec_val (dec n) = n"
proof (induction n rule: dec.induct)
  case (1 n)
  show ?case
  proof (cases "n < 10")
    case True
    then have "dec_val ([] @ [dig n]) = n" unfolding dec_val_snoc using 1 by (simp add: byte_dig)
    then show ?thesis using True by (simp add: dec.simps [of n])
  next
    case False
    then have "dec_val (dec (n div 10)) = n div 10" using 1 by simp
    then show ?thesis using False 1 by (simp add: dec.simps [of n] byte_dig)
  qed
qed

lemma dec_digits: "0 \<le> n \<Longrightarrow> list_all is_digit (dec n)"
  by (induction n rule: dec.induct) (subst dec.simps, auto)

lemma dec_nonempty [simp]: "dec n \<noteq> []"
  by (subst dec.simps) simp

lemma dig_zero: "0 \<le> n \<Longrightarrow> n < 10 \<Longrightarrow> dig n = CHR ''0'' \<Longrightarrow> n = 0"
  using byte_dig [of n] by simp

lemma hd_dec: "0 < n \<Longrightarrow> hd (dec n) \<noteq> CHR ''0''"
proof (induction n rule: dec.induct)
  case (1 n)
  then show ?case
    using dig_zero [of n] by (cases "n < 10") (auto simp: dec.simps [of n] hd_append)
qed

lemma dec_zero: "dec 0 = ''0''"
  by (simp add: dec.simps [of 0] dig_def char_of_eq_iff)

lemma int_part_dec: "0 \<le> n \<Longrightarrow> no_digit r \<Longrightarrow> int_part (dec n) r"
  using hd_dec [of n] dec_digits [of n] by (cases "n = 0") (auto simp: int_part_def dec_zero)

lemma scan_sign_dec: "0 \<le> n \<Longrightarrow> scan_sign (dec n @ r) = ([], dec n @ r)"
  using dec_digits [of n] digit_not_sign by (cases "dec n") (auto simp: scan_sign_def)

lemma num_ok_layout:
  assumes "int_part i (f @ e)" and "frac_part f e" and "exp_part e []" and "sg = [] \<or> sg = ''-''"
  shows "num_ok (sg @ i @ f @ e)"
proof -
  have "hd i \<noteq> CHR ''-''" "i \<noteq> []" using scan_sign_int [OF assms(1)] by auto
  then have "scan_sign (sg @ i @ f @ e) = (sg, i @ f @ e @ [])"
    using assms(4) by (cases i) (auto simp: scan_sign_def)
  then show ?thesis using scan_numberI [of "sg @ i @ f @ e" sg i f e "[]"] assms by (simp add: num_ok_def)
qed

subsection \<open>Integers\<close>

definition int_text :: "int \<Rightarrow> bytes" where
  "int_text n = (if n < 0 then CHR ''-'' # dec (- n) else dec n)"

definition parse_int :: "bytes \<Rightarrow> int option" where
  "parse_int l =
     (case scan_sign l of (sg, ds) \<Rightarrow>
        if ds = [] \<or> \<not> list_all is_digit ds then None
        else let v = (if sg = [] then dec_val ds else - dec_val ds)
             in if int64_ok v then Some v else None)"

lemma num_ok_int_text [simp]: "num_ok (int_text n)"
proof -
  have "frac_part [] []" "exp_part [] []" by (auto simp: frac_part_def exp_part_def)
  then show ?thesis
    using num_ok_layout [of "dec n" "[]" "[]" "[]"] num_ok_layout [of "dec (- n)" "[]" "[]" "''-''"]
      int_part_dec [of n "[]"] int_part_dec [of "- n" "[]"]
    by (auto simp: int_text_def)
qed

lemma parse_int_text: "int64_ok n \<Longrightarrow> parse_int (int_text n) = Some n"
  using scan_sign_dec [of n "[]"] dec_digits [of n] dec_digits [of "- n"]
  by (auto simp: parse_int_def int_text_def scan_sign_def)

lemma parse_int_ok: "parse_int l = Some n \<Longrightarrow> int64_ok n"
  by (auto simp: parse_int_def Let_def split: prod.splits if_splits)

subsection \<open>Reading a float64\<close>

function bitlen :: "int \<Rightarrow> nat" where
  "bitlen n = (if n \<le> 0 then 0 else Suc (bitlen (n div 2)))"
  by auto
termination by (relation "measure nat") auto

declare bitlen.simps [simp del]

definition round_half_even :: "int \<Rightarrow> int \<Rightarrow> int" where
  "round_half_even a b =
     (let q = a div b; r = a mod b
      in if 2 * r < b \<or> (2 * r = b \<and> even q) then q else q + 1)"

text \<open>The double nearest to \<open>num / den\<close>; \<open>None\<close> is \<open>strconv.ErrRange\<close>.\<close>

definition round_ratio :: "int \<Rightarrow> int \<Rightarrow> (int \<times> nat) option" where
  "round_ratio num den =
     (let n = num * 2 ^ 1074;
          q = n div den;
          s = (if q < 2 ^ 53 then 0 else bitlen q - 53);
          m = round_half_even n (den * 2 ^ s);
          (m', s') = (if m = 2 ^ 53 then (2 ^ 52, Suc s) else (m, s))
      in if 2045 < s' then None else Some (m', s'))"

definition exp_val :: "bytes \<Rightarrow> int" where
  "exp_val e =
     (case e of
        [] \<Rightarrow> 0
      | _ # x \<Rightarrow>
          (case x of
             [] \<Rightarrow> 0
           | c # ds \<Rightarrow> if c = CHR ''-'' then - dec_val ds
                       else if c = CHR ''+'' then dec_val ds else dec_val x))"

text \<open>A literal denotes \<open>(-1)^neg * d * 10^x\<close>.\<close>

definition literal_parts :: "bytes \<Rightarrow> (bool \<times> int \<times> int) option" where
  "literal_parts l =
     (case scan_sign l of (sg, s1) \<Rightarrow>
      case scan_int s1 of None \<Rightarrow> None | Some (i, s2) \<Rightarrow>
      case scan_frac s2 of None \<Rightarrow> None | Some (f, s3) \<Rightarrow>
      case scan_exp s3 of None \<Rightarrow> None | Some (e, s4) \<Rightarrow>
        if s4 \<noteq> [] then None
        else Some (sg \<noteq> [], dec_val (i @ tl f), exp_val e - int (length (tl f))))"

definition round_dec :: "int \<Rightarrow> int \<Rightarrow> (int \<times> nat) option" where
  "round_dec d x = (if 0 \<le> x then round_ratio (d * 10 ^ nat x) 1 else round_ratio d (10 ^ nat (- x)))"

definition parse_float :: "bytes \<Rightarrow> (bool \<times> int \<times> nat) option" where
  "parse_float l =
     (case literal_parts l of
        None \<Rightarrow> None
      | Some (neg, d, x) \<Rightarrow> map_option (Pair neg) (round_dec d x))"

subsection \<open>Writing a float64\<close>

text \<open>The digits \<open>ds\<close> stand for \<open>0.ds * 10^k\<close>; trailing zeros are already removed. The two
  layouts are \<open>strconv.FormatFloat\<close> with \<open>'f'\<close> and \<open>'e'\<close>, the second with the encoder's
  clean-up of \<open>e-09\<close> to \<open>e-9\<close>.\<close>

definition strip_zeros :: "bytes \<Rightarrow> bytes" where
  "strip_zeros ds = rev (dropWhile (\<lambda>c. c = CHR ''0'') (rev ds))"

definition layout_f :: "bytes \<Rightarrow> int \<Rightarrow> bytes" where
  "layout_f ds k =
     (if k \<le> 0 then ''0.'' @ replicate (nat (- k)) (CHR ''0'') @ ds
      else if int (length ds) \<le> k then ds @ replicate (nat k - length ds) (CHR ''0'')
      else take (nat k) ds @ ''.'' @ drop (nat k) ds)"

definition layout_e :: "bytes \<Rightarrow> int \<Rightarrow> bytes" where
  "layout_e ds k =
     take 1 ds @ (if drop 1 ds = [] then [] else ''.'' @ drop 1 ds) @ ''e'' @
     (if k - 1 < 0 then ''-'' @ dec (1 - k) else ''+'' @ dec (k - 1))"

definition layout :: "bytes \<Rightarrow> int \<Rightarrow> bytes" where
  "layout ds k = (if k < -5 \<or> 21 < k then layout_e ds k else layout_f ds k)"

text \<open>The candidates with \<open>n\<close> digits are the neighbours of the exact value, the nearer one
  first; \<open>a = m * 2^s\<close> is the value in units of \<open>2^-1074\<close> and \<open>k\<close> its decimal exponent.\<close>

definition dec_exponent :: "int \<Rightarrow> int" where
  "dec_exponent a = int (length (dec (a * 10 ^ 400 div 2 ^ 1074))) - 400"

definition candidates :: "int \<Rightarrow> int \<Rightarrow> nat \<Rightarrow> bytes list" where
  "candidates a k n =
     (let j = int n - k;
          num = (if 0 \<le> j then a * 10 ^ nat j else a);
          den = (if 0 \<le> j then 2 ^ 1074 else 2 ^ 1074 * 10 ^ nat (- j));
          c = num div den;
          lo = layout (strip_zeros (dec c)) (k + int (length (dec c)) - int n);
          hi = layout (strip_zeros (dec (c + 1))) (k + int (length (dec (c + 1))) - int n)
      in if 2 * (num mod den) \<le> den then [lo, hi] else [hi, lo])"

text \<open>Seventeen digits always suffice for a double; the last clause writes the exact value, which
  makes the definition total without an appeal to that fact.\<close>

definition reads_back :: "int \<times> nat \<Rightarrow> bytes \<Rightarrow> bool" where
  "reads_back f t \<longleftrightarrow> num_ok t \<and> num_ok (''-'' @ t) \<and> parse_float t = Some (False, f)
     \<and> parse_float (''-'' @ t) = Some (True, f)"

definition exact_text :: "int \<Rightarrow> bytes" where
  "exact_text a = dec (a * 5 ^ 1074) @ ''e-1074''"

definition float_text :: "int \<times> nat \<Rightarrow> bytes" where
  "float_text f =
     (let a = fst f * 2 ^ snd f; k = dec_exponent a
      in if a = 0 then ''0''
         else case find (reads_back f) (concat (map (candidates a k) [1..<18])) of
                Some t \<Rightarrow> t
              | None \<Rightarrow> exact_text a)"

definition canon_num :: "bytes \<Rightarrow> bytes option" where
  "canon_num l =
     (if num_ok l then map_option (\<lambda>(neg, f). (if neg then ''-'' else []) @ float_text f) (parse_float l) else None)"

subsection \<open>The written literal reads back\<close>

definition f64_ok :: "int \<times> nat \<Rightarrow> bool" where
  "f64_ok f \<longleftrightarrow> 0 \<le> fst f \<and> fst f < 2 ^ 53 \<and> snd f \<le> 2045 \<and> (snd f = 0 \<or> 2 ^ 52 \<le> fst f)"

lemma bitlen_eq: "2 ^ k \<le> q \<Longrightarrow> q < 2 ^ Suc k \<Longrightarrow> bitlen q = Suc k"
proof (induction k arbitrary: q)
  case 0
  then have "q = 1" by simp
  then show ?case by (simp add: bitlen.simps)
next
  case (Suc k)
  have "(0::int) < 2 ^ Suc k" by (rule zero_less_power) simp
  then have q: "0 < q" using Suc.prems(1) by linarith
  have "bitlen (q div 2) = Suc k" using Suc.prems by (intro Suc.IH) auto
  then show ?case using q by (simp add: bitlen.simps [of q])
qed

lemma bitlen_bounds: "0 < q \<Longrightarrow> \<exists>k. bitlen q = Suc k \<and> 2 ^ k \<le> q \<and> q < 2 ^ Suc k"
proof (induction q rule: bitlen.induct)
  case (1 q)
  show ?case
  proof (cases "q = 1")
    case True
    then show ?thesis by (simp add: bitlen.simps)
  next
    case False
    then obtain k where k: "bitlen (q div 2) = Suc k" "2 ^ k \<le> q div 2" "q div 2 < 2 ^ Suc k"
      using 1 by fastforce
    have "2 ^ Suc k \<le> q" "q < 2 ^ Suc (Suc k)" using k(2,3) by (simp_all)
    then show ?thesis using bitlen_eq [of "Suc k" q] by blast
  qed
qed

lemma round_half_even_exact: "0 < b \<Longrightarrow> round_half_even (m * b) b = m"
  by (simp add: round_half_even_def)

lemma round_half_even_bounds:
  "a div b \<le> round_half_even a b \<and> round_half_even a b \<le> a div b + 1"
  by (simp add: round_half_even_def Let_def)

lemma round_ratio_exact:
  assumes "f64_ok (m, s)" and "0 < den" and "num * 2 ^ 1074 = m * 2 ^ s * den"
  shows "round_ratio num den = Some (m, s)"
proof -
  have q: "m * 2 ^ s * den div den = m * 2 ^ s" using assms(2) by simp
  have r: "round_half_even (m * 2 ^ s * den) (den * 2 ^ s) = m"
    using round_half_even_exact [of "den * 2 ^ s" m] assms(2) by (simp add: ac_simps)
  have "(if m * 2 ^ s < 2 ^ 53 then 0 else bitlen (m * 2 ^ s) - 53) = s"
  proof (cases "s = 0")
    case False
    then obtain t where t: "s = Suc t" by (cases s) auto
    have m: "2 ^ 52 \<le> m" "m < 2 ^ 53" using assms(1) False by (auto simp: f64_ok_def)
    have lo: "2 ^ (52 + s) \<le> m * 2 ^ s" and hi: "m * 2 ^ s < 2 ^ Suc (52 + s)"
      using m mult_right_mono [of "2 ^ 52" m "2 ^ s"] mult_strict_right_mono [of m "2 ^ 53" "2 ^ s"]
      by (simp_all add: power_add)
    have "(2::int) ^ 53 \<le> 2 ^ (52 + s)" using t by (intro power_increasing) auto
    then have "\<not> m * 2 ^ s < 2 ^ 53" using lo by linarith
    then show ?thesis using bitlen_eq [OF lo hi] by simp
  qed (use assms(1) in \<open>auto simp: f64_ok_def\<close>)
  then show ?thesis
    using assms(1) unfolding round_ratio_def assms(3) q Let_def
    by (simp add: r f64_ok_def)
qed

lemma round_ratio_ok:
  assumes "round_ratio num den = Some f" and "0 \<le> num" and "0 < den"
  shows "f64_ok f"
proof -
  define n where "n = num * 2 ^ 1074"
  define q where "q = n div den"
  define s where "s = (if q < 2 ^ 53 then 0 else bitlen q - 53)"
  define m where "m = round_half_even n (den * 2 ^ s)"
  have q0: "0 \<le> q" using assms by (simp add: q_def n_def pos_imp_zdiv_nonneg_iff)
  have d: "n div (den * 2 ^ s) = q div 2 ^ s" unfolding q_def by (rule zdiv_zmult2_eq) simp
  have m: "q div 2 ^ s \<le> m" "m \<le> q div 2 ^ s + 1"
    using round_half_even_bounds [of n "den * 2 ^ s"] d by (simp_all add: m_def)
  have b: "q div 2 ^ s < 2 ^ 53 \<and> (s = 0 \<or> 2 ^ 52 \<le> q div 2 ^ s)"
  proof (cases "q < 2 ^ 53")
    case False
    then obtain k where k: "bitlen q = Suc k" "2 ^ k \<le> q" "q < 2 ^ Suc k"
      using bitlen_bounds [of q] q0 by fastforce
    have "(2::int) ^ 53 < 2 ^ Suc k" using k(3) False by linarith
    then have "53 < Suc k" by (rule power_less_imp_less_exp [rotated]) simp
    then have s: "s = k - 52" "52 + s = k" using False k(1) by (simp_all add: s_def)
    have "(2::int) ^ k = 2 ^ 52 * 2 ^ s" "(2::int) ^ Suc k = 2 ^ 53 * 2 ^ s"
      using s(2) by (simp_all flip: s(2) add: power_add)
    then have lo: "2 ^ 52 * 2 ^ s \<le> q" and hi: "q < 2 ^ 53 * 2 ^ s" using k(2,3) by simp_all
    have "2 ^ 52 \<le> q div 2 ^ s" using zdiv_mono1 [OF lo, of "2 ^ s"] by simp
    moreover have "q div 2 ^ s * 2 ^ s < 2 ^ 53 * 2 ^ s"
    proof -
      have "0 \<le> q mod 2 ^ s" by simp
      then show ?thesis using hi div_mult_mod_eq [of q "2 ^ s"] by linarith
    qed
    then have "q div 2 ^ s < 2 ^ 53" by (rule mult_right_less_imp_less) simp
    ultimately show ?thesis by blast
  qed (use q0 in \<open>simp add: s_def\<close>)
  have m0: "0 \<le> m" using m(1) q0 by (smt (verit) pos_imp_zdiv_nonneg_iff zero_less_power)
  have f: "f = (if m = 2 ^ 53 then (2 ^ 52, Suc s) else (m, s))"
    and r: "snd f \<le> 2045"
    using assms(1) unfolding round_ratio_def n_def [symmetric] q_def [symmetric] s_def [symmetric] Let_def
      m_def [symmetric]
    by (auto split: if_splits)
  show ?thesis using f r m b m0 by (auto simp: f64_ok_def split: if_splits)
qed

lemma dec_val_nonneg: "list_all is_digit ds \<Longrightarrow> 0 \<le> dec_val ds"
  by (induction ds rule: rev_induct) (auto simp: is_digit_def in_range_def)

lemma literal_parts_layout:
  assumes "int_part i (f @ e)" and "frac_part f e" and "exp_part e []" and "sg = [] \<or> sg = ''-''"
  shows "literal_parts (sg @ i @ f @ e) = Some (sg \<noteq> [], dec_val (i @ tl f), exp_val e - int (length (tl f)))"
proof -
  have "hd i \<noteq> CHR ''-''" "i \<noteq> []" using scan_sign_int [OF assms(1)] by auto
  then have "scan_sign (sg @ i @ f @ e) = (sg, i @ f @ e)"
    using assms(4) by (cases i) (auto simp: scan_sign_def)
  moreover have "scan_int (i @ f @ e) = Some (i, f @ e)" using assms(1) by (simp only: scan_int_iff simp_thms)
  moreover have "scan_frac (f @ e) = Some (f, e)" using assms(2) by (simp only: scan_frac_iff simp_thms)
  moreover have "scan_exp e = Some (e, [])" using assms(3) by (simp add: scan_exp_iff)
  ultimately show ?thesis by (simp add: literal_parts_def)
qed

lemma parse_float_ok:
  assumes "parse_float l = Some (neg, f)"
  shows "f64_ok f"
proof -
  obtain d x where l: "literal_parts l = Some (neg, d, x)" and r: "round_dec d x = Some f"
    using assms by (auto simp: parse_float_def split: option.splits)
  have "0 \<le> d"
  proof -
    obtain sg i fr e where "d = dec_val (i @ tl fr)" "\<exists>s. int_part i s" "\<exists>s. frac_part fr s"
      using l by (auto simp: literal_parts_def scan_int_iff scan_frac_iff split: prod.splits option.splits if_splits)
    moreover from this have "list_all is_digit i" "list_all is_digit (tl fr)"
      by (auto simp: int_part_def frac_part_def is_digit_def in_range_def)
    ultimately show ?thesis using dec_val_nonneg [of "i @ tl fr"] by simp
  qed
  then show ?thesis using r by (auto simp: round_dec_def split: if_splits intro: round_ratio_ok)
qed

lemma e1074_parts:
  assumes "0 \<le> d" and "sg = [] \<or> sg = ''-''"
  shows "num_ok (sg @ dec d @ ''e-1074'')" "literal_parts (sg @ dec d @ ''e-1074'') = Some (sg \<noteq> [], d, - 1074)"
proof -
  have i: "int_part (dec d) ([] @ ''e-1074'')" using int_part_dec [OF assms(1)] by (simp add: is_digit_def in_range_def)
  have f: "frac_part [] ''e-1074''" by (simp add: frac_part_def)
  have e: "exp_part ''e-1074'' []" by (simp add: exp_part_def exp_digits_def is_digit_def in_range_def)
  have "exp_val ''e-1074'' = -1074" by (simp add: exp_val_def dec_val_def)
  then show "num_ok (sg @ dec d @ ''e-1074'')" "literal_parts (sg @ dec d @ ''e-1074'') = Some (sg \<noteq> [], d, - 1074)"
    using num_ok_layout [OF i f e assms(2)] literal_parts_layout [OF i f e assms(2)] assms(1) by simp_all
qed

lemma five_two_ten: "m * t * 5 ^ k * 2 ^ k = m * t * (10::int) ^ k"
  by (simp flip: power_mult_distrib)

lemma round_dec_neg: "0 < k \<Longrightarrow> round_dec d (- int k) = round_ratio d (10 ^ k)"
  by (simp add: round_dec_def)

lemma reads_backI:
  assumes "num_ok t" and "num_ok (''-'' @ t)" and "literal_parts t = Some (False, d, x)"
    and "literal_parts (''-'' @ t) = Some (True, d, x)" and "round_dec d x = Some f"
  shows "reads_back f t"
  using assms by (simp add: reads_back_def parse_float_def)

lemma exact_text_reads_back:
  assumes "f64_ok (m, s)" and "0 < m"
  shows "reads_back (m, s) (exact_text (m * 2 ^ s))"
proof -
  let ?d = "m * 2 ^ s * 5 ^ 1074"
  have d: "0 \<le> ?d" using assms(2) by (intro mult_nonneg_nonneg zero_le_power) simp_all
  have r: "round_ratio ?d (10 ^ 1074) = Some (m, s)"
    by (rule round_ratio_exact [OF assms(1) _ five_two_ten]) (rule zero_less_power, simp)
  have k: "- int 1074 = - 1074" by simp
  have "round_dec ?d (- int 1074) = Some (m, s)" by (subst round_dec_neg) (simp, rule r)
  then have "round_dec ?d (- 1074) = Some (m, s)" unfolding k .
  then show ?thesis unfolding exact_text_def
    using e1074_parts [OF d, of "[]"] e1074_parts [OF d, of "''-''"]
    by (intro reads_backI [where d = ?d and x = "- 1074"]) (simp_all only: append_Nil simp_thms list.distinct)
qed

lemma float_text_reads_back:
  assumes "f64_ok (m, s)"
  shows "reads_back (m, s) (float_text (m, s))"
proof (cases "m = 0")
  case True
  have "int_part ''0'' ([] @ [])" "frac_part [] []" "exp_part [] []"
    by (simp_all add: int_part_def frac_part_def exp_part_def)
  note zero = num_ok_layout [OF this, of "[]"] num_ok_layout [OF this, of "''-''"]
    literal_parts_layout [OF this, of "[]"] literal_parts_layout [OF this, of "''-''"]
  have "s = 0" using assms True by (simp add: f64_ok_def)
  moreover have "round_dec 0 0 = Some (0, 0)"
    using round_ratio_exact [of 0 0 1 0] by (simp add: round_dec_def f64_ok_def)
  ultimately show ?thesis
    using True zero by (simp add: float_text_def reads_back_def parse_float_def exp_val_def dec_val_def)
next
  case False
  then have m: "0 < m" using assms by (simp add: f64_ok_def)
  show ?thesis
    using exact_text_reads_back [OF assms m] m
    by (auto simp: float_text_def Let_def find_Some_iff split: option.splits)
qed

lemma canon_num_cases:
  assumes "canon_num l = Some c"
  obtains neg f where "parse_float l = Some (neg, f)" "c = (if neg then ''-'' else []) @ float_text f"
    "num_ok c" "parse_float c = Some (neg, f)"
proof -
  obtain neg m s where p: "parse_float l = Some (neg, m, s)" and c: "c = (if neg then ''-'' else []) @ float_text (m, s)"
    using assms by (auto simp: canon_num_def split: if_splits)
  have "f64_ok (m, s)" using p by (rule parse_float_ok)
  then have "reads_back (m, s) (float_text (m, s))" by (rule float_text_reads_back)
  then show ?thesis using that p c by (simp add: reads_back_def split: if_splits)
qed

lemma canon_num_ok: "canon_num l = Some c \<Longrightarrow> num_ok c"
  by (erule canon_num_cases) simp

lemma canon_num_idem: "canon_num l = Some c \<Longrightarrow> canon_num c = Some c"
  by (erule canon_num_cases) (simp add: canon_num_def)

end
