(* ===== verification/GoError.thy ===== *)
theory GoError
  imports Prelude
begin

section \<open>Errors\<close>

text \<open>
  A Go error is modelled by what the library reads of one: the sentinels \<open>errors.Is\<close> finds in its
  chain, its \<open>Error()\<close> text and the name \<open>%T\<close> prints for its dynamic type. A fallible operation
  returns \<open>go_error + 'a\<close>.
\<close>

datatype sentinel =
    ErrEmptyURN | ErrUnknownURN | ErrReleaseUnsupported | ErrReservedMetaKey | ErrForbiddenKey
  | ErrNoIdentity | ErrDuplicateMetaKey | ErrEmptyMetaKey
  | ErrInvalidPayload | ErrDecrypt | ErrInvalidKeySize | ErrMalformedCiphertext
  | ErrDelayedUnsupported | ErrInvalidRetryAfter | ErrInvalidDelay | ErrClosed | ErrDelayUnsupported
  | ErrNotAcceptedAsynq | ErrNotAcceptedMachinery | ErrNoEnvelopeArg
  | DeadlineExceeded | Canceled | ErrNoRows

record go_error =
  err_is :: "sentinel list"
  err_text :: bytes
  err_type :: bytes

definition errors_is :: "go_error \<Rightarrow> sentinel \<Rightarrow> bool" where
  "errors_is e s \<longleftrightarrow> s \<in> set (err_is e)"

text \<open>The sentinels' own texts; the one non-ASCII character is the section sign. The last three are those
  of \<open>context\<close> and \<open>database/sql\<close>.\<close>

definition section_sign :: bytes where
  "section_sign = [CHR 0xC2, CHR 0xA7]"

fun sentinel_text :: "sentinel \<Rightarrow> bytes" where
  "sentinel_text ErrEmptyURN =
     ''babelqueue: a polyglot message must expose a stable, non-empty URN''"
| "sentinel_text ErrUnknownURN = ''babelqueue: no handler is mapped for the message URN''"
| "sentinel_text ErrReleaseUnsupported =
     ''babelqueue: in-place release is unsupported for this message''"
| "sentinel_text ErrReservedMetaKey = ''babelqueue: meta key collides with a core meta key''"
| "sentinel_text ErrForbiddenKey =
     ''babelqueue: forbidden non-canonical envelope key (message-envelope.md '' @ section_sign @ ''10)''"
| "sentinel_text ErrNoIdentity = ''babelqueue: envelope has no valid job or urn identity''"
| "sentinel_text ErrDuplicateMetaKey = ''babelqueue: meta key supplied more than once''"
| "sentinel_text ErrEmptyMetaKey = ''babelqueue: meta key must not be empty''"
| "sentinel_text ErrInvalidPayload = ''babelqueue/schema: message data does not match its URN schema''"
| "sentinel_text ErrDecrypt = ''babelqueue/gdpr: cannot decrypt a protected field''"
| "sentinel_text ErrInvalidKeySize = ''babelqueue/gdpr: AES key must be 16, 24, or 32 bytes''"
| "sentinel_text ErrMalformedCiphertext = ''babelqueue/gdpr: malformed ciphertext''"
| "sentinel_text ErrDelayedUnsupported =
     ''babelqueue/redis: delayed publish needs the Laravel-compatible layout''"
| "sentinel_text ErrInvalidRetryAfter = ''babelqueue/redis: retry_after must not be negative''"
| "sentinel_text ErrInvalidDelay =
     ''babelqueue/sqs: delay not supported by this queue ('' @ section_sign @ ''3.4)''"
| "sentinel_text ErrClosed = ''kafka: transport is closed''"
| "sentinel_text ErrDelayUnsupported =
     ''kafka: delay needs a retry tier that covers it ('' @ section_sign @ ''6.4)''"
| "sentinel_text ErrNotAcceptedAsynq = ''babelqueue/asynq: task payload is not an acceptable envelope''"
| "sentinel_text ErrNotAcceptedMachinery =
     ''babelqueue/machinery: task payload is not an acceptable envelope''"
| "sentinel_text ErrNoEnvelopeArg = ''babelqueue/machinery: signature has no envelope argument''"
| "sentinel_text DeadlineExceeded = ''context deadline exceeded''"
| "sentinel_text Canceled = ''context canceled''"
| "sentinel_text ErrNoRows = ''sql: no rows in result set''"

text \<open>The sentinel itself, \<open>fmt.Errorf("%w...")\<close> around an error, and \<open>errors.Join\<close>.\<close>

definition plain_error :: "sentinel \<Rightarrow> go_error" where
  "plain_error s = \<lparr>err_is = [s], err_text = sentinel_text s, err_type = ''*errors.errorString''\<rparr>"

definition wrap_error :: "bytes \<Rightarrow> go_error \<Rightarrow> bytes \<Rightarrow> go_error" where
  "wrap_error pre e post =
     \<lparr>err_is = err_is e, err_text = pre @ err_text e @ post, err_type = ''*fmt.wrapError''\<rparr>"

definition join_errors :: "go_error \<Rightarrow> go_error \<Rightarrow> go_error" where
  "join_errors a b =
     \<lparr>err_is = err_is a @ err_is b, err_text = err_text a @ [CHR 0x0A] @ err_text b,
      err_type = ''*errors.joinError''\<rparr>"

lemma errors_is_simps [simp]:
  "errors_is (plain_error t) s = (s = t)"
  "errors_is (wrap_error p e q) s = errors_is e s"
  "errors_is (join_errors a b) s = (errors_is a s \<or> errors_is b s)"
  by (auto simp: errors_is_def plain_error_def wrap_error_def join_errors_def)

subsection \<open>Sequencing\<close>

fun sbind :: "'e + 'a \<Rightarrow> ('a \<Rightarrow> 'e + 'b) \<Rightarrow> 'e + 'b" where
  "sbind (Inl e) f = Inl e"
| "sbind (Inr x) f = f x"

lemma sbind_Inr_iff: "sbind m f = Inr y \<longleftrightarrow> (\<exists>x. m = Inr x \<and> f x = Inr y)"
  by (cases m) auto

lemma sbind_InrE:
  assumes "sbind m f = Inr y"
  obtains x where "m = Inr x" "f x = Inr y"
  using assms by (auto simp: sbind_Inr_iff)

text \<open>One branch of a chain of tests at a time.\<close>

lemma if_eqE:
  assumes "(if b then x else y) = z"
  obtains "b" "x = z" | "\<not> b" "y = z"
  using assms by (auto split: if_splits)

lemma sbind_assoc: "sbind (sbind m f) g = sbind m (\<lambda>x. sbind (f x) g)"
  by (cases m) auto

lemma sbind_cong [fundef_cong]:
  "m = m' \<Longrightarrow> (\<And>x. m' = Inr x \<Longrightarrow> f x = f' x) \<Longrightarrow> sbind m f = sbind m' f'"
  by (cases m') auto

end
