(* ===== verification/JsonVal.thy ===== *)
theory JsonVal
  imports Number GoError
begin

section \<open>Decoded values\<close>

text \<open>
  The Go values \<open>json.Unmarshal\<close> produces and \<open>json.Marshal\<close> writes: \<open>any\<close> values inside
  \<open>map[string]any\<close> (\<open>goval\<close>), and the typed destinations the codec decodes single members
  into. A type mismatch is the \<open>*json.UnmarshalTypeError\<close> the package reports.

  \<open>any_of_json_of_any\<close> and \<open>any_of_json_ok\<close> are the two directions of the round trip.
\<close>

datatype goval =
    GNull
  | GBool bool
  | GNum bytes
  | GStr bytes
  | GArr "goval list"
  | GObj "(string \<times> goval) list"

subsection \<open>Conversion\<close>

fun any_of_json :: "json \<Rightarrow> goval option" where
  "any_of_json JNull = Some GNull"
| "any_of_json (JBool b) = Some (GBool b)"
| "any_of_json (JNum l) = map_option GNum (canon_num l)"
| "any_of_json (JStr b) = Some (GStr (unquote b))"
| "any_of_json (JArr vs) = map_option GArr (those (map any_of_json vs))"
| "any_of_json (JObj ms) =
     map_option (\<lambda>kvs. GObj (smap_of kvs []))
       (those (map (\<lambda>(k, v). map_option (Pair (unquote k)) (any_of_json v)) ms))"

fun json_of_any :: "goval \<Rightarrow> json" where
  "json_of_any GNull = JNull"
| "json_of_any (GBool b) = JBool b"
| "json_of_any (GNum l) = JNum l"
| "json_of_any (GStr s) = JStr (quote s)"
| "json_of_any (GArr vs) = JArr (map json_of_any vs)"
| "json_of_any (GObj m) = JObj (map (\<lambda>(k, v). (quote k, json_of_any v)) m)"

text \<open>The values decoding can produce.\<close>

fun goval_ok :: "goval \<Rightarrow> bool" where
  "goval_ok (GNum l) = (canon_num l = Some l)"
| "goval_ok (GStr s) = utf8_ok s"
| "goval_ok (GArr vs) = (\<forall>v \<in> set vs. goval_ok v)"
| "goval_ok (GObj m) = (smap_ok m \<and> (\<forall>(k, v) \<in> set m. utf8_ok k \<and> goval_ok v))"
| "goval_ok GNull = True"
| "goval_ok (GBool b) = True"

lemma those_map_Some: "(\<And>x. x \<in> set xs \<Longrightarrow> f x = Some (g x)) \<Longrightarrow> those (map f xs) = Some (map g xs)"
  by (induction xs) auto

lemma those_map_SomeD:
  "those (map f xs) = Some ys \<Longrightarrow> length ys = length xs \<and> (\<forall>y \<in> set ys. \<exists>x \<in> set xs. f x = Some y)"
  by (induction xs arbitrary: ys) (fastforce split: option.splits)+

lemma any_of_json_of_any: "goval_ok v \<Longrightarrow> any_of_json (json_of_any v) = Some v"
proof (induction v rule: goval_ok.induct)
  case (3 vs)
  then have "those (map (any_of_json \<circ> json_of_any) vs) = Some (map (\<lambda>x. x) vs)"
    by (intro those_map_Some) auto
  then show ?case by simp
next
  case (4 m)
  have "those (map ((\<lambda>(k, v). map_option (Pair (unquote k)) (any_of_json v)) \<circ> (\<lambda>(k, v). (quote k, json_of_any v))) m)
        = Some (map (\<lambda>x. x) m)"
    using 4 by (intro those_map_Some) (auto simp: unquote_quote_id)
  then show ?case using 4 by (simp add: smap_of_id)
qed (simp_all add: unquote_quote_id)

lemma smap_of_Ball:
  assumes "\<forall>x \<in> set kvs. P x"
  shows "\<forall>x \<in> set (smap_of kvs []). P x"
  using assms set_smap_of [of kvs "[]"] by auto

lemma any_of_json_ok:
  "json_ok d j \<Longrightarrow> any_of_json j = Some v \<Longrightarrow> goval_ok v \<and> json_ok d (json_of_any v)"
proof (induction d j arbitrary: v rule: json_ok.induct)
  case (1 d l)
  then show ?case by (auto simp: canon_num_ok dest: canon_num_idem)
next
  case (2 d b)
  then show ?case by (auto simp: utf8_ok_unquote body_ok_quote)
next
  case (3 d vs)
  then obtain ws where w: "those (map any_of_json vs) = Some ws" "v = GArr ws" by auto
  have "\<forall>w \<in> set ws. goval_ok w \<and> json_ok (Suc d) (json_of_any w)"
    using those_map_SomeD [OF w(1)] 3 by fastforce
  then show ?case using w(2) 3(2) by simp
next
  case (4 d ms)
  then obtain kvs where w: "those (map (\<lambda>(k, v). map_option (Pair (unquote k)) (any_of_json v)) ms) = Some kvs"
    "v = GObj (smap_of kvs [])" by auto
  have "\<forall>x \<in> set kvs. utf8_ok (fst x) \<and> goval_ok (snd x) \<and> json_ok (Suc d) (json_of_any (snd x))"
  proof
    fix x assume "x \<in> set kvs"
    then obtain y where y: "y \<in> set ms" "(\<lambda>(k, v). map_option (Pair (unquote k)) (any_of_json v)) y = Some x"
      using those_map_SomeD [OF w(1)] by blast
    obtain k u where ku: "y = (k, u)" by fastforce
    then obtain g where g: "any_of_json u = Some g" "x = (unquote k, g)" using y(2) by auto
    have "body_ok k" "json_ok (Suc d) u" using y(1) ku 4(2) by auto
    then show "utf8_ok (fst x) \<and> goval_ok (snd x) \<and> json_ok (Suc d) (json_of_any (snd x))"
      using 4(1) [OF y(1) ku [symmetric] _ g(1)] g(2) by (simp add: utf8_ok_unquote)
  qed
  from smap_of_Ball [OF this] show ?case using w(2) 4(2) by (auto simp: body_ok_quote)
qed auto

subsection \<open>Typed destinations\<close>

definition json_kind :: "json \<Rightarrow> bytes" where
  "json_kind v =
     (case v of JNull \<Rightarrow> ''null'' | JBool _ \<Rightarrow> ''bool'' | JNum _ \<Rightarrow> ''number'' | JStr _ \<Rightarrow> ''string''
      | JArr _ \<Rightarrow> ''array'' | JObj _ \<Rightarrow> ''object'')"

definition type_error :: "bytes \<Rightarrow> bytes \<Rightarrow> go_error" where
  "type_error val ty =
     \<lparr>err_is = [], err_text = ''json: cannot unmarshal '' @ val @ '' into Go value of type '' @ ty,
      err_type = ''*json.UnmarshalTypeError''\<rparr>"

text \<open>\<open>assignValue\<close> for each destination type the envelope has. A JSON null gives the zero value.\<close>

definition assign_string :: "json \<Rightarrow> go_error + bytes" where
  "assign_string v =
     (case v of JNull \<Rightarrow> Inr [] | JStr b \<Rightarrow> Inr (unquote b) | _ \<Rightarrow> Inl (type_error (json_kind v) ''string''))"

definition assign_string_ptr :: "json \<Rightarrow> go_error + bytes option" where
  "assign_string_ptr v =
     (case v of JNull \<Rightarrow> Inr None | JStr b \<Rightarrow> Inr (Some (unquote b))
      | _ \<Rightarrow> Inl (type_error (json_kind v) ''string''))"

definition assign_int :: "bytes \<Rightarrow> json \<Rightarrow> go_error + int" where
  "assign_int ty v =
     (case v of
        JNull \<Rightarrow> Inr 0
      | JNum l \<Rightarrow> (case parse_int l of Some n \<Rightarrow> Inr n | None \<Rightarrow> Inl (type_error (''number '' @ l) ty))
      | _ \<Rightarrow> Inl (type_error (json_kind v) ty))"

text \<open>A number out of the range of float64, anywhere in the tree, is the first error the decoder
  saved.\<close>

fun first_some :: "'a option list \<Rightarrow> 'a option" where
  "first_some [] = None"
| "first_some (None # xs) = first_some xs"
| "first_some (Some x # xs) = Some x"

fun first_out_of_range :: "json \<Rightarrow> bytes option" where
  "first_out_of_range (JNum l) = (if canon_num l = None then Some l else None)"
| "first_out_of_range (JArr vs) = first_some (map first_out_of_range vs)"
| "first_out_of_range (JObj ms) = first_some (map (\<lambda>(k, v). first_out_of_range v) ms)"
| "first_out_of_range _ = None"

definition assign_data :: "json \<Rightarrow> go_error + goval smap option" where
  "assign_data v =
     (case v of
        JNull \<Rightarrow> Inr None
      | JObj ms \<Rightarrow>
          (case any_of_json v of
             Some (GObj m) \<Rightarrow> Inr (Some m)
           | _ \<Rightarrow> Inl (type_error (''number '' @ case_option [] (\<lambda>l. l) (first_out_of_range v)) ''float64''))
      | _ \<Rightarrow> Inl (type_error (json_kind v) ''map[string]interface {}''))"

lemma first_some_None: "first_some xs = None \<longleftrightarrow> (\<forall>x \<in> set xs. x = None)"
  by (induction xs rule: first_some.induct) auto

lemma those_None: "those (map f xs) = None \<longleftrightarrow> (\<exists>x \<in> set xs. f x = None)"
  by (induction xs) (auto split: option.splits)

lemma first_out_of_range_iff: "first_out_of_range v = None \<longleftrightarrow> any_of_json v \<noteq> None"
proof (induction v rule: first_out_of_range.induct)
  case (2 vs)
  then show ?case unfolding first_out_of_range.simps first_some_None any_of_json.simps option.map_disc_iff those_None
    by auto
next
  case (3 ms)
  then show ?case unfolding first_out_of_range.simps first_some_None any_of_json.simps option.map_disc_iff those_None
    by auto
qed auto

subsection \<open>Members of an object\<close>

text \<open>\<open>forEachMember\<close>: every member in document order, duplicates included, under its unescaped
  name; a value that is not an object is a type error.\<close>

fun fold_members :: "(bytes \<Rightarrow> json \<Rightarrow> 's \<Rightarrow> go_error + 's) \<Rightarrow> (bytes \<times> json) list \<Rightarrow> 's \<Rightarrow> go_error + 's" where
  "fold_members f [] s = Inr s"
| "fold_members f ((k, v) # ms) s = sbind (f (unquote k) v s) (fold_members f ms)"

definition for_each_member :: "(bytes \<Rightarrow> json \<Rightarrow> 's \<Rightarrow> go_error + 's) \<Rightarrow> json \<Rightarrow> 's \<Rightarrow> go_error + 's" where
  "for_each_member f v s =
     (case v of JObj ms \<Rightarrow> fold_members f ms s
      | _ \<Rightarrow> Inl (type_error (json_kind v) ''map[string]json.RawMessage''))"

lemma fold_members_append:
  "fold_members f (ms @ ns) s = sbind (fold_members f ms s) (fold_members f ns)"
  by (induction f ms s rule: fold_members.induct) (auto simp: sbind_assoc intro!: sbind_cong)

text \<open>An invariant of the fold.\<close>

lemma fold_members_inv:
  assumes "fold_members f ms s = Inr t" and "P s"
    and "\<And>k v s s'. (k, v) \<in> set ms \<Longrightarrow> P s \<Longrightarrow> f (unquote k) v s = Inr s' \<Longrightarrow> P s'"
  shows "P t"
  using assms
proof (induction ms arbitrary: s)
  case (Cons m ms)
  obtain k v where m: "m = (k, v)" by fastforce
  then obtain s' where s': "f (unquote k) v s = Inr s'" "fold_members f ms s' = Inr t"
    using Cons.prems(1) by (auto simp: sbind_Inr_iff)
  show ?case
  proof (rule Cons.IH [OF s'(2)])
    show "P s'" using Cons.prems(2,3) s'(1) m by auto
  qed (use Cons.prems(3) in auto)
qed simp

end
