(* ===== verification/Envelope.thy ===== *)
theory Envelope
  imports JsonVal "HOL-Library.Word"
begin

unbundle bit_operations_syntax

section \<open>The envelope\<close>

text \<open>
  \<open>envelope.go\<close>, \<open>deadletter.go\<close>, \<open>babelqueue.go\<close>, \<open>uuid.go\<close>, \<open>headers.go\<close> and
  \<open>replay.go\<close>: the message and its blocks as records, building one (\<open>Make\<close>), the consumer-side
  check (\<open>accepts\<close>), the dead-letter annotation, and what the delivery context carries.

  The wall clock and the random source are arguments: \<open>now\<close> is \<open>time.Now().UnixMilli()\<close>, a
  list of sixteen bytes is what one \<open>rand.Read\<close> returned. A \<open>json.RawMessage\<close> carried in the
  extras is its syntax tree: the white space inside it is not kept, and the encoder drops it.
\<close>

subsection \<open>Constants\<close>

definition schema_version :: int where "schema_version = 1"
definition source_lang :: bytes where "source_lang = ''go''"

definition strategy_fail :: bytes where "strategy_fail = ''fail''"
definition strategy_delete :: bytes where "strategy_delete = ''delete''"
definition strategy_release :: bytes where "strategy_release = ''release''"
definition strategy_dead_letter :: bytes where "strategy_dead_letter = ''dead_letter''"

lemmas strategy_defs [go_defs] =
  strategy_fail_def strategy_delete_def strategy_release_def strategy_dead_letter_def

definition core_meta_keys :: "bytes list" where
  "core_meta_keys = [''id'', ''queue'', ''lang'', ''schema_version'', ''created_at'']"

definition forbidden_top_level_keys :: "bytes list" where
  "forbidden_top_level_keys = [''timestamp'']"

definition forbidden_meta_keys :: "bytes list" where
  "forbidden_meta_keys = [''max_retries'', ''attempts'', ''source'', ''ts'']"

definition header_replay_bypass :: bytes where
  "header_replay_bypass = ''bq-replay-bypass''"

subsection \<open>ASCII white space\<close>

definition ascii_whitespace :: bytes where
  "ascii_whitespace = [CHR 0x20, CHR 0x09, CHR 0x0A, CHR 0x0B, CHR 0x0C, CHR 0x0D]"

definition trim_ascii :: "bytes \<Rightarrow> bytes" where
  "trim_ascii s = trim_cutset ascii_whitespace s"

definition is_blank_ascii :: "bytes \<Rightarrow> bool" where
  "is_blank_ascii s \<longleftrightarrow> trim_ascii s = []"

lemma is_blank_ascii_iff: "is_blank_ascii s \<longleftrightarrow> set s \<subseteq> set ascii_whitespace"
  by (simp add: is_blank_ascii_def trim_ascii_def trim_cutset_eq_Nil_iff)

lemma is_blank_ascii_Nil [simp]: "is_blank_ascii []"
  by (simp add: is_blank_ascii_iff)

lemma trim_ascii_idem [simp]: "trim_ascii (trim_ascii s) = trim_ascii s"
  by (simp add: trim_ascii_def)

lemma is_blank_trim [simp]: "is_blank_ascii (trim_ascii s) = is_blank_ascii s"
  by (simp add: is_blank_ascii_def trim_ascii_def)

subsection \<open>The records\<close>

record meta =
  meta_id :: bytes
  meta_queue :: bytes
  meta_lang :: bytes
  meta_schema_version :: int
  meta_created_at :: int

record dead_letter =
  dl_reason :: bytes
  dl_error :: "bytes option"
  dl_exception :: "bytes option"
  dl_failed_at :: int
  dl_original_queue :: bytes
  dl_attempts :: int
  dl_lang :: bytes

record envelope =
  env_job :: bytes
  env_trace_id :: bytes
  env_data :: "goval smap option"
  env_meta :: meta
  env_attempts :: int
  env_dead_letter :: "dead_letter option"
  env_extras :: "json smap"
  env_meta_extras :: "json smap"
  env_warnings :: "bytes list"

definition zero_meta :: meta where
  "zero_meta =
     \<lparr>meta_id = [], meta_queue = [], meta_lang = [], meta_schema_version = 0, meta_created_at = 0\<rparr>"

definition zero_dead_letter :: dead_letter where
  "zero_dead_letter =
     \<lparr>dl_reason = [], dl_error = None, dl_exception = None, dl_failed_at = 0, dl_original_queue = [],
      dl_attempts = 0, dl_lang = []\<rparr>"

definition zero_envelope :: envelope where
  "zero_envelope =
     \<lparr>env_job = [], env_trace_id = [], env_data = None, env_meta = zero_meta, env_attempts = 0,
      env_dead_letter = None, env_extras = [], env_meta_extras = [], env_warnings = []\<rparr>"

subsection \<open>UUIDs\<close>

definition hex_byte :: "8 word \<Rightarrow> bytes" where
  "hex_byte b = [hex_digit (unat (drop_bit 4 b)), hex_digit (unat (b AND 0x0F))]"

definition hex_bytes :: "8 word list \<Rightarrow> bytes" where
  "hex_bytes bs = concat (map hex_byte bs)"

definition uuid_v4 :: "8 word list \<Rightarrow> bytes" where
  "uuid_v4 rnd =
     (let b = rnd[6 := (rnd ! 6 AND 0x0F) OR 0x40, 8 := (rnd ! 8 AND 0x3F) OR 0x80]
      in hex_bytes (take 4 b) @ ''-'' @ hex_bytes (take 2 (drop 4 b)) @ ''-'' @
         hex_bytes (take 2 (drop 6 b)) @ ''-'' @ hex_bytes (take 2 (drop 8 b)) @ ''-'' @
         hex_bytes (take 6 (drop 10 b)))"

subsection \<open>Make and its options\<close>

text \<open>The value of a \<open>WithMeta\<close> is what \<open>marshalCompact\<close> made of it: its tree, or the
  encoder's error.\<close>

datatype make_option =
    WithQueue bytes
  | WithTraceID bytes
  | WithMeta bytes "go_error + json"

record make_config =
  cfg_queue :: bytes
  cfg_trace_id :: bytes
  cfg_meta :: "json smap"
  cfg_meta_err :: "go_error option"

definition with_meta :: "bytes \<Rightarrow> go_error + json \<Rightarrow> make_config \<Rightarrow> make_config" where
  "with_meta key value c =
     (if cfg_meta_err c \<noteq> None then c
      else if key = [] then c\<lparr>cfg_meta_err := Some (plain_error ErrEmptyMetaKey)\<rparr>
      else if key \<in> set core_meta_keys
        then c\<lparr>cfg_meta_err := Some (wrap_error [] (plain_error ErrReservedMetaKey) ('': /meta/'' @ key))\<rparr>
      else if key \<in> set forbidden_meta_keys
        then c\<lparr>cfg_meta_err := Some (wrap_error [] (plain_error ErrForbiddenKey) ('': /meta/'' @ key))\<rparr>
      else if smap_get (cfg_meta c) key \<noteq> None
        then c\<lparr>cfg_meta_err := Some (wrap_error [] (plain_error ErrDuplicateMetaKey) ('': /meta/'' @ key))\<rparr>
      else (case value of
              Inl e \<Rightarrow> c\<lparr>cfg_meta_err := Some (wrap_error (''babelqueue: meta key /meta/'' @ key @ '': '') e [])\<rparr>
            | Inr raw \<Rightarrow> c\<lparr>cfg_meta := smap_put key raw (cfg_meta c)\<rparr>))"

fun apply_option :: "make_option \<Rightarrow> make_config \<Rightarrow> make_config" where
  "apply_option (WithQueue q) c = c\<lparr>cfg_queue := q\<rparr>"
| "apply_option (WithTraceID t) c = c\<lparr>cfg_trace_id := t\<rparr>"
| "apply_option (WithMeta key value) c = with_meta key value c"

definition default_config :: make_config where
  "default_config = \<lparr>cfg_queue = ''default'', cfg_trace_id = [], cfg_meta = [], cfg_meta_err = None\<rparr>"

definition Make ::
  "8 word list \<Rightarrow> 8 word list \<Rightarrow> int \<Rightarrow> bytes \<Rightarrow> goval smap option \<Rightarrow> make_option list
   \<Rightarrow> go_error + envelope" where
  "Make rnd1 rnd2 now urn data opts =
     (let u = trim_ascii urn; cfg = fold apply_option opts default_config in
      if u = [] then Inl (plain_error ErrEmptyURN)
      else (case cfg_meta_err cfg of
              Some e \<Rightarrow> Inl e
            | None \<Rightarrow>
                let t = trim_ascii (cfg_trace_id cfg) in
                Inr \<lparr>env_job = u,
                     env_trace_id = (if t = [] then uuid_v4 rnd1 else t),
                     env_data = Some (case data of None \<Rightarrow> [] | Some d \<Rightarrow> d),
                     env_meta = \<lparr>meta_id = uuid_v4 rnd2, meta_queue = cfg_queue cfg, meta_lang = source_lang,
                                 meta_schema_version = schema_version, meta_created_at = now\<rparr>,
                     env_attempts = 0, env_dead_letter = None, env_extras = [],
                     env_meta_extras = cfg_meta cfg, env_warnings = []\<rparr>))"

subsection \<open>Reading an envelope\<close>

definition warnings :: "envelope \<Rightarrow> bytes list" where
  "warnings e = env_warnings e"

definition urn :: "envelope \<Rightarrow> bytes" where
  "urn e = env_job e"

definition accepts :: "envelope \<Rightarrow> bool" where
  "accepts e =
     (if is_blank_ascii (env_job e) then False
      else if meta_schema_version (env_meta e) \<noteq> schema_version then False
      else if env_data e = None then False
      else if is_blank_ascii (env_trace_id e) then False
      else True)"

definition annotate :: "int \<Rightarrow> envelope \<Rightarrow> bytes \<Rightarrow> bytes \<Rightarrow> int \<Rightarrow> go_error option \<Rightarrow> envelope" where
  "annotate now e reason original_queue attempts cause =
     e\<lparr>env_dead_letter := Some
         \<lparr>dl_reason = reason,
          dl_error = map_option err_text cause,
          dl_exception = map_option err_type cause,
          dl_failed_at = now, dl_original_queue = original_queue, dl_attempts = attempts,
          dl_lang = source_lang\<rparr>\<rparr>"

subsection \<open>The delivery context\<close>

text \<open>What the runtime puts on the context of a delivery: the transport's headers and the replay
  marker.\<close>

record delivery_ctx =
  ctx_headers :: "bytes smap"
  ctx_replay :: bool

definition with_headers :: "bytes smap \<Rightarrow> delivery_ctx \<Rightarrow> delivery_ctx" where
  "with_headers h c = (if h = [] then c else c\<lparr>ctx_headers := h\<rparr>)"

definition headers_from_context :: "delivery_ctx \<Rightarrow> bytes smap" where
  "headers_from_context c = ctx_headers c"

definition with_replay :: "delivery_ctx \<Rightarrow> delivery_ctx" where
  "with_replay c = c\<lparr>ctx_replay := True\<rparr>"

definition is_replay :: "delivery_ctx \<Rightarrow> bool" where
  "is_replay c = ctx_replay c"

definition bypass_external_effects ::
  "delivery_ctx \<Rightarrow> ('w \<Rightarrow> go_error option \<times> 'w) \<Rightarrow> 'w \<Rightarrow> go_error option \<times> 'w" where
  "bypass_external_effects c fn w = (if is_replay c then (None, w) else fn w)"

end
