(* ===== verification/Codec.thy ===== *)
theory Codec
  imports Envelope
begin

section \<open>The envelope codec\<close>

text \<open>
  \<open>envelope_codec.go\<close> with \<open>Encode\<close> and \<open>Decode\<close> of \<open>envelope.go\<close>. Encoding is byte for
  byte the code's: the meta object and the frame are written as text, the unknown members are
  inserted before the closing brace (\<open>append_raw_fields\<close>), and the encoder's \<open>compact\<close> reads the
  result once more. Decoding folds the members of the document over the state of the closure in
  \<open>decodeEnvelope\<close>.

  \<open>stx\<close> gives the text of the \<open>*json.SyntaxError\<close> for an invalid document; nothing depends on
  it but that text.
\<close>

subsection \<open>Writing\<close>

definition json_str :: "bytes \<Rightarrow> json" where
  "json_str s = JStr (quote s)"

definition json_int :: "int \<Rightarrow> json" where
  "json_int n = JNum (int_text n)"

definition json_opt_str :: "bytes option \<Rightarrow> json" where
  "json_opt_str o' = (case o' of None \<Rightarrow> JNull | Some s \<Rightarrow> json_str s)"

definition meta_members :: "meta \<Rightarrow> (bytes \<times> json) list" where
  "meta_members m =
     [(''id'', json_str (meta_id m)), (''queue'', json_str (meta_queue m)), (''lang'', json_str (meta_lang m)),
      (''schema_version'', json_int (meta_schema_version m)), (''created_at'', json_int (meta_created_at m))]"

definition dead_letter_json :: "dead_letter \<Rightarrow> json" where
  "dead_letter_json d =
     JObj [(''reason'', json_str (dl_reason d)), (''error'', json_opt_str (dl_error d)),
           (''exception'', json_opt_str (dl_exception d)), (''failed_at'', json_int (dl_failed_at d)),
           (''original_queue'', json_str (dl_original_queue d)), (''attempts'', json_int (dl_attempts d)),
           (''lang'', json_str (dl_lang d))]"

definition data_json :: "goval smap option \<Rightarrow> json" where
  "data_json d = (case d of None \<Rightarrow> JNull | Some m \<Rightarrow> json_of_any (GObj m))"

definition syntax_error :: "(bytes \<Rightarrow> bytes) \<Rightarrow> bytes \<Rightarrow> go_error" where
  "syntax_error stx raw = \<lparr>err_is = [], err_text = stx raw, err_type = ''*json.SyntaxError''\<rparr>"

definition marshaler_error :: "bytes \<Rightarrow> go_error \<Rightarrow> go_error" where
  "marshaler_error ty e =
     \<lparr>err_is = err_is e, err_text = ''json: error calling MarshalJSON for type '' @ ty @ '': '' @ err_text e,
      err_type = ''*json.MarshalerError''\<rparr>"

definition compact :: "(bytes \<Rightarrow> bytes) \<Rightarrow> bytes \<Rightarrow> bytes \<Rightarrow> go_error + bytes" where
  "compact stx ty raw =
     (case json_parse raw of
        None \<Rightarrow> Inl (marshaler_error ty (syntax_error stx raw))
      | Some v \<Rightarrow> Inr (json_print v))"

fun raw_fields :: "bool \<Rightarrow> json smap \<Rightarrow> bytes" where
  "raw_fields first [] = []"
| "raw_fields first ((k, v) # m) =
     (if first then [] else '','') @ print_str (quote k) @ '':'' @ json_print v @ raw_fields False m"

definition append_raw_fields :: "bytes \<Rightarrow> json smap \<Rightarrow> bytes" where
  "append_raw_fields obj fs =
     (if fs = [] then obj
      else butlast obj @ raw_fields (length obj = 2) fs @ ''}'')"

definition check_extras :: "envelope \<Rightarrow> go_error option" where
  "check_extras e =
     (case find (\<lambda>k. k \<in> set forbidden_top_level_keys \<or> k = ''urn'') (smap_keys (env_extras e)) of
        Some k \<Rightarrow> Some (wrap_error [] (plain_error ErrForbiddenKey) ('': /'' @ k))
      | None \<Rightarrow>
          (case find (\<lambda>k. k \<in> set forbidden_meta_keys \<or> k \<in> set core_meta_keys) (smap_keys (env_meta_extras e)) of
             Some k \<Rightarrow>
               Some (wrap_error []
                 (plain_error (if k \<in> set forbidden_meta_keys then ErrForbiddenKey else ErrReservedMetaKey))
                 ('': /meta/'' @ k))
           | None \<Rightarrow> None))"

definition envelope_wire :: "envelope \<Rightarrow> bytes \<Rightarrow> bytes" where
  "envelope_wire e meta_raw =
     ''{'' @ intersperse '',''
       ([print_str ''job'' @ '':'' @ json_print (json_str (env_job e)),
         print_str ''trace_id'' @ '':'' @ json_print (json_str (env_trace_id e)),
         print_str ''data'' @ '':'' @ json_print (data_json (env_data e)),
         print_str ''meta'' @ '':'' @ meta_raw,
         print_str ''attempts'' @ '':'' @ json_print (json_int (env_attempts e))]
        @ (case env_dead_letter e of None \<Rightarrow> []
           | Some d \<Rightarrow> [print_str ''dead_letter'' @ '':'' @ json_print (dead_letter_json d)])) @ ''}''"

definition marshal_json :: "(bytes \<Rightarrow> bytes) \<Rightarrow> envelope \<Rightarrow> go_error + bytes" where
  "marshal_json stx e =
     (case check_extras e of
        Some err \<Rightarrow> Inl err
      | None \<Rightarrow>
          sbind (compact stx ''json.RawMessage''
                   (append_raw_fields (json_print (JObj (meta_members (env_meta e)))) (env_meta_extras e)))
            (\<lambda>meta_raw. Inr (append_raw_fields (envelope_wire e meta_raw) (env_extras e))))"

definition encode :: "(bytes \<Rightarrow> bytes) \<Rightarrow> envelope \<Rightarrow> go_error + bytes" where
  "encode stx e =
     (case marshal_json stx e of
        Inl err \<Rightarrow> Inl (marshaler_error ''babelqueue.Envelope'' err)
      | Inr body \<Rightarrow> compact stx ''babelqueue.Envelope'' body)"

subsection \<open>Reading the blocks\<close>

record meta_state =
  ms_meta :: meta
  ms_extras :: "json smap"
  ms_forbidden :: "bytes list"

definition meta_member :: "bytes \<Rightarrow> json \<Rightarrow> meta_state \<Rightarrow> go_error + meta_state" where
  "meta_member name v s =
     (if name = ''id'' then sbind (assign_string v) (\<lambda>x. Inr (s\<lparr>ms_meta := (ms_meta s)\<lparr>meta_id := x\<rparr>\<rparr>))
      else if name = ''queue'' then sbind (assign_string v) (\<lambda>x. Inr (s\<lparr>ms_meta := (ms_meta s)\<lparr>meta_queue := x\<rparr>\<rparr>))
      else if name = ''lang'' then sbind (assign_string v) (\<lambda>x. Inr (s\<lparr>ms_meta := (ms_meta s)\<lparr>meta_lang := x\<rparr>\<rparr>))
      else if name = ''schema_version''
        then sbind (assign_int ''int'' v) (\<lambda>n. Inr (s\<lparr>ms_meta := (ms_meta s)\<lparr>meta_schema_version := n\<rparr>\<rparr>))
      else if name = ''created_at''
        then sbind (assign_int ''int64'' v) (\<lambda>n. Inr (s\<lparr>ms_meta := (ms_meta s)\<lparr>meta_created_at := n\<rparr>\<rparr>))
      else if name \<in> set forbidden_meta_keys then Inr (s\<lparr>ms_forbidden := ms_forbidden s @ [name]\<rparr>)
      else Inr (s\<lparr>ms_extras := smap_put name v (ms_extras s)\<rparr>))"

definition decode_meta :: "json \<Rightarrow> go_error + meta_state" where
  "decode_meta v =
     for_each_member meta_member v \<lparr>ms_meta = zero_meta, ms_extras = [], ms_forbidden = []\<rparr>"

definition dead_letter_member :: "bytes \<Rightarrow> json \<Rightarrow> dead_letter \<Rightarrow> go_error + dead_letter" where
  "dead_letter_member name v d =
     (if name = ''reason'' then sbind (assign_string v) (\<lambda>x. Inr (d\<lparr>dl_reason := x\<rparr>))
      else if name = ''error'' then sbind (assign_string_ptr v) (\<lambda>x. Inr (d\<lparr>dl_error := x\<rparr>))
      else if name = ''exception'' then sbind (assign_string_ptr v) (\<lambda>x. Inr (d\<lparr>dl_exception := x\<rparr>))
      else if name = ''failed_at'' then sbind (assign_int ''int64'' v) (\<lambda>n. Inr (d\<lparr>dl_failed_at := n\<rparr>))
      else if name = ''original_queue'' then sbind (assign_string v) (\<lambda>x. Inr (d\<lparr>dl_original_queue := x\<rparr>))
      else if name = ''attempts'' then sbind (assign_int ''int'' v) (\<lambda>n. Inr (d\<lparr>dl_attempts := n\<rparr>))
      else if name = ''lang'' then sbind (assign_string v) (\<lambda>x. Inr (d\<lparr>dl_lang := x\<rparr>))
      else Inr d)"

definition decode_dead_letter :: "json \<Rightarrow> go_error + dead_letter" where
  "decode_dead_letter v = for_each_member dead_letter_member v zero_dead_letter"

text \<open>\<open>UnmarshalJSON\<close> of the two types, over the value that is there already; a \<open>null\<close> leaves it as it is.\<close>

definition meta_unmarshal :: "json \<Rightarrow> meta \<Rightarrow> go_error + meta" where
  "meta_unmarshal v m = (if v = JNull then Inr m else sbind (decode_meta v) (\<lambda>s. Inr (ms_meta s)))"

definition dead_letter_unmarshal :: "json \<Rightarrow> dead_letter \<Rightarrow> go_error + dead_letter" where
  "dead_letter_unmarshal v d = (if v = JNull then Inr d else decode_dead_letter v)"

subsection \<open>Reading the envelope\<close>

text \<open>The variables the closure of \<open>decodeEnvelope\<close> assigns. A \<open>map[string]bool\<close> used as a set
  is a key-sorted map to unit.\<close>

record dec_state =
  ds_env :: envelope
  ds_alias :: bytes
  ds_alias_is_string :: bool
  ds_urn_seen :: bool
  ds_job_ignored :: bool
  ds_forbidden :: "unit smap"
  ds_meta_forbidden :: "unit smap"
  ds_extras :: "json smap"
  ds_meta_extras :: "json smap"

definition dec_init :: dec_state where
  "dec_init =
     \<lparr>ds_env = zero_envelope, ds_alias = [], ds_alias_is_string = False, ds_urn_seen = False,
      ds_job_ignored = False, ds_forbidden = [], ds_meta_forbidden = [], ds_extras = [], ds_meta_extras = []\<rparr>"

definition json_string :: "json \<Rightarrow> bytes option" where
  "json_string v = (case v of JStr b \<Rightarrow> Some (unquote b) | _ \<Rightarrow> None)"

definition member_meta :: "json \<Rightarrow> dec_state \<Rightarrow> go_error + dec_state" where
  "member_meta v s =
     (if v = JNull
      then Inr (s\<lparr>ds_env := (ds_env s)\<lparr>env_meta := zero_meta\<rparr>, ds_meta_extras := [], ds_meta_forbidden := []\<rparr>)
      else sbind (decode_meta v) (\<lambda>m.
             Inr (s\<lparr>ds_env := (ds_env s)\<lparr>env_meta := ms_meta m\<rparr>, ds_meta_extras := ms_extras m,
                   ds_meta_forbidden := smap_of (map (\<lambda>k. (k, ())) (ms_forbidden m)) []\<rparr>)))"

definition member_dead_letter :: "json \<Rightarrow> dec_state \<Rightarrow> go_error + dec_state" where
  "member_dead_letter v s =
     (if v = JNull then Inr (s\<lparr>ds_env := (ds_env s)\<lparr>env_dead_letter := None\<rparr>\<rparr>)
      else sbind (decode_dead_letter v) (\<lambda>d. Inr (s\<lparr>ds_env := (ds_env s)\<lparr>env_dead_letter := Some d\<rparr>\<rparr>)))"

definition decode_member :: "bytes \<Rightarrow> json \<Rightarrow> dec_state \<Rightarrow> go_error + dec_state" where
  "decode_member name v s =
     (if name = ''job'' then
        Inr (s\<lparr>ds_env := (ds_env s)\<lparr>env_job := case_option [] (\<lambda>x. x) (json_string v)\<rparr>,
              ds_job_ignored := (json_string v = None)\<rparr>)
      else if name = ''trace_id'' then
        sbind (assign_string v) (\<lambda>x. Inr (s\<lparr>ds_env := (ds_env s)\<lparr>env_trace_id := x\<rparr>\<rparr>))
      else if name = ''data'' then
        sbind (assign_data v) (\<lambda>x. Inr (s\<lparr>ds_env := (ds_env s)\<lparr>env_data := x\<rparr>\<rparr>))
      else if name = ''attempts'' then
        sbind (assign_int ''int'' v) (\<lambda>n. Inr (s\<lparr>ds_env := (ds_env s)\<lparr>env_attempts := n\<rparr>\<rparr>))
      else if name = ''meta'' then member_meta v s
      else if name = ''dead_letter'' then member_dead_letter v s
      else if name = ''urn'' then
        Inr (s\<lparr>ds_alias := case_option [] (\<lambda>x. x) (json_string v),
              ds_alias_is_string := (json_string v \<noteq> None), ds_urn_seen := True\<rparr>)
      else if name \<in> set forbidden_top_level_keys then
        Inr (s\<lparr>ds_forbidden := smap_put name () (ds_forbidden s)\<rparr>)
      else Inr (s\<lparr>ds_extras := smap_put name v (ds_extras s)\<rparr>))"

definition forbidden_warnings :: "unit smap \<Rightarrow> bytes \<Rightarrow> bytes list" where
  "forbidden_warnings keys prefix =
     map (\<lambda>k. ''babelqueue: dropped forbidden non-canonical envelope key '' @ prefix @ k
              @ '' (message-envelope.md '' @ section_sign @ ''10)'') (smap_keys keys)"

definition job_ignored_warning :: bytes where
  "job_ignored_warning =
     ''babelqueue: ignored non-string envelope key /job (ADR-0032 '' @ section_sign @ ''6)''"

text \<open>What \<open>decodeEnvelope\<close> does after the members: the alias, the extras, the warnings.\<close>

definition dec_finish :: "dec_state \<Rightarrow> envelope \<times> go_error option" where
  "dec_finish s =
     (let blank = is_blank_ascii (env_job (ds_env s));
          forbidden = (if ds_urn_seen s \<and> \<not> (blank \<and> ds_alias_is_string s)
                       then smap_put ''urn'' () (ds_forbidden s) else ds_forbidden s);
          job = (if ds_alias_is_string s \<and> blank then ds_alias s else env_job (ds_env s));
          env = (ds_env s)\<lparr>env_job := job, env_extras := ds_extras s, env_meta_extras := ds_meta_extras s,
                  env_warnings := (if ds_job_ignored s then [job_ignored_warning] else [])
                    @ forbidden_warnings forbidden ''/'' @ forbidden_warnings (ds_meta_forbidden s) ''/meta/''\<rparr>
      in if is_blank_ascii job then (env, Some (plain_error ErrNoIdentity)) else (env, None))"

text \<open>\<open>bytes.TrimSpace\<close> trims the Unicode white space; \<open>space_len\<close> is the length of the space a
  string starts with.\<close>

definition space_len :: "bytes \<Rightarrow> nat" where
  "space_len s =
     (case s of
        [] \<Rightarrow> 0
      | a # r \<Rightarrow>
          if a \<in> set ascii_whitespace then 1
          else if byte a = 0xC2 then (case r of b # _ \<Rightarrow> if byte b \<in> {0x85, 0xA0} then 2 else 0 | _ \<Rightarrow> 0)
          else (case r of
                  b # c # _ \<Rightarrow>
                    if byte a = 0xE1 \<and> byte b = 0x9A \<and> byte c = 0x80 \<or>
                       byte a = 0xE2 \<and> byte b = 0x80 \<and> (0x80 \<le> byte c \<and> byte c \<le> 0x8A \<or> byte c \<in> {0xA8, 0xA9, 0xAF}) \<or>
                       byte a = 0xE2 \<and> byte b = 0x81 \<and> byte c = 0x9F \<or>
                       byte a = 0xE3 \<and> byte b = 0x80 \<and> byte c = 0x80
                    then 3 else 0
                | _ \<Rightarrow> 0))"

function trim_space_left :: "bytes \<Rightarrow> bytes" where
  "trim_space_left s = (if space_len s = 0 then s else trim_space_left (drop (space_len s) s))"
  by auto
termination
proof (relation "measure length")
  fix s
  assume s: "space_len s \<noteq> 0"
  have "s \<noteq> []"
  proof
    assume "s = []"
    then have "space_len s = 0" by (simp add: space_len_def)
    with s show False by contradiction
  qed
  with s show "(drop (space_len s) s, s) \<in> measure length" by simp
qed simp

declare trim_space_left.simps [simp del]

text \<open>Trimming both ends leaves \<open>null\<close> exactly when \<open>null\<close> stands between spaces.\<close>

definition is_json_null :: "bytes \<Rightarrow> bool" where
  "is_json_null raw \<longleftrightarrow>
     (let t = trim_space_left raw in take 4 t = ''null'' \<and> trim_space_left (drop 4 t) = [])"

definition decode_envelope :: "(bytes \<Rightarrow> bytes) \<Rightarrow> bytes \<Rightarrow> envelope \<times> go_error option" where
  "decode_envelope stx raw =
     (case json_parse raw of
        None \<Rightarrow> (zero_envelope, Some (syntax_error stx raw))
      | Some doc \<Rightarrow>
          if is_json_null raw then (zero_envelope, None)
          else (case for_each_member decode_member doc dec_init of
                  Inl e \<Rightarrow> (zero_envelope, Some e)
                | Inr s \<Rightarrow> dec_finish s))"

definition decode :: "(bytes \<Rightarrow> bytes) \<Rightarrow> bytes \<Rightarrow> envelope \<times> go_error option" where
  "decode stx raw =
     (if is_json_null raw then (zero_envelope, Some (plain_error ErrNoIdentity))
      else decode_envelope stx raw)"

text \<open>\<open>UnmarshalJSON\<close> overwrites the receiver unless decoding failed for another reason than a
  missing identity.\<close>

definition unmarshal_json :: "(bytes \<Rightarrow> bytes) \<Rightarrow> bytes \<Rightarrow> envelope \<Rightarrow> envelope \<times> go_error option" where
  "unmarshal_json stx raw old =
     (case decode_envelope stx raw of
        (env, None) \<Rightarrow> (env, None)
      | (env, Some e) \<Rightarrow> if errors_is e ErrNoIdentity then (env, Some e) else (old, Some e))"

subsection \<open>What is written\<close>

definition fields_json :: "json smap \<Rightarrow> (bytes \<times> json) list" where
  "fields_json fs = map (\<lambda>(k, v). (quote k, v)) fs"

definition meta_json :: "envelope \<Rightarrow> json" where
  "meta_json e = JObj (meta_members (env_meta e) @ fields_json (env_meta_extras e))"

definition envelope_json :: "envelope \<Rightarrow> json" where
  "envelope_json e =
     JObj ([(''job'', json_str (env_job e)), (''trace_id'', json_str (env_trace_id e)),
            (''data'', data_json (env_data e)), (''meta'', meta_json e), (''attempts'', json_int (env_attempts e))]
           @ (case env_dead_letter e of None \<Rightarrow> [] | Some d \<Rightarrow> [(''dead_letter'', dead_letter_json d)])
           @ fields_json (env_extras e))"

abbreviation member_text :: "bytes \<times> json \<Rightarrow> bytes" where
  "member_text \<equiv> \<lambda>(k, v). print_str k @ '':'' @ json_print v"

lemma intersperse_append:
  "xs \<noteq> [] \<Longrightarrow> ys \<noteq> [] \<Longrightarrow> intersperse sep (xs @ ys) = intersperse sep xs @ sep @ intersperse sep ys"
proof (induction xs rule: induct_list012)
  case (2 x)
  then show ?case by (cases ys) auto
qed auto

lemma raw_fields_False:
  "fs \<noteq> [] \<Longrightarrow> raw_fields False fs = '','' @ intersperse '','' (map member_text (fields_json fs))"
proof (induction fs rule: induct_list012)
  case (3 a b m)
  then show ?case by (cases a; cases b) (simp add: fields_json_def)
qed (auto simp: fields_json_def)

lemma raw_fields_True:
  "raw_fields True fs = intersperse '','' (map member_text (fields_json fs))"
proof (cases fs rule: remdups_adj.cases)
  case (3 a b m)
  then show ?thesis using raw_fields_False [of "b # m"] by (cases a; cases b) (simp add: fields_json_def)
qed (auto simp: fields_json_def)

text \<open>Inserting members before the closing brace of a printed object is appending them to the
  object.\<close>

lemma append_raw_fields_print:
  "append_raw_fields (json_print (JObj ms)) fs = json_print (JObj (ms @ fields_json fs))"
proof (cases "fs = []")
  case False
  have bl: "butlast (json_print (JObj ms)) = ''{'' @ intersperse '','' (map member_text ms)"
    by (simp add: butlast_append)
  show ?thesis
  proof (cases "ms = []")
    case True
    then show ?thesis using False raw_fields_True [of fs] by (simp add: append_raw_fields_def)
  next
    case ms: False
    then obtain k v ms' where m: "ms = (k, v) # ms'" by (cases ms) auto
    have "length (json_print (JObj ms)) \<noteq> 2"
      using m intersperse_hd [of "member_text (k, v)" "'',''" "map member_text ms'"]
      by (cases ms') (auto simp: print_str_def)
    then show ?thesis
      using False ms raw_fields_False [OF False] bl
        intersperse_append [of "map member_text ms" "map member_text (fields_json fs)" "'',''"]
      by (simp add: append_raw_fields_def fields_json_def)
  qed
qed (simp add: append_raw_fields_def fields_json_def)

lemma compact_print: "json_ok 0 v \<Longrightarrow> compact stx ty (json_print v) = Inr (json_print v)"
  by (simp add: compact_def json_parse_print)

lemma envelope_wire_print:
  "append_raw_fields (envelope_wire e (json_print (meta_json e))) (env_extras e) = json_print (envelope_json e)"
proof -
  have "envelope_wire e (json_print (meta_json e)) = json_print
      (JObj ([(''job'', json_str (env_job e)), (''trace_id'', json_str (env_trace_id e)),
            (''data'', data_json (env_data e)), (''meta'', meta_json e), (''attempts'', json_int (env_attempts e))]
           @ (case env_dead_letter e of None \<Rightarrow> [] | Some d \<Rightarrow> [(''dead_letter'', dead_letter_json d)])))"
    by (simp add: envelope_wire_def split: option.split)
  then show ?thesis by (simp only: append_raw_fields_print envelope_json_def append_assoc)
qed

text \<open>Encoding succeeds exactly when no forbidden key is carried and the tree is a document the
  encoder's own scanner accepts; then it writes that tree.\<close>

theorem encode_tree:
  assumes "check_extras e = None" and "json_ok 0 (envelope_json e)"
  shows "encode stx e = Inr (json_print (envelope_json e))"
proof -
  have m: "json_ok 0 (meta_json e)"
    using assms(2) json_ok_mono [of 1 "meta_json e" 0] by (simp add: envelope_json_def)
  have "marshal_json stx e = Inr (json_print (envelope_json e))"
    unfolding marshal_json_def assms(1) option.case append_raw_fields_print meta_json_def [symmetric]
      compact_print [OF m] sbind.simps envelope_wire_print by (rule refl)
  then show ?thesis using assms(2) by (simp add: encode_def compact_print)
qed

subsection \<open>Well-formed envelopes\<close>

definition top_level_keys :: "bytes list" where
  "top_level_keys =
     [''job'', ''trace_id'', ''data'', ''attempts'', ''meta'', ''dead_letter'', ''urn''] @ forbidden_top_level_keys"

definition fields_ok :: "bytes list \<Rightarrow> nat \<Rightarrow> json smap \<Rightarrow> bool" where
  "fields_ok ban d fs \<longleftrightarrow> smap_ok fs \<and> (\<forall>(k, v) \<in> set fs. utf8_ok k \<and> k \<notin> set ban \<and> json_ok d v)"

definition meta_ok :: "meta \<Rightarrow> bool" where
  "meta_ok m \<longleftrightarrow> utf8_ok (meta_id m) \<and> utf8_ok (meta_queue m) \<and> utf8_ok (meta_lang m)
     \<and> int64_ok (meta_schema_version m) \<and> int64_ok (meta_created_at m)"

definition dead_letter_ok :: "dead_letter \<Rightarrow> bool" where
  "dead_letter_ok d \<longleftrightarrow> utf8_ok (dl_reason d) \<and> utf8_ok (case_option [] (\<lambda>x. x) (dl_error d))
     \<and> utf8_ok (case_option [] (\<lambda>x. x) (dl_exception d)) \<and> int64_ok (dl_failed_at d)
     \<and> utf8_ok (dl_original_queue d) \<and> int64_ok (dl_attempts d) \<and> utf8_ok (dl_lang d)"

text \<open>Every envelope decoding can produce, identity or not: valid UTF-8, 64-bit integers, data as
  \<open>json.Unmarshal\<close> builds it, extras without known keys, all within the depth limit.\<close>

definition envelope_ok :: "envelope \<Rightarrow> bool" where
  "envelope_ok e \<longleftrightarrow> utf8_ok (env_job e) \<and> utf8_ok (env_trace_id e)
     \<and> goval_ok (case_option GNull GObj (env_data e)) \<and> json_ok 1 (data_json (env_data e))
     \<and> meta_ok (env_meta e) \<and> int64_ok (env_attempts e)
     \<and> dead_letter_ok (case_option zero_dead_letter (\<lambda>d. d) (env_dead_letter e))
     \<and> fields_ok top_level_keys 1 (env_extras e)
     \<and> fields_ok (core_meta_keys @ forbidden_meta_keys) 2 (env_meta_extras e)"

lemma json_ok_str [simp]: "json_ok d (json_str s)"
  by (simp add: json_str_def body_ok_quote)

lemma json_ok_int [simp]: "json_ok d (json_int n)"
  by (simp add: json_int_def)

lemma json_ok_opt_str [simp]: "json_ok d (json_opt_str s)"
  by (simp add: json_opt_str_def split: option.split)

lemma body_ok_ascii [simp]:
  "body_ok ''job''" "body_ok ''trace_id''" "body_ok ''data''" "body_ok ''meta''" "body_ok ''attempts''"
  "body_ok ''dead_letter''" "body_ok ''id''" "body_ok ''queue''" "body_ok ''lang''" "body_ok ''schema_version''"
  "body_ok ''created_at''" "body_ok ''reason''" "body_ok ''error''" "body_ok ''exception''" "body_ok ''failed_at''"
  "body_ok ''original_queue''"
  by (simp_all add: plain_byte_def)

lemma json_ok_fields: "fields_ok ban d fs \<Longrightarrow> (k, v) \<in> set (fields_json fs) \<Longrightarrow> body_ok k \<and> json_ok d v"
  by (auto simp: fields_ok_def fields_json_def body_ok_quote)

lemma max_depth_gt: "0 < max_depth" "Suc 0 < max_depth" "1 < max_depth" "2 < max_depth"
  by (simp_all add: max_depth_def)

lemma json_ok_dead_letter: "json_ok 1 (dead_letter_json d)"
  by (simp add: dead_letter_json_def max_depth_gt)

lemma json_ok_meta: "fields_ok ban 2 (env_meta_extras e) \<Longrightarrow> json_ok 1 (meta_json e)"
  using json_ok_fields [of ban 2 "env_meta_extras e"]
  by (auto simp: meta_json_def meta_members_def max_depth_gt numeral_2_eq_2)

lemma json_ok_envelope:
  assumes "envelope_ok e"
  shows "json_ok 0 (envelope_json e)"
proof -
  have "json_ok 1 (meta_json e)" "json_ok 1 (data_json (env_data e))"
    using assms json_ok_meta by (auto simp: envelope_ok_def)
  moreover have "\<forall>(k, v) \<in> set (fields_json (env_extras e)). body_ok k \<and> json_ok 1 v"
    using json_ok_fields assms by (auto simp: envelope_ok_def)
  ultimately show ?thesis using json_ok_dead_letter
    by (auto simp: envelope_json_def max_depth_gt split: option.split)
qed

lemma check_extras_None:
  "fields_ok top_level_keys d (env_extras e) \<Longrightarrow>
   fields_ok (core_meta_keys @ forbidden_meta_keys) d' (env_meta_extras e) \<Longrightarrow> check_extras e = None"
proof -
  assume a: "fields_ok top_level_keys d (env_extras e)"
    and b: "fields_ok (core_meta_keys @ forbidden_meta_keys) d' (env_meta_extras e)"
  have "find (\<lambda>k. k \<in> set forbidden_top_level_keys \<or> k = ''urn'') (smap_keys (env_extras e)) = None"
    using a by (auto simp: find_None_iff fields_ok_def top_level_keys_def)
  moreover have "find (\<lambda>k. k \<in> set forbidden_meta_keys \<or> k \<in> set core_meta_keys) (smap_keys (env_meta_extras e)) = None"
    using b by (auto simp: find_None_iff fields_ok_def)
  ultimately show "check_extras e = None" by (simp add: check_extras_def)
qed

theorem encode_ok: "envelope_ok e \<Longrightarrow> encode stx e = Inr (json_print (envelope_json e))"
  by (rule encode_tree) (auto simp: envelope_ok_def check_extras_None intro: json_ok_envelope)

subsection \<open>Decoding what was encoded\<close>

lemma utf8_ok_ascii [simp]:
  "utf8_ok ''job''" "utf8_ok ''trace_id''" "utf8_ok ''data''" "utf8_ok ''meta''" "utf8_ok ''attempts''"
  "utf8_ok ''dead_letter''" "utf8_ok ''id''" "utf8_ok ''queue''" "utf8_ok ''lang''" "utf8_ok ''schema_version''"
  "utf8_ok ''created_at''" "utf8_ok ''reason''" "utf8_ok ''error''" "utf8_ok ''exception''" "utf8_ok ''failed_at''"
  "utf8_ok ''original_queue''"
  by simp_all

lemma unquote_plain:
  "list_all (\<lambda>c. byte c < 0x80 \<and> c \<noteq> bslash) s \<Longrightarrow> unquote s = s"
proof (induction s)
  case (Cons c s)
  then have "unquote ([c] @ s) = [c] @ unquote s" by (intro unquote_good) (auto simp: utf8_len.simps utf8_lead_def)
  then show ?case using Cons by simp
qed simp

lemma unquote_low [simp]:
  "unquote ''job'' = ''job''" "unquote ''trace_id'' = ''trace_id''" "unquote ''data'' = ''data''"
  "unquote ''meta'' = ''meta''" "unquote ''attempts'' = ''attempts''" "unquote ''dead_letter'' = ''dead_letter''"
  "unquote ''id'' = ''id''" "unquote ''queue'' = ''queue''" "unquote ''lang'' = ''lang''"
  "unquote ''schema_version'' = ''schema_version''" "unquote ''created_at'' = ''created_at''"
  "unquote ''reason'' = ''reason''" "unquote ''error'' = ''error''" "unquote ''exception'' = ''exception''"
  "unquote ''failed_at'' = ''failed_at''" "unquote ''original_queue'' = ''original_queue''"
  by (intro unquote_plain; simp)+

lemma assign_written [simp]:
  "utf8_ok s \<Longrightarrow> assign_string (json_str s) = Inr s"
  "utf8_ok (case_option [] (\<lambda>x. x) p) \<Longrightarrow> assign_string_ptr (json_opt_str p) = Inr p"
  "int64_ok n \<Longrightarrow> assign_int ty (json_int n) = Inr n"
  "utf8_ok s \<Longrightarrow> json_string (json_str s) = Some s"
  by (auto simp: assign_string_def assign_string_ptr_def assign_int_def json_str_def json_opt_str_def json_int_def
    unquote_quote_id parse_int_text json_string_def split: option.split)

lemma assign_data_obj: "any_of_json (JObj ms) = Some (GObj m) \<Longrightarrow> assign_data (JObj ms) = Inr (Some m)"
  unfolding assign_data_def json.case by (simp only: option.case goval.case)

lemma assign_data_written:
  "goval_ok (case_option GNull GObj d) \<Longrightarrow> assign_data (data_json d) = Inr d"
proof (cases d)
  case (Some m)
  moreover assume "goval_ok (case_option GNull GObj d)"
  ultimately have "any_of_json (json_of_any (GObj m)) = Some (GObj m)" by (intro any_of_json_of_any) simp
  then have "assign_data (json_of_any (GObj m)) = Inr (Some m)"
    unfolding json_of_any.simps by (rule assign_data_obj)
  then show ?thesis using Some by (simp only: data_json_def option.case)
qed (simp add: assign_data_def data_json_def)

lemma decode_dead_letter_written: "dead_letter_ok d \<Longrightarrow> decode_dead_letter (dead_letter_json d) = Inr d"
  by (simp add: decode_dead_letter_def dead_letter_json_def for_each_member_def dead_letter_member_def dead_letter_ok_def
    zero_dead_letter_def)

lemma fold_meta_extras:
  assumes "\<forall>(k, v) \<in> set fs. utf8_ok k \<and> k \<notin> set (core_meta_keys @ forbidden_meta_keys)"
  shows "fold_members meta_member (fields_json fs) s = Inr (s\<lparr>ms_extras := smap_of fs (ms_extras s)\<rparr>)"
  using assms
proof (induction fs arbitrary: s)
  case (Cons kv fs)
  obtain k v where kv: "kv = (k, v)" by fastforce
  have "meta_member k v s = Inr (s\<lparr>ms_extras := smap_put k v (ms_extras s)\<rparr>)"
    using Cons.prems kv by (simp add: meta_member_def core_meta_keys_def)
  then show ?case using Cons kv by (simp add: fields_json_def unquote_quote_id)
qed (simp add: fields_json_def)

lemma decode_meta_written:
  assumes "meta_ok (env_meta e)" and "fields_ok (core_meta_keys @ forbidden_meta_keys) d (env_meta_extras e)"
  shows "decode_meta (meta_json e) = Inr \<lparr>ms_meta = env_meta e, ms_extras = env_meta_extras e, ms_forbidden = []\<rparr>"
proof -
  have "fold_members meta_member (meta_members (env_meta e)) \<lparr>ms_meta = zero_meta, ms_extras = [], ms_forbidden = []\<rparr>
        = Inr \<lparr>ms_meta = env_meta e, ms_extras = [], ms_forbidden = []\<rparr>"
    using assms(1) by (simp add: meta_members_def meta_member_def meta_ok_def zero_meta_def)
  moreover have "\<forall>(k, v) \<in> set (env_meta_extras e). utf8_ok k \<and> k \<notin> set (core_meta_keys @ forbidden_meta_keys)"
    "smap_ok (env_meta_extras e)"
    using assms(2) by (auto simp: fields_ok_def)
  ultimately show ?thesis
    by (simp add: decode_meta_def for_each_member_def meta_json_def fold_members_append fold_meta_extras smap_of_id
      del: set_append)
qed

lemma unmarshal_written:
  "meta_ok (env_meta e) \<Longrightarrow> fields_ok (core_meta_keys @ forbidden_meta_keys) d (env_meta_extras e) \<Longrightarrow>
     meta_unmarshal (meta_json e) m = Inr (env_meta e)"
  "dead_letter_ok dl \<Longrightarrow> dead_letter_unmarshal (dead_letter_json dl) dl' = Inr dl"
  using decode_meta_written [of e d] decode_dead_letter_written [of dl]
  by (simp_all add: meta_unmarshal_def dead_letter_unmarshal_def meta_json_def dead_letter_json_def)

lemma fold_extras:
  assumes "\<forall>(k, v) \<in> set fs. utf8_ok k \<and> k \<notin> set top_level_keys"
  shows "fold_members decode_member (fields_json fs) s = Inr (s\<lparr>ds_extras := smap_of fs (ds_extras s)\<rparr>)"
  using assms
proof (induction fs arbitrary: s)
  case (Cons kv fs)
  obtain k v where kv: "kv = (k, v)" by fastforce
  have "decode_member k v s = Inr (s\<lparr>ds_extras := smap_put k v (ds_extras s)\<rparr>)"
    using Cons.prems kv by (simp add: decode_member_def top_level_keys_def)
  then show ?case using Cons kv by (simp add: fields_json_def unquote_quote_id)
qed (simp add: fields_json_def)

lemma decode_written_members:
  assumes "envelope_ok e"
  shows "for_each_member decode_member (envelope_json e) dec_init
    = Inr (dec_init\<lparr>ds_env := e\<lparr>env_extras := [], env_meta_extras := [], env_warnings := []\<rparr>,
                    ds_extras := env_extras e, ds_meta_extras := env_meta_extras e\<rparr>)"
proof -
  let ?frame = "[(''job'', json_str (env_job e)), (''trace_id'', json_str (env_trace_id e)),
            (''data'', data_json (env_data e)), (''meta'', meta_json e), (''attempts'', json_int (env_attempts e))]"
  let ?s = "dec_init\<lparr>ds_env := e\<lparr>env_dead_letter := None, env_extras := [], env_meta_extras := [], env_warnings := []\<rparr>,
                    ds_meta_extras := env_meta_extras e\<rparr>"
  let ?dl = "case env_dead_letter e of None \<Rightarrow> [] | Some d \<Rightarrow> [(''dead_letter'', dead_letter_json d)]"
  note ok = assms [unfolded envelope_ok_def]
  have m: "member_meta (meta_json e) s
      = Inr (s\<lparr>ds_env := (ds_env s)\<lparr>env_meta := env_meta e\<rparr>, ds_meta_extras := env_meta_extras e, ds_meta_forbidden := []\<rparr>)" for s
    using ok decode_meta_written [of e 2] by (simp add: member_meta_def) (simp add: meta_json_def)
  have "fold_members decode_member ?frame dec_init = Inr ?s"
    using ok by (simp add: decode_member_def assign_data_written m dec_init_def zero_envelope_def)
  moreover have "fold_members decode_member ?dl ?s
      = Inr (?s\<lparr>ds_env := e\<lparr>env_extras := [], env_meta_extras := [], env_warnings := []\<rparr>\<rparr>)"
  proof (cases "env_dead_letter e")
    case (Some d)
    have "dead_letter_json d \<noteq> JNull" by (simp add: dead_letter_json_def)
    then show ?thesis using Some ok
      by (cases e) (simp add: decode_member_def member_dead_letter_def decode_dead_letter_written)
  qed (cases e; simp)
  moreover have "fold_members decode_member (fields_json (env_extras e)) s
      = Inr (s\<lparr>ds_extras := smap_of (env_extras e) (ds_extras s)\<rparr>)" for s
    using ok by (intro fold_extras) (auto simp: fields_ok_def)
  moreover have "smap_of (env_extras e) [] = env_extras e"
    using ok by (intro smap_of_id) (simp add: fields_ok_def)
  ultimately show ?thesis
    by (simp only: envelope_json_def for_each_member_def json.case fold_members_append sbind.simps) (simp add: dec_init_def)
qed

lemma space_len_brace [simp]: "trim_space_left (CHR ''{'' # s) = CHR ''{'' # s"
  by (subst trim_space_left.simps) (simp add: space_len_def ascii_whitespace_def split: list.split)

lemma not_null_obj: "\<not> is_json_null (json_print (JObj ms))"
  by (simp add: is_json_null_def)

lemma decode_print:
  assumes "json_ok 0 (JObj ms)"
  shows "decode stx (json_print (JObj ms)) =
    (case for_each_member decode_member (JObj ms) dec_init of
       Inl err \<Rightarrow> (zero_envelope, Some err) | Inr s \<Rightarrow> dec_finish s)"
  unfolding decode_def decode_envelope_def by (simp only: json_parse_print [OF assms] not_null_obj if_False option.case)

theorem decode_written:
  assumes "envelope_ok e"
  shows "decode stx (json_print (envelope_json e)) =
    (e\<lparr>env_warnings := []\<rparr>, if is_blank_ascii (env_job e) then Some (plain_error ErrNoIdentity) else None)"
proof -
  obtain ms where ms: "envelope_json e = JObj ms" by (simp add: envelope_json_def)
  have "json_ok 0 (JObj ms)" using json_ok_envelope [OF assms] ms by simp
  then show ?thesis
    unfolding ms decode_print [OF \<open>json_ok 0 (JObj ms)\<close>]
    unfolding ms [symmetric] decode_written_members [OF assms]
    by (simp add: dec_finish_def dec_init_def forbidden_warnings_def)
qed

end
