(* ===== verification/CodecLaws.thy ===== *)
theory CodecLaws
  imports Codec
begin

section \<open>Laws of decoding\<close>

text \<open>
  What holds of every document \<open>decodeEnvelope\<close> accepts: the envelope it yields is one the encoder
  writes and reads back unchanged (\<open>decoded_ok\<close>), a repeated member counts only in its last
  occurrence (\<open>fold_last_wins\<close>), and each field is a function of the last member of its name.
\<close>

subsection \<open>Decoding yields well-formed envelopes\<close>

lemma assign_string_ok: "json_ok d v \<Longrightarrow> assign_string v = Inr x \<Longrightarrow> utf8_ok x"
  by (cases v) (auto simp: assign_string_def utf8_ok_unquote)

lemma assign_string_ptr_ok:
  "json_ok d v \<Longrightarrow> assign_string_ptr v = Inr x \<Longrightarrow> utf8_ok (case_option [] (\<lambda>x. x) x)"
  by (cases v) (auto simp: assign_string_ptr_def utf8_ok_unquote)

lemma json_string_ok: "json_ok d v \<Longrightarrow> utf8_ok (case_option [] (\<lambda>x. x) (json_string v))"
  by (cases v) (auto simp: json_string_def utf8_ok_unquote)

lemma assign_int_ok: "assign_int ty v = Inr n \<Longrightarrow> int64_ok n"
  by (cases v) (auto simp: assign_int_def int64_ok_def min_int64_def max_int64_def
      split: option.splits dest: parse_int_ok [unfolded int64_ok_def min_int64_def max_int64_def])

lemma assign_data_ok:
  assumes "json_ok d v" and "assign_data v = Inr x"
  shows "goval_ok (case_option GNull GObj x) \<and> json_ok d (data_json x)"
proof (cases v)
  case (JObj ms)
  have "\<exists>m. any_of_json v = Some (GObj m) \<and> x = Some m"
    using assms(2) unfolding JObj assign_data_def json.case
    by (auto split: option.splits goval.splits simp del: any_of_json.simps)
  then obtain m where m: "any_of_json v = Some (GObj m)" "x = Some m" by blast
  from any_of_json_ok [OF assms(1) m(1)] show ?thesis using m(2) by (simp only: option.case data_json_def simp_thms)
qed (use assms in \<open>auto simp: assign_data_def data_json_def\<close>)

lemma fields_ok_put:
  "fields_ok ban d fs \<Longrightarrow> utf8_ok k \<Longrightarrow> k \<notin> set ban \<Longrightarrow> json_ok d v \<Longrightarrow> fields_ok ban d (smap_put k v fs)"
  using set_smap_put_subset [of k v fs] by (auto simp: fields_ok_def)

lemma fields_ok_Nil [simp]: "fields_ok ban d []"
  by (simp add: fields_ok_def)

definition meta_state_ok :: "meta_state \<Rightarrow> bool" where
  "meta_state_ok s \<longleftrightarrow> meta_ok (ms_meta s) \<and> fields_ok (core_meta_keys @ forbidden_meta_keys) 2 (ms_extras s)"

lemma meta_member_ok:
  assumes "meta_state_ok s" and "meta_member name v s = Inr s'" and "json_ok 2 v" and "utf8_ok name"
  shows "meta_state_ok s'"
proof -
  note str = assign_string_ok [OF assms(3)]
  note put = fields_ok_put [of "core_meta_keys @ forbidden_meta_keys" 2 "ms_extras s" name v]
  show ?thesis
    using assms(2) unfolding meta_member_def
    by (elim if_eqE sbind_InrE)
       (use assms(1,3,4) str put assign_int_ok in
          \<open>force simp: meta_state_ok_def meta_ok_def core_meta_keys_def\<close>)+
qed

lemma for_each_member_Inr:
  assumes "for_each_member f v s = Inr t" and "json_ok d v"
  shows "\<exists>ms. v = JObj ms \<and> fold_members f ms s = Inr t \<and> (\<forall>(k, u) \<in> set ms. utf8_ok (unquote k) \<and> json_ok (Suc d) u)"
proof (cases v)
  case (JObj ms)
  then have "\<forall>(k, u) \<in> set ms. utf8_ok (unquote k) \<and> json_ok (Suc d) u"
    using assms(2) by (auto simp: utf8_ok_unquote)
  then show ?thesis using JObj assms(1) by (simp add: for_each_member_def)
qed (use assms(1) in \<open>simp_all add: for_each_member_def\<close>)

lemma zero_meta_ok [simp]: "meta_ok zero_meta"
  by (simp add: zero_meta_def meta_ok_def int64_ok_def min_int64_def max_int64_def)

lemma decode_meta_ok:
  assumes "decode_meta v = Inr m" and "json_ok 1 v"
  shows "meta_state_ok m"
proof -
  let ?s = "\<lparr>ms_meta = zero_meta, ms_extras = [], ms_forbidden = []\<rparr>"
  obtain ms where ms: "fold_members meta_member ms ?s = Inr m"
    and ok: "\<forall>(k, u) \<in> set ms. utf8_ok (unquote k) \<and> json_ok 2 u"
    using for_each_member_Inr [OF assms(1) [unfolded decode_meta_def] assms(2)]
    unfolding Suc_1 [symmetric] One_nat_def by blast
  show ?thesis
    by (rule fold_members_inv [OF ms]) (use ok in \<open>auto simp: meta_state_ok_def [of ?s] intro: meta_member_ok\<close>)
qed

lemma dead_letter_member_ok:
  "dead_letter_ok d \<Longrightarrow> dead_letter_member name v d = Inr d' \<Longrightarrow> json_ok n v \<Longrightarrow> dead_letter_ok d'"
proof -
  assume d: "dead_letter_ok d" and m: "dead_letter_member name v d = Inr d'" and v: "json_ok n v"
  show "dead_letter_ok d'"
    using m unfolding dead_letter_member_def
    by (elim if_eqE sbind_InrE)
       (use d assign_string_ok [OF v] assign_string_ptr_ok [OF v] assign_int_ok in
          \<open>force simp: dead_letter_ok_def\<close>)+
qed

lemma zero_dead_letter_ok [simp]: "dead_letter_ok zero_dead_letter"
  by (simp add: zero_dead_letter_def dead_letter_ok_def int64_ok_def min_int64_def max_int64_def)

lemma decode_dead_letter_ok:
  assumes "decode_dead_letter v = Inr d" and "json_ok n v"
  shows "dead_letter_ok d"
proof -
  obtain ms where ms: "fold_members dead_letter_member ms zero_dead_letter = Inr d"
    and ok: "\<forall>(k, u) \<in> set ms. utf8_ok (unquote k) \<and> json_ok (Suc n) u"
    using for_each_member_Inr [OF assms(1) [unfolded decode_dead_letter_def] assms(2)] by blast
  show ?thesis
    by (rule fold_members_inv [OF ms]) (use ok in \<open>auto intro: dead_letter_member_ok\<close>)
qed

definition dec_ok :: "dec_state \<Rightarrow> bool" where
  "dec_ok s \<longleftrightarrow>
     envelope_ok ((ds_env s)\<lparr>env_extras := ds_extras s, env_meta_extras := ds_meta_extras s\<rparr>) \<and> utf8_ok (ds_alias s)"

lemma member_meta_ok:
  assumes "dec_ok s" and "member_meta v s = Inr s'" and "json_ok 1 v"
  shows "dec_ok s'"
proof (cases "v = JNull")
  case False
  then obtain m where m: "decode_meta v = Inr m"
    and s': "s' = s\<lparr>ds_env := (ds_env s)\<lparr>env_meta := ms_meta m\<rparr>, ds_meta_extras := ms_extras m,
                  ds_meta_forbidden := smap_of (map (\<lambda>k. (k, ())) (ms_forbidden m)) []\<rparr>"
    using assms(2) by (auto simp: member_meta_def sbind_Inr_iff)
  have "meta_state_ok m" using m assms(3) by (rule decode_meta_ok)
  then show ?thesis using s' assms(1) by (simp add: dec_ok_def envelope_ok_def meta_state_ok_def)
qed (use assms in \<open>auto simp: member_meta_def dec_ok_def envelope_ok_def\<close>)

lemma member_dead_letter_ok:
  assumes "dec_ok s" and "member_dead_letter v s = Inr s'" and "json_ok 1 v"
  shows "dec_ok s'"
proof (cases "v = JNull")
  case False
  then obtain d where d: "decode_dead_letter v = Inr d"
    and s': "s' = s\<lparr>ds_env := (ds_env s)\<lparr>env_dead_letter := Some d\<rparr>\<rparr>"
    using assms(2) by (auto simp: member_dead_letter_def sbind_Inr_iff)
  have "dead_letter_ok d" using d assms(3) by (rule decode_dead_letter_ok)
  then show ?thesis using s' assms(1) by (simp add: dec_ok_def envelope_ok_def)
qed (use assms in \<open>auto simp: member_dead_letter_def dec_ok_def envelope_ok_def\<close>)

lemma decode_extra:
  "name \<notin> set top_level_keys \<Longrightarrow> decode_member name v s = Inr (s\<lparr>ds_extras := smap_put name v (ds_extras s)\<rparr>)"
  by (simp add: decode_member_def top_level_keys_def)

lemma decode_member_ok:
  assumes "dec_ok s" and "decode_member name v s = Inr s'" and "json_ok 1 v" and "utf8_ok name"
  shows "dec_ok s'"
proof (cases "name \<in> set top_level_keys")
  case False
  then have "s' = s\<lparr>ds_extras := smap_put name v (ds_extras s)\<rparr>"
    using assms(2) by (simp add: decode_extra)
  then show ?thesis using assms False by (simp add: dec_ok_def envelope_ok_def fields_ok_put)
next
  case True
  note str = assign_string_ok [OF assms(3)] json_string_ok [OF assms(3)] assign_data_ok [OF assms(3)] assign_int_ok
  note blocks = member_meta_ok [OF assms(1) _ assms(3)] member_dead_letter_ok [OF assms(1) _ assms(3)]
  from True assms(2) show ?thesis unfolding decode_member_def
    by (elim if_eqE sbind_InrE)
       (use assms(1) str blocks in \<open>force simp: dec_ok_def envelope_ok_def top_level_keys_def\<close>)+
qed

lemma dec_init_ok: "dec_ok dec_init"
  by (simp add: dec_ok_def dec_init_def zero_envelope_def envelope_ok_def data_json_def
      int64_ok_def min_int64_def max_int64_def)

lemma dec_finish_ok:
  assumes "dec_ok s"
  shows "envelope_ok (fst (dec_finish s))"
  using assms by (simp add: dec_finish_def Let_def dec_ok_def envelope_ok_def)

text \<open>Every error of the members is a type error, never a sentinel.\<close>

definition type_errors_only :: "go_error + 'a \<Rightarrow> bool" where
  "type_errors_only r \<longleftrightarrow> (case r of Inl e \<Rightarrow> err_is e = [] | Inr _ \<Rightarrow> True)"

lemma type_errors_only_simps [simp]:
  "type_errors_only (Inr x)" "type_errors_only (Inl (type_error a b))"
  "type_errors_only (assign_string v)" "type_errors_only (assign_string_ptr v)" "type_errors_only (assign_int ty v)"
  by (auto simp: type_errors_only_def type_error_def assign_string_def assign_string_ptr_def assign_int_def
      split: json.split option.split)

lemma type_errors_only_data [simp]: "type_errors_only (assign_data v)"
  unfolding assign_data_def by (auto simp del: any_of_json.simps first_out_of_range.simps split: json.split option.split goval.split)

lemma type_errors_only_bind:
  "type_errors_only m \<Longrightarrow> (\<And>x. m = Inr x \<Longrightarrow> type_errors_only (f x)) \<Longrightarrow> type_errors_only (sbind m f)"
  by (cases m) (auto simp: type_errors_only_def)

lemma type_errors_only_if:
  "type_errors_only x \<Longrightarrow> type_errors_only y \<Longrightarrow> type_errors_only (if b then x else y)"
  by simp

lemmas type_errors_only_intros =
  type_errors_only_if type_errors_only_bind type_errors_only_simps type_errors_only_data

lemma type_errors_only_fold:
  "(\<And>k v s. type_errors_only (f k v s)) \<Longrightarrow> type_errors_only (fold_members f ms s)"
  by (induction f ms s rule: fold_members.induct) (auto intro: type_errors_only_bind)

lemma type_errors_only_for_each:
  "(\<And>k v s. type_errors_only (f k v s)) \<Longrightarrow> type_errors_only (for_each_member f v s)"
  by (auto simp: for_each_member_def intro: type_errors_only_fold split: json.split)

lemma type_errors_only_blocks:
  "type_errors_only (decode_meta v)" "type_errors_only (decode_dead_letter v)"
  unfolding decode_meta_def decode_dead_letter_def meta_member_def dead_letter_member_def
  by (intro type_errors_only_for_each type_errors_only_intros)+

lemma type_errors_only_member: "type_errors_only (decode_member k v s)"
  unfolding decode_member_def member_meta_def member_dead_letter_def
  by (intro type_errors_only_intros type_errors_only_blocks)

theorem decoded_ok:
  assumes "decode stx raw = (e, err)" and "\<forall>x. err = Some x \<longrightarrow> errors_is x ErrNoIdentity"
  shows "envelope_ok e \<and> (err = None \<longleftrightarrow> \<not> is_blank_ascii (env_job e))"
proof -
  have z: "envelope_ok zero_envelope"
    using dec_init_ok by (simp add: dec_ok_def dec_init_def zero_envelope_def envelope_ok_def)
  show ?thesis
  proof (cases "is_json_null raw \<or> json_parse raw = None")
    case True
    then show ?thesis using assms z
      by (auto simp: decode_def decode_envelope_def syntax_error_def errors_is_def plain_error_def zero_envelope_def
          split: if_splits)
  next
    case False
    then obtain doc where doc: "json_parse raw = Some doc" "\<not> is_json_null raw" by auto
    have ok: "json_ok 0 doc" using doc(1) by (rule json_parse_ok)
    show ?thesis
    proof (cases "for_each_member decode_member doc dec_init")
      case (Inl x)
      have "type_errors_only (for_each_member decode_member doc dec_init)"
        by (intro type_errors_only_for_each type_errors_only_member)
      then have "err_is x = []" using Inl by (simp add: type_errors_only_def)
      then have "\<not> errors_is x ErrNoIdentity" by (simp add: errors_is_def)
      then show ?thesis using assms doc Inl by (auto simp: decode_def decode_envelope_def)
    next
      case (Inr s)
      obtain ms where ms: "fold_members decode_member ms dec_init = Inr s"
        and k: "\<forall>(k, u) \<in> set ms. utf8_ok (unquote k) \<and> json_ok 1 u"
        using for_each_member_Inr [OF Inr ok] unfolding One_nat_def by blast
      have "dec_ok s"
        by (rule fold_members_inv [where P = dec_ok, OF ms dec_init_ok]) (use k in \<open>auto intro: decode_member_ok [unfolded One_nat_def]\<close>)
      then have "envelope_ok (fst (dec_finish s))" by (rule dec_finish_ok)
      moreover have "dec_finish s = (e, err)" using assms(1) doc Inr by (simp add: decode_def decode_envelope_def)
      ultimately show ?thesis by (auto simp: dec_finish_def Let_def split: if_splits)
    qed
  qed
qed

subsection \<open>Only the last member of a name counts\<close>

definition last_value :: "bytes \<Rightarrow> (bytes \<times> json) list \<Rightarrow> json option" where
  "last_value name ms = map_of (rev (map (\<lambda>(k, v). (unquote k, v)) ms)) name"

lemma last_value_simps [simp]:
  "last_value n [] = None"
  "last_value n ((k, v) # ms) = (case last_value n ms of Some u \<Rightarrow> Some u | None \<Rightarrow> if unquote k = n then Some v else None)"
  by (auto simp: last_value_def map_add_def split: option.split)

text \<open>A part \<open>g\<close> of the state that only members named in \<open>N\<close> write, each one replacing it
  by a function of its value.\<close>

lemma fold_slot:
  assumes "fold_members f ms s = Inr t"
    and set: "\<And>v s s'. f n v s = Inr s' \<Longrightarrow> g s' = h v"
    and frame: "\<And>k v s s'. k \<noteq> n \<Longrightarrow> f k v s = Inr s' \<Longrightarrow> g s' = g s"
  shows "g t = (case last_value n ms of None \<Rightarrow> g s | Some v \<Rightarrow> h v)"
  using assms(1)
proof (induction ms arbitrary: s)
  case (Cons m ms)
  obtain k v where m: "m = (k, v)" by fastforce
  obtain s' where s': "f (unquote k) v s = Inr s'" "fold_members f ms s' = Inr t"
    using Cons.prems m by (auto simp: sbind_Inr_iff)
  show ?case
    using Cons.IH [OF s'(2)] m set [of v s s'] frame [of "unquote k" v s s'] s'(1)
    by (cases "unquote k = n") (auto split: option.split)
qed simp

text \<open>The values the fields take.\<close>

definition ok_value :: "go_error + 'a \<Rightarrow> 'a \<Rightarrow> 'a" where
  "ok_value r z = (case r of Inr x \<Rightarrow> x | Inl _ \<Rightarrow> z)"

lemma ok_value_Inr [simp]: "ok_value (Inr x) z = x"
  by (simp add: ok_value_def)

definition job_slot :: "dec_state \<Rightarrow> bytes \<times> bool" where
  "job_slot s = (env_job (ds_env s), ds_job_ignored s)"

definition urn_slot :: "dec_state \<Rightarrow> bytes \<times> bool \<times> bool" where
  "urn_slot s = (ds_alias s, ds_alias_is_string s, ds_urn_seen s)"

definition meta_slot :: "dec_state \<Rightarrow> meta \<times> json smap \<times> unit smap" where
  "meta_slot s = (env_meta (ds_env s), ds_meta_extras s, ds_meta_forbidden s)"

definition meta_value :: "json \<Rightarrow> meta \<times> json smap \<times> unit smap" where
  "meta_value v =
     (if v = JNull then (zero_meta, [], [])
      else case decode_meta v of
             Inl _ \<Rightarrow> (zero_meta, [], [])
           | Inr m \<Rightarrow> (ms_meta m, ms_extras m, smap_of (map (\<lambda>k. (k, ())) (ms_forbidden m)) []))"

definition dead_letter_value :: "json \<Rightarrow> dead_letter option" where
  "dead_letter_value v = (if v = JNull then None else map_option (\<lambda>d. d) (case decode_dead_letter v of Inr d \<Rightarrow> Some d | Inl _ \<Rightarrow> None))"

lemmas decode_member_elims = if_eqE sbind_InrE

lemma decode_member_meta: "decode_member ''meta'' v s = member_meta v s"
  and decode_member_dl: "decode_member ''dead_letter'' v s = member_dead_letter v s"
  by (simp_all add: decode_member_def)

lemma member_meta_frame:
  "member_meta v s = Inr s' \<Longrightarrow> \<exists>m me mf. s' = s\<lparr>ds_env := (ds_env s)\<lparr>env_meta := m\<rparr>, ds_meta_extras := me, ds_meta_forbidden := mf\<rparr>
     \<and> meta_value v = (m, me, mf)"
  by (auto simp: member_meta_def meta_value_def elim!: decode_member_elims)

lemma member_dead_letter_frame:
  "member_dead_letter v s = Inr s' \<Longrightarrow> s' = s\<lparr>ds_env := (ds_env s)\<lparr>env_dead_letter := dead_letter_value v\<rparr>\<rparr>"
  by (auto simp: member_dead_letter_def dead_letter_value_def elim!: decode_member_elims)

text \<open>The outcomes of one member.\<close>

lemma decode_member_cases:
  assumes "decode_member k v s = Inr s'"
  obtains
    (job) "k = ''job''" "s' = s\<lparr>ds_env := (ds_env s)\<lparr>env_job := case_option [] (\<lambda>x. x) (json_string v)\<rparr>,
              ds_job_ignored := (json_string v = None)\<rparr>"
  | (trace) x where "k = ''trace_id''" "assign_string v = Inr x" "s' = s\<lparr>ds_env := (ds_env s)\<lparr>env_trace_id := x\<rparr>\<rparr>"
  | (data) x where "k = ''data''" "assign_data v = Inr x" "s' = s\<lparr>ds_env := (ds_env s)\<lparr>env_data := x\<rparr>\<rparr>"
  | (attempts) n where "k = ''attempts''" "assign_int ''int'' v = Inr n" "s' = s\<lparr>ds_env := (ds_env s)\<lparr>env_attempts := n\<rparr>\<rparr>"
  | (meta) m me mf where "k = ''meta''" "meta_value v = (m, me, mf)"
      "s' = s\<lparr>ds_env := (ds_env s)\<lparr>env_meta := m\<rparr>, ds_meta_extras := me, ds_meta_forbidden := mf\<rparr>"
  | (dead_letter) "k = ''dead_letter''" "s' = s\<lparr>ds_env := (ds_env s)\<lparr>env_dead_letter := dead_letter_value v\<rparr>\<rparr>"
  | (urn) "k = ''urn''" "s' = s\<lparr>ds_alias := case_option [] (\<lambda>x. x) (json_string v),
              ds_alias_is_string := (json_string v \<noteq> None), ds_urn_seen := True\<rparr>"
  | (forbidden) "k = ''timestamp''" "s' = s\<lparr>ds_forbidden := smap_put k () (ds_forbidden s)\<rparr>"
  | (extra) "k \<notin> set top_level_keys" "s' = s\<lparr>ds_extras := smap_put k v (ds_extras s)\<rparr>"
proof (cases "k \<in> set top_level_keys")
  case False
  then show ?thesis using extra assms by (simp add: decode_extra)
next
  case True
  from assms show ?thesis unfolding decode_member_def
  proof (elim decode_member_elims)
    assume "k = ''meta''" "member_meta v s = Inr s'"
    then show ?thesis using member_meta_frame [of v s s'] meta by blast
  next
    assume "k = ''dead_letter''" "member_dead_letter v s = Inr s'"
    then show ?thesis using member_dead_letter_frame [of v s s'] dead_letter by blast
  next
    fix x assume "k = ''trace_id''" "assign_string v = Inr x" "Inr (s\<lparr>ds_env := ds_env s\<lparr>env_trace_id := x\<rparr>\<rparr>) = Inr s'"
    then show ?thesis using trace by simp
  next
    fix x assume "k = ''data''" "assign_data v = Inr x" "Inr (s\<lparr>ds_env := ds_env s\<lparr>env_data := x\<rparr>\<rparr>) = Inr s'"
    then show ?thesis using data by simp
  next
    fix x assume "k = ''attempts''" "assign_int ''int'' v = Inr x" "Inr (s\<lparr>ds_env := ds_env s\<lparr>env_attempts := x\<rparr>\<rparr>) = Inr s'"
    then show ?thesis using attempts by simp
  qed (use True job urn forbidden in \<open>simp_all add: top_level_keys_def forbidden_top_level_keys_def\<close>)
qed

lemma decode_member_frame:
  assumes "decode_member k v s = Inr s'"
  shows "(k \<noteq> ''job'' \<longrightarrow> job_slot s' = job_slot s) \<and> (k \<noteq> ''urn'' \<longrightarrow> urn_slot s' = urn_slot s)
    \<and> (k \<noteq> ''meta'' \<longrightarrow> meta_slot s' = meta_slot s)
    \<and> (k \<noteq> ''trace_id'' \<longrightarrow> env_trace_id (ds_env s') = env_trace_id (ds_env s))
    \<and> (k \<noteq> ''data'' \<longrightarrow> env_data (ds_env s') = env_data (ds_env s))
    \<and> (k \<noteq> ''attempts'' \<longrightarrow> env_attempts (ds_env s') = env_attempts (ds_env s))
    \<and> (k \<noteq> ''dead_letter'' \<longrightarrow> env_dead_letter (ds_env s') = env_dead_letter (ds_env s))
    \<and> (k \<noteq> ''timestamp'' \<longrightarrow> ds_forbidden s' = ds_forbidden s)
    \<and> (k \<noteq> n \<longrightarrow> smap_get (ds_extras s') n = smap_get (ds_extras s) n)
    \<and> env_extras (ds_env s') = env_extras (ds_env s) \<and> env_meta_extras (ds_env s') = env_meta_extras (ds_env s)
    \<and> env_warnings (ds_env s') = env_warnings (ds_env s)"
  using assms
  by (cases rule: decode_member_cases)
     (simp_all add: job_slot_def urn_slot_def meta_slot_def smap_get_put)

definition job_value :: "json \<Rightarrow> bytes \<times> bool" where
  "job_value v = (case_option [] (\<lambda>x. x) (json_string v), json_string v = None)"

definition urn_value :: "json \<Rightarrow> bytes \<times> bool \<times> bool" where
  "urn_value v = (case_option [] (\<lambda>x. x) (json_string v), json_string v \<noteq> None, True)"

lemma decode_member_set:
  assumes "decode_member k v s = Inr s'"
  shows "(k = ''job'' \<longrightarrow> job_slot s' = job_value v) \<and> (k = ''urn'' \<longrightarrow> urn_slot s' = urn_value v)
    \<and> (k = ''meta'' \<longrightarrow> meta_slot s' = meta_value v)
    \<and> (k = ''trace_id'' \<longrightarrow> env_trace_id (ds_env s') = ok_value (assign_string v) [])
    \<and> (k = ''data'' \<longrightarrow> env_data (ds_env s') = ok_value (assign_data v) None)
    \<and> (k = ''attempts'' \<longrightarrow> env_attempts (ds_env s') = ok_value (assign_int ''int'' v) 0)
    \<and> (k = ''dead_letter'' \<longrightarrow> env_dead_letter (ds_env s') = dead_letter_value v)
    \<and> (k \<notin> set top_level_keys \<longrightarrow> smap_get (ds_extras s') k = Some v)"
  using assms
  by (cases rule: decode_member_cases)
     (simp_all add: job_slot_def urn_slot_def meta_slot_def smap_get_put job_value_def urn_value_def
        top_level_keys_def forbidden_top_level_keys_def)

text \<open>What the members of a document leave in the state, each part a function of the last member
  of one name.\<close>

lemma dec_init_slots:
  "job_slot dec_init = ([], False)" "urn_slot dec_init = ([], False, False)"
  "meta_slot dec_init = (zero_meta, [], [])" "env_trace_id (ds_env dec_init) = []" "env_data (ds_env dec_init) = None"
  "env_attempts (ds_env dec_init) = 0" "env_dead_letter (ds_env dec_init) = None" "ds_extras dec_init = []"
  "ds_forbidden dec_init = []" "env_extras (ds_env dec_init) = []" "env_meta_extras (ds_env dec_init) = []"
  "env_warnings (ds_env dec_init) = []"
  by (simp_all add: dec_init_def zero_envelope_def job_slot_def urn_slot_def meta_slot_def)

lemma decode_members_spec:
  assumes "fold_members decode_member ms dec_init = Inr t"
  shows "job_slot t = case_option ([], False) job_value (last_value ''job'' ms)"
    and "urn_slot t = case_option ([], False, False) urn_value (last_value ''urn'' ms)"
    and "meta_slot t = case_option (zero_meta, [], []) meta_value (last_value ''meta'' ms)"
    and "env_trace_id (ds_env t) = case_option [] (\<lambda>v. ok_value (assign_string v) []) (last_value ''trace_id'' ms)"
    and "env_data (ds_env t) = case_option None (\<lambda>v. ok_value (assign_data v) None) (last_value ''data'' ms)"
    and "env_attempts (ds_env t) = case_option 0 (\<lambda>v. ok_value (assign_int ''int'' v) 0) (last_value ''attempts'' ms)"
    and "env_dead_letter (ds_env t) = case_option None dead_letter_value (last_value ''dead_letter'' ms)"
    and "n \<notin> set top_level_keys \<Longrightarrow> smap_get (ds_extras t) n = last_value n ms"
proof -
  note slot = fold_slot [OF assms, unfolded dec_init_slots] and init = dec_init_slots
  show "job_slot t = case_option ([], False) job_value (last_value ''job'' ms)"
    using slot [of "''job''" job_slot job_value] decode_member_set decode_member_frame
    by (simp add: init split: option.split)
  show "urn_slot t = case_option ([], False, False) urn_value (last_value ''urn'' ms)"
    using slot [of "''urn''" urn_slot urn_value] decode_member_set decode_member_frame
    by (simp add: init split: option.split)
  show "meta_slot t = case_option (zero_meta, [], []) meta_value (last_value ''meta'' ms)"
    using slot [of "''meta''" meta_slot meta_value] decode_member_set decode_member_frame
    by (simp add: init split: option.split)
  show "env_trace_id (ds_env t) = case_option [] (\<lambda>v. ok_value (assign_string v) []) (last_value ''trace_id'' ms)"
    using slot [of "''trace_id''" "\<lambda>s. env_trace_id (ds_env s)"] decode_member_set decode_member_frame
    by (simp add: init split: option.split)
  show "env_data (ds_env t) = case_option None (\<lambda>v. ok_value (assign_data v) None) (last_value ''data'' ms)"
    using slot [of "''data''" "\<lambda>s. env_data (ds_env s)"] decode_member_set decode_member_frame
    by (simp add: init split: option.split)
  show "env_attempts (ds_env t) = case_option 0 (\<lambda>v. ok_value (assign_int ''int'' v) 0) (last_value ''attempts'' ms)"
    using slot [of "''attempts''" "\<lambda>s. env_attempts (ds_env s)"] decode_member_set decode_member_frame
    by (simp add: init split: option.split)
  show "env_dead_letter (ds_env t) = case_option None dead_letter_value (last_value ''dead_letter'' ms)"
    using slot [of "''dead_letter''" "\<lambda>s. env_dead_letter (ds_env s)"] decode_member_set decode_member_frame
    by (simp add: init split: option.split)
  assume n: "n \<notin> set top_level_keys"
  show "smap_get (ds_extras t) n = last_value n ms"
    using slot [of n "\<lambda>s. smap_get (ds_extras s) n" Some] decode_member_set decode_member_frame n
    by (simp add: init split: option.split)
qed

lemma decode_forbidden_spec:
  assumes "fold_members decode_member ms dec_init = Inr t"
  shows "ds_forbidden t = (if last_value ''timestamp'' ms = None then [] else [(''timestamp'', ())])"
proof -
  let ?P = "\<lambda>s. ds_forbidden s = [] \<or> ds_forbidden s = [(''timestamp'', ())]"
  have "?P t"
  proof (rule fold_members_inv [where P = ?P, OF assms])
    fix k v s s' assume "?P s" "decode_member (unquote k) v s = Inr s'"
    from this(2,1) show "?P s'" by (cases rule: decode_member_cases) auto
  qed (simp add: dec_init_slots)
  moreover have "(smap_get (ds_forbidden t) ''timestamp'' \<noteq> None) =
      (case last_value ''timestamp'' ms of None \<Rightarrow> (smap_get (ds_forbidden dec_init) ''timestamp'' \<noteq> None) | Some v \<Rightarrow> True)"
  proof (rule fold_slot [OF assms, where g = "\<lambda>s. smap_get (ds_forbidden s) ''timestamp'' \<noteq> None" and h = "\<lambda>_. True"])
    fix v s s' assume "decode_member ''timestamp'' v s = Inr s'"
    then show "(smap_get (ds_forbidden s') ''timestamp'' \<noteq> None) = True"
      by (cases rule: decode_member_cases) (auto simp: smap_get_put top_level_keys_def forbidden_top_level_keys_def)
  qed (simp add: decode_member_frame)
  ultimately show ?thesis by (auto simp: dec_init_slots split: option.splits)
qed

lemma decode_rest_spec:
  assumes "fold_members decode_member ms dec_init = Inr t"
  shows "env_extras (ds_env t) = [] \<and> env_meta_extras (ds_env t) = [] \<and> env_warnings (ds_env t) = [] \<and> smap_ok (ds_extras t)"
  (is "?P t")
proof (rule fold_members_inv [where P = ?P, OF assms])
  fix k v s s' assume "?P s" "decode_member (unquote k) v s = Inr s'"
  from this(2,1) show "?P s'" by (cases rule: decode_member_cases) auto
qed (simp add: dec_init_slots)

text \<open>Whether a member is accepted depends on its name and value alone.\<close>

definition member_accepts :: "bytes \<Rightarrow> json \<Rightarrow> bool" where
  "member_accepts k v \<longleftrightarrow> isl (decode_member k v dec_init) = False"

lemma isl_sbind: "isl (sbind m (\<lambda>x. Inr (f x))) = isl m"
  by (cases m) auto

lemma isl_decode_member: "isl (decode_member k v s) = isl (decode_member k v s')"
  unfolding decode_member_def member_meta_def member_dead_letter_def by (simp add: isl_sbind)

lemma fold_accepts:
  "(\<exists>t. fold_members decode_member ms s = Inr t) \<longleftrightarrow> (\<forall>(k, v) \<in> set ms. member_accepts (unquote k) v)"
proof (induction ms arbitrary: s)
  case (Cons m ms)
  obtain k v where m: "m = (k, v)" by fastforce
  show ?case
  proof (cases "decode_member (unquote k) v s")
    case (Inl e)
    then show ?thesis using m isl_decode_member [of "unquote k" v s dec_init] by (simp add: member_accepts_def)
  next
    case (Inr s')
    then have "member_accepts (unquote k) v"
      using isl_decode_member [of "unquote k" v s dec_init] by (simp add: member_accepts_def)
    then show ?thesis using Cons.IH [of s'] m Inr by simp
  qed
qed simp

lemma decode_members_ext:
  assumes t: "fold_members decode_member ms dec_init = Inr t"
    and t': "fold_members decode_member ms' dec_init = Inr t'"
    and eq: "\<And>n. last_value n ms = last_value n ms'"
  shows "t = t'"
proof -
  have "smap_get (ds_extras t) n = smap_get (ds_extras t') n" for n
  proof (cases "n \<in> set top_level_keys")
    case True
    have "smap_get (ds_extras u) n = None" if "fold_members decode_member us dec_init = Inr u" for us u
    proof (rule fold_members_inv [where P = "\<lambda>s. smap_get (ds_extras s) n = None", OF that])
      fix k v s s' assume "smap_get (ds_extras s) n = None" "decode_member (unquote k) v s = Inr s'"
      from this(2,1) show "smap_get (ds_extras s') n = None"
        using True by (cases rule: decode_member_cases) (auto simp: smap_get_put)
    qed (simp add: dec_init_slots)
    then show ?thesis using t t' by simp
  next
    case False
    then show ?thesis using decode_members_spec(8) [OF t False] decode_members_spec(8) [OF t' False] eq by simp
  qed
  then have x: "ds_extras t = ds_extras t'"
    using decode_rest_spec [OF t] decode_rest_spec [OF t'] by (intro smap_eqI ext) auto
  have slots: "job_slot t = job_slot t'" "urn_slot t = urn_slot t'" "meta_slot t = meta_slot t'"
    "env_trace_id (ds_env t) = env_trace_id (ds_env t')" "env_data (ds_env t) = env_data (ds_env t')"
    "env_attempts (ds_env t) = env_attempts (ds_env t')" "env_dead_letter (ds_env t) = env_dead_letter (ds_env t')"
    "ds_forbidden t = ds_forbidden t'"
    using decode_members_spec(1-7) [OF t] decode_members_spec(1-7) [OF t'] decode_forbidden_spec [OF t]
      decode_forbidden_spec [OF t'] eq by simp_all
  then have "ds_env t = ds_env t'"
    using decode_rest_spec [OF t] decode_rest_spec [OF t'] by (simp add: job_slot_def meta_slot_def)
  then show ?thesis using slots x by (simp add: job_slot_def urn_slot_def meta_slot_def)
qed

lemma last_value_append:
  "last_value n (ms @ ns) = (case last_value n ns of Some v \<Rightarrow> Some v | None \<Rightarrow> last_value n ms)"
proof (induction ms)
  case (Cons m ms)
  then show ?case by (cases m) (auto split: option.splits)
qed (simp split: option.split)

lemma fold_drop_displaced:
  assumes t: "fold_members decode_member (ms @ (k, v) # ns) dec_init = Inr t"
    and later: "last_value (unquote k) ns \<noteq> None"
  shows "fold_members decode_member (ms @ ns) dec_init = Inr t"
proof -
  have "\<forall>(k, v) \<in> set (ms @ ns). member_accepts (unquote k) v"
    using t fold_accepts [of "ms @ (k, v) # ns" dec_init] by auto
  then obtain t' where t': "fold_members decode_member (ms @ ns) dec_init = Inr t'"
    using fold_accepts [of "ms @ ns" dec_init] by auto
  have "t = t'"
    by (rule decode_members_ext [OF t t']) (use later in \<open>auto simp: last_value_append split: option.split\<close>)
  then show ?thesis using t' by simp
qed

subsection \<open>From bytes to members\<close>

lemma trim_space_ws: "is_ws c \<Longrightarrow> trim_space_left (c # s) = trim_space_left s"
proof -
  assume "is_ws c"
  then have "byte c \<in> byte ` set ascii_whitespace"
    by (auto simp: is_ws_def ascii_whitespace_def)
  then have "c \<in> set ascii_whitespace" by (auto simp: of_char_eq_iff)
  then show ?thesis by (subst trim_space_left.simps) (simp add: space_len_def)
qed

lemma trim_space_skip_ws: "trim_space_left (skip_ws s) = trim_space_left s"
  by (induction s) (auto simp: skip_ws_def trim_space_ws)

lemma json_parse_obj_brace:
  assumes "json_parse raw = Some (JObj ms)"
  shows "\<exists>t. skip_ws raw = CHR ''{'' # t"
proof -
  obtain r where "pvalue (2 * length raw + 2) 0 raw = Some (JObj ms, r)"
    using assms by (auto simp: json_parse_def split: option.splits if_splits)
  then have "pvalue (Suc (2 * length raw + 1)) 0 raw = Some (JObj ms, r)" by simp
  then show ?thesis by (cases rule: pvalue_SomeE) auto
qed

lemma object_not_null:
  assumes "json_parse raw = Some (JObj ms)"
  shows "\<not> is_json_null raw"
proof -
  obtain t where t: "skip_ws raw = CHR ''{'' # t" using json_parse_obj_brace [OF assms] by blast
  have "trim_space_left raw = CHR ''{'' # t"
    unfolding trim_space_skip_ws [symmetric, of raw] t by (rule space_len_brace)
  then show ?thesis by (simp add: is_json_null_def)
qed

lemma decode_object:
  assumes "json_parse raw = Some (JObj ms)"
  shows "decode stx raw =
    (case fold_members decode_member ms dec_init of Inl e \<Rightarrow> (zero_envelope, Some e) | Inr t \<Rightarrow> dec_finish t)"
  using object_not_null [OF assms] assms
  by (simp add: decode_def decode_envelope_def for_each_member_def)

text \<open>A document that decodes, with or without an identity, is an object all of whose members are
  accepted.\<close>

lemma decode_Inr_object:
  assumes "decode stx raw = (e, None)"
  obtains ms t where "json_parse raw = Some (JObj ms)" "fold_members decode_member ms dec_init = Inr t"
    "dec_finish t = (e, None)"
proof -
  obtain doc where doc: "json_parse raw = Some doc" "\<not> is_json_null raw"
    using assms by (auto simp: decode_def decode_envelope_def split: if_splits option.splits)
  then obtain t where t: "for_each_member decode_member doc dec_init = Inr t" "dec_finish t = (e, None)"
    using assms by (auto simp: decode_def decode_envelope_def split: sum.splits)
  then obtain ms where "doc = JObj ms" "fold_members decode_member ms dec_init = Inr t"
    by (cases doc) (auto simp: for_each_member_def)
  then show ?thesis using that doc t by blast
qed

lemma dec_finish_fields:
  "dec_finish t = (e, err) \<Longrightarrow>
     env_trace_id e = env_trace_id (ds_env t) \<and> env_data e = env_data (ds_env t) \<and> env_meta e = env_meta (ds_env t)
     \<and> env_attempts e = env_attempts (ds_env t) \<and> env_dead_letter e = env_dead_letter (ds_env t)
     \<and> env_extras e = ds_extras t \<and> env_meta_extras e = ds_meta_extras t
     \<and> env_job e = (if ds_alias_is_string t \<and> is_blank_ascii (env_job (ds_env t)) then ds_alias t else env_job (ds_env t))
     \<and> err = (if is_blank_ascii (env_job e) then Some (plain_error ErrNoIdentity) else None)"
  by (auto simp: dec_finish_def Let_def split: if_splits)

section \<open>Properties of the codec\<close>

definition sample_envelope :: envelope where
  "sample_envelope = zero_envelope\<lparr>env_job := ''urn:x'', env_trace_id := ''t'', env_data := Some [(''note'', GStr ''ok'')],
     env_dead_letter := Some (zero_dead_letter\<lparr>dl_reason := ''failed''\<rparr>), env_warnings := [''w''],
     env_extras := [(''x'', JArr [JNum ''1.50'', JNull])], env_meta_extras := [(''ext'', JObj [(''a'', JBool True)])]\<rparr>"

text \<open>C1. Encoding then decoding gives the envelope back, without its warnings: any envelope with
  valid UTF-8 strings, 64-bit integers, decodable data, extras free of known keys and a job that is
  not blank is written, and the body read back is the same envelope field by field.\<close>

theorem decode_encode:
  assumes "envelope_ok e" and "\<not> is_blank_ascii (env_job e)"
  shows "\<exists>body. encode stx e = Inr body \<and> decode stx body = (e\<lparr>env_warnings := []\<rparr>, None)"
  using encode_ok [OF assms(1)] decode_written [OF assms(1)] assms(2) by simp

theorem decode_encode_witness:
  "\<exists>body. encode (\<lambda>_. []) sample_envelope = Inr body
     \<and> decode (\<lambda>_. []) body = (sample_envelope\<lparr>env_warnings := []\<rparr>, None)"
  by (rule decode_encode) code_simp+

text \<open>C23. A body that decodes always re-encodes, and what is written decodes to the same envelope:
  retry, dead-lettering, redrive and relay lose nothing they have read. Only the warnings, which
  describe the inbound body, are gone.\<close>

theorem encode_decoded:
  assumes "decode stx raw = (e, None)"
  shows "\<exists>body. encode stx e = Inr body \<and> decode stx body = (e\<lparr>env_warnings := []\<rparr>, None)"
  using decoded_ok [OF assms] encode_ok decode_written by simp

theorem encode_decoded_witness:
  "\<exists>body. encode (\<lambda>_. []) (zero_envelope\<lparr>env_job := ''u:x'', env_extras := [(''JOB'', JNum ''1e2'')],
                              env_warnings := forbidden_warnings [(''timestamp'', ())] ''/''\<rparr>) = Inr body
     \<and> decode (\<lambda>_. []) body = (zero_envelope\<lparr>env_job := ''u:x'', env_extras := [(''JOB'', JNum ''1e2'')],
                              env_warnings := forbidden_warnings [(''timestamp'', ())] ''/''\<rparr>\<lparr>env_warnings := []\<rparr>, None)"
  by (rule encode_decoded [where raw = "''{\"urn\":\"u:x\", \"JOB\":1e2,\"timestamp\":0}''"]) code_simp

text \<open>Of a member that occurs more than once only the last occurrence counts: removing an
  earlier one from the document leaves the decoded envelope, its warnings and its identity error
  unchanged. This covers the meta block, which is replaced and never merged.\<close>

theorem last_member_wins:
  assumes "json_parse raw = Some (JObj (ms @ (k, v) # ns))" and "json_parse raw' = Some (JObj (ms @ ns))"
    and "last_value (unquote k) ns \<noteq> None"
    and "decode stx raw = (e, err)" and "case_option True (\<lambda>x. errors_is x ErrNoIdentity) err"
  shows "decode stx raw' = (e, err)"
proof (cases "fold_members decode_member (ms @ (k, v) # ns) dec_init")
  case (Inl x)
  have "type_errors_only (fold_members decode_member (ms @ (k, v) # ns) dec_init)"
    by (intro type_errors_only_fold type_errors_only_member)
  then have "\<not> errors_is x ErrNoIdentity" using Inl by (simp add: type_errors_only_def errors_is_def)
  then show ?thesis using assms(4,5) decode_object [OF assms(1)] Inl by auto
next
  case (Inr t)
  then show ?thesis
    using assms(4) decode_object [OF assms(1)] decode_object [OF assms(2)] fold_drop_displaced [OF Inr assms(3)] by simp
qed

theorem last_member_wins_witness:
  "decode (\<lambda>_. []) ''{\"x\":2,\"job\":\"b\"}'' = (zero_envelope\<lparr>env_job := ''b'', env_extras := [(''x'', JNum ''2'')]\<rparr>, None)"
proof (rule last_member_wins)
  show "json_parse ''{\"job\":1,\"x\":2,\"job\":\"b\"}'' = Some (JObj ([] @ (''job'', JNum ''1'') # [(''x'', JNum ''2''), (''job'', JStr ''b'')]))"
    by code_simp
qed code_simp+

text \<open>The identity the members of a document give.\<close>

definition identity_of :: "(bytes \<times> json) list \<Rightarrow> bytes" where
  "identity_of ms =
     (let job = case_option [] (\<lambda>x. x) (Option.bind (last_value ''job'' ms) json_string)
      in if is_blank_ascii job
         then case_option job (\<lambda>x. x) (Option.bind (last_value ''urn'' ms) json_string) else job)"

text \<open>The identity rule. The job of a decoded document is its last \<open>job\<close> member when that is
  a string that is not blank; otherwise its last \<open>urn\<close> member, verbatim, when that is a string; and
  decoding reports \<open>ErrNoIdentity\<close> exactly when what results is blank.\<close>

theorem decoded_identity:
  assumes "json_parse raw = Some (JObj ms)" and "list_all (\<lambda>(k, v). member_accepts (unquote k) v) ms"
  shows "env_job (fst (decode stx raw)) = identity_of ms
    \<and> snd (decode stx raw) = (if is_blank_ascii (identity_of ms) then Some (plain_error ErrNoIdentity) else None)"
proof -
  obtain t where t: "fold_members decode_member ms dec_init = Inr t"
    using assms(2) fold_accepts [of ms dec_init] by (auto simp: list_all_iff)
  obtain e err where d: "dec_finish t = (e, err)" by fastforce
  have job: "env_job (ds_env t) = case_option [] (\<lambda>x. x) (Option.bind (last_value ''job'' ms) json_string)"
    using decode_members_spec(1) [OF t] by (auto simp: job_slot_def job_value_def split: option.splits)
  have al: "ds_alias t = case_option [] (\<lambda>x. x) (Option.bind (last_value ''urn'' ms) json_string)"
    "ds_alias_is_string t = (Option.bind (last_value ''urn'' ms) json_string \<noteq> None)"
    using decode_members_spec(2) [OF t] by (auto simp: urn_slot_def urn_value_def split: option.splits)
  show ?thesis
    using dec_finish_fields [OF d] d decode_object [OF assms(1), of stx] t job al
    by (auto simp: Let_def identity_of_def split: option.splits)
qed

theorem decoded_identity_witness:
  "env_job (fst (decode (\<lambda>_. []) ''{\"urn\":\"b\",\"job\":\" \"}'')) = identity_of [(''urn'', JStr ''b''), (''job'', JStr '' '')]
   \<and> snd (decode (\<lambda>_. []) ''{\"urn\":\"b\",\"job\":\" \"}'') =
       (if is_blank_ascii (identity_of [(''urn'', JStr ''b''), (''job'', JStr '' '')])
        then Some (plain_error ErrNoIdentity) else None)"
  by (rule decoded_identity) code_simp+

text \<open>Unknown members survive: under every name that is not one of the envelope's own keys,
  the decoded envelope carries exactly the last value the document has under that name, and none
  where the document has none. Names are compared exactly, so a wrongly cased key is unknown.\<close>

theorem unknown_members_kept:
  assumes "json_parse raw = Some (JObj ms)" and "decode stx raw = (e, None)" and "n \<notin> set top_level_keys"
  shows "smap_get (env_extras e) n = last_value n ms"
  using assms(2)
proof (rule decode_Inr_object)
  fix ms' t
  assume a: "json_parse raw = Some (JObj ms')" "fold_members decode_member ms' dec_init = Inr t" "dec_finish t = (e, None)"
  then have "ms' = ms" using assms(1) by simp
  then show ?thesis using decode_members_spec(8) [OF a(2) assms(3)] dec_finish_fields [OF a(3)] by simp
qed

theorem unknown_members_kept_witness:
  "smap_get (env_extras (zero_envelope\<lparr>env_job := ''b'', env_extras := [(''JOB'', JNum ''2'')]\<rparr>)) ''JOB''
   = last_value ''JOB'' [(''JOB'', JNum ''2''), (''job'', JStr ''b'')]"
  by (rule unknown_members_kept [where raw = "''{\"JOB\":2,\"job\":\"b\"}''" and stx = "\<lambda>_. []"]) code_simp+

lemma last_value_fields_json:
  "list_all utf8_ok (smap_keys fs) \<Longrightarrow> n \<notin> set (smap_keys fs) \<Longrightarrow> last_value n (fields_json fs) = None"
  by (induction fs) (auto simp: fields_json_def unquote_quote_id split: option.split)

lemma check_extras_NoneD:
  assumes "check_extras e = None"
  shows "\<forall>k \<in> set (smap_keys (env_extras e)). k \<notin> set forbidden_top_level_keys \<and> k \<noteq> ''urn''"
    and "\<forall>k \<in> set (smap_keys (env_meta_extras e)). k \<notin> set forbidden_meta_keys \<and> k \<notin> set core_meta_keys"
  using assms by (auto simp: check_extras_def find_None_iff split: option.splits)

lemma last_value_meta_members: "k \<notin> set core_meta_keys \<Longrightarrow> last_value k (meta_members m) = None"
  by (auto simp: meta_members_def core_meta_keys_def)

text \<open>The encoder never writes a forbidden key. Every body it writes (for extras with valid
  literals and valid UTF-8 names, none of them \<open>meta\<close>, which decoding never captures) parses to an
  object without a \<open>timestamp\<close> or \<open>urn\<close> member, and the meta block in it has none of the forbidden
  meta members.\<close>

theorem encoded_without_forbidden:
  assumes "encode stx e = Inr body" and "json_ok 0 (envelope_json e)"
    and "list_all (\<lambda>k. utf8_ok k \<and> k \<noteq> ''meta'') (smap_keys (env_extras e))"
    and "list_all utf8_ok (smap_keys (env_meta_extras e))"
  shows "\<exists>ms mm. json_parse body = Some (JObj ms) \<and> last_value ''timestamp'' ms = None \<and> last_value ''urn'' ms = None
    \<and> last_value ''meta'' ms = Some (JObj mm) \<and> list_all (\<lambda>k. last_value k mm = None) forbidden_meta_keys"
proof -
  have ok: "check_extras e = None" using assms(1) by (auto simp: encode_def marshal_json_def split: option.splits)
  let ?frame = "[(''job'', json_str (env_job e)), (''trace_id'', json_str (env_trace_id e)),
            (''data'', data_json (env_data e)), (''meta'', meta_json e), (''attempts'', json_int (env_attempts e))]"
  let ?dl = "case env_dead_letter e of None \<Rightarrow> [] | Some d \<Rightarrow> [(''dead_letter'', dead_letter_json d)]"
  let ?mm = "meta_members (env_meta e) @ fields_json (env_meta_extras e)"
  obtain ms where ms: "envelope_json e = JObj ms" "ms = ?frame @ ?dl @ fields_json (env_extras e)"
    by (simp add: envelope_json_def)
  have "body = json_print (envelope_json e)" using assms(1) encode_tree [OF ok assms(2), of stx] by simp
  then have p: "json_parse body = Some (JObj ms)" using json_parse_print [OF assms(2)] ms(1) by simp
  have x: "last_value n (fields_json (env_extras e)) = None" if "n \<in> {''timestamp'', ''urn'', ''meta''}" for n
    using that check_extras_NoneD(1) [OF ok] assms(3)
    by (intro last_value_fields_json) (auto simp: forbidden_top_level_keys_def list_all_iff)
  have dl: "last_value n ?dl = None" if "n \<in> {''timestamp'', ''urn'', ''meta''}" for n
    using that by (auto split: option.split)
  have fr: "last_value ''timestamp'' ?frame = None" "last_value ''urn'' ?frame = None"
    "last_value ''meta'' ?frame = Some (meta_json e)"
    by simp_all
  have "last_value ''timestamp'' ms = None" "last_value ''urn'' ms = None" "last_value ''meta'' ms = Some (meta_json e)"
    unfolding ms(2) by (simp_all only: last_value_append x dl fr option.case insert_iff simp_thms)
  moreover have "last_value k ?mm = None" if "k \<in> set forbidden_meta_keys" for k
  proof -
    have "k \<notin> set core_meta_keys" using that by (auto simp: forbidden_meta_keys_def core_meta_keys_def)
    moreover have "last_value k (fields_json (env_meta_extras e)) = None"
      using that check_extras_NoneD(2) [OF ok] assms(4) by (intro last_value_fields_json) auto
    ultimately show ?thesis by (simp add: last_value_append last_value_meta_members)
  qed
  ultimately show ?thesis using p by (auto simp: list_all_iff meta_json_def)
qed

theorem encoded_without_forbidden_witness:
  "\<exists>ms mm. json_parse (json_print (envelope_json (zero_envelope\<lparr>env_extras := [(''x'', JNull)]\<rparr>))) = Some (JObj ms)
    \<and> last_value ''timestamp'' ms = None \<and> last_value ''urn'' ms = None
    \<and> last_value ''meta'' ms = Some (JObj mm) \<and> list_all (\<lambda>k. last_value k mm = None) forbidden_meta_keys"
  by (rule encoded_without_forbidden [where e = "zero_envelope\<lparr>env_extras := [(''x'', JNull)]\<rparr>" and stx = "\<lambda>_. []"]) code_simp+

text \<open>An envelope whose extras hold a forbidden key (a leftover \<open>urn\<close> included) is refused with
  \<open>ErrForbiddenKey\<close> and nothing is written.\<close>

theorem encode_refuses_forbidden:
  assumes "k \<in> set (smap_keys (env_extras e))" and "k \<in> {''timestamp'', ''urn''}"
  shows "\<exists>x. encode stx e = Inl x \<and> errors_is x ErrForbiddenKey"
proof -
  let ?P = "\<lambda>k. k \<in> set forbidden_top_level_keys \<or> k = ''urn''"
  have "find ?P (smap_keys (env_extras e)) \<noteq> None"
    using assms by (auto simp: find_None_iff forbidden_top_level_keys_def)
  then obtain j where "find ?P (smap_keys (env_extras e)) = Some j" by auto
  then show ?thesis
    by (auto simp: encode_def marshal_json_def check_extras_def marshaler_error_def wrap_error_def plain_error_def errors_is_def)
qed

theorem encode_refuses_forbidden_witness:
  "\<exists>x. encode (\<lambda>_. []) (zero_envelope\<lparr>env_extras := [(''urn'', JNull)]\<rparr>) = Inl x \<and> errors_is x ErrForbiddenKey"
  by (rule encode_refuses_forbidden [where k = "''urn''"]) code_simp+

end
