(* ===== verification/EnvelopeLaws.thy ===== *)
theory EnvelopeLaws
  imports CodecLaws
begin

section \<open>Laws of Make, the dead-letter annotation and UUIDs\<close>

text \<open>
  When \<open>Make\<close> succeeds and what it builds: the \<open>WithMeta\<close> options accepted are exactly those
  with fresh, non-empty, non-reserved keys whose values encode, and the envelope built is one every
  consumer accepts and the codec carries unchanged.
\<close>

subsection \<open>Trimming keeps valid UTF-8\<close>

lemma utf8_ok_butlast_ascii: "utf8_ok (s @ [c]) \<Longrightarrow> byte c < 0x80 \<Longrightarrow> utf8_ok s"
proof (induction "s @ [c]" arbitrary: s rule: runes_induct)
  case (Bad b t)
  then show ?case by (metis utf8_ok_bad)
next
  case (Good q t)
  show ?case
  proof (cases "t = []")
    case True
    then have q: "q = s @ [c]" using Good.hyps(4) by simp
    have "\<not> 1 < length q"
    proof
      assume "1 < length q"
      with Good.hyps(2) have "list_all (\<lambda>c. 0x80 \<le> byte c) q" by (rule utf8_seq_high)
      then show False using q Good.prems(2) by simp
    qed
    then show ?thesis using q by simp
  next
    case False
    then have t: "t = butlast t @ [c]" "s = q @ butlast t"
      using Good.hyps(4) by (metis append_butlast_last_id last_appendR last_snoc, metis butlast_append butlast_snoc)
    have "utf8_ok (q @ t)" unfolding Good.hyps(4) by (rule Good.prems(1))
    then have "utf8_ok t" using Good.hyps(1,2) by (simp add: utf8_ok_good)
    then have "utf8_ok (butlast t @ [c])" using t(1) by simp
    then have "utf8_ok (butlast t)" using Good.hyps(3) [OF t(1)] Good.prems(2) by simp
    then show ?thesis using Good.hyps(1,2) t(2) by (simp add: utf8_ok_good)
  qed
qed simp

lemma utf8_ok_drop_ascii: "utf8_ok s \<Longrightarrow> \<forall>c \<in> set cs. byte c < 0x80 \<Longrightarrow> utf8_ok (dropWhile (\<lambda>c. c \<in> set cs) s)"
  by (induction s) auto

lemma utf8_ok_rdrop_ascii:
  "utf8_ok (rev s) \<Longrightarrow> \<forall>c \<in> set cs. byte c < 0x80 \<Longrightarrow> utf8_ok (rev (dropWhile (\<lambda>c. c \<in> set cs) s))"
  by (induction s) (auto dest: utf8_ok_butlast_ascii)

lemma utf8_ok_trim_ascii: "utf8_ok s \<Longrightarrow> utf8_ok (trim_ascii s)"
proof -
  assume s: "utf8_ok s"
  have a: "\<forall>c \<in> set ascii_whitespace. byte c < 0x80" by (simp add: ascii_whitespace_def)
  show ?thesis unfolding trim_ascii_def trim_cutset_def
    using utf8_ok_drop_ascii [OF s a] by (intro utf8_ok_rdrop_ascii [OF _ a]) simp
qed

subsection \<open>UUIDs\<close>

lemma hex_digit_range: "n < 16 \<Longrightarrow> in_range 0x30 0x39 (hex_digit n) \<or> in_range 0x61 0x66 (hex_digit n)"
  by (auto simp: hex_digit_def in_range_def)

lemma nibble_bounds: "unat (drop_bit 4 (b :: 8 word)) < 16" "unat (b AND 0x0F) < 16"
proof -
  have "unat (drop_bit 4 b) = unat b div 16" unfolding unat_drop_bit_eq by (simp add: drop_bit_eq_div)
  moreover have "unat b < 256" using unsigned_less [of b] by simp
  ultimately show "unat (drop_bit 4 b) < 16" by simp
  have "b AND 0x0F \<le> 0x0F" by (rule word_and_le1)
  then show "unat (b AND 0x0F) < 16" by (simp add: word_le_nat_alt)
qed

definition is_hex :: "char \<Rightarrow> bool" where
  "is_hex c \<longleftrightarrow> in_range 0x30 0x39 c \<or> in_range 0x61 0x66 c"

lemma hex_bytes_Cons [simp]: "hex_bytes (b # bs) = hex_byte b @ hex_bytes bs" "hex_bytes [] = []"
  by (simp_all add: hex_bytes_def)

lemma hex_bytes_props: "length (hex_bytes bs) = 2 * length bs \<and> list_all is_hex (hex_bytes bs)"
  by (induction bs) (auto simp: hex_byte_def is_hex_def hex_digit_range nibble_bounds)

lemma is_hex_ascii: "is_hex c \<Longrightarrow> byte c < 0x80 \<and> c \<notin> set ascii_whitespace"
  by (auto simp: is_hex_def in_range_def ascii_whitespace_def)

lemma utf8_ok_hex: "list_all (\<lambda>c. is_hex c \<or> c = CHR ''-'') s \<Longrightarrow> utf8_ok s"
  by (induction s) (auto dest: is_hex_ascii)

lemma uuid_hex: "list_all (\<lambda>c. is_hex c \<or> c = CHR ''-'') (uuid_v4 rnd)"
proof -
  have "list_all (\<lambda>c. is_hex c \<or> c = CHR ''-'') (hex_bytes bs)" for bs
    using hex_bytes_props [of bs] by (auto simp: list_all_iff)
  then show ?thesis by (simp add: uuid_v4_def Let_def)
qed

lemma uuid_utf8: "utf8_ok (uuid_v4 rnd)"
  using uuid_hex by (rule utf8_ok_hex)

lemma uuid_not_blank: "\<not> is_blank_ascii (uuid_v4 rnd)"
proof -
  have "CHR ''-'' \<in> set (uuid_v4 rnd)" by (simp add: uuid_v4_def Let_def)
  moreover have "CHR ''-'' \<notin> set ascii_whitespace" by (simp add: ascii_whitespace_def)
  ultimately show ?thesis by (auto simp: is_blank_ascii_iff)
qed

lemma length16: "length xs = 16 \<Longrightarrow>
  \<exists>a b c d e f g h i j k l m n p q. xs = [a, b, c, d, e, f, g, h, i, j, k, l, m, n, p, q]"
  by (simp add: length_Suc_conv numeral_eq_Suc) blast

lemma version_nibble: "drop_bit 4 (((b :: 8 word) AND 0x0F) OR 0x40) = 4"
  by (rule bit_eqI) (auto simp: bit_simps)

lemma variant_nibble: "unat (drop_bit 4 (((b :: 8 word) AND 0x3F) OR 0x80)) \<in> {8, 9, 10, 11}"
proof -
  define x where "x = drop_bit 4 b AND 3"
  have e: "drop_bit 4 ((b AND 0x3F) OR 0x80) = x OR 8"
    by (simp add: x_def drop_bit_or drop_bit_and)
  have "x \<le> 3" unfolding x_def by (rule word_and_le1)
  then have "unat x \<in> {0, 1, 2, 3}" by (auto simp: word_le_nat_alt)
  moreover have "x = of_nat (unat x)" by simp
  ultimately have "x \<in> {0, 1, 2, 3}" by (elim insertE emptyE) simp_all
  then show ?thesis unfolding e by (elim insertE emptyE) simp_all
qed

lemma uuid_shape:
  assumes "length rnd = 16"
  shows "length (uuid_v4 rnd) = 36"
    and "uuid_v4 rnd ! 8 = CHR ''-'' \<and> uuid_v4 rnd ! 13 = CHR ''-'' \<and> uuid_v4 rnd ! 18 = CHR ''-'' \<and> uuid_v4 rnd ! 23 = CHR ''-''"
    and "uuid_v4 rnd ! 14 = CHR ''4''"
    and "uuid_v4 rnd ! 19 \<in> set ''89ab''"
proof -
  obtain a b c d e f g h i j k l m n p q where r: "rnd = [a, b, c, d, e, f, g, h, i, j, k, l, m, n, p, q]"
    using length16 [OF assms] by blast
  show "length (uuid_v4 rnd) = 36" "uuid_v4 rnd ! 8 = CHR ''-'' \<and> uuid_v4 rnd ! 13 = CHR ''-'' \<and> uuid_v4 rnd ! 18 = CHR ''-'' \<and> uuid_v4 rnd ! 23 = CHR ''-''"
    by (simp_all add: r uuid_v4_def Let_def hex_byte_def)
  show "uuid_v4 rnd ! 14 = CHR ''4''"
    by (simp add: r uuid_v4_def Let_def hex_byte_def version_nibble hex_digit_def char_of_eq_iff)
  show "uuid_v4 rnd ! 19 \<in> set ''89ab''"
    using variant_nibble [of i] by (auto simp: r uuid_v4_def Let_def hex_byte_def hex_digit_def char_of_eq_iff)
qed

subsection \<open>The options\<close>

text \<open>What \<open>WithMeta\<close> refuses, given the keys accepted so far.\<close>

definition meta_key_error :: "bytes list \<Rightarrow> bytes \<Rightarrow> sentinel option" where
  "meta_key_error seen key =
     (if key = [] then Some ErrEmptyMetaKey
      else if key \<in> set core_meta_keys then Some ErrReservedMetaKey
      else if key \<in> set forbidden_meta_keys then Some ErrForbiddenKey
      else if key \<in> set seen then Some ErrDuplicateMetaKey else None)"

fun meta_options :: "make_option list \<Rightarrow> (bytes \<times> (go_error + json)) list" where
  "meta_options [] = []"
| "meta_options (WithMeta k v # os) = (k, v) # meta_options os"
| "meta_options (_ # os) = meta_options os"

text \<open>The options accepted together: every key passes and every value was encoded.\<close>

fun meta_options_ok :: "bytes list \<Rightarrow> (bytes \<times> (go_error + json)) list \<Rightarrow> bool" where
  "meta_options_ok seen [] = True"
| "meta_options_ok seen ((k, v) # os) =
     (meta_key_error seen k = None \<and> \<not> isl v \<and> meta_options_ok (k # seen) os)"

lemma with_meta_step:
  assumes "cfg_meta_err c = None"
  shows "if meta_key_error (smap_keys (cfg_meta c)) k = None \<and> \<not> isl v
         then with_meta k v c = c\<lparr>cfg_meta := smap_put k (projr v) (cfg_meta c)\<rparr>
         else cfg_meta_err (with_meta k v c) \<noteq> None"
  using assms
  by (cases v) (auto simp: with_meta_def meta_key_error_def map_of_eq_None_iff split: if_splits)

lemma with_meta_err: "cfg_meta_err c \<noteq> None \<Longrightarrow> with_meta k v c = c"
  by (simp add: with_meta_def)

lemma fold_options_err:
  "cfg_meta_err c \<noteq> None \<Longrightarrow> cfg_meta_err (fold apply_option os c) = cfg_meta_err c"
proof (induction os arbitrary: c)
  case (Cons o' os)
  then show ?case by (cases o') (auto simp: with_meta_err)
qed simp

lemma meta_key_error_cong: "set seen = set seen' \<Longrightarrow> meta_key_error seen k = meta_key_error seen' k"
  by (simp add: meta_key_error_def)

lemma meta_options_ok_cong: "set seen = set seen' \<Longrightarrow> meta_options_ok seen os = meta_options_ok seen' os"
proof (induction os arbitrary: seen seen')
  case (Cons o' os)
  obtain a b where ab: "o' = (a, b)" by fastforce
  have "meta_options_ok (a # seen) os = meta_options_ok (a # seen') os"
    using Cons.prems by (intro Cons.IH) simp
  then show ?case using meta_key_error_cong [OF Cons.prems] ab by simp
qed simp

lemma fold_options_spec:
  assumes "cfg_meta_err c = None"
  shows "if meta_options_ok (smap_keys (cfg_meta c)) (meta_options os)
         then cfg_meta_err (fold apply_option os c) = None
            \<and> cfg_meta (fold apply_option os c) = smap_of (map (\<lambda>(k, v). (k, projr v)) (meta_options os)) (cfg_meta c)
         else cfg_meta_err (fold apply_option os c) \<noteq> None"
  using assms
proof (induction os arbitrary: c)
  case (Cons o' os)
  show ?case
  proof (cases o')
    case (WithMeta k v)
    let ?c = "with_meta k v c"
    show ?thesis
    proof (cases "meta_key_error (smap_keys (cfg_meta c)) k = None \<and> \<not> isl v")
      case True
      then have c: "?c = c\<lparr>cfg_meta := smap_put k (projr v) (cfg_meta c)\<rparr>"
        using with_meta_step [OF Cons.prems, of k v] by simp
      have "meta_options_ok (smap_keys (smap_put k (projr v) (cfg_meta c))) ps
          = meta_options_ok (k # smap_keys (cfg_meta c)) ps" for ps
        by (rule meta_options_ok_cong) (simp add: set_smap_keys_put)
      then show ?thesis using Cons.IH [of ?c] True WithMeta Cons.prems by (simp add: c split: if_splits)
    next
      case False
      then have "cfg_meta_err ?c \<noteq> None" using with_meta_step [OF Cons.prems, of k v] by (simp split: if_splits)
      then show ?thesis using fold_options_err [of ?c os] False WithMeta by auto
    qed
  qed (use Cons in auto)
qed simp

lemma default_config_simps [simp]:
  "cfg_meta_err default_config = None" "cfg_meta default_config = []" "cfg_queue default_config = ''default''"
  "cfg_trace_id default_config = []"
  by (simp_all add: default_config_def)

fun option_ok :: "make_option \<Rightarrow> bool" where
  "option_ok (WithQueue q) = utf8_ok q"
| "option_ok (WithTraceID t) = utf8_ok t"
| "option_ok (WithMeta k (Inr v)) = (utf8_ok k \<and> json_ok 2 v)"
| "option_ok (WithMeta k (Inl _)) = True"

definition config_ok :: "make_config \<Rightarrow> bool" where
  "config_ok c \<longleftrightarrow> utf8_ok (cfg_queue c) \<and> utf8_ok (cfg_trace_id c)
     \<and> fields_ok (core_meta_keys @ forbidden_meta_keys) 2 (cfg_meta c)"

lemma apply_option_ok: "config_ok c \<Longrightarrow> option_ok o' \<Longrightarrow> config_ok (apply_option o' c)"
  by (cases o' rule: option_ok.cases)
     (auto simp: config_ok_def with_meta_def intro: fields_ok_put)

lemma fold_option_ok: "config_ok c \<Longrightarrow> list_all option_ok os \<Longrightarrow> config_ok (fold apply_option os c)"
  by (induction os arbitrary: c) (auto simp: apply_option_ok)

lemma Make_ok:
  assumes "Make rnd1 rnd2 now u data opts = Inr e"
    and "utf8_ok u" and "list_all option_ok opts" and "int64_ok now"
    and "goval_ok (case_option GNull GObj data)" and "json_ok 1 (data_json data)"
  shows "envelope_ok e \<and> accepts e \<and> \<not> is_blank_ascii (env_job e) \<and> env_warnings e = [] \<and> env_attempts e = 0"
proof -
  let ?c = "fold apply_option opts default_config"
  let ?t = "trim_ascii (cfg_trace_id ?c)"
  have e: "e = \<lparr>env_job = trim_ascii u, env_trace_id = (if ?t = [] then uuid_v4 rnd1 else ?t),
      env_data = Some (case data of None \<Rightarrow> [] | Some d \<Rightarrow> d),
      env_meta = \<lparr>meta_id = uuid_v4 rnd2, meta_queue = cfg_queue ?c, meta_lang = source_lang,
                  meta_schema_version = schema_version, meta_created_at = now\<rparr>,
      env_attempts = 0, env_dead_letter = None, env_extras = [], env_meta_extras = cfg_meta ?c, env_warnings = []\<rparr>"
    and u: "trim_ascii u \<noteq> []"
    using assms(1) by (auto simp: Make_def Let_def split: if_splits option.splits)
  have "\<not> is_blank_ascii u" using u by (simp add: is_blank_ascii_def)
  then have job: "\<not> is_blank_ascii (env_job e)" using e by simp
  have c: "config_ok ?c"
    using assms(3) by (intro fold_option_ok) (simp_all add: config_ok_def default_config_def)
  have trace: "utf8_ok (env_trace_id e)" "\<not> is_blank_ascii (env_trace_id e)"
    using e c uuid_utf8 uuid_not_blank utf8_ok_trim_ascii by (auto simp: config_ok_def is_blank_ascii_def)
  have data: "goval_ok (case_option GNull GObj (env_data e))" "json_ok 1 (data_json (env_data e))"
    using assms(5,6) e by (cases data; simp add: data_json_def max_depth_gt)+
  have ok: "envelope_ok e"
    using c trace(1) data assms(2,4) e utf8_ok_trim_ascii uuid_utf8
    by (simp add: envelope_ok_def meta_ok_def config_ok_def source_lang_def schema_version_def
        int64_ok_def min_int64_def max_int64_def)
  have "accepts e" using job trace(2) e by (simp add: accepts_def)
  then show ?thesis using ok job e by simp
qed

section \<open>Properties of Make\<close>

text \<open>\<open>Make\<close> succeeds exactly when the URN is not blank and every \<open>WithMeta\<close> gives a fresh,
  non-empty key that is neither a core nor a forbidden one with a value that encodes. Then the
  envelope starts at attempt zero without a dead-letter block, under the trimmed URN, and its meta
  extras are the supplied entries.\<close>

theorem Make_spec:
  "case Make rnd1 rnd2 now u data opts of
     Inl _ \<Rightarrow> \<not> (\<not> is_blank_ascii u \<and> meta_options_ok [] (meta_options opts))
   | Inr e \<Rightarrow> \<not> is_blank_ascii u \<and> meta_options_ok [] (meta_options opts)
       \<and> env_job e = trim_ascii u \<and> env_attempts e = 0 \<and> env_dead_letter e = None
       \<and> env_meta_extras e = smap_of (map (\<lambda>(k, v). (k, projr v)) (meta_options opts)) []
       \<and> env_extras e = [] \<and> env_warnings e = []"
  using fold_options_spec [of default_config opts]
  by (auto simp: Make_def Let_def is_blank_ascii_def split: option.splits if_splits)

text \<open>C24. What \<open>Make\<close> builds from valid UTF-8 strings, encodable data and a 64-bit clock is an
  envelope every consumer accepts and the codec carries unchanged: \<open>Accepts\<close> holds, and encoding
  and decoding it gives it back.\<close>

theorem Make_accepted:
  assumes "Make rnd1 rnd2 now u data opts = Inr e"
    and "utf8_ok u" and "list_all option_ok opts" and "int64_ok now"
    and "goval_ok (case_option GNull GObj data)" and "json_ok 1 (data_json data)"
  shows "accepts e \<and> (\<exists>body. encode stx e = Inr body \<and> decode stx body = (e, None))"
  using Make_ok [OF assms] encode_ok decode_written by simp

theorem Make_accepted_witness:
  "accepts (projr (Make (replicate 16 0) (replicate 16 0) 7 ''urn:x'' None [WithQueue ''q'']))
   \<and> (\<exists>body. encode (\<lambda>_. []) (projr (Make (replicate 16 0) (replicate 16 0) 7 ''urn:x'' None [WithQueue ''q''])) = Inr body
     \<and> decode (\<lambda>_. []) body = (projr (Make (replicate 16 0) (replicate 16 0) 7 ''urn:x'' None [WithQueue ''q'']), None))"
proof (rule Make_accepted)
  have "trim_ascii ''urn:x'' = ''urn:x''" by code_simp
  then show "Make (replicate 16 0) (replicate 16 0) 7 ''urn:x'' None [WithQueue ''q'']
      = Inr (projr (Make (replicate 16 0) (replicate 16 0) 7 ''urn:x'' None [WithQueue ''q'']))"
    by (simp add: Make_def Let_def)
qed code_simp+

text \<open>An identifier has the RFC 4122 version 4 form: 36 characters, hyphens after 8, 12, 16 and
  20 digits, version digit 4, variant digit 8, 9, a or b, and lower-case hexadecimal digits
  elsewhere.\<close>

theorem uuid_v4_form:
  assumes "length rnd = 16"
  shows "length (uuid_v4 rnd) = 36 \<and> list_all (\<lambda>i. uuid_v4 rnd ! i = CHR ''-'') [8, 13, 18, 23]
    \<and> uuid_v4 rnd ! 14 = CHR ''4'' \<and> uuid_v4 rnd ! 19 \<in> set ''89ab''
    \<and> list_all (\<lambda>c. is_hex c \<or> c = CHR ''-'') (uuid_v4 rnd)"
  using uuid_shape [OF assms] uuid_hex by simp

theorem uuid_v4_form_witness:
  "length (uuid_v4 (replicate 16 0)) = 36 \<and> list_all (\<lambda>i. uuid_v4 (replicate 16 0) ! i = CHR ''-'') [8, 13, 18, 23]
    \<and> uuid_v4 (replicate 16 0) ! 14 = CHR ''4'' \<and> uuid_v4 (replicate 16 0) ! 19 \<in> set ''89ab''
    \<and> list_all (\<lambda>c. is_hex c \<or> c = CHR ''-'') (uuid_v4 (replicate 16 0))"
  by (rule uuid_v4_form) simp

end
