(* ===== verification/ParserLaws.thy ===== *)
theory ParserLaws
  imports Json
begin

section \<open>Locality of the parser\<close>

text \<open>
  A successful parse reads a prefix of its input and does not depend on what follows it
  (\<open>parser_local\<close>), except that a number needs a terminator. \<open>pmembers_extend\<close> is the
  consequence the splicing of a member into an object's text rests on.
\<close>

lemma skip_ws_prefix:
  "\<exists>w. s = w @ skip_ws s \<and> list_all is_ws w"
  unfolding skip_ws_def by (metis list_all_iff set_takeWhileD takeWhile_dropWhile_id)

lemma skip_ws_ws [simp]: "list_all is_ws w \<Longrightarrow> skip_ws (w @ s) = skip_ws s"
  by (induction w) (simp_all add: skip_ws_def)

lemma skip_ws_split:
  assumes "skip_ws s = c # t"
  obtains w where "s = w @ c # t" "list_all is_ws w" "\<not> is_ws c"
proof -
  obtain w where w: "s = w @ skip_ws s" "list_all is_ws w" using skip_ws_prefix by blast
  have "\<not> is_ws c" using assms unfolding skip_ws_def by (metis hd_dropWhile list.distinct(1) list.sel(1))
  then show ?thesis using that w assms by simp
qed

lemma ws_num_stop: "list_all is_ws w \<Longrightarrow> num_stop t \<Longrightarrow> num_stop (w @ t)"
proof (cases w)
  case (Cons c v)
  moreover assume "list_all is_ws w"
  ultimately have "is_ws c" by simp
  then show ?thesis using Cons by (auto simp: num_stop_def is_ws_def is_digit_def in_range_def)
qed simp

definition local_value :: "nat \<Rightarrow> nat \<Rightarrow> bytes \<Rightarrow> json \<Rightarrow> bytes \<Rightarrow> bool" where
  "local_value n d s v r \<longleftrightarrow> (\<exists>p. s = p @ r \<and> (\<forall>t. num_stop t \<longrightarrow> pvalue n d (p @ t) = Some (v, t)))"

definition local_elems :: "nat \<Rightarrow> nat \<Rightarrow> bytes \<Rightarrow> json list \<Rightarrow> bytes \<Rightarrow> bool" where
  "local_elems n d s vs r \<longleftrightarrow> (\<exists>p. s = p @ r \<and> (\<forall>t. pelems n d (p @ t) = Some (vs, t)))"

definition local_members :: "nat \<Rightarrow> nat \<Rightarrow> bytes \<Rightarrow> (bytes \<times> json) list \<Rightarrow> bytes \<Rightarrow> bool" where
  "local_members n d s ms r \<longleftrightarrow> (\<exists>p. s = p @ r \<and> (\<forall>t. pmembers n d (p @ t) = Some (ms, t)))"

lemma local_valueI: "s = p @ r \<Longrightarrow> (\<And>t. num_stop t \<Longrightarrow> pvalue n d (p @ t) = Some (v, t)) \<Longrightarrow> local_value n d s v r"
  by (auto simp: local_value_def)

text \<open>The value before a member or element separator.\<close>

lemma local_value_sep:
  assumes "local_value n d s v r" and "skip_ws r = x # u" and "x \<in> {CHR '','', CHR '']'', CHR ''}''}"
  obtains p where "s = p @ x # u" "\<And>t. \<exists>r'. pvalue n d (p @ x # t) = Some (v, r') \<and> skip_ws r' = x # t"
proof -
  obtain p where p: "s = p @ r" "\<And>t. num_stop t \<Longrightarrow> pvalue n d (p @ t) = Some (v, t)"
    using assms(1) by (auto simp: local_value_def)
  obtain w where w: "r = w @ x # u" "list_all is_ws w" "\<not> is_ws x" using skip_ws_split [OF assms(2)] .
  have "num_stop (w @ x # t)" for t
    using assms(3) w(2) by (intro ws_num_stop) auto
  then have "pvalue n d ((p @ w) @ x # t) = Some (v, w @ x # t)" for t using p(2) by simp
  moreover have "skip_ws (w @ x # t) = x # t" for t using w by simp
  ultimately show ?thesis using that [of "p @ w"] p(1) w(1) by auto
qed

lemma pvalue_hd:
  assumes "pvalue n d s = Some (v, r)"
  shows "\<exists>c z. skip_ws s = c # z \<and> c \<noteq> CHR '']''"
proof -
  obtain m where "n = Suc m" using assms by (cases n) auto
  then have "pvalue (Suc m) d s = Some (v, r)" using assms by simp
  then show ?thesis
  proof (cases rule: pvalue_SomeE)
    case (num c u l)
    have "num_ok l" "c # u = l @ r" using num(3) by (auto intro: scan_number_ok scan_number_split)
    then have "c = CHR ''-'' \<or> is_digit c" using num_ok_hd [of l] by (cases l) auto
    then show ?thesis using num(1) by (auto simp: is_digit_def in_range_def)
  qed auto
qed

lemma pelems_hd:
  assumes "pelems n d s = Some (vs, r)"
  shows "\<exists>c z. skip_ws s = c # z \<and> c \<noteq> CHR '']''"
proof -
  obtain m where "n = Suc m" using assms by (cases n) auto
  then have "pelems (Suc m) d s = Some (vs, r)" using assms by simp
  then show ?thesis by (cases rule: pelems_SomeE) (auto dest: pvalue_hd)
qed

lemma pmembers_hd:
  assumes "pmembers n d s = Some (ms, r)"
  shows "\<exists>c z. skip_ws s = c # z \<and> c \<noteq> CHR ''}''"
proof -
  obtain m where "n = Suc m" using assms by (cases n) auto
  then have "pmembers (Suc m) d s = Some (ms, r)" using assms by simp
  then show ?thesis by (cases rule: pmembers_SomeE) auto
qed

text \<open>The text of one member up to its separator, and what replaces the separator may be any
  text beginning with the same byte.\<close>

lemma member_sep:
  assumes "skip_ws s = dquote # t" and "scan_string t = Some (k, u)" and "skip_ws u = CHR '':'' # w"
    and "local_value n d w v x" and "skip_ws x = c # y" and "c \<in> {CHR '','', CHR ''}''}"
  obtains p where "s = p @ c # y"
    "\<And>z. \<exists>t' u' w' x'. skip_ws (p @ c # z) = dquote # t' \<and> scan_string t' = Some (k, u') \<and> skip_ws u' = CHR '':'' # w'
       \<and> pvalue n d w' = Some (v, x') \<and> skip_ws x' = c # z"
proof -
  obtain w1 where 1: "s = w1 @ dquote # t" "list_all is_ws w1" using skip_ws_split [OF assms(1)] .
  have 2: "t = k @ dquote # u" "body_ok k" using scan_string_split [OF assms(2)] scan_string_body_ok [OF assms(2)] .
  obtain w2 where 3: "u = w2 @ CHR '':'' # w" "list_all is_ws w2" using skip_ws_split [OF assms(3)] .
  have "c \<in> {CHR '','', CHR '']'', CHR ''}''}" using assms(6) by auto
  then obtain q where q: "w = q @ c # y" "\<And>t. \<exists>r'. pvalue n d (q @ c # t) = Some (v, r') \<and> skip_ws r' = c # t"
    using local_value_sep [OF assms(4,5)] by blast
  let ?p = "w1 @ dquote # k @ dquote # w2 @ CHR '':'' # q"
  have "\<exists>t' u' w' x'. skip_ws (?p @ c # z) = dquote # t' \<and> scan_string t' = Some (k, u') \<and> skip_ws u' = CHR '':'' # w'
       \<and> pvalue n d w' = Some (v, x') \<and> skip_ws x' = c # z" for z
  proof -
    obtain r' where r': "pvalue n d (q @ c # z) = Some (v, r')" "skip_ws r' = c # z" using q(2) by blast
    have "skip_ws (?p @ c # z) = dquote # (k @ dquote # (w2 @ CHR '':'' # q @ c # z))" using 1(2) by simp
    moreover have "scan_string (k @ dquote # (w2 @ CHR '':'' # q @ c # z)) = Some (k, w2 @ CHR '':'' # q @ c # z)"
      using 2(2) by (rule scan_string_body)
    moreover have "skip_ws (w2 @ CHR '':'' # q @ c # z) = CHR '':'' # (q @ c # z)" using 3(2) by simp
    ultimately show ?thesis using r' by blast
  qed
  then show ?thesis using that [of ?p] 1(1) 2(1) 3(1) q(1) by simp
qed

lemma parser_local:
  "(\<forall>d s v r. pvalue n d s = Some (v, r) \<longrightarrow> local_value n d s v r) \<and>
   (\<forall>d s vs r. pelems n d s = Some (vs, r) \<longrightarrow> local_elems n d s vs r) \<and>
   (\<forall>d s ms r. pmembers n d s = Some (ms, r) \<longrightarrow> local_members n d s ms r)"
proof (induction n)
  case (Suc n)
  note V = Suc.IH [THEN conjunct1, rule_format]
  note E = Suc.IH [THEN conjunct2, THEN conjunct1, rule_format]
  note M = Suc.IH [THEN conjunct2, THEN conjunct2, rule_format]
  have "local_value (Suc n) d s v r" if p: "pvalue (Suc n) d s = Some (v, r)" for d s v r
    using p
  proof (cases rule: pvalue_SomeE)
    case (obj_nil t)
    obtain w where w: "s = w @ CHR ''{'' # t" "list_all is_ws w" using skip_ws_split [OF obj_nil(1)] .
    obtain w' where w': "t = w' @ CHR ''}'' # r" "list_all is_ws w'" using skip_ws_split [OF obj_nil(3)] .
    show ?thesis
      by (rule local_valueI [of _ "w @ CHR ''{'' # w' @ ''}''"])
         (use w w' obj_nil(2,4) in \<open>simp_all add: pvalue.simps(2)\<close>)
  next
    case (obj t x u ms)
    obtain w where w: "s = w @ CHR ''{'' # t" "list_all is_ws w" using skip_ws_split [OF obj(1)] .
    obtain q where q: "t = q @ r" "\<And>t. pmembers n (Suc d) (q @ t) = Some (ms, t)"
      using M [OF obj(5)] by (auto simp: local_members_def)
    have h: "\<exists>c z. skip_ws (q @ t') = c # z \<and> c \<noteq> CHR ''}''" for t'
      using q(2) by (rule pmembers_hd)
    show ?thesis
    proof (rule local_valueI [of _ "w @ CHR ''{'' # q"])
      fix t' assume "num_stop t'"
      obtain c z where "skip_ws (q @ t') = c # z" "c \<noteq> CHR ''}''" using h by blast
      then show "pvalue (Suc n) d ((w @ CHR ''{'' # q) @ t') = Some (v, t')"
        using w q(2) [of t'] obj(2,6) by (simp add: pvalue.simps(2))
    qed (use w q in simp)
  next
    case (arr_nil t)
    obtain w where w: "s = w @ CHR ''['' # t" "list_all is_ws w" using skip_ws_split [OF arr_nil(1)] .
    obtain w' where w': "t = w' @ CHR '']'' # r" "list_all is_ws w'" using skip_ws_split [OF arr_nil(3)] .
    show ?thesis
      by (rule local_valueI [of _ "w @ CHR ''['' # w' @ '']''"])
         (use w w' arr_nil(2,4) in \<open>simp_all add: pvalue.simps(2)\<close>)
  next
    case (arr t x u vs)
    obtain w where w: "s = w @ CHR ''['' # t" "list_all is_ws w" using skip_ws_split [OF arr(1)] .
    obtain q where q: "t = q @ r" "\<And>t. pelems n (Suc d) (q @ t) = Some (vs, t)"
      using E [OF arr(5)] by (auto simp: local_elems_def)
    have h: "\<exists>c z. skip_ws (q @ t') = c # z \<and> c \<noteq> CHR '']''" for t'
      using q(2) by (rule pelems_hd)
    show ?thesis
    proof (rule local_valueI [of _ "w @ CHR ''['' # q"])
      fix t' assume "num_stop t'"
      obtain c z where "skip_ws (q @ t') = c # z" "c \<noteq> CHR '']''" using h by blast
      then show "pvalue (Suc n) d ((w @ CHR ''['' # q) @ t') = Some (v, t')"
        using w q(2) [of t'] arr(2,6) by (simp add: pvalue.simps(2))
    qed (use w q in simp)
  next
    case (str t b)
    obtain w where w: "s = w @ dquote # t" "list_all is_ws w" using skip_ws_split [OF str(1)] .
    have t: "t = b @ dquote # r" "body_ok b" using scan_string_split [OF str(2)] scan_string_body_ok [OF str(2)] .
    show ?thesis
      by (rule local_valueI [of _ "w @ dquote # b @ [dquote]"])
         (use w t str(3) scan_string_body in \<open>simp_all add: pvalue.simps(2)\<close>)
  next
    case (word c x)
    obtain w where w: "s = w @ c # x @ r" "list_all is_ws w" using skip_ws_split [OF word(1)] .
    obtain b u where b: "scan_word b u (x @ r) = Some (v, r)"
      and c: "\<And>t. pvalue (Suc n) d (w @ c # b @ t) = scan_word b u (b @ t)"
    proof -
      have "(\<exists>b u. scan_word b u (x @ r) = Some (v, r) \<and> (\<forall>t. pvalue (Suc n) d (w @ c # b @ t) = scan_word b u (b @ t)))"
        using word(1,2) p w(2) by (elim insertE emptyE) (simp_all add: pvalue.simps(2), blast+)
      then show ?thesis using that by blast
    qed
    have "u = v" "x = b" using scan_word_length [OF b] by simp_all
    then show ?thesis using w c
      by (intro local_valueI [of _ "w @ c # x"]) (simp_all add: scan_word_def)
  next
    case (num c u l)
    obtain w where w: "s = w @ c # u" "list_all is_ws w" "\<not> is_ws c" using skip_ws_split [OF num(1)] .
    have l: "c # u = l @ r" using num(3) by (rule scan_number_split)
    show ?thesis
    proof (rule local_valueI [of _ "w @ l"])
      fix t assume t: "num_stop t"
      have "scan_number (l @ t) = Some (l, t)" using scan_number_swap [OF num(3) t] .
      moreover obtain l' where "l = c # l'" using l scan_number_nonempty [OF num(3)] by (cases l) auto
      ultimately show "pvalue (Suc n) d ((w @ l) @ t) = Some (v, t)"
        using w num(2,4) by (simp add: pvalue.simps(2))
    qed (use w l in simp)
  qed
  moreover have "local_elems (Suc n) d s vs r" if p: "pelems (Suc n) d s = Some (vs, r)" for d s vs r
    using p
  proof (cases rule: pelems_SomeE)
    case (last v t)
    obtain p where p: "s = p @ CHR '']'' # r" "\<And>t. \<exists>r'. pvalue n d (p @ CHR '']'' # t) = Some (v, r') \<and> skip_ws r' = CHR '']'' # t"
      using local_value_sep [OF V [OF last(1)] last(2)] by blast
    have "pelems (Suc n) d ((p @ '']'') @ t) = Some (vs, t)" for t
      using p(2) [of t] last(3) by (auto simp: pelems.simps(2))
    then show ?thesis using p(1) by (auto simp: local_elems_def intro!: exI [of _ "p @ '']''"])
  next
    case (more v t u vs')
    obtain p where p: "s = p @ CHR '','' # u" "\<And>t. \<exists>r'. pvalue n d (p @ CHR '','' # t) = Some (v, r') \<and> skip_ws r' = CHR '','' # t"
      using local_value_sep [OF V [OF more(1)] more(2)] by blast
    obtain q where q: "u = q @ r" "\<And>t. pelems n d (q @ t) = Some (vs', t)"
      using E [OF more(3)] by (auto simp: local_elems_def)
    have "pelems (Suc n) d ((p @ CHR '','' # q) @ t) = Some (vs, t)" for t
      using p(2) [of "q @ t"] q(2) [of t] more(4) by (auto simp: pelems.simps(2))
    then show ?thesis using p(1) q(1) by (auto simp: local_elems_def intro!: exI [of _ "p @ CHR '','' # q"])
  qed
  moreover have "local_members (Suc n) d s ms r" if p: "pmembers (Suc n) d s = Some (ms, r)" for d s ms r
    using p
  proof (cases rule: pmembers_SomeE)
    case (last t k u w v x)
    obtain p where p: "s = p @ CHR ''}'' # r"
      "\<And>z. \<exists>t' u' w' x'. skip_ws (p @ CHR ''}'' # z) = dquote # t' \<and> scan_string t' = Some (k, u') \<and> skip_ws u' = CHR '':'' # w'
       \<and> pvalue n d w' = Some (v, x') \<and> skip_ws x' = CHR ''}'' # z"
      using member_sep [OF last(1-3) V [OF last(4)] last(5)] by blast
    have "pmembers (Suc n) d ((p @ ''}'') @ t) = Some (ms, t)" for t
      using p(2) [of t] last(6) by (auto simp: pmembers.simps(2))
    then show ?thesis using p(1) by (auto simp: local_members_def intro!: exI [of _ "p @ ''}''"])
  next
    case (more t k u w v x y ms')
    obtain p where p: "s = p @ CHR '','' # y"
      "\<And>z. \<exists>t' u' w' x'. skip_ws (p @ CHR '','' # z) = dquote # t' \<and> scan_string t' = Some (k, u') \<and> skip_ws u' = CHR '':'' # w'
       \<and> pvalue n d w' = Some (v, x') \<and> skip_ws x' = CHR '','' # z"
      using member_sep [OF more(1-3) V [OF more(4)] more(5)] by blast
    obtain q where q: "y = q @ r" "\<And>t. pmembers n d (q @ t) = Some (ms', t)"
      using M [OF more(6)] by (auto simp: local_members_def)
    have "pmembers (Suc n) d ((p @ CHR '','' # q) @ t) = Some (ms, t)" for t
      using p(2) [of "q @ t"] q(2) [of t] more(7) by (auto simp: pmembers.simps(2))
    then show ?thesis using p(1) q(1) by (auto simp: local_members_def intro!: exI [of _ "p @ CHR '','' # q"])
  qed
  ultimately show ?case by blast
qed (simp add: local_value_def)

lemma pvalue_local: "pvalue n d s = Some (v, r) \<Longrightarrow> local_value n d s v r"
  using parser_local by blast

text \<open>The members of an object end with its closing brace; putting a comma and further members in
  the brace's place appends those members.\<close>

lemma pmembers_extend:
  "pmembers n d s = Some (ms, r) \<Longrightarrow>
   \<exists>p. s = p @ CHR ''}'' # r \<and>
     (\<forall>m u ms' r'. pmembers m d u = Some (ms', r') \<longrightarrow> (\<exists>k. pmembers k d (p @ CHR '','' # u) = Some (ms @ ms', r')))"
proof (induction n arbitrary: s ms)
  case (Suc n)
  from Suc.prems show ?case
  proof (cases rule: pmembers_SomeE)
    case (last t k u w v x)
    obtain w1 where 1: "s = w1 @ dquote # t" "list_all is_ws w1" using skip_ws_split [OF last(1)] .
    have 2: "t = k @ dquote # u" "body_ok k" using scan_string_split [OF last(2)] scan_string_body_ok [OF last(2)] .
    obtain w2 where 3: "u = w2 @ CHR '':'' # w" "list_all is_ws w2" using skip_ws_split [OF last(3)] .
    obtain q where q: "w = q @ x" "\<And>t. num_stop t \<Longrightarrow> pvalue n d (q @ t) = Some (v, t)"
      using pvalue_local [OF last(4)] by (auto simp: local_value_def)
    obtain w3 where 4: "x = w3 @ CHR ''}'' # r" "list_all is_ws w3" using skip_ws_split [OF last(5)] .
    let ?p = "w1 @ dquote # k @ dquote # w2 @ CHR '':'' # q @ w3"
    have "\<exists>j. pmembers j d (?p @ CHR '','' # z) = Some (ms @ ms', r')" if z: "pmembers m d z = Some (ms', r')" for m z ms' r'
    proof -
      let ?j = "max n m"
      have v: "pvalue ?j d (q @ w3 @ CHR '','' # z) = Some (v, w3 @ CHR '','' # z)"
        using q(2) [of "w3 @ CHR '','' # z"] ws_num_stop [OF 4(2), of "CHR '','' # z"] by (auto intro: pvalue_more_fuel)
      have z': "pmembers ?j d z = Some (ms', r')" using z by (auto intro: pmembers_more_fuel)
      have "scan_string (k @ dquote # (w2 @ CHR '':'' # q @ w3 @ CHR '','' # z)) = Some (k, w2 @ CHR '':'' # q @ w3 @ CHR '','' # z)"
        using 2(2) by (rule scan_string_body)
      then have "pmembers (Suc ?j) d (?p @ CHR '','' # z) = Some (ms @ ms', r')"
        using 1(2) 3(2) 4(2) v z' last(6) by (simp add: pmembers.simps(2))
      then show ?thesis ..
    qed
    moreover have "s = ?p @ CHR ''}'' # r" using 1 2 3 q 4 by simp
    ultimately show ?thesis by blast
  next
    case (more t k u w v x y ms')
    obtain p where p: "s = p @ CHR '','' # y"
      "\<And>z. \<exists>t' u' w' x'. skip_ws (p @ CHR '','' # z) = dquote # t' \<and> scan_string t' = Some (k, u') \<and> skip_ws u' = CHR '':'' # w'
       \<and> pvalue n d w' = Some (v, x') \<and> skip_ws x' = CHR '','' # z"
      using member_sep [OF more(1-3) pvalue_local [OF more(4)] more(5)] by blast
    obtain q where q: "y = q @ CHR ''}'' # r"
      "\<And>m u ms'' r'. pmembers m d u = Some (ms'', r') \<Longrightarrow> \<exists>k. pmembers k d (q @ CHR '','' # u) = Some (ms' @ ms'', r')"
      using Suc.IH [OF more(6)] by blast
    let ?p = "p @ CHR '','' # q"
    have "\<exists>j. pmembers j d (?p @ CHR '','' # z) = Some (ms @ ms'', r')" if z: "pmembers m d z = Some (ms'', r')" for m z ms'' r'
    proof -
      obtain j where j: "pmembers j d (q @ CHR '','' # z) = Some (ms' @ ms'', r')" using q(2) [OF z] by blast
      obtain t' u' w' x' where "skip_ws (p @ CHR '','' # (q @ CHR '','' # z)) = dquote # t'" "scan_string t' = Some (k, u')"
        "skip_ws u' = CHR '':'' # w'" "pvalue n d w' = Some (v, x')" "skip_ws x' = CHR '','' # (q @ CHR '','' # z)"
        using p(2) by blast
      moreover from this(4) have "pvalue (max n j) d w' = Some (v, x')" by (rule pvalue_more_fuel) simp
      moreover have "pmembers (max n j) d (q @ CHR '','' # z) = Some (ms' @ ms'', r')"
        using j by (rule pmembers_more_fuel) simp
      ultimately have "pmembers (Suc (max n j)) d (?p @ CHR '','' # z) = Some (ms @ ms'', r')"
        using more(7) by (simp add: pmembers.simps(2))
      then show ?thesis ..
    qed
    moreover have "s = ?p @ CHR ''}'' # r" using p(1) q(1) by simp
    ultimately show ?thesis by blast
  qed
qed simp

end
