(* ===== verification/Poison.thy ===== *)
theory Poison
  imports CodecLaws ParserLaws
begin

section \<open>The DLQ record of a poison body\<close>

text \<open>
  \<open>poison_record.go\<close>. A body that is a strict JSON object (\<open>is_spliceable_object\<close>: valid UTF-8,
  valid JSON, no unpaired surrogate escape, no top-level \<open>dead_letter\<close> member) gets the
  \<open>dead_letter\<close> member spliced into its text; any other body is carried as a string, in base64
  when it is not valid UTF-8 (\<open>build_poison_record\<close>).

  The scanner walks the text with a nesting depth and a flag that is set where a top-level member
  name is due. It is modelled on the remaining text instead of an index; \<open>scan_json_string\<close>
  returns the literal's body and the rest.
\<close>

subsection \<open>Base64\<close>

definition base64_char :: "nat \<Rightarrow> char" where
  "base64_char n =
     (if n < 26 then chr (65 + n) else if n < 52 then chr (71 + n) else if n < 62 then chr (n - 4)
      else if n = 62 then CHR ''+'' else CHR ''/'')"

fun base64_encode :: "bytes \<Rightarrow> bytes" where
  "base64_encode [] = []"
| "base64_encode [a] =
     [base64_char (byte a div 4), base64_char (byte a mod 4 * 16), CHR ''='', CHR ''='']"
| "base64_encode [a, b] =
     [base64_char (byte a div 4), base64_char (byte a mod 4 * 16 + byte b div 16),
      base64_char (byte b mod 16 * 4), CHR ''='']"
| "base64_encode (a # b # c # s) =
     base64_char (byte a div 4) # base64_char (byte a mod 4 * 16 + byte b div 16)
     # base64_char (byte b mod 16 * 4 + byte c div 64) # base64_char (byte c mod 64) # base64_encode s"

text \<open>The reader's side, used to state that nothing is lost.\<close>

definition base64_val :: "char \<Rightarrow> nat" where
  "base64_val c =
     (if in_range 65 90 c then byte c - 65 else if in_range 97 122 c then byte c - 71
      else if in_range 48 57 c then byte c + 4 else if c = CHR ''+'' then 62 else 63)"

fun base64_decode :: "bytes \<Rightarrow> bytes" where
  "base64_decode (a # b # c # d # s) =
     (if c = CHR ''='' then [chr (base64_val a * 4 + base64_val b div 16)]
      else if d = CHR ''='' then
        [chr (base64_val a * 4 + base64_val b div 16), chr (base64_val b mod 16 * 16 + base64_val c div 4)]
      else chr (base64_val a * 4 + base64_val b div 16) # chr (base64_val b mod 16 * 16 + base64_val c div 4)
           # chr (base64_val c mod 4 * 64 + base64_val d) # base64_decode s)"
| "base64_decode _ = []"

lemma base64_val_char: "n < 64 \<Longrightarrow> base64_val (base64_char n) = n \<and> base64_char n \<noteq> CHR ''=''"
proof -
  assume n: "n < 64"
  consider "n < 26" | "26 \<le> n" "n < 52" | "52 \<le> n" "n < 62" | "n = 62" | "n = 63" using n by linarith
  then show ?thesis
  proof cases
    case 1
    then have "byte (base64_char n) = 65 + n" by (simp add: base64_char_def)
    then show ?thesis using 1 by (auto simp: base64_val_def in_range_def)
  next
    case 2
    then have "byte (base64_char n) = 71 + n" by (simp add: base64_char_def)
    then show ?thesis using 2 by (auto simp: base64_val_def in_range_def)
  next
    case 3
    then have "byte (base64_char n) = n - 4" by (simp add: base64_char_def)
    then show ?thesis using 3 by (auto simp: base64_val_def in_range_def)
  qed (simp_all add: base64_val_def base64_char_def in_range_def)
qed

lemma base64_bound:
  assumes "(a::nat) < 256" and "b < 256" and "c < 256"
  shows "a div 4 < 64" "a mod 4 * 16 < 64" "a mod 4 * 16 + b div 16 < 64" "b mod 16 * 4 < 64"
    "b mod 16 * 4 + c div 64 < 64" "c mod 64 < 64"
proof -
  have d: "a div 4 < 64" "b div 16 < 16" "c div 64 < 4"
    using assms by (simp_all add: less_mult_imp_div_less)
  have m: "a mod 4 < 4" "b mod 16 < 16" "c mod 64 < 64" by simp_all
  show "a div 4 < 64" "c mod 64 < 64" by (fact d(1)) (fact m(3))
  show "a mod 4 * 16 < 64" "b mod 16 * 4 < 64" using m by linarith+
  show "a mod 4 * 16 + b div 16 < 64" using m(1) d(2) by linarith
  show "b mod 16 * 4 + c div 64 < 64" using m(2) d(3) by linarith
qed

lemma base64_join:
  assumes "(a::nat) < 256" and "b < 256" and "c < 256"
  shows "a div 4 * 4 + a mod 4 * 16 div 16 = a" "a div 4 * 4 + (a mod 4 * 16 + b div 16) div 16 = a"
    "(a mod 4 * 16 + b div 16) mod 16 * 16 + b mod 16 * 4 div 4 = b"
    "(a mod 4 * 16 + b div 16) mod 16 * 16 + (b mod 16 * 4 + c div 64) div 4 = b"
    "(b mod 16 * 4 + c div 64) mod 4 * 64 + c mod 64 = c"
proof -
  have "b div 16 < 16" "c div 64 < 4" using assms by (simp_all add: less_mult_imp_div_less)
  then show "a div 4 * 4 + a mod 4 * 16 div 16 = a" "a div 4 * 4 + (a mod 4 * 16 + b div 16) div 16 = a"
    "(a mod 4 * 16 + b div 16) mod 16 * 16 + b mod 16 * 4 div 4 = b"
    "(a mod 4 * 16 + b div 16) mod 16 * 16 + (b mod 16 * 4 + c div 64) div 4 = b"
    "(b mod 16 * 4 + c div 64) mod 4 * 64 + c mod 64 = c"
    by simp_all
qed

theorem base64_roundtrip: "base64_decode (base64_encode s) = s"
proof (induction s rule: base64_encode.induct)
  case (2 a)
  note b = base64_bound [OF byte_less [of a] byte_less [of a] byte_less [of a]]
  note j = base64_join [OF byte_less [of a] byte_less [of a] byte_less [of a]]
  show ?case by (simp only: base64_encode.simps base64_decode.simps base64_val_char b j if_True simp_thms char_of_char)
next
  case (3 a b)
  note b = base64_bound [OF byte_less [of a] byte_less [of b] byte_less [of b]]
  note j = base64_join [OF byte_less [of a] byte_less [of b] byte_less [of b]]
  show ?case by (simp only: base64_encode.simps base64_decode.simps base64_val_char b j if_True if_False simp_thms char_of_char)
next
  case (4 a b c s)
  note b = base64_bound [OF byte_less [of a] byte_less [of b] byte_less [of c]]
  note j = base64_join [OF byte_less [of a] byte_less [of b] byte_less [of c]]
  show ?case by (simp only: base64_encode.simps base64_decode.simps base64_val_char b j if_True if_False simp_thms char_of_char 4)
qed simp

subsection \<open>The scanner\<close>

lemma next_escape_length: "next_escape s = Some (n, r) \<Longrightarrow> length s = length r + 6"
  by (auto simp: next_escape_def split: list.splits if_splits dest!: get_hex4_length)


text \<open>\<open>scanJSONString\<close>, called behind the opening quote. The hexadecimal reader \<open>parseHex4\<close> is
  \<open>get_hex4\<close>; an escape at the end of the input cannot occur in a validated literal.\<close>

function scan_json_string :: "bytes \<Rightarrow> bytes option" where
  "scan_json_string [] = None"
| "scan_json_string (c # s) =
     (if c = dquote then Some s
      else if c = bslash then
        (case s of
           [] \<Rightarrow> None
         | e # r \<Rightarrow>
             if e \<noteq> CHR ''u'' then scan_json_string r
             else (case get_hex4 r of
                     None \<Rightarrow> None
                   | Some (cp, r1) \<Rightarrow>
                       if 0xD800 \<le> cp \<and> cp \<le> 0xDBFF then
                         (case next_escape r1 of
                            None \<Rightarrow> None
                          | Some (lo, r2) \<Rightarrow>
                              if lo < 0xDC00 \<or> 0xDFFF < lo then None else scan_json_string r2)
                       else if 0xDC00 \<le> cp \<and> cp \<le> 0xDFFF then None
                       else scan_json_string r1))
      else scan_json_string s)"
  by pat_completeness auto
termination
  by (relation "measure length") (auto dest!: get_hex4_length next_escape_length)

declare scan_json_string.simps(2) [simp del]

lemma scan_json_string_shrink: "scan_json_string s = Some r \<Longrightarrow> length r < length s"
proof (induction s arbitrary: r rule: scan_json_string.induct)
  case (2 c s)
  note prem = "2.prems" [unfolded scan_json_string.simps(2) [of c s]]
  from prem show ?case
  proof (elim if_eqE)
    assume c: "c \<noteq> dquote" "c = bslash" and t: "(case s of [] \<Rightarrow> None
         | e # r \<Rightarrow> if e \<noteq> CHR ''u'' then scan_json_string r
             else (case get_hex4 r of None \<Rightarrow> None | Some (cp, r1) \<Rightarrow>
                       if 0xD800 \<le> cp \<and> cp \<le> 0xDBFF then
                         (case next_escape r1 of None \<Rightarrow> None
                          | Some (lo, r2) \<Rightarrow> if lo < 0xDC00 \<or> 0xDFFF < lo then None else scan_json_string r2)
                       else if 0xDC00 \<le> cp \<and> cp \<le> 0xDFFF then None
                       else scan_json_string r1)) = Some r"
    then obtain e q where s: "s = e # q" by (cases s) auto
    consider "e \<noteq> CHR ''u''" "scan_json_string q = Some r"
      | cp r1 where "e = CHR ''u''" "get_hex4 q = Some (cp, r1)" "\<not> (0xD800 \<le> cp \<and> cp \<le> 0xDBFF)" "\<not> (0xDC00 \<le> cp \<and> cp \<le> 0xDFFF)" "scan_json_string r1 = Some r"
      | cp r1 lo r2 where "e = CHR ''u''" "get_hex4 q = Some (cp, r1)" "0xD800 \<le> cp \<and> cp \<le> 0xDBFF" "next_escape r1 = Some (lo, r2)" "\<not> (lo < 0xDC00 \<or> 0xDFFF < lo)" "scan_json_string r2 = Some r"
      using t s by (auto split: if_splits option.splits)
    then show ?thesis
    proof cases
      case 1
      then show ?thesis using "2.IH"(1) [OF c s] s by fastforce
    next
      case 2
      then show ?thesis using "2.IH"(3) [OF c s _ 2(2) refl] s get_hex4_length [OF 2(2)] by fastforce
    next
      case 3
      then show ?thesis
        using "2.IH"(2) [OF c s _ 3(2) refl 3(3) 3(4) refl] s get_hex4_length [OF 3(2)] next_escape_length [OF 3(4)] by fastforce
    qed
  next
    assume "c \<noteq> dquote" "c \<noteq> bslash" "scan_json_string s = Some r"
    then show ?thesis using "2.IH"(4) by fastforce
  qed simp
qed simp

function splice_scan :: "int \<Rightarrow> bool \<Rightarrow> bytes \<Rightarrow> bool" where
  "splice_scan depth expect_key [] = True"
| "splice_scan depth expect_key (c # s) =
     (if c = CHR ''{'' \<or> c = CHR ''['' then splice_scan (depth + 1) (c = CHR ''{'' \<and> depth + 1 = 1) s
      else if c = CHR ''}'' \<or> c = CHR '']'' then splice_scan (depth - 1) expect_key s
      else if c = CHR '','' then splice_scan depth (depth = 1) s
      else if c = dquote then
        (case scan_json_string s of
           None \<Rightarrow> False
         | Some r \<Rightarrow>
             if depth = 1 \<and> expect_key
             then (if unquote (take (length s - length r - 1) s) = ''dead_letter'' then False
                   else splice_scan depth False r)
             else splice_scan depth expect_key r)
      else splice_scan depth expect_key s)"
  by pat_completeness auto
termination
  by (relation "measure (\<lambda>(d, e, s). length s)") (auto dest!: scan_json_string_shrink)

declare splice_scan.simps(2) [simp del]

definition is_spliceable_object :: "bytes \<Rightarrow> bool" where
  "is_spliceable_object body =
     (if \<not> utf8_ok body \<or> json_parse body = None then False
      else (case skip_ws body of
              [] \<Rightarrow> False
            | c # s \<Rightarrow> if c \<noteq> CHR ''{'' then False else splice_scan 0 False (c # s)))"

subsection \<open>The record\<close>

definition json_space :: bytes where
  "json_space = [CHR 0x20, CHR 0x09, CHR 0x0D, CHR 0x0A]"

definition build_poison_record :: "bytes \<Rightarrow> bytes \<Rightarrow> bytes" where
  "build_poison_record body dead_letter' =
     (if is_spliceable_object body then
        let trimmed = trim_cutset json_space body;
            inner = trim_cutset json_space (butlast (tl trimmed))
        in (if inner = [] then ''{'' @ print_str ''dead_letter'' @ '':''
            else butlast trimmed @ '','' @ print_str ''dead_letter'' @ '':'') @ dead_letter' @ ''}''
      else ''{'' @ print_str ''raw'' @ '':'' @
        (if utf8_ok body then print_str (quote body)
         else print_str (quote (base64_encode body)) @ '','' @ print_str ''raw_encoding'' @ '':'' @ print_str ''base64'')
        @ '','' @ print_str ''dead_letter'' @ '':'' @ dead_letter' @ ''}'')"

subsection \<open>What the scanner decides\<close>

definition literal_paired :: "bytes \<Rightarrow> bool" where
  "literal_paired b \<longleftrightarrow> scan_json_string (b @ [dquote]) \<noteq> None"

fun json_paired :: "json \<Rightarrow> bool" where
  "json_paired (JStr b) = literal_paired b"
| "json_paired (JArr vs) = (\<forall>v \<in> set vs. json_paired v)"
| "json_paired (JObj ms) = (\<forall>(k, v) \<in> set ms. literal_paired k \<and> json_paired v)"
| "json_paired _ = True"

lemma next_escape_append: "next_escape s = Some (n, r) \<Longrightarrow> next_escape (s @ t) = Some (n, r @ t)"
  by (auto simp: next_escape_def get_hex4_append split: list.splits if_splits)

lemma next_escape_body:
  assumes "body_ok y"
  shows "next_escape (y @ dquote # t) = map_option (apsnd (\<lambda>z. z @ dquote # t)) (next_escape y)"
proof (cases "next_escape y")
  case None
  consider "y = []" | a where "y = [a]" | a b z where "y = a # b # z" by (metis neq_Nil_conv)
  then show ?thesis
  proof cases
    case 2
    then have "a \<noteq> bslash" using assms by (auto simp: body_ok.simps(2))
    then show ?thesis using 2 by (cases t) (auto simp: next_escape_def)
  next
    case 3
    then have "\<not> (a = bslash \<and> b = CHR ''u'')"
      using None assms by (auto simp: next_escape_def body_ok.simps(2) simple_escape_def)
    then show ?thesis using 3 by (auto simp: next_escape_def)
  qed (cases t; simp add: next_escape_def)
next
  case (Some p)
  then show ?thesis by (cases p) (simp add: next_escape_append)
qed

lemma next_escape_body_ok: "body_ok y \<Longrightarrow> next_escape y = Some (n, z) \<Longrightarrow> body_ok z"
  by (auto simp: next_escape_def body_ok.simps(2) get_hex4_body_ok split: list.splits if_splits)

lemma scan_u:
  "get_hex4 r = Some (n, r1) \<Longrightarrow> scan_json_string (bslash # CHR ''u'' # r) =
     (if 0xD800 \<le> n \<and> n \<le> 0xDBFF then
        (case next_escape r1 of None \<Rightarrow> None
         | Some (lo, r2) \<Rightarrow> if lo < 0xDC00 \<or> 0xDFFF < lo then None else scan_json_string r2)
      else if 0xDC00 \<le> n \<and> n \<le> 0xDFFF then None else scan_json_string r1)"
  by (simp only: scan_json_string.simps(2) list.case option.case prod.case) simp

lemma scan_literal:
  "body_ok b \<Longrightarrow> scan_json_string (b @ dquote # r) = (if literal_paired b then Some r else None)"
  unfolding literal_paired_def
proof (induction b rule: length_induct)
  case (1 b)
  note IH = "1.IH" [rule_format]
  show ?case
  proof (cases b)
    case (Cons c s)
    show ?thesis
    proof (cases "c = bslash")
      case False
      then have "c \<noteq> dquote" "body_ok s" using "1.prems" Cons by (auto simp: body_ok.simps(2))
      then show ?thesis using IH [of s] False Cons by (simp add: scan_json_string.simps(2))
    next
      case True
      then obtain e x where s: "s = e # x" and e: "simple_escape e \<or> e = CHR ''u'' \<and> get_hex4 x \<noteq> None" and x: "body_ok x"
        using "1.prems" Cons by (auto simp: body_ok.simps(2) split: list.splits)
      show ?thesis
      proof (cases "e = CHR ''u''")
        case False
        then show ?thesis using IH [of x] True Cons s x by (simp add: scan_json_string.simps(2))
      next
        case u: True
        then obtain n y where h: "get_hex4 x = Some (n, y)" using e by (auto simp: simple_escape_def)
        have y: "body_ok y" "length y < length b" using x get_hex4_body_ok [OF h] get_hex4_length [OF h] Cons s by auto
        note hx = get_hex4_append [OF h]
        show ?thesis
        proof (cases "0xD800 \<le> n \<and> n \<le> 0xDBFF")
          case False
          then show ?thesis unfolding Cons s u True append_Cons scan_u [OF hx] if_not_P [OF False]
            using IH [OF y(2) y(1)] by simp
        next
          case hi: True
          show ?thesis
          proof (cases "next_escape y")
            case None
            then show ?thesis unfolding Cons s u True append_Cons scan_u [OF hx] if_P [OF hi] next_escape_body [OF y(1)]
              by simp
          next
            case (Some p)
            obtain lo z where p: "p = (lo, z)" by fastforce
            have z: "body_ok z" "length z < length b"
              using next_escape_body_ok [OF y(1)] next_escape_length [of y lo z] Some p y(2) by auto
            show ?thesis unfolding Cons s u True append_Cons scan_u [OF hx] if_P [OF hi] next_escape_body [OF y(1)]
              using IH [OF z(2) z(1)] Some p by simp
          qed
        qed
      qed
    qed
  qed (simp add: scan_json_string.simps(2))
qed

text \<open>Bytes outside literals that neither nest nor separate.\<close>

definition inert :: "char \<Rightarrow> bool" where
  "inert c \<longleftrightarrow> c \<notin> {CHR ''{'', CHR ''['', CHR ''}'', CHR '']'', CHR '','', dquote}"

lemma splice_inert: "list_all inert w \<Longrightarrow> splice_scan d e (w @ s) = splice_scan d e s"
  by (induction w) (auto simp: splice_scan.simps(2) inert_def)

lemma inert_ws: "list_all is_ws w \<Longrightarrow> list_all inert w"
  by (auto simp: list_all_iff is_ws_def inert_def)

lemma inert_digits: "list_all is_digit w \<Longrightarrow> list_all inert w"
  by (auto simp: list_all_iff is_digit_def in_range_def inert_def)

lemma inert_number: "num_ok l \<Longrightarrow> list_all inert l"
  unfolding num_ok_def
proof (erule scan_numberD)
  fix sg i f e
  assume l: "l = sg @ i @ f @ e" and sg: "scan_sign l = (sg, i @ f @ e @ [])" and i: "int_part i (f @ e @ [])"
    and f: "frac_part f (e @ [])" and e: "exp_part e []"
  have "list_all inert sg" using sg by (auto simp: scan_sign_def inert_def split: list.splits if_splits)
  moreover have "list_all inert i" using i by (auto simp: int_part_def inert_def intro: inert_digits)
  moreover have "list_all inert f" using f by (auto simp: frac_part_def inert_def intro: inert_digits)
  moreover have "list_all inert e"
    using e by (auto simp: exp_part_def exp_digits_def inert_def intro: inert_digits)
  ultimately show "list_all inert l" using l by simp
qed

lemma splice_skip_ws: "splice_scan d e s = splice_scan d e (skip_ws s)"
proof -
  obtain w where w: "s = w @ skip_ws s" "list_all is_ws w" using skip_ws_prefix by blast
  have "splice_scan d e (w @ skip_ws s) = splice_scan d e (skip_ws s)"
    using inert_ws [OF w(2)] by (rule splice_inert)
  then show ?thesis using w(1) by simp
qed

lemma splice_string:
  assumes "scan_string t = Some (b, r)"
  shows "splice_scan d e (dquote # t) =
    (literal_paired b \<and> (if d = 1 \<and> e then unquote b \<noteq> ''dead_letter'' \<and> splice_scan d False r else splice_scan d e r))"
proof -
  have t: "t = b @ dquote # r" "body_ok b" using scan_string_split [OF assms] scan_string_body_ok [OF assms] .
  have "take (length t - length r - 1) t = b" using t(1) by simp
  then show ?thesis using scan_literal [OF t(2), of r] t(1) by (simp add: splice_scan.simps(2))
qed

lemma splice_parse:
  "(\<forall>k s v r d. pvalue n k s = Some (v, r) \<longrightarrow> 1 \<le> d \<longrightarrow> splice_scan d False s = (json_paired v \<and> splice_scan d False r)) \<and>
   (\<forall>k s vs r d. pelems n k s = Some (vs, r) \<longrightarrow> 2 \<le> d \<longrightarrow>
      splice_scan d False s = (json_paired (JArr vs) \<and> splice_scan (d - 1) False r)) \<and>
   (\<forall>k s ms r d. pmembers n k s = Some (ms, r) \<longrightarrow> 1 \<le> d \<longrightarrow>
      splice_scan d (d = 1) s = (json_paired (JObj ms) \<and> (d = 1 \<longrightarrow> (\<forall>(k, v) \<in> set ms. unquote k \<noteq> ''dead_letter''))
        \<and> splice_scan (d - 1) False r))"
proof (induction n)
  case (Suc n)
  note V = Suc.IH [THEN conjunct1, rule_format]
  note E = Suc.IH [THEN conjunct2, THEN conjunct1, rule_format]
  note M = Suc.IH [THEN conjunct2, THEN conjunct2, rule_format]
  have "splice_scan d False s = (json_paired v \<and> splice_scan d False r)"
    if p: "pvalue (Suc n) k s = Some (v, r)" and d: "1 \<le> d" for k s v r d
    using p
  proof (cases rule: pvalue_SomeE)
    case (obj_nil t)
    have "splice_scan (d + 1) False t = splice_scan d False r"
      unfolding splice_skip_ws [of _ _ t] obj_nil(3) by (simp add: splice_scan.simps(2))
    then show ?thesis unfolding splice_skip_ws [of _ _ s] obj_nil(1) using d obj_nil(4) by (simp add: splice_scan.simps(2))
  next
    case (obj t x u ms)
    then show ?thesis unfolding splice_skip_ws [of _ _ s] obj(1)
      using M [OF obj(5), of "d + 1"] d by (simp add: splice_scan.simps(2))
  next
    case (arr_nil t)
    have "splice_scan (d + 1) False t = splice_scan d False r"
      unfolding splice_skip_ws [of _ _ t] arr_nil(3) by (simp add: splice_scan.simps(2))
    then show ?thesis unfolding splice_skip_ws [of _ _ s] arr_nil(1) using d arr_nil(4) by (simp add: splice_scan.simps(2))
  next
    case (arr t x u vs)
    then show ?thesis unfolding splice_skip_ws [of _ _ s] arr(1)
      using E [OF arr(5), of "d + 1"] d by (simp add: splice_scan.simps(2))
  next
    case (str t b)
    then show ?thesis unfolding splice_skip_ws [of _ _ s] str(1) using splice_string [OF str(2)] by simp
  next
    case (word c w)
    have "c # w \<in> {''true'', ''false'', ''null''}"
      using word(1,2) p by (elim insertE emptyE) (auto simp: pvalue.simps(2) dest!: scan_word_length)
    then have "list_all inert (c # w)" by (auto simp: inert_def)
    then have "splice_scan d False ((c # w) @ r) = splice_scan d False r" by (rule splice_inert)
    then show ?thesis unfolding splice_skip_ws [of _ _ s] word(1) using word(3) by auto
  next
    case (num c u l)
    have "list_all inert l" using num(3) by (intro inert_number scan_number_ok)
    then have "splice_scan d False (l @ r) = splice_scan d False r" by (rule splice_inert)
    then show ?thesis unfolding splice_skip_ws [of _ _ s] num(1) using num(4) scan_number_split [OF num(3)] by simp
  qed
  moreover have "splice_scan d False s = (json_paired (JArr vs) \<and> splice_scan (d - 1) False r)"
    if p: "pelems (Suc n) k s = Some (vs, r)" and d: "2 \<le> d" for k s vs r d
    using p
  proof (cases rule: pelems_SomeE)
    case (last v t)
    have "splice_scan d False t = splice_scan (d - 1) False r"
      unfolding splice_skip_ws [of _ _ t] last(2) by (simp add: splice_scan.simps(2))
    then show ?thesis using V [OF last(1), of d] d last(3) by simp
  next
    case (more v t u vs')
    have "splice_scan d False t = splice_scan d False u"
      unfolding splice_skip_ws [of _ _ t] more(2) using d by (simp add: splice_scan.simps(2))
    then show ?thesis using V [OF more(1), of d] E [OF more(3) d] d more(4) by auto
  qed
  moreover have "splice_scan d (d = 1) s = (json_paired (JObj ms) \<and> (d = 1 \<longrightarrow> (\<forall>(k, v) \<in> set ms. unquote k \<noteq> ''dead_letter''))
        \<and> splice_scan (d - 1) False r)"
    if p: "pmembers (Suc n) k s = Some (ms, r)" and d: "1 \<le> d" for k s ms r d
    using p
  proof (cases rule: pmembers_SomeE)
    case (last t b u w v x)
    have "splice_scan d False u = splice_scan d False w"
      unfolding splice_skip_ws [of _ _ u] last(3) by (simp add: splice_scan.simps(2))
    moreover have "splice_scan d False x = splice_scan (d - 1) False r"
      unfolding splice_skip_ws [of _ _ x] last(5) by (simp add: splice_scan.simps(2))
    ultimately show ?thesis unfolding splice_skip_ws [of _ _ s] last(1)
      using splice_string [OF last(2)] V [OF last(4) d] last(6) by auto
  next
    case (more t b u w v x y ms')
    have "splice_scan d False u = splice_scan d False w"
      unfolding splice_skip_ws [of _ _ u] more(3) by (simp add: splice_scan.simps(2))
    moreover have "splice_scan d False x = splice_scan d (d = 1) y"
      unfolding splice_skip_ws [of _ _ x] more(5) by (simp add: splice_scan.simps(2))
    ultimately show ?thesis unfolding splice_skip_ws [of _ _ s] more(1)
      using splice_string [OF more(2)] V [OF more(4) d] M [OF more(6) d] more(7) by auto
  qed
  ultimately show ?case by blast
qed simp

text \<open>The pieces of a body that is an object.\<close>

lemma object_body:
  assumes "json_parse body = Some (JObj ms)" and "ms \<noteq> []"
  obtains w n p r where "body = w @ CHR ''{'' # p @ CHR ''}'' # r" "list_all is_ws w" "list_all is_ws r"
    "pmembers n 1 (p @ CHR ''}'' # r) = Some (ms, r)" "skip_ws body = CHR ''{'' # p @ CHR ''}'' # r"
    "\<And>m u ms' r'. pmembers m 1 u = Some (ms', r') \<Longrightarrow> \<exists>k. pmembers k 1 (p @ CHR '','' # u) = Some (ms @ ms', r')"
proof -
  obtain r where "pvalue (2 * length body + 2) 0 body = Some (JObj ms, r)" and r: "skip_ws r = []"
    using assms(1) by (auto simp: json_parse_def split: option.splits if_splits)
  then have "pvalue (Suc (2 * length body + 1)) 0 body = Some (JObj ms, r)" by simp
  then obtain t where t: "skip_ws body = CHR ''{'' # t" "pmembers (2 * length body + 1) 1 t = Some (ms, r)"
    by (cases rule: pvalue_SomeE) (use assms(2) in auto)
  obtain p where p: "t = p @ CHR ''}'' # r"
    "\<And>m u ms' r'. pmembers m 1 u = Some (ms', r') \<Longrightarrow> \<exists>k. pmembers k 1 (p @ CHR '','' # u) = Some (ms @ ms', r')"
    using pmembers_extend [OF t(2)] by blast
  obtain w where w: "body = w @ CHR ''{'' # t" "list_all is_ws w" using skip_ws_split [OF t(1)] .
  have "list_all is_ws r" using r by (auto simp: skip_ws_def dropWhile_eq_Nil_conv list_all_iff)
  then show ?thesis using that [OF _ w(2), of p r "2 * length body + 1"] w(1) p t by auto
qed

lemma empty_object_body:
  assumes "json_parse body = Some (JObj [])"
  obtains w v r where "body = w @ CHR ''{'' # v @ CHR ''}'' # r" "list_all is_ws w" "list_all is_ws v" "list_all is_ws r"
    "skip_ws body = CHR ''{'' # v @ CHR ''}'' # r"
proof -
  obtain r where "pvalue (2 * length body + 2) 0 body = Some (JObj [], r)" and r: "skip_ws r = []"
    using assms by (auto simp: json_parse_def split: option.splits if_splits)
  then have "pvalue (Suc (2 * length body + 1)) 0 body = Some (JObj [], r)" by simp
  then obtain t where t: "skip_ws body = CHR ''{'' # t" "skip_ws t = CHR ''}'' # r"
  proof (cases rule: pvalue_SomeE)
    case (obj t x u ms)
    then have "ms = []" by simp
    moreover obtain m where "2 * length body + 1 = Suc m" by simp
    ultimately have "pmembers (Suc m) (Suc 0) t = Some ([], r)" using obj(5) by simp
    then show ?thesis by (cases rule: pmembers_SomeE) auto
  qed auto
  obtain w where w: "body = w @ CHR ''{'' # t" "list_all is_ws w" using skip_ws_split [OF t(1)] .
  obtain v where v: "t = v @ CHR ''}'' # r" "list_all is_ws v" using skip_ws_split [OF t(2)] .
  have "list_all is_ws r" using r by (auto simp: skip_ws_def dropWhile_eq_Nil_conv list_all_iff)
  then show ?thesis using that [OF _ w(2) v(2)] w(1) v(1) t(1) by auto
qed

lemma splice_object:
  assumes "json_parse body = Some (JObj ms)"
  shows "splice_scan 0 False (skip_ws body) \<longleftrightarrow>
    json_paired (JObj ms) \<and> (\<forall>(k, v) \<in> set ms. unquote k \<noteq> ''dead_letter'')"
proof (cases "ms = []")
  case True
  then obtain w v r where b: "list_all is_ws v" "list_all is_ws r" "skip_ws body = CHR ''{'' # v @ CHR ''}'' # r"
    using empty_object_body [of body] assms by metis
  have "splice_scan 0 True (r @ [])" using inert_ws [OF b(2)] by (subst splice_inert) simp_all
  then have "splice_scan 0 True r" by simp
  then show ?thesis unfolding b(3) using True inert_ws [OF b(1)] by (simp add: splice_scan.simps(2) splice_inert)
next
  case False
  obtain w n p r where b: "list_all is_ws r" "pmembers n 1 (p @ CHR ''}'' # r) = Some (ms, r)"
    "skip_ws body = CHR ''{'' # p @ CHR ''}'' # r"
    by (rule object_body [OF assms False]) blast
  have "splice_scan 0 False (r @ [])" using inert_ws [OF b(1)] by (subst splice_inert) simp_all
  then have r: "splice_scan 0 False r" by simp
  have "splice_scan 1 ((1::int) = 1) (p @ CHR ''}'' # r) \<longleftrightarrow>
      json_paired (JObj ms) \<and> ((1::int) = 1 \<longrightarrow> (\<forall>(k, v) \<in> set ms. unquote k \<noteq> ''dead_letter'')) \<and> splice_scan (1 - 1) False r"
    using splice_parse b(2) by blast
  then show ?thesis unfolding b(3) using r by (simp add: splice_scan.simps(2))
qed

lemma is_spliceable_iff:
  "is_spliceable_object body \<longleftrightarrow> utf8_ok body \<and>
     (\<exists>ms. json_parse body = Some (JObj ms) \<and> json_paired (JObj ms) \<and> (\<forall>(k, v) \<in> set ms. unquote k \<noteq> ''dead_letter''))"
proof (cases "\<exists>ms. json_parse body = Some (JObj ms)")
  case True
  then obtain ms where ms: "json_parse body = Some (JObj ms)" by blast
  obtain t where "skip_ws body = CHR ''{'' # t" using json_parse_obj_brace [OF ms] by blast
  then show ?thesis using splice_object [OF ms] ms by (auto simp: is_spliceable_object_def)
next
  case False
  have "\<not> is_spliceable_object body"
  proof
    assume a: "is_spliceable_object body"
    then obtain v t where v: "json_parse body = Some v" and t: "skip_ws body = CHR ''{'' # t"
      by (auto simp: is_spliceable_object_def split: if_splits list.splits)
    obtain r where "pvalue (2 * length body + 2) 0 body = Some (v, r)"
      using v by (auto simp: json_parse_def split: option.splits if_splits)
    then have "pvalue (Suc (2 * length body + 1)) 0 body = Some (v, r)" by simp
    then show False using t v False by (cases rule: pvalue_SomeE) auto
  qed
  then show ?thesis using False by blast
qed

subsection \<open>What the record holds\<close>

lemma json_space_ws: "c \<in> set json_space \<longleftrightarrow> is_ws c"
proof -
  have "c \<in> set json_space \<longleftrightarrow> byte c \<in> byte ` set json_space" by (auto simp: of_char_eq_iff)
  then show ?thesis by (auto simp: json_space_def is_ws_def)
qed

lemma trim_cutset_middle:
  assumes "set w \<subseteq> set cs" and "set r \<subseteq> set cs" and "s \<noteq> []" and "hd s \<notin> set cs" and "last s \<notin> set cs"
  shows "trim_cutset cs (w @ s @ r) = s"
proof -
  have "dropWhile (\<lambda>c. c \<in> set cs) (w @ s @ r) = s @ r"
    using assms(1,3,4) by (cases s) (auto simp: dropWhile_append subset_iff dropWhile_eq_Nil_conv)
  moreover have "dropWhile (\<lambda>c. c \<in> set cs) (rev r @ rev s) = rev s"
    using assms(2,3,5) by (cases s rule: rev_cases) (auto simp: dropWhile_append subset_iff dropWhile_eq_Nil_conv)
  ultimately show ?thesis by (simp add: trim_cutset_def)
qed

lemma trim_object:
  assumes "list_all is_ws w" and "list_all is_ws r"
  shows "trim_cutset json_space (w @ CHR ''{'' # p @ CHR ''}'' # r) = CHR ''{'' # p @ ''}''"
proof -
  have "trim_cutset json_space (w @ (CHR ''{'' # p @ ''}'') @ r) = CHR ''{'' # p @ ''}''"
    using assms by (intro trim_cutset_middle) (auto simp: json_space_ws list_all_iff)
  then show ?thesis by simp
qed

lemma trim_ws_Nil: "trim_cutset json_space v = [] \<longleftrightarrow> list_all is_ws v"
  by (auto simp: trim_cutset_eq_Nil_iff json_space_ws list_all_iff)

lemma member_print:
  assumes "body_ok k" and "json_ok 1 v"
  shows "\<exists>n. pmembers n 1 (print_str k @ '':'' @ json_print v @ CHR ''}'' # r) = Some ([(k, v)], r)"
  using pmembers_print [of "(k, v)" "[]" 1 r] assms parses_print [of 1 v] by auto

lemma parse_members_object:
  assumes "pmembers n 1 s = Some (ms, [])"
  shows "json_parse (CHR ''{'' # s) = Some (JObj ms)"
proof -
  obtain c z where "skip_ws s = c # z" "c \<noteq> CHR ''}''" using pmembers_hd [OF assms] by blast
  then have "pvalue (Suc n) 0 (CHR ''{'' # s) = Some (JObj ms, [])"
    using assms by (simp add: pvalue.simps(2) max_depth_gt)
  then show ?thesis by (rule json_parse_fuel) simp
qed

text \<open>C21. The splice. For a body that is a strict JSON object without a \<open>dead_letter\<close> member, the
  record is the same object with the dead-letter block appended: every member is there, in order,
  duplicates included, with its name and value literals exactly as written.\<close>

theorem poison_splice:
  assumes "is_spliceable_object body" and "json_ok 1 d"
  shows "\<exists>ms. json_parse body = Some (JObj ms)
    \<and> json_parse (build_poison_record body (json_print d)) = Some (JObj (ms @ [(''dead_letter'', d)]))"
proof -
  obtain ms where ms: "json_parse body = Some (JObj ms)" using assms(1) is_spliceable_iff by blast
  obtain m where dl: "pmembers m 1 (print_str ''dead_letter'' @ '':'' @ json_print d @ ''}'') = Some ([(''dead_letter'', d)], [])"
    using member_print [of "''dead_letter''" d "[]"] assms(2) by auto
  have "json_parse (build_poison_record body (json_print d)) = Some (JObj (ms @ [(''dead_letter'', d)]))"
  proof (cases "ms = []")
    case True
    then obtain w v r where b: "body = w @ CHR ''{'' # v @ CHR ''}'' # r" "list_all is_ws w" "list_all is_ws v" "list_all is_ws r"
      using empty_object_body [of body] ms by metis
    have "trim_cutset json_space v = []" using b(3) by (simp add: trim_ws_Nil)
    then have "build_poison_record body (json_print d)
        = CHR ''{'' # print_str ''dead_letter'' @ '':'' @ json_print d @ ''}''"
      using assms(1) trim_object [OF b(2,4), of v] b(1) by (simp add: build_poison_record_def Let_def butlast_append)
    then show ?thesis using parse_members_object [OF dl] True by simp
  next
    case False
    obtain w n p r where b: "body = w @ CHR ''{'' # p @ CHR ''}'' # r" "list_all is_ws w" "list_all is_ws r"
      "pmembers n 1 (p @ CHR ''}'' # r) = Some (ms, r)"
      "\<And>m u ms' r'. pmembers m 1 u = Some (ms', r') \<Longrightarrow> \<exists>k. pmembers k 1 (p @ CHR '','' # u) = Some (ms @ ms', r')"
      by (rule object_body [OF ms False]) blast
    have "\<not> list_all is_ws p"
    proof
      assume p: "list_all is_ws p"
      obtain c z where "skip_ws (p @ CHR ''}'' # r) = c # z" "c \<noteq> CHR ''}''" using pmembers_hd [OF b(4)] by blast
      then show False using p by simp
    qed
    then have "trim_cutset json_space p \<noteq> []" by (simp add: trim_ws_Nil)
    then have rec: "build_poison_record body (json_print d)
        = CHR ''{'' # p @ CHR '','' # print_str ''dead_letter'' @ '':'' @ json_print d @ ''}''"
      using assms(1) trim_object [OF b(2,3), of p] b(1) by (simp add: build_poison_record_def Let_def butlast_append)
    obtain k where "pmembers k 1 (p @ CHR '','' # print_str ''dead_letter'' @ '':'' @ json_print d @ ''}'')
        = Some (ms @ [(''dead_letter'', d)], [])" using b(5) [OF dl] by blast
    then show ?thesis unfolding rec by (rule parse_members_object)
  qed
  then show ?thesis using ms by blast
qed

theorem poison_splice_witness:
  "\<exists>ms. json_parse ''{\"job\":1e999,\"job\":1}'' = Some (JObj ms)
    \<and> json_parse (build_poison_record ''{\"job\":1e999,\"job\":1}'' (json_print (JObj []))) = Some (JObj (ms @ [(''dead_letter'', JObj [])]))"
  by (rule poison_splice) code_simp+

lemma base64_char_ascii: "n < 64 \<Longrightarrow> byte (base64_char n) < 0x80"
proof -
  assume n: "n < 64"
  consider "n < 26" | "26 \<le> n" "n < 52" | "52 \<le> n" "n < 62" | "n = 62" | "n = 63" using n by linarith
  then show ?thesis by cases (simp_all add: base64_char_def)
qed

lemma base64_ascii: "list_all (\<lambda>c. byte c < 0x80) (base64_encode s)"
proof (induction s rule: base64_encode.induct)
  case (2 a)
  show ?case using base64_bound [OF byte_less [of a] byte_less [of a] byte_less [of a]] by (simp add: base64_char_ascii)
next
  case (3 a b)
  show ?case using base64_bound [OF byte_less [of a] byte_less [of b] byte_less [of b]] by (simp add: base64_char_ascii)
next
  case (4 a b c s)
  then show ?case using base64_bound [OF byte_less [of a] byte_less [of b] byte_less [of c]] by (simp add: base64_char_ascii)
qed simp

lemma utf8_ok_all_ascii: "list_all (\<lambda>c. byte c < 0x80) s \<Longrightarrow> utf8_ok s"
  by (induction s) auto

text \<open>C22. The wrap. Any other body is carried whole: the record is an object with \<open>raw\<close>, an
  encoding mark when the body is not valid UTF-8, and the dead-letter block, and the body is
  recovered from it exactly, byte for byte, never with replacement characters.\<close>

theorem poison_wrap:
  assumes "\<not> is_spliceable_object body" and "json_ok 1 d"
  shows "\<exists>b. json_parse (build_poison_record body (json_print d)) =
      Some (JObj ((''raw'', JStr b) # (if utf8_ok body then [] else [(''raw_encoding'', JStr ''base64'')]) @ [(''dead_letter'', d)]))
    \<and> (if utf8_ok body then unquote b else base64_decode (unquote b)) = body"
proof -
  let ?b = "if utf8_ok body then quote body else quote (base64_encode body)"
  let ?ms = "(''raw'', JStr ?b) # (if utf8_ok body then [] else [(''raw_encoding'', JStr ''base64'')]) @ [(''dead_letter'', d)]"
  have "body_ok ''raw''" "body_ok ''raw_encoding''" "body_ok ''base64''" by (simp_all add: plain_byte_def)
  then have "json_ok 0 (JObj ?ms)" using assms(2) by (simp add: max_depth_gt body_ok_quote)
  moreover have "build_poison_record body (json_print d) = json_print (JObj ?ms)"
    using assms(1) by (simp add: build_poison_record_def)
  ultimately have "json_parse (build_poison_record body (json_print d)) = Some (JObj ?ms)"
    by (simp only: json_parse_print)
  moreover have "(if utf8_ok body then unquote ?b else base64_decode (unquote ?b)) = body"
    using unquote_quote_id [OF utf8_ok_all_ascii [OF base64_ascii, of body]]
    by (simp add: unquote_quote_id base64_roundtrip)
  ultimately show ?thesis by blast
qed

theorem poison_wrap_witness:
  "\<exists>b. json_parse (build_poison_record ''[1'' (json_print (JObj []))) =
      Some (JObj ((''raw'', JStr b) # (if utf8_ok ''[1'' then [] else [(''raw_encoding'', JStr ''base64'')]) @ [(''dead_letter'', JObj [])]))
    \<and> (if utf8_ok ''[1'' then unquote b else base64_decode (unquote b)) = ''[1''"
  by (rule poison_wrap) code_simp+


end
