(* ===== verification/Backoff.thy ===== *)
theory Backoff
  imports Number
begin

section \<open>Retry delays\<close>

text \<open>
  \<open>retryDelay\<close> and \<open>computeRetryDelay\<close> of \<open>app.go\<close>. The delay is a float64 product, so the
  arithmetic is that of \<open>Number\<close>: a non-negative float64 is \<open>Some (m, s)\<close> with value
  \<open>m * 2^s * 2^-1074\<close>, and \<open>None\<close> is positive infinity. \<open>math.Pow\<close> is the repeated squaring
  of the Go library with the mantissa kept in \<open>[1/2, 1)\<close>. Durations are nanoseconds.

  The base is positive and the multiplier at least one where the product is formed, so neither a NaN
  nor a negative value can arise; the code's test for NaN has no counterpart.
\<close>

type_synonym fl = "(int \<times> nat) option"

definition fl_of_int :: "int \<Rightarrow> fl" where
  "fl_of_int n = round_ratio n 1"

text \<open>The exact value in units of \<open>2^-1074\<close>.\<close>

definition fl_units :: "int \<times> nat \<Rightarrow> int" where
  "fl_units f = fst f * 2 ^ snd f"

definition fl_mul :: "fl \<Rightarrow> fl \<Rightarrow> fl" where
  "fl_mul x y =
     (case (x, y) of
        (Some f, Some g) \<Rightarrow> round_ratio (fst f * fst g * 2 ^ (snd f + snd g)) (2 ^ 2148)
      | _ \<Rightarrow> None)"

definition fl_less :: "fl \<Rightarrow> fl \<Rightarrow> bool" where
  "fl_less x y =
     (case (x, y) of
        (None, _) \<Rightarrow> False
      | (Some _, None) \<Rightarrow> True
      | (Some f, Some g) \<Rightarrow> fl_units f < fl_units g)"

text \<open>Conversion to an integer truncates.\<close>

definition fl_trunc :: "int \<times> nat \<Rightarrow> int" where
  "fl_trunc f = fl_units f div 2 ^ 1074"

definition fl_one :: fl where
  "fl_one = Some (2 ^ 52, 1022)"

definition frexp :: "int \<times> nat \<Rightarrow> (int \<times> nat) \<times> int" where
  "frexp f = ((fst f, 1021), int (snd f) - 1021)"

definition ldexp :: "int \<times> nat \<Rightarrow> int \<Rightarrow> fl" where
  "ldexp f e =
     (let s = int (snd f) + e
      in if 2045 < s then None else Some (fst f, nat s))"

function pow_loop :: "int \<Rightarrow> fl \<Rightarrow> int \<Rightarrow> fl \<Rightarrow> int \<Rightarrow> fl \<times> int" where
  "pow_loop i a1 ae x1 xe =
     (if i \<le> 0 then (a1, ae)
      else if xe < - 4096 \<or> 4096 < xe then (a1, ae + xe)
      else
        let (a1', ae') = (if odd i then (fl_mul a1 x1, ae + xe) else (a1, ae));
            y = fl_mul x1 x1;
            (x1', xe') =
              (case y of
                 Some (m, s) \<Rightarrow> if s < 1021 then (Some (m, Suc s), 2 * xe - 1) else (y, 2 * xe)
               | None \<Rightarrow> (y, 2 * xe))
        in pow_loop (i div 2) a1' ae' x1' xe')"
  by auto
termination by (relation "measure (\<lambda>(i, _). nat i)") auto

declare pow_loop.simps [simp del]

text \<open>\<open>math.Pow(x, y)\<close> for \<open>x >= 1\<close> and an integral \<open>y >= 0\<close>.\<close>

definition pow_int :: "fl \<Rightarrow> int \<Rightarrow> fl" where
  "pow_int x y =
     (if y = 0 \<or> x = fl_one then fl_one
      else if y = 1 then x
      else case x of
             None \<Rightarrow> None
           | Some f \<Rightarrow>
               if 2 ^ 63 \<le> y then None
               else (case frexp f of (x1, xe) \<Rightarrow>
                       (case pow_loop y fl_one 0 (Some x1) xe of
                          (None, _) \<Rightarrow> None
                        | (Some a1, ae) \<Rightarrow> ldexp a1 ae)))"

definition float_trunc_int :: "int \<Rightarrow> int" where
  "float_trunc_int n = (case fl_of_int n of None \<Rightarrow> n | Some f \<Rightarrow> fl_trunc f)"

definition compute_retry_delay :: "int \<Rightarrow> fl \<Rightarrow> int \<Rightarrow> int \<Rightarrow> int" where
  "compute_retry_delay base multiplier max' n =
     (if base \<le> 0 then 0
      else
        let mult = (if fl_less multiplier fl_one then fl_one else multiplier);
            n' = (if n < 1 then 1 else n);
            d = fl_mul (fl_of_int base) (pow_int mult (float_trunc_int (n' - 1)))
        in if 0 < max' \<and> fl_less (fl_of_int max') d then max'
           else (case d of
                   None \<Rightarrow> max_int64
                 | Some f \<Rightarrow> if \<not> fl_less d (fl_of_int max_int64) then max_int64 else fl_trunc f))"

definition jitter_none :: bytes where "jitter_none = ''none''"
definition jitter_full :: bytes where "jitter_full = ''full''"

text \<open>\<open>rnd\<close> is the value \<open>rand.Float64\<close> drew.\<close>

definition retry_delay :: "int \<Rightarrow> fl \<Rightarrow> int \<Rightarrow> bytes \<Rightarrow> int \<Rightarrow> int \<times> nat \<Rightarrow> int" where
  "retry_delay base multiplier max' jitter n rnd =
     (let d = compute_retry_delay base multiplier max' n
      in if jitter = jitter_full \<and> 0 < d
         then (case fl_mul (Some rnd) (fl_of_int d) of None \<Rightarrow> max_int64 | Some f \<Rightarrow> fl_trunc f)
         else d)"

subsection \<open>Bounds\<close>

lemma fl_of_int_exact:
  assumes "0 \<le> n" and "n < 2 ^ 53"
  shows "\<exists>f. fl_of_int n = Some f \<and> f64_ok f \<and> fl_units f = n * 2 ^ 1074"
proof (cases "n = 0")
  case True
  have "round_ratio 0 1 = Some (0, 0)" by (rule round_ratio_exact) (simp_all add: f64_ok_def)
  then show ?thesis using True by (simp add: fl_of_int_def fl_units_def f64_ok_def)
next
  case False
  then obtain k where k: "2 ^ k \<le> n" "n < 2 ^ Suc k" using bitlen_bounds [of n] assms(1) by auto
  have "(2::int) ^ k < 2 ^ 53" using k(1) assms(2) by linarith
  then have k53: "k < 53" by (rule power_less_imp_less_exp [rotated]) simp
  let ?m = "n * 2 ^ (52 - k)" and ?s = "1022 + k"
  have "(2::int) ^ k * 2 ^ (52 - k) = 2 ^ 52" "(2::int) ^ Suc k * 2 ^ (52 - k) = 2 ^ 53"
    using k53 by (simp_all flip: power_add)
  moreover have "2 ^ k * 2 ^ (52 - k) \<le> ?m" "?m < 2 ^ Suc k * 2 ^ (52 - k)"
    using k by simp_all
  ultimately have m: "2 ^ 52 \<le> ?m" "?m < 2 ^ 53" by linarith+
  have ok: "f64_ok (?m, ?s)" using m assms(1) k53 by (simp add: f64_ok_def)
  have "?m * 2 ^ ?s = n * (2 ^ (52 - k) * 2 ^ ?s)" by (simp only: mult.assoc)
  also have "(2::int) ^ (52 - k) * 2 ^ ?s = 2 ^ (52 - k + ?s)" by (simp only: power_add)
  also have "52 - k + ?s = 1074" using k53 by simp
  finally have e: "?m * 2 ^ ?s = n * 2 ^ 1074" .
  have "round_ratio n 1 = Some (?m, ?s)"
    by (rule round_ratio_exact [OF ok]) (simp, simp only: e mult_1_right)
  then show ?thesis using ok e unfolding fl_of_int_def fl_units_def by (metis fst_conv snd_conv)
qed

lemma pow2148: "(2::int) ^ 52 * 2 ^ 1022 * 2 ^ 1074 = 2 ^ 2148"
  by (simp only: power_add [symmetric]) simp

lemma fl_mul_one: "f64_ok f \<Longrightarrow> fl_mul (Some f) fl_one = Some f"
proof -
  assume f: "f64_ok f"
  obtain m s where ms: "f = (m, s)" by fastforce
  have "m * 2 ^ 52 * 2 ^ (s + 1022) * 2 ^ 1074 = m * 2 ^ s * (2 ^ 52 * 2 ^ 1022 * 2 ^ 1074)"
    by (simp only: power_add ac_simps)
  then have "m * 2 ^ 52 * 2 ^ (s + 1022) * 2 ^ 1074 = m * 2 ^ s * 2 ^ 2148" by (simp only: pow2148)
  then have "round_ratio (m * 2 ^ 52 * 2 ^ (s + 1022)) (2 ^ 2148) = Some (m, s)"
    using f ms by (intro round_ratio_exact) (simp, rule zero_less_power, simp)
  then show ?thesis unfolding fl_mul_def fl_one_def ms by (simp only: prod.case option.case fst_conv snd_conv)
qed

definition fl_nonneg :: "fl \<Rightarrow> bool" where
  "fl_nonneg x = (case x of None \<Rightarrow> True | Some f \<Rightarrow> 0 \<le> fst f)"

lemma round_ratio_nonneg: "0 \<le> num \<Longrightarrow> 0 < den \<Longrightarrow> fl_nonneg (round_ratio num den)"
  using round_ratio_ok [of num den] by (auto simp: fl_nonneg_def f64_ok_def split: option.split)

lemma fl_nonneg_int: "0 \<le> n \<Longrightarrow> fl_nonneg (fl_of_int n)"
  unfolding fl_of_int_def by (rule round_ratio_nonneg) simp_all

lemma fl_nonneg_mul:
  assumes "fl_nonneg x" and "fl_nonneg y"
  shows "fl_nonneg (fl_mul x y)"
proof (cases "x = None \<or> y = None")
  case True
  then show ?thesis by (auto simp: fl_mul_def fl_nonneg_def split: option.splits)
next
  case False
  then obtain f g where fg: "x = Some f" "y = Some g" by auto
  have n: "0 \<le> fst f * fst g * 2 ^ (snd f + snd g)" using assms fg by (simp add: fl_nonneg_def)
  have "fl_nonneg (round_ratio (fst f * fst g * 2 ^ (snd f + snd g)) (2 ^ 2148))"
    by (rule round_ratio_nonneg [OF n]) (rule zero_less_power, simp)
  then show ?thesis unfolding fg fl_mul_def by (simp only: prod.case option.case)
qed

lemma fl_nonneg_one: "fl_nonneg fl_one"
  by (simp add: fl_nonneg_def fl_one_def)

lemma fl_nonneg_pow_loop:
  "fl_nonneg a1 \<Longrightarrow> fl_nonneg x1 \<Longrightarrow> fl_nonneg (fst (pow_loop i a1 ae x1 xe))"
proof (induction i a1 ae x1 xe rule: pow_loop.induct)
  case (1 i a1 ae x1 xe)
  show ?case
  proof (cases "i \<le> 0 \<or> xe < - 4096 \<or> 4096 < xe")
    case True
    then show ?thesis using 1 by (subst pow_loop.simps) auto
  next
    case False
    let ?y = "fl_mul x1 x1"
    let ?p = "if odd i then (fl_mul a1 x1, ae + xe) else (a1, ae)"
    let ?q = "case ?y of Some (m, s) \<Rightarrow> if s < 1021 then (Some (m, Suc s), 2 * xe - 1) else (?y, 2 * xe) | None \<Rightarrow> (?y, 2 * xe)"
    obtain a' e' where P: "?p = (a', e')" by fastforce
    obtain x' f' where Q: "?q = (x', f')" by fastforce
    have p: "fl_nonneg a'" using 1(2,3) fl_nonneg_mul P by (auto split: if_splits)
    have "fl_nonneg ?y" using 1(3) fl_nonneg_mul by simp
    then have q: "fl_nonneg x'" using Q by (auto simp: fl_nonneg_def split: option.splits if_splits)
    have "fl_nonneg (fst (pow_loop (i div 2) a' e' x' f'))"
      using "1.IH" [OF _ _ refl P [symmetric] refl refl Q [symmetric] p q] False by simp
    moreover have "pow_loop i a1 ae x1 xe = pow_loop (i div 2) a' e' x' f'"
      using False P Q by (subst pow_loop.simps) (simp add: Let_def)
    ultimately show ?thesis by simp
  qed
qed

lemma fl_nonneg_pow: "fl_nonneg x \<Longrightarrow> fl_nonneg (pow_int x y)"
proof (cases x)
  case (Some f)
  assume x: "fl_nonneg x"
  then have f: "fl_nonneg (Some (fst f, 1021))" using Some by (simp add: fl_nonneg_def)
  obtain a ae where a: "pow_loop y fl_one 0 (Some (fst f, 1021)) (int (snd f) - 1021) = (a, ae)" by fastforce
  have "fl_nonneg a" using fl_nonneg_pow_loop [OF fl_nonneg_one f, of y 0 "int (snd f) - 1021"] a by simp
  then show ?thesis using Some x a fl_nonneg_one
    by (auto simp: pow_int_def frexp_def ldexp_def fl_nonneg_def Let_def split: option.split)
qed (auto simp: pow_int_def fl_nonneg_def fl_one_def)

lemma fl_less_int:
  assumes "0 \<le> n" and "n < 2 ^ 53"
  shows "fl_less (fl_of_int n) (Some f) \<longleftrightarrow> n * 2 ^ 1074 < fl_units f"
  using fl_of_int_exact [OF assms] by (auto simp: fl_less_def)

lemma fl_trunc_bounds:
  assumes "fl_nonneg (Some f)"
  shows "0 \<le> fl_trunc f" and "fl_units f < n * 2 ^ 1074 \<Longrightarrow> fl_trunc f < n" and "fl_units f \<le> n * 2 ^ 1074 \<Longrightarrow> fl_trunc f \<le> n"
proof -
  have p: "(0::int) < 2 ^ 1074" by (rule zero_less_power) simp
  have "0 \<le> fl_units f" using assms by (simp add: fl_units_def fl_nonneg_def)
  then show "0 \<le> fl_trunc f" unfolding fl_trunc_def using p by (simp only: pos_imp_zdiv_nonneg_iff)
  have q: "fl_trunc f * 2 ^ 1074 \<le> fl_units f"
    unfolding fl_trunc_def using p by (metis div_mult_mod_eq le_add_same_cancel1 pos_mod_sign)
  show "fl_trunc f < n" if "fl_units f < n * 2 ^ 1074"
    using le_less_trans [OF q that] p by (rule mult_right_less_imp_less [OF _ less_imp_le])
  show "fl_trunc f \<le> n" if "fl_units f \<le> n * 2 ^ 1074"
    using order_trans [OF q that] p by (rule mult_right_le_imp_le)
qed

text \<open>The largest duration rounds up to \<open>2^63\<close>, which is what the overflow guard compares with.\<close>

lemma bitlen_shift: "0 < n \<Longrightarrow> bitlen (n * 2 ^ k) = bitlen n + k"
proof -
  assume n: "0 < n"
  obtain j where j: "bitlen n = Suc j" "2 ^ j \<le> n" "n < 2 ^ Suc j" using bitlen_bounds [OF n] by blast
  have "2 ^ j * 2 ^ k \<le> n * 2 ^ k" "n * 2 ^ k < 2 ^ Suc j * 2 ^ k" using j by simp_all
  then have "bitlen (n * 2 ^ k) = Suc (j + k)"
    by (intro bitlen_eq) (simp_all add: power_add)
  then show ?thesis using j(1) by simp
qed

lemma round_half_even_scale: "0 < c \<Longrightarrow> round_half_even (a * c) (b * c) = round_half_even a b"
proof -
  assume c: "0 < c"
  have "a * c div (b * c) = a div b" using c by simp
  moreover have "a * c mod (b * c) = a mod b * c" using c by (simp add: mult_mod_left)
  moreover have "2 * (r * c) < b * c \<longleftrightarrow> 2 * r < b" "2 * (r * c) = b * c \<longleftrightarrow> 2 * r = b" for r
    using c by (metis mult.assoc mult_less_cancel_right_pos, metis less_irrefl mult.assoc mult_right_cancel)
  ultimately show ?thesis unfolding round_half_even_def by (simp only: Let_def)
qed

lemma round_ratio_big:
  assumes "2 ^ 53 \<le> n" and "bitlen n = 53 + j" and "round_half_even n (2 ^ j) = 2 ^ 53" and "j < 971"
  shows "round_ratio n 1 = Some (2 ^ 52, j + 1075)"
proof -
  have n: "0 < n" using assms(1) by simp
  have q: "\<not> n * 2 ^ 1074 < 2 ^ 53"
  proof -
    have "(1::int) \<le> 2 ^ 1074" by (rule one_le_power) simp
    then have "n * 1 \<le> n * 2 ^ 1074" using n by (intro mult_left_mono) auto
    then show ?thesis using assms(1) by linarith
  qed
  have "bitlen (n * 2 ^ 1074) - 53 = j + 1074" unfolding bitlen_shift [OF n] assms(2) by simp
  moreover have "round_half_even (n * 2 ^ 1074) (1 * 2 ^ (j + 1074)) = 2 ^ 53"
    unfolding power_add mult_1 using assms(3) by (subst round_half_even_scale) (rule zero_less_power, simp, simp)
  ultimately show ?thesis using q assms(4) unfolding round_ratio_def Let_def div_by_1
    by (simp only: if_False if_True prod.case) simp
qed

lemma fl_of_max_int64: "fl_of_int max_int64 = Some (2 ^ 52, 1085)"
proof -
  have "bitlen 9223372036854775807 = Suc 62" by (rule bitlen_eq) simp_all
  moreover have "round_half_even 9223372036854775807 (2 ^ 10) = 2 ^ 53"
    by (simp add: round_half_even_def)
  ultimately show ?thesis
    using round_ratio_big [of 9223372036854775807 10] by (simp add: fl_of_int_def max_int64_def)
qed

lemma pow_63: "(2::int) ^ 52 * 2 ^ 1085 = 2 ^ 63 * 2 ^ 1074"
  by (simp only: power_add [symmetric]) simp

lemma max_int64_units: "fl_less (Some f) (fl_of_int max_int64) \<longleftrightarrow> fl_units f < 2 ^ 63 * 2 ^ 1074"
proof -
  have "fl_units (2 ^ 52, 1085) = 2 ^ 63 * 2 ^ 1074" unfolding fl_units_def by (simp only: fst_conv snd_conv pow_63)
  then show ?thesis unfolding fl_of_max_int64 fl_less_def by (simp only: prod.case option.case)
qed

section \<open>Properties of the retry delay\<close>

text \<open>The computed delay is a duration: it is never negative and never past the largest
  64-bit value, whatever the base, multiplier and attempt (infinite products included), and it never
  exceeds a positive cap of at most \<open>2^53\<close> nanoseconds.\<close>

theorem retry_delay_bounds:
  assumes "fl_nonneg multiplier" and "cap \<le> max_int64"
  shows "0 \<le> compute_retry_delay base multiplier cap n
    \<and> compute_retry_delay base multiplier cap n \<le> max_int64
    \<and> (0 < cap \<and> cap < 2 ^ 53 \<longrightarrow> compute_retry_delay base multiplier cap n \<le> cap)"
proof (cases "base \<le> 0")
  case False
  define mult where "mult = (if fl_less multiplier fl_one then fl_one else multiplier)"
  define k where "k = float_trunc_int ((if n < 1 then 1 else n) - 1)"
  define d where "d = fl_mul (fl_of_int base) (pow_int mult k)"
  have m: "fl_nonneg mult" using assms(1) fl_nonneg_one by (simp add: mult_def)
  have d0: "fl_nonneg d" unfolding d_def using False m by (intro fl_nonneg_mul fl_nonneg_int fl_nonneg_pow) simp_all
  have c: "compute_retry_delay base multiplier cap n =
      (if 0 < cap \<and> fl_less (fl_of_int cap) d then cap
       else (case d of None \<Rightarrow> max_int64 | Some f \<Rightarrow> if \<not> fl_less d (fl_of_int max_int64) then max_int64 else fl_trunc f))"
    using False unfolding compute_retry_delay_def Let_def mult_def [symmetric] k_def [symmetric] d_def [symmetric] by simp
  have pos: "0 \<le> max_int64" by (simp add: max_int64_def)
  show ?thesis
  proof (cases "0 < cap \<and> fl_less (fl_of_int cap) d")
    case True
    then show ?thesis using c assms(2) by simp
  next
    case nc: False
    show ?thesis
    proof (cases d)
      case None
      have "fl_less (fl_of_int cap) d" if "0 < cap" "cap < 2 ^ 53"
        using fl_of_int_exact [of cap] that None by (auto simp: fl_less_def)
      then show ?thesis using c nc None pos by auto
    next
      case (Some f)
      have f: "fl_nonneg (Some f)" using d0 Some by simp
      have lim: "fl_trunc f \<le> max_int64" if "fl_less d (fl_of_int max_int64)"
        using fl_trunc_bounds(2) [OF f, of "2 ^ 63"] that Some max_int64_units by (simp add: max_int64_def)
      have cap: "fl_units f \<le> cap * 2 ^ 1074" if "0 < cap" "cap < 2 ^ 53"
        using fl_less_int [of cap f] nc that Some by (simp only: not_less) auto
      have "max_int64 \<le> cap" if "\<not> fl_less d (fl_of_int max_int64)" "0 < cap" "cap < 2 ^ 53"
      proof -
        have "2 ^ 63 * 2 ^ 1074 \<le> fl_units f" using that(1) Some max_int64_units by (simp only: not_less)
        then have "2 ^ 63 * 2 ^ 1074 \<le> cap * 2 ^ 1074" using cap that(2,3) by linarith
        then have "2 ^ 63 \<le> cap" by (rule mult_right_le_imp_le) (rule zero_less_power, simp)
        then show ?thesis using that(3) by (simp add: max_int64_def)
      qed
      then show ?thesis
        using c nc Some lim cap fl_trunc_bounds(1) [OF f] fl_trunc_bounds(3) [OF f, of cap] pos by auto
    qed
  qed
qed (simp add: compute_retry_delay_def max_int64_def)

theorem retry_delay_bounds_witness:
  "0 \<le> compute_retry_delay 1000 fl_one 500 3 \<and> compute_retry_delay 1000 fl_one 500 3 \<le> 500"
  using retry_delay_bounds [of fl_one 500 1000 3] by (simp add: fl_nonneg_one max_int64_def)

text \<open>With the default multiplier the delay is constant: for every attempt it is the base, or
  the cap when that is smaller, and an unconfigured base gives no delay.\<close>

theorem retry_delay_constant:
  assumes "base < 2 ^ 53" and "cap < 2 ^ 53"
  shows "compute_retry_delay base fl_one cap n =
    (if base \<le> 0 then 0 else if 0 < cap then min base cap else base)"
proof (cases "base \<le> 0")
  case False
  obtain f where f: "fl_of_int base = Some f" "f64_ok f" "fl_units f = base * 2 ^ 1074"
    using fl_of_int_exact [of base] assms(1) False by auto
  have p: "pow_int fl_one k = fl_one" for k by (simp add: pow_int_def)
  have one: "(if fl_less fl_one fl_one then fl_one else fl_one) = fl_one" by simp
  have c: "compute_retry_delay base fl_one cap n =
      (if 0 < cap \<and> fl_less (fl_of_int cap) (Some f) then cap
       else if \<not> fl_less (Some f) (fl_of_int max_int64) then max_int64 else fl_trunc f)"
    using False unfolding compute_retry_delay_def Let_def one p f(1) fl_mul_one [OF f(2)] by simp
  have pos: "(0::int) < 2 ^ 1074" by (rule zero_less_power) simp
  have t: "fl_trunc f = base" unfolding fl_trunc_def f(3) using pos by simp
  have "base * 2 ^ 1074 < 2 ^ 63 * 2 ^ 1074" using assms(1) pos by (intro mult_strict_right_mono) auto
  then have lim: "fl_less (Some f) (fl_of_int max_int64)" unfolding max_int64_units f(3) .
  have "fl_less (fl_of_int cap) (Some f) \<longleftrightarrow> cap < base" if "0 < cap"
    using fl_less_int [of cap f] that assms(2) pos by (simp only: f(3) mult_less_cancel_right_pos less_imp_le)
  then show ?thesis using c t lim False by auto
qed (simp add: compute_retry_delay_def)

theorem retry_delay_constant_witness:
  "compute_retry_delay 1000 fl_one 500 7 = (if (1000::int) \<le> 0 then 0 else if (0::int) < 500 then min 1000 500 else 1000)"
  by (rule retry_delay_constant) simp_all

end
