(* ===== verification/Transport.thy ===== *)
theory Transport
  imports Envelope "HOL-Library.Multiset"
begin

section \<open>Transports\<close>

text \<open>
  \<open>transport.go\<close>. A transport is a record of the operations the runtime calls, over a world
  \<open>'w\<close> that holds the broker and whatever else the process has. The optional capabilities, Go
  interfaces the code finds by type assertion, are option fields: \<open>None\<close> is a transport without the
  capability. The broker clients behind them are not part of this package and stay parameters; the
  in-memory transport, which is, is modelled in full.

  The handle a transport attaches to a delivery is opaque to the runtime. Its constructors are the
  handles the transports of the repository use: \<open>RecordHandle\<close> holds a Kafka record, which the transport
  reads again when it republishes, and \<open>ClientMessage\<close> stands for a message object of a broker client.
  A Kafka key or value may be null (\<open>None\<close>); the time is in nanoseconds since the epoch, \<open>None\<close> the zero
  \<open>time.Time\<close>.
\<close>

record kafka_record =
  kr_topic :: bytes
  kr_partition :: int
  kr_offset :: int
  kr_key :: "bytes option"
  kr_value :: "bytes option"
  kr_headers :: "(bytes \<times> bytes) list"
  kr_time :: "int option"

datatype delivery_handle =
    NoHandle
  | ZsetHandle (zh_job: bytes) (zh_reserved: bytes)
  | LegacyHandle (lh_raw: bytes) (lh_token: bytes)
  | Receipt bytes
  | RecordHandle (rh_record: kafka_record)
  | ClientMessage nat

record received_message =
  msg_body :: bytes
  msg_queue :: bytes
  msg_handle :: delivery_handle
  msg_headers :: "bytes smap"
  msg_delivery_count :: int
  msg_route_urn :: bytes
  msg_poison :: bool

type_synonym 'w effect = "'w \<Rightarrow> go_error option \<times> 'w"

record 'w transport =
  tr_publish :: "bytes \<Rightarrow> bytes \<Rightarrow> 'w effect"
  tr_pop :: "bytes \<Rightarrow> int \<Rightarrow> 'w \<Rightarrow> (go_error + received_message option) \<times> 'w"
  tr_ack :: "received_message \<Rightarrow> 'w effect"
  tr_publish_with_headers :: "(bytes \<Rightarrow> bytes \<Rightarrow> bytes smap \<Rightarrow> 'w effect) option"
  tr_publish_routed :: "(bytes \<Rightarrow> bytes \<Rightarrow> bytes \<Rightarrow> 'w effect) option"
  tr_publish_from :: "(bytes \<Rightarrow> bytes \<Rightarrow> received_message \<Rightarrow> 'w effect) option"
  tr_publish_from_with_headers :: "(bytes \<Rightarrow> bytes \<Rightarrow> received_message \<Rightarrow> bytes smap \<Rightarrow> 'w effect) option"
  tr_release :: "(received_message \<Rightarrow> int \<Rightarrow> 'w effect) option"
  tr_dead_letter :: "(received_message \<Rightarrow> bytes \<Rightarrow> bytes \<Rightarrow> 'w effect) option"
  tr_rewind :: "(received_message \<Rightarrow> 'w effect) option"
  tr_settle_native :: "(received_message \<Rightarrow> bytes \<Rightarrow> bytes \<Rightarrow> 'w effect) option"
  tr_settle_native_dead_letter ::
    "(received_message \<Rightarrow> bytes \<Rightarrow> bytes \<Rightarrow> 'w \<Rightarrow> (bool \<times> go_error option) \<times> 'w) option"
  tr_dead_letter_queue_name :: "(bytes \<Rightarrow> bytes \<Rightarrow> bytes) option"

definition publish_keeping_route :: "'w transport \<Rightarrow> bytes \<Rightarrow> bytes \<Rightarrow> bytes \<Rightarrow> 'w effect" where
  "publish_keeping_route t queue body route_urn w =
     (if route_urn \<noteq> [] then
        (case tr_publish_routed t of
           Some f \<Rightarrow> f queue body route_urn w
         | None \<Rightarrow> tr_publish t queue body w)
      else tr_publish t queue body w)"

subsection \<open>The in-memory transport\<close>

record in_memory_message =
  im_body :: bytes
  im_headers :: "bytes smap"

text \<open>The transport's state is Go's \<open>map[string][]inMemoryMessage\<close>; reading a missing queue gives
  the empty slice. The second component of the world belongs to the application.\<close>

type_synonym queues = "in_memory_message list smap"

definition queue_of :: "queues \<Rightarrow> bytes \<Rightarrow> in_memory_message list" where
  "queue_of qs q = case_option [] (\<lambda>x. x) (smap_get qs q)"

definition new_in_memory :: queues where
  "new_in_memory = []"

definition im_publish :: "bytes \<Rightarrow> bytes \<Rightarrow> (queues \<times> 'a) effect" where
  "im_publish queue body w =
     (None, (smap_put queue (queue_of (fst w) queue @ [\<lparr>im_body = body, im_headers = []\<rparr>]) (fst w), snd w))"

definition im_publish_with_headers :: "bytes \<Rightarrow> bytes \<Rightarrow> bytes smap \<Rightarrow> (queues \<times> 'a) effect" where
  "im_publish_with_headers queue body headers w =
     (None, (smap_put queue (queue_of (fst w) queue @ [\<lparr>im_body = body, im_headers = headers\<rparr>]) (fst w), snd w))"

definition received_of :: "bytes \<Rightarrow> in_memory_message \<Rightarrow> received_message" where
  "received_of queue m =
     \<lparr>msg_body = im_body m, msg_queue = queue, msg_handle = NoHandle, msg_headers = im_headers m,
      msg_delivery_count = 0, msg_route_urn = [], msg_poison = False\<rparr>"

definition im_pop ::
  "bytes \<Rightarrow> int \<Rightarrow> queues \<times> 'a \<Rightarrow> (go_error + received_message option) \<times> queues \<times> 'a" where
  "im_pop queue timeout w =
     (case queue_of (fst w) queue of
        [] \<Rightarrow> (Inr None, w)
      | m # q \<Rightarrow> (Inr (Some (received_of queue m)), (smap_put queue q (fst w), snd w)))"

definition im_ack :: "received_message \<Rightarrow> (queues \<times> 'a) effect" where
  "im_ack msg w = (None, w)"

definition im_size :: "bytes \<Rightarrow> queues \<times> 'a \<Rightarrow> nat" where
  "im_size queue w = length (queue_of (fst w) queue)"

definition in_memory_transport :: "(queues \<times> 'a) transport" where
  "in_memory_transport =
     \<lparr>tr_publish = im_publish, tr_pop = im_pop, tr_ack = im_ack,
      tr_publish_with_headers = Some im_publish_with_headers, tr_publish_routed = None,
      tr_publish_from = None, tr_publish_from_with_headers = None, tr_release = None,
      tr_dead_letter = None, tr_rewind = None, tr_settle_native = None,
      tr_settle_native_dead_letter = None, tr_dead_letter_queue_name = None\<rparr>"

subsection \<open>The delivery contract\<close>

text \<open>
  What the runtime relies on of a transport: which bodies each queue would still deliver (\<open>held\<close>),
  that a successful publish adds exactly the body and a failed one nothing, that popping takes the
  delivered body out of circulation, and that an acknowledgement touches no other message. \<open>inv\<close>
  is what the transport maintains of its world.
\<close>

locale transport_contract =
  fixes t :: "'w transport"
    and inv :: "'w \<Rightarrow> bool"
    and held :: "'w \<Rightarrow> bytes \<Rightarrow> bytes multiset"
  assumes publish_ok: "inv w \<Longrightarrow> tr_publish t q b w = (None, w') \<Longrightarrow>
      inv w' \<and> held w' = (held w)(q := add_mset b (held w q))"
    and publish_fail: "inv w \<Longrightarrow> tr_publish t q b w = (Some e, w') \<Longrightarrow> inv w' \<and> held w' = held w"
    and pop_some: "inv w \<Longrightarrow> tr_pop t q n w = (Inr (Some m), w') \<Longrightarrow>
      inv w' \<and> held w = (held w')(q := add_mset (msg_body m) (held w' q)) \<and> msg_queue m = q"
    and pop_none: "inv w \<Longrightarrow> tr_pop t q n w = (Inr None, w') \<Longrightarrow> inv w' \<and> held w' = held w"
    and pop_fail: "inv w \<Longrightarrow> tr_pop t q n w = (Inl e, w') \<Longrightarrow> inv w' \<and> held w' = held w"
    and ack_keeps: "inv w \<Longrightarrow> tr_ack t m w = (r, w') \<Longrightarrow> inv w' \<and> held w' = held w"
begin

lemma publish_held:
  assumes "inv w" and "tr_publish t q b w = (r, w')"
  shows "inv w' \<and> held w' = (if r = None then (held w)(q := add_mset b (held w q)) else held w)"
proof (cases r)
  case None
  then show ?thesis using publish_ok [of w q b w'] assms by simp
next
  case (Some e)
  then show ?thesis using publish_fail [of w q b e w'] assms by simp
qed

text \<open>A delivery that is published back under its own body and acknowledged leaves the broker
  holding what it held.\<close>

lemma pop_publish_ack:
  assumes "inv w" and "tr_pop t q n w = (Inr (Some m), w1)" and "tr_publish t q (msg_body m) w1 = (None, w2)"
    and "tr_ack t m w2 = (r, w3)"
  shows "inv w3 \<and> held w3 = held w"
proof -
  have 1: "inv w1" "held w = (held w1)(q := add_mset (msg_body m) (held w1 q))"
    using pop_some [OF assms(1,2)] by auto
  have 2: "inv w2" "held w2 = (held w1)(q := add_mset (msg_body m) (held w1 q))"
    using publish_ok [OF 1(1) assms(3)] by auto
  show ?thesis using ack_keeps [OF 2(1) assms(4)] 1(2) 2(2) by simp
qed

end

definition im_held :: "queues \<times> 'a \<Rightarrow> bytes \<Rightarrow> bytes multiset" where
  "im_held w q = mset (map im_body (queue_of (fst w) q))"

definition im_inv :: "queues \<times> 'a \<Rightarrow> bool" where
  "im_inv w \<longleftrightarrow> smap_ok (fst w)"

lemma queue_of_put [smap_simps]: "queue_of (smap_put q l qs) = (queue_of qs)(q := l)"
  by (rule ext) (simp add: queue_of_def smap_get_put)

lemma in_memory_ops [simp]:
  "tr_publish in_memory_transport = im_publish" "tr_pop in_memory_transport = im_pop"
  "tr_ack in_memory_transport = im_ack" "tr_publish_with_headers in_memory_transport = Some im_publish_with_headers"
  "tr_publish_routed in_memory_transport = None" "tr_publish_from in_memory_transport = None"
  "tr_publish_from_with_headers in_memory_transport = None" "tr_release in_memory_transport = None"
  "tr_dead_letter in_memory_transport = None" "tr_rewind in_memory_transport = None"
  "tr_settle_native in_memory_transport = None" "tr_settle_native_dead_letter in_memory_transport = None"
  "tr_dead_letter_queue_name in_memory_transport = None"
  by (simp_all add: in_memory_transport_def)

interpretation mem: transport_contract in_memory_transport im_inv im_held
proof
  fix w w' :: "queues \<times> 'a" and q b n m e r
  show "im_inv w \<Longrightarrow> tr_publish in_memory_transport q b w = (None, w') \<Longrightarrow>
      im_inv w' \<and> im_held w' = (im_held w)(q := add_mset b (im_held w q))"
    by (auto simp: im_publish_def im_inv_def im_held_def smap_simps fun_eq_iff)
  show "im_inv w \<Longrightarrow> tr_publish in_memory_transport q b w = (Some e, w') \<Longrightarrow> im_inv w' \<and> im_held w' = im_held w"
    by (simp add: im_publish_def)
  show "im_inv w \<Longrightarrow> tr_pop in_memory_transport q n w = (Inr (Some m), w') \<Longrightarrow>
      im_inv w' \<and> im_held w = (im_held w')(q := add_mset (msg_body m) (im_held w' q)) \<and> msg_queue m = q"
    by (auto simp: im_pop_def im_inv_def im_held_def received_of_def smap_simps fun_eq_iff split: list.splits)
  show "im_inv w \<Longrightarrow> tr_pop in_memory_transport q n w = (Inr None, w') \<Longrightarrow> im_inv w' \<and> im_held w' = im_held w"
    by (auto simp: im_pop_def split: list.splits)
  show "im_inv w \<Longrightarrow> tr_pop in_memory_transport q n w = (Inl e, w') \<Longrightarrow> im_inv w' \<and> im_held w' = im_held w"
    by (auto simp: im_pop_def split: list.splits)
  show "im_inv w \<Longrightarrow> tr_ack in_memory_transport m w = (r, w') \<Longrightarrow> im_inv w' \<and> im_held w' = im_held w"
    by (simp add: im_ack_def)
qed

end
