(* ===== verification/App.thy ===== *)
theory App
  imports Transport Poison Backoff
begin

section \<open>The runtime\<close>

text \<open>
  \<open>app.go\<close>. An \<open>app\<close> is the configured runtime, a function of the code is a function from the
  world to its result and the new world. Handlers and hooks are the application's own code and are
  fields. What the process reads from outside is a \<open>runtime\<close>: the clock, the random source,
  \<open>ctx.Err()\<close>, and two texts of the standard library that only end up in error messages (a JSON
  syntax error and the \<open>%q\<close> form of a URN).

  Log records are not modelled, nor is the pause after a rewind, which has no effect but time. The
  dead-letter observer and the dead-letter and republish error hooks are called under \<open>recover\<close>:
  their field gives the world they leave behind, whether they returned or panicked. The
  acknowledgement hook and the hook of a failed in-place release are not recovered by the code; the
  model covers the runs in which they return.
\<close>

type_synonym 'w handler = "delivery_ctx \<Rightarrow> envelope \<Rightarrow> 'w effect"
type_synonym 'w error_hook = "delivery_ctx \<Rightarrow> received_message \<Rightarrow> go_error \<Rightarrow> 'w \<Rightarrow> 'w"

record dead_letter_event =
  ev_queue :: bytes
  ev_dead_letter_queue :: bytes
  ev_reason :: bytes

record 'w runtime =
  rt_now :: "'w \<Rightarrow> int"
  rt_rand :: "'w \<Rightarrow> int \<times> nat"
  rt_uuid :: "nat \<Rightarrow> 'w \<Rightarrow> 8 word list"
  rt_ctx_err :: "'w \<Rightarrow> go_error option"
  rt_syntax :: "bytes \<Rightarrow> bytes"
  rt_quoted :: "bytes \<Rightarrow> bytes"

record 'w app =
  app_transport :: "'w transport"
  app_queue :: bytes
  app_on_unknown_urn :: bytes
  app_max_attempts :: int
  app_dead_letter :: bool
  app_dead_letter_queue :: bytes
  app_dead_letter_suffix :: bytes
  app_dead_letter_suffix_set :: bool
  app_poll_timeout :: int
  app_retry_backoff :: int
  app_retry_multiplier :: fl
  app_retry_backoff_max :: int
  app_retry_jitter :: bytes
  app_unknown_urn_delay :: int
  app_on_ack_error :: "'w error_hook option"
  app_on_release_error :: "'w error_hook option"
  app_on_dead_letter_err :: "'w error_hook option"
  app_on_dead_letter :: "(delivery_ctx \<Rightarrow> dead_letter_event \<Rightarrow> 'w \<Rightarrow> 'w) option"
  app_rewind_pause :: int
  app_handlers :: "'w handler smap"

subsection \<open>Options\<close>

definition seconds :: "int \<Rightarrow> int" where "seconds n = n * 1000000000"

definition default_app :: "'w transport \<Rightarrow> 'w app" where
  "default_app t =
     \<lparr>app_transport = t, app_queue = ''default'', app_on_unknown_urn = strategy_fail,
      app_max_attempts = 3, app_dead_letter = False, app_dead_letter_queue = [],
      app_dead_letter_suffix = ''.dlq'', app_dead_letter_suffix_set = False,
      app_poll_timeout = seconds 1, app_retry_backoff = 0, app_retry_multiplier = fl_one,
      app_retry_backoff_max = 0, app_retry_jitter = jitter_none, app_unknown_urn_delay = 0,
      app_on_ack_error = None, app_on_release_error = None, app_on_dead_letter_err = None,
      app_on_dead_letter = None, app_rewind_pause = seconds 1, app_handlers = []\<rparr>"

definition with_default_queue :: "bytes \<Rightarrow> 'w app \<Rightarrow> 'w app" where
  "with_default_queue q a = a\<lparr>app_queue := q\<rparr>"
definition with_max_attempts :: "int \<Rightarrow> 'w app \<Rightarrow> 'w app" where
  "with_max_attempts n a = a\<lparr>app_max_attempts := n\<rparr>"
definition with_unknown_urn_strategy :: "bytes \<Rightarrow> 'w app \<Rightarrow> 'w app" where
  "with_unknown_urn_strategy s a = a\<lparr>app_on_unknown_urn := s\<rparr>"
definition with_dead_letter :: "bool \<Rightarrow> 'w app \<Rightarrow> 'w app" where
  "with_dead_letter b a = a\<lparr>app_dead_letter := b\<rparr>"
definition with_dead_letter_queue :: "bytes \<Rightarrow> 'w app \<Rightarrow> 'w app" where
  "with_dead_letter_queue q a = a\<lparr>app_dead_letter_queue := q\<rparr>"
definition with_dead_letter_suffix :: "bytes \<Rightarrow> 'w app \<Rightarrow> 'w app" where
  "with_dead_letter_suffix s a = a\<lparr>app_dead_letter_suffix := s, app_dead_letter_suffix_set := True\<rparr>"
definition with_poll_timeout :: "int \<Rightarrow> 'w app \<Rightarrow> 'w app" where
  "with_poll_timeout d a = a\<lparr>app_poll_timeout := d\<rparr>"
definition with_retry_backoff :: "int \<Rightarrow> 'w app \<Rightarrow> 'w app" where
  "with_retry_backoff d a = a\<lparr>app_retry_backoff := d\<rparr>"
definition with_retry_backoff_multiplier :: "fl \<Rightarrow> 'w app \<Rightarrow> 'w app" where
  "with_retry_backoff_multiplier m a = (if \<not> fl_less m fl_one then a\<lparr>app_retry_multiplier := m\<rparr> else a)"
definition with_retry_backoff_max :: "int \<Rightarrow> 'w app \<Rightarrow> 'w app" where
  "with_retry_backoff_max d a = (if 0 \<le> d then a\<lparr>app_retry_backoff_max := d\<rparr> else a)"
definition with_retry_jitter :: "bytes \<Rightarrow> 'w app \<Rightarrow> 'w app" where
  "with_retry_jitter j a = (if j = jitter_none \<or> j = jitter_full then a\<lparr>app_retry_jitter := j\<rparr> else a)"
definition with_unknown_urn_release_delay :: "int \<Rightarrow> 'w app \<Rightarrow> 'w app" where
  "with_unknown_urn_release_delay d a = a\<lparr>app_unknown_urn_delay := d\<rparr>"
definition with_ack_error_handler :: "'w error_hook option \<Rightarrow> 'w app \<Rightarrow> 'w app" where
  "with_ack_error_handler f a = a\<lparr>app_on_ack_error := f\<rparr>"
definition with_release_error_handler :: "'w error_hook option \<Rightarrow> 'w app \<Rightarrow> 'w app" where
  "with_release_error_handler f a = a\<lparr>app_on_release_error := f\<rparr>"
definition with_dead_letter_error_handler :: "'w error_hook option \<Rightarrow> 'w app \<Rightarrow> 'w app" where
  "with_dead_letter_error_handler f a = a\<lparr>app_on_dead_letter_err := f\<rparr>"
definition with_dead_letter_observer ::
  "(delivery_ctx \<Rightarrow> dead_letter_event \<Rightarrow> 'w \<Rightarrow> 'w) option \<Rightarrow> 'w app \<Rightarrow> 'w app" where
  "with_dead_letter_observer f a = a\<lparr>app_on_dead_letter := f\<rparr>"
definition with_rewind_pause :: "int \<Rightarrow> 'w app \<Rightarrow> 'w app" where
  "with_rewind_pause d a = a\<lparr>app_rewind_pause := d\<rparr>"

definition new_app :: "'w transport \<Rightarrow> ('w app \<Rightarrow> 'w app) list \<Rightarrow> 'w app" where
  "new_app t opts = fold (\<lambda>o' a. o' a) opts (default_app t)"

definition handle :: "bytes \<Rightarrow> 'w handler \<Rightarrow> 'w app \<Rightarrow> 'w app" where
  "handle u h a = a\<lparr>app_handlers := smap_put u h (app_handlers a)\<rparr>"

definition default_queue :: "'w app \<Rightarrow> bytes" where
  "default_queue a = app_queue a"

subsection \<open>Producing\<close>

text \<open>The result is the envelope beside the error, as in the code.\<close>

definition publish_envelope_with_headers ::
  "'w runtime \<Rightarrow> 'w app \<Rightarrow> bytes \<Rightarrow> goval smap option \<Rightarrow> bytes smap \<Rightarrow> make_option list
   \<Rightarrow> 'w \<Rightarrow> (envelope \<times> go_error option) \<times> 'w" where
  "publish_envelope_with_headers rt a u data headers opts w =
     (case Make (rt_uuid rt 0 w) (rt_uuid rt 1 w) (rt_now rt w) u data (WithQueue (app_queue a) # opts) of
        Inl e \<Rightarrow> ((zero_envelope, Some e), w)
      | Inr env \<Rightarrow>
          (case encode (rt_syntax rt) env of
             Inl e \<Rightarrow> ((zero_envelope, Some e), w)
           | Inr body \<Rightarrow>
               (case (if headers \<noteq> [] then tr_publish_with_headers (app_transport a) else None) of
                  Some f \<Rightarrow> apfst (Pair env) (f (meta_queue (env_meta env)) body headers w)
                | None \<Rightarrow> apfst (Pair env) (tr_publish (app_transport a) (meta_queue (env_meta env)) body w))))"

definition publish_with_headers ::
  "'w runtime \<Rightarrow> 'w app \<Rightarrow> bytes \<Rightarrow> goval smap option \<Rightarrow> bytes smap \<Rightarrow> make_option list
   \<Rightarrow> 'w \<Rightarrow> (go_error + bytes) \<times> 'w" where
  "publish_with_headers rt a u data headers opts w =
     (case publish_envelope_with_headers rt a u data headers opts w of
        ((env, Some e), w') \<Rightarrow> (Inl e, w')
      | ((env, None), w') \<Rightarrow> (Inr (meta_id (env_meta env)), w'))"

definition publish ::
  "'w runtime \<Rightarrow> 'w app \<Rightarrow> bytes \<Rightarrow> goval smap option \<Rightarrow> make_option list
   \<Rightarrow> 'w \<Rightarrow> (go_error + bytes) \<times> 'w" where
  "publish rt a u data opts w = publish_with_headers rt a u data [] opts w"

subsection \<open>Settling\<close>

definition ack :: "'w app \<Rightarrow> delivery_ctx \<Rightarrow> received_message \<Rightarrow> 'w \<Rightarrow> 'w" where
  "ack a ctx msg w =
     (case tr_ack (app_transport a) msg w of
        (None, w') \<Rightarrow> w'
      | (Some e, w') \<Rightarrow> (case app_on_ack_error a of None \<Rightarrow> w' | Some f \<Rightarrow> f ctx msg e w'))"

definition settle :: "'w app \<Rightarrow> delivery_ctx \<Rightarrow> received_message \<Rightarrow> bool \<Rightarrow> 'w \<Rightarrow> 'w" where
  "settle a ctx msg settled w = (if settled then w else ack a ctx msg w)"

definition notify_dead_letter :: "'w app \<Rightarrow> delivery_ctx \<Rightarrow> dead_letter_event \<Rightarrow> 'w \<Rightarrow> 'w" where
  "notify_dead_letter a ctx ev w = (case app_on_dead_letter a of None \<Rightarrow> w | Some f \<Rightarrow> f ctx ev w)"

definition report_release_error :: "'w app \<Rightarrow> 'w error_hook" where
  "report_release_error a ctx msg e w = (case app_on_release_error a of None \<Rightarrow> w | Some f \<Rightarrow> f ctx msg e w)"

definition report_dead_letter_error :: "'w app \<Rightarrow> 'w error_hook" where
  "report_dead_letter_error a ctx msg e w =
     (case app_on_dead_letter_err a of None \<Rightarrow> w | Some f \<Rightarrow> f ctx msg e w)"

definition leave_unsettled ::
  "'w app \<Rightarrow> delivery_ctx \<Rightarrow> received_message \<Rightarrow> go_error \<Rightarrow> 'w error_hook \<Rightarrow> 'w \<Rightarrow> 'w" where
  "leave_unsettled a ctx msg err report w =
     (case tr_rewind (app_transport a) of
        None \<Rightarrow> report ctx msg err w
      | Some f \<Rightarrow>
          (case f msg w of
             (None, w') \<Rightarrow> report ctx msg err w'
           | (Some re, w') \<Rightarrow> report ctx msg re (report ctx msg err w')))"

definition leave_dead_letter_unsettled ::
  "'w app \<Rightarrow> delivery_ctx \<Rightarrow> received_message \<Rightarrow> go_error \<Rightarrow> 'w \<Rightarrow> 'w" where
  "leave_dead_letter_unsettled a ctx msg err w =
     leave_unsettled a ctx msg err (report_dead_letter_error a) w"

definition leave_republish_unsettled ::
  "'w app \<Rightarrow> delivery_ctx \<Rightarrow> received_message \<Rightarrow> go_error \<Rightarrow> 'w \<Rightarrow> 'w" where
  "leave_republish_unsettled a ctx msg err w =
     leave_unsettled a ctx msg err (report_release_error a) w"

definition republish :: "'w app \<Rightarrow> received_message \<Rightarrow> bytes \<Rightarrow> bytes \<Rightarrow> 'w effect" where
  "republish a msg queue body w =
     (case tr_publish_from (app_transport a) of
        Some f \<Rightarrow> f queue body msg w
      | None \<Rightarrow> publish_keeping_route (app_transport a) queue body (msg_route_urn msg) w)"

text \<open>\<open>release\<close> reports whether the message is taken care of.\<close>

definition release :: "'w app \<Rightarrow> delivery_ctx \<Rightarrow> received_message \<Rightarrow> int \<Rightarrow> 'w \<Rightarrow> bool \<times> 'w" where
  "release a ctx msg delay w =
     (case tr_release (app_transport a) of
        None \<Rightarrow> (False, w)
      | Some f \<Rightarrow>
          (case f msg delay w of
             (None, w') \<Rightarrow> (True, w')
           | (Some e, w') \<Rightarrow>
               if errors_is e ErrReleaseUnsupported then (False, w')
               else (True, case app_on_release_error a of None \<Rightarrow> w' | Some h \<Rightarrow> h ctx msg e w')))"

subsection \<open>Dead-lettering\<close>

definition dead_letter_target :: "'w app \<Rightarrow> received_message \<Rightarrow> bytes" where
  "dead_letter_target a msg =
     (if app_dead_letter_queue a \<noteq> [] then app_dead_letter_queue a
      else (case tr_dead_letter_queue_name (app_transport a) of
              Some f \<Rightarrow> f (msg_queue msg) (if app_dead_letter_suffix_set a then app_dead_letter_suffix a else [])
            | None \<Rightarrow> msg_queue msg @ app_dead_letter_suffix a))"

text \<open>The flag is Go's \<open>settled\<close>: the write also settled the message.\<close>

definition dead_letter_raw ::
  "'w app \<Rightarrow> delivery_ctx \<Rightarrow> received_message \<Rightarrow> bytes \<Rightarrow> bytes \<Rightarrow> bytes \<Rightarrow> 'w \<Rightarrow> (bool \<times> go_error option) \<times> 'w" where
  "dead_letter_raw a ctx msg body reason source_queue w =
     (let target = dead_letter_target a msg;
          ((settled, err), w') =
            (case tr_dead_letter (app_transport a) of
               Some f \<Rightarrow> apfst (Pair True) (f msg target body w)
             | None \<Rightarrow> apfst (Pair False) (republish a msg target body w))
      in case err of
           Some e \<Rightarrow> ((settled, Some e), w')
         | None \<Rightarrow> ((settled, None),
             notify_dead_letter a ctx
               \<lparr>ev_queue = source_queue, ev_dead_letter_queue = target, ev_reason = reason\<rparr> w'))"

definition write_dead_letter ::
  "'w runtime \<Rightarrow> 'w app \<Rightarrow> delivery_ctx \<Rightarrow> received_message \<Rightarrow> envelope \<Rightarrow> bytes \<Rightarrow> go_error option
   \<Rightarrow> 'w \<Rightarrow> (bool \<times> go_error option) \<times> 'w" where
  "write_dead_letter rt a ctx msg env reason cause w =
     (let original_queue = (if meta_queue (env_meta env) \<noteq> [] then meta_queue (env_meta env) else msg_queue msg);
          annotated = annotate (rt_now rt w) env reason original_queue (env_attempts env) cause
      in case encode (rt_syntax rt) annotated of
           Inl e \<Rightarrow> ((False, Some e), w)
         | Inr body \<Rightarrow>
             dead_letter_raw a ctx msg body reason
               (if is_blank_ascii (meta_queue (env_meta env)) then msg_queue msg else meta_queue (env_meta env)) w)"

definition dead_letter_message ::
  "'w runtime \<Rightarrow> 'w app \<Rightarrow> delivery_ctx \<Rightarrow> received_message \<Rightarrow> envelope \<Rightarrow> bytes \<Rightarrow> go_error option \<Rightarrow> 'w \<Rightarrow> 'w" where
  "dead_letter_message rt a ctx msg env reason cause w =
     (case write_dead_letter rt a ctx msg env reason cause w of
        ((settled, Some e), w') \<Rightarrow> leave_dead_letter_unsettled a ctx msg e w'
      | ((settled, None), w') \<Rightarrow> settle a ctx msg settled w')"

definition poison_dead_letter_body :: "'w runtime \<Rightarrow> received_message \<Rightarrow> go_error option \<Rightarrow> 'w \<Rightarrow> bytes" where
  "poison_dead_letter_body rt msg decode_err w =
     (let attempts = max 0 (wrap64 (msg_delivery_count msg - 1));
          dl = env_dead_letter (annotate (rt_now rt w) zero_envelope ''poison'' (msg_queue msg) attempts decode_err)
      in build_poison_record (msg_body msg) (json_print (case_option JNull dead_letter_json dl)))"

definition settle_raw_poison ::
  "'w runtime \<Rightarrow> 'w app \<Rightarrow> delivery_ctx \<Rightarrow> received_message \<Rightarrow> go_error option \<Rightarrow> 'w \<Rightarrow> 'w" where
  "settle_raw_poison rt a ctx msg decode_err w =
     (case dead_letter_raw a ctx msg (poison_dead_letter_body rt msg decode_err w) ''poison'' (msg_queue msg) w of
        ((settled, Some e), w') \<Rightarrow> leave_dead_letter_unsettled a ctx msg e w'
      | ((settled, None), w') \<Rightarrow> settle a ctx msg settled w')"

definition settle_transport_poison ::
  "'w runtime \<Rightarrow> 'w app \<Rightarrow> delivery_ctx \<Rightarrow> received_message \<Rightarrow> 'w \<Rightarrow> 'w" where
  "settle_transport_poison rt a ctx msg w =
     (let decode_err = snd (decode (rt_syntax rt) (msg_body msg));
          decode_err' = (case decode_err of
                           Some e \<Rightarrow> if errors_is e ErrNoIdentity then None else Some e
                         | None \<Rightarrow> None)
      in settle_raw_poison rt a ctx msg decode_err' w)"

definition settle_native ::
  "'w app \<Rightarrow> delivery_ctx \<Rightarrow> received_message \<Rightarrow> bytes \<Rightarrow> bytes \<Rightarrow> 'w \<Rightarrow> bool \<times> 'w" where
  "settle_native a ctx msg reason description w =
     (case tr_settle_native_dead_letter (app_transport a) of
        Some f \<Rightarrow>
          (case f msg reason description w of
             ((dead_lettered, err), w') \<Rightarrow>
               (True, if err = None \<and> dead_lettered
                      then notify_dead_letter a ctx
                             \<lparr>ev_queue = msg_queue msg, ev_dead_letter_queue = [], ev_reason = []\<rparr> w'
                      else w'))
      | None \<Rightarrow>
          (case tr_settle_native (app_transport a) of
             None \<Rightarrow> (False, w)
           | Some f \<Rightarrow> (True, snd (f msg reason description w))))"

subsection \<open>Routing\<close>

definition retry_or_dead_letter ::
  "'w runtime \<Rightarrow> 'w app \<Rightarrow> delivery_ctx \<Rightarrow> received_message \<Rightarrow> envelope \<Rightarrow> go_error \<Rightarrow> 'w \<Rightarrow> 'w" where
  "retry_or_dead_letter rt a ctx msg env0 cause w =
     (let env = env0\<lparr>env_attempts := wrap64 (env_attempts env0 + 1)\<rparr>
      in if env_attempts env < app_max_attempts a then
           (case release a ctx msg
                   (retry_delay (app_retry_backoff a) (app_retry_multiplier a) (app_retry_backoff_max a)
                      (app_retry_jitter a) (env_attempts env) (rt_rand rt w)) w of
              (True, w') \<Rightarrow> w'
            | (False, w') \<Rightarrow>
                (case encode (rt_syntax rt) env of
                   Inl e \<Rightarrow> leave_republish_unsettled a ctx msg e w'
                 | Inr body \<Rightarrow>
                     (case republish a msg (msg_queue msg) body w' of
                        (Some e, w2) \<Rightarrow> leave_republish_unsettled a ctx msg e w2
                      | (None, w2) \<Rightarrow> ack a ctx msg w2)))
         else if app_dead_letter a then
           dead_letter_message rt a ctx msg env
             (if errors_is cause ErrUnknownURN then ''unknown_urn'' else ''failed'') (Some cause) w
         else ack a ctx msg w)"

definition unknown_urn_error :: "'w runtime \<Rightarrow> bytes \<Rightarrow> go_error" where
  "unknown_urn_error rt u = wrap_error [] (plain_error ErrUnknownURN) ('': '' @ rt_quoted rt u)"

definition route_unknown ::
  "'w runtime \<Rightarrow> 'w app \<Rightarrow> delivery_ctx \<Rightarrow> bytes \<Rightarrow> received_message \<Rightarrow> envelope \<Rightarrow> 'w \<Rightarrow> 'w" where
  "route_unknown rt a ctx u msg env w =
     (if app_on_unknown_urn a = strategy_delete then ack a ctx msg w
      else if app_on_unknown_urn a = strategy_release then
        (case release a ctx msg (app_unknown_urn_delay a) w of
           (True, w') \<Rightarrow> w'
         | (False, w') \<Rightarrow>
             (case republish a msg (msg_queue msg) (msg_body msg) w' of
                (Some e, w2) \<Rightarrow> leave_republish_unsettled a ctx msg e w2
              | (None, w2) \<Rightarrow> ack a ctx msg w2))
      else if app_on_unknown_urn a = strategy_dead_letter then
        dead_letter_message rt a ctx msg env ''unknown_urn'' None w
      else retry_or_dead_letter rt a ctx msg env (unknown_urn_error rt u) w)"

definition route_poison ::
  "'w runtime \<Rightarrow> 'w app \<Rightarrow> delivery_ctx \<Rightarrow> received_message \<Rightarrow> envelope \<Rightarrow> go_error option \<Rightarrow> 'w \<Rightarrow> 'w" where
  "route_poison rt a ctx msg env decode_err w =
     (if decode_err \<noteq> None \<and> app_on_unknown_urn a \<noteq> strategy_delete
         \<and> (app_dead_letter a \<or> app_on_unknown_urn a = strategy_dead_letter)
      then settle_raw_poison rt a ctx msg decode_err w
      else
        let (native, w') =
              (if app_on_unknown_urn a \<noteq> strategy_delete \<and> \<not> app_dead_letter a
                  \<and> app_on_unknown_urn a \<noteq> strategy_dead_letter
               then settle_native a ctx msg ''poison'' ''the body does not decode into a valid envelope'' w
               else (False, w))
        in if native then w'
           else if app_on_unknown_urn a \<noteq> strategy_release then route_unknown rt a ctx [] msg env w'
           else
             retry_or_dead_letter rt a ctx msg env
               (case decode_err of
                  None \<Rightarrow> unknown_urn_error rt []
                | Some e \<Rightarrow> wrap_error [] (plain_error ErrUnknownURN) ('': undecodable body: '' @ err_text e)) w')"

definition unsupported_schema_route_prefix :: bytes where
  "unsupported_schema_route_prefix = ''babelqueue:unsupported-schema-version:''"

definition has_prefix :: "bytes \<Rightarrow> bytes \<Rightarrow> bool" where
  "has_prefix s p \<longleftrightarrow> take (length p) s = p"

definition settle_version_gated :: "'w app \<Rightarrow> delivery_ctx \<Rightarrow> received_message \<Rightarrow> 'w \<Rightarrow> 'w" where
  "settle_version_gated a ctx msg w =
     (if app_on_unknown_urn a = strategy_delete then ack a ctx msg w
      else if \<not> app_dead_letter a \<and> app_on_unknown_urn a \<noteq> strategy_dead_letter then
        (case settle_native a ctx msg ''unsupported schema version''
                ''the message declares a schema version this consumer does not support'' w of
           (True, w') \<Rightarrow> w'
         | (False, w') \<Rightarrow> ack a ctx msg w')
      else
        (case dead_letter_raw a ctx msg (msg_body msg) [] (msg_queue msg) w of
           ((settled, Some e), w') \<Rightarrow> leave_dead_letter_unsettled a ctx msg e w'
         | ((settled, None), w') \<Rightarrow> settle a ctx msg settled w'))"

definition background :: delivery_ctx where
  "background = \<lparr>ctx_headers = [], ctx_replay = False\<rparr>"

definition delivery_context :: "received_message \<Rightarrow> delivery_ctx" where
  "delivery_context msg =
     (let ctx = with_headers (msg_headers msg) background
      in if case_option [] (\<lambda>x. x) (smap_get (msg_headers msg) header_replay_bypass) \<noteq> []
         then with_replay ctx else ctx)"

definition dispatch :: "'w runtime \<Rightarrow> 'w app \<Rightarrow> received_message \<Rightarrow> 'w \<Rightarrow> 'w" where
  "dispatch rt a msg w =
     (let ctx = delivery_context msg in
      if has_prefix (msg_route_urn msg) unsupported_schema_route_prefix then settle_version_gated a ctx msg w
      else if msg_poison msg then settle_transport_poison rt a ctx msg w
      else
        let (env0, err0) = decode (rt_syntax rt) (msg_body msg);
            no_identity = (case err0 of None \<Rightarrow> False | Some e \<Rightarrow> errors_is e ErrNoIdentity);
            decode_err = (if no_identity \<and> msg_route_urn msg \<noteq> [] then None else err0);
            native = wrap64 (msg_delivery_count msg - 1);
            env = (if env_attempts env0 < native then env0\<lparr>env_attempts := native\<rparr> else env0);
            u = (if decode_err = None \<and> msg_route_urn msg \<noteq> [] then msg_route_urn msg else urn env)
        in if decode_err \<noteq> None \<or> is_blank_ascii u then route_poison rt a ctx msg env decode_err w
           else (case smap_get (app_handlers a) u of
                   None \<Rightarrow> route_unknown rt a ctx u msg env w
                 | Some handler \<Rightarrow>
                     (case handler ctx env w of
                        (Some e, w') \<Rightarrow> retry_or_dead_letter rt a ctx msg env e w'
                      | (None, w') \<Rightarrow> ack a ctx msg w')))"

subsection \<open>The loops\<close>

text \<open>\<open>Drain\<close> with a bound counts up to it; without one it runs until the queue is empty, which
  need not happen, so the loop is a partial function: \<open>None\<close> means that it does not return.\<close>

partial_function (option) drain_loop ::
  "'w runtime \<Rightarrow> 'w app \<Rightarrow> bytes \<Rightarrow> int \<Rightarrow> int \<Rightarrow> 'w \<Rightarrow> ((int \<times> go_error option) \<times> 'w) option" where
  "drain_loop rt a queue max' processed w =
     (if max' \<le> 0 \<or> processed < max' then
        (case rt_ctx_err rt w of
           Some e \<Rightarrow> Some ((processed, Some e), w)
         | None \<Rightarrow>
             (case tr_pop (app_transport a) queue (app_poll_timeout a) w of
                (Inl e, w') \<Rightarrow> Some ((processed, Some e), w')
              | (Inr None, w') \<Rightarrow> Some ((processed, None), w')
              | (Inr (Some msg), w') \<Rightarrow> drain_loop rt a queue max' (processed + 1) (dispatch rt a msg w')))
      else Some ((processed, None), w))"

definition drain ::
  "'w runtime \<Rightarrow> 'w app \<Rightarrow> bytes \<Rightarrow> int \<Rightarrow> 'w \<Rightarrow> ((int \<times> go_error option) \<times> 'w) option" where
  "drain rt a queue max' w =
     drain_loop rt a (if queue = [] then app_queue a else queue) max' 0 w"

partial_function (option) consume_loop ::
  "'w runtime \<Rightarrow> 'w app \<Rightarrow> bytes \<Rightarrow> 'w \<Rightarrow> (go_error \<times> 'w) option" where
  "consume_loop rt a target w =
     (case rt_ctx_err rt w of
        Some e \<Rightarrow> Some (e, w)
      | None \<Rightarrow>
          (case tr_pop (app_transport a) target (app_poll_timeout a) w of
             (Inl e, w') \<Rightarrow> Some (e, w')
           | (Inr None, w') \<Rightarrow> consume_loop rt a target w'
           | (Inr (Some msg), w') \<Rightarrow> consume_loop rt a target (dispatch rt a msg w')))"

text \<open>The optional queue is Go's variadic argument, of which only the first counts.\<close>

definition consume :: "'w runtime \<Rightarrow> 'w app \<Rightarrow> bytes list \<Rightarrow> 'w \<Rightarrow> (go_error \<times> 'w) option" where
  "consume rt a queue w =
     consume_loop rt a (case queue of q # _ \<Rightarrow> if q \<noteq> [] then q else app_queue a | [] \<Rightarrow> app_queue a) w"

definition run :: "'w runtime \<Rightarrow> 'w app \<Rightarrow> 'w \<Rightarrow> (go_error \<times> 'w) option" where
  "run rt a w = consume rt a [] w"

subsection \<open>Declared versions\<close>

definition declared_version_max_chars :: nat where
  "declared_version_max_chars = 64"

text \<open>The byte offset of the \<open>k\<close>-th rune; an invalid byte counts as one rune of width one.\<close>

fun rune_index :: "nat \<Rightarrow> bytes \<Rightarrow> nat" where
  "rune_index 0 s = 0"
| "rune_index (Suc k) [] = 0"
| "rune_index (Suc k) (c # s) =
     (let n = max 1 (utf8_len (c # s)) in n + rune_index k (drop n (c # s)))"

definition truncate_declared_version :: "bytes \<Rightarrow> bytes" where
  "truncate_declared_version v =
     (if declared_version_max_chars < length (runes v)
      then take (rune_index declared_version_max_chars v) v @ ''...'' else v)"

end
