(* ===== verification/AppTrace.thy ===== *)
theory AppTrace
  imports App
begin

section \<open>Recording a dispatch\<close>

text \<open>
  The runtime is polymorphic in its world, so a run can be observed without touching its
  definitions: \<open>record_app\<close> is an application over a world that also holds a list of events, whose
  transport and handlers do what the given ones do and note it. Recording changes nothing
  (\<open>dispatch_recorded\<close>), and the events of a dispatch are a path of a small automaton that says
  when a message may be settled (\<open>phase_step\<close>).
\<close>

datatype event =
    Handled bytes envelope "go_error option"
  | Published bytes bytes "go_error option"
  | DeadLettered bytes bytes "go_error option"
  | Acked "go_error option"
  | Released "go_error option"
  | Rewound "go_error option"
  | NativeSettled

fun is_handled :: "event \<Rightarrow> bool" where
  "is_handled (Handled u env r) = True"
| "is_handled _ = False"

definition rec_effect :: "(go_error option \<Rightarrow> event) \<Rightarrow> 'w effect \<Rightarrow> ('w \<times> event list) effect" where
  "rec_effect ev f w = (case f (fst w) of (r, w') \<Rightarrow> (r, (w', snd w @ [ev r])))"

definition rec_transport :: "'w transport \<Rightarrow> ('w \<times> event list) transport" where
  "rec_transport t =
     \<lparr>tr_publish = (\<lambda>q b. rec_effect (Published q b) (tr_publish t q b)),
      tr_pop = (\<lambda>q n w. case tr_pop t q n (fst w) of (r, w') \<Rightarrow> (r, (w', snd w))),
      tr_ack = (\<lambda>m. rec_effect Acked (tr_ack t m)),
      tr_publish_with_headers = map_option (\<lambda>f q b h. rec_effect (Published q b) (f q b h)) (tr_publish_with_headers t),
      tr_publish_routed = map_option (\<lambda>f q b u. rec_effect (Published q b) (f q b u)) (tr_publish_routed t),
      tr_publish_from = map_option (\<lambda>f q b m. rec_effect (Published q b) (f q b m)) (tr_publish_from t),
      tr_publish_from_with_headers =
        map_option (\<lambda>f q b m h. rec_effect (Published q b) (f q b m h)) (tr_publish_from_with_headers t),
      tr_release = map_option (\<lambda>f m d. rec_effect Released (f m d)) (tr_release t),
      tr_dead_letter = map_option (\<lambda>f m q b. rec_effect (DeadLettered q b) (f m q b)) (tr_dead_letter t),
      tr_rewind = map_option (\<lambda>f m. rec_effect Rewound (f m)) (tr_rewind t),
      tr_settle_native =
        map_option (\<lambda>f m r d. rec_effect (\<lambda>_. NativeSettled) (f m r d)) (tr_settle_native t),
      tr_settle_native_dead_letter =
        map_option (\<lambda>f m r d w. case f m r d (fst w) of (x, w') \<Rightarrow> (x, (w', snd w @ [NativeSettled])))
          (tr_settle_native_dead_letter t),
      tr_dead_letter_queue_name = tr_dead_letter_queue_name t\<rparr>"

definition rec_hook :: "'w error_hook \<Rightarrow> ('w \<times> event list) error_hook" where
  "rec_hook h ctx msg e w = (h ctx msg e (fst w), snd w)"

definition rec_handler :: "bytes \<Rightarrow> 'w handler \<Rightarrow> ('w \<times> event list) handler" where
  "rec_handler u h ctx env = rec_effect (Handled u env) (h ctx env)"

definition rec_app :: "'w app \<Rightarrow> ('w \<times> event list) app" where
  "rec_app a =
     \<lparr>app_transport = rec_transport (app_transport a), app_queue = app_queue a,
      app_on_unknown_urn = app_on_unknown_urn a, app_max_attempts = app_max_attempts a,
      app_dead_letter = app_dead_letter a, app_dead_letter_queue = app_dead_letter_queue a,
      app_dead_letter_suffix = app_dead_letter_suffix a,
      app_dead_letter_suffix_set = app_dead_letter_suffix_set a,
      app_poll_timeout = app_poll_timeout a, app_retry_backoff = app_retry_backoff a,
      app_retry_multiplier = app_retry_multiplier a, app_retry_backoff_max = app_retry_backoff_max a,
      app_retry_jitter = app_retry_jitter a, app_unknown_urn_delay = app_unknown_urn_delay a,
      app_on_ack_error = map_option rec_hook (app_on_ack_error a),
      app_on_release_error = map_option rec_hook (app_on_release_error a),
      app_on_dead_letter_err = map_option rec_hook (app_on_dead_letter_err a),
      app_on_dead_letter = map_option (\<lambda>f ctx ev w. (f ctx ev (fst w), snd w)) (app_on_dead_letter a),
      app_rewind_pause = app_rewind_pause a,
      app_handlers = map (\<lambda>(u, h). (u, rec_handler u h)) (app_handlers a)\<rparr>"

definition rec_runtime :: "'w runtime \<Rightarrow> ('w \<times> event list) runtime" where
  "rec_runtime rt =
     \<lparr>rt_now = (\<lambda>w. rt_now rt (fst w)), rt_rand = (\<lambda>w. rt_rand rt (fst w)),
      rt_uuid = (\<lambda>n w. rt_uuid rt n (fst w)), rt_ctx_err = (\<lambda>w. rt_ctx_err rt (fst w)),
      rt_syntax = rt_syntax rt, rt_quoted = rt_quoted rt\<rparr>"

definition trace_of :: "'w runtime \<Rightarrow> 'w app \<Rightarrow> received_message \<Rightarrow> 'w \<Rightarrow> event list" where
  "trace_of rt a msg w = snd (dispatch (rec_runtime rt) (rec_app a) msg (w, []))"

subsection \<open>When a message may be settled\<close>

text \<open>
  \<open>Pending\<close>: nobody has the message but the broker that delivered it. \<open>Safe\<close>: its handler returned
  without an error, or a copy was written. \<open>Failed\<close>: a write or a release failed, so it must stay
  with the broker. \<open>Settled\<close>: it is acknowledged, released, handed to the broker's own dead-letter
  mechanism, or given back. The automaton has no step for a second settlement, an acknowledgement
  after a failed write, or, unless messages may be dropped, an acknowledgement of a message nobody
  has taken.
\<close>

datatype phase = Pending | Safe | Failed | Settled

fun phase_step :: "bool \<Rightarrow> bytes list \<Rightarrow> phase \<Rightarrow> event \<Rightarrow> phase option" where
  "phase_step drop_ok qs Pending (Handled u env r) = Some (if r = None then Safe else Pending)"
| "phase_step drop_ok qs Pending (Published q b r) =
     (if q \<in> set qs then Some (if r = None then Safe else Failed) else None)"
| "phase_step drop_ok qs Pending (DeadLettered q b r) =
     (if q \<in> set qs then Some (if r = None then Settled else Failed) else None)"
| "phase_step drop_ok qs Pending (Released r) =
     Some (case r of None \<Rightarrow> Settled
           | Some e \<Rightarrow> if errors_is e ErrReleaseUnsupported then Pending else Failed)"
| "phase_step drop_ok qs Pending NativeSettled = (if drop_ok then Some Settled else None)"
| "phase_step drop_ok qs Pending (Acked r) = (if drop_ok then Some Settled else None)"
| "phase_step drop_ok qs Safe (Acked r) = Some Settled"
| "phase_step drop_ok qs Failed (Rewound r) = Some Settled"
| "phase_step drop_ok qs p ev = None"

fun phase_run :: "bool \<Rightarrow> bytes list \<Rightarrow> phase \<Rightarrow> event list \<Rightarrow> phase option" where
  "phase_run drop_ok qs p [] = Some p"
| "phase_run drop_ok qs p (e # es) =
     (case phase_step drop_ok qs p e of None \<Rightarrow> None | Some p' \<Rightarrow> phase_run drop_ok qs p' es)"

text \<open>A message may be dropped when dead-lettering is off or when the configuration says so.\<close>

definition drop_ok :: "'w app \<Rightarrow> bool" where
  "drop_ok a \<longleftrightarrow> \<not> app_dead_letter a \<or> app_on_unknown_urn a = strategy_delete"

lemma phase_run_append [simp]:
  "phase_run d qs p (xs @ ys) = (case phase_run d qs p xs of None \<Rightarrow> None | Some p' \<Rightarrow> phase_run d qs p' ys)"
  by (induction xs arbitrary: p) (auto split: option.split)

subsection \<open>Recording changes nothing\<close>

lemma rec_app_fields [simp]:
  "app_transport (rec_app a) = rec_transport (app_transport a)" "app_queue (rec_app a) = app_queue a"
  "app_on_unknown_urn (rec_app a) = app_on_unknown_urn a" "app_max_attempts (rec_app a) = app_max_attempts a"
  "app_dead_letter (rec_app a) = app_dead_letter a" "app_dead_letter_queue (rec_app a) = app_dead_letter_queue a"
  "app_dead_letter_suffix (rec_app a) = app_dead_letter_suffix a"
  "app_dead_letter_suffix_set (rec_app a) = app_dead_letter_suffix_set a"
  "app_retry_backoff (rec_app a) = app_retry_backoff a" "app_retry_multiplier (rec_app a) = app_retry_multiplier a"
  "app_retry_backoff_max (rec_app a) = app_retry_backoff_max a" "app_retry_jitter (rec_app a) = app_retry_jitter a"
  "app_unknown_urn_delay (rec_app a) = app_unknown_urn_delay a"
  "app_on_ack_error (rec_app a) = map_option rec_hook (app_on_ack_error a)"
  "app_on_release_error (rec_app a) = map_option rec_hook (app_on_release_error a)"
  "app_on_dead_letter_err (rec_app a) = map_option rec_hook (app_on_dead_letter_err a)"
  "app_on_dead_letter (rec_app a) = map_option (\<lambda>f ctx ev w. (f ctx ev (fst w), snd w)) (app_on_dead_letter a)"
  by (simp_all add: rec_app_def)

lemma rec_handlers [simp]:
  "smap_get (app_handlers (rec_app a)) u = map_option (rec_handler u) (smap_get (app_handlers a) u)"
proof -
  have "map_of (map (\<lambda>(u, h). (u, rec_handler u h)) hs) u = map_option (rec_handler u) (map_of hs u)" for hs :: "'a handler smap"
    by (induction hs) auto
  then show ?thesis by (simp add: rec_app_def)
qed

lemma rec_runtime_fields [simp]:
  "rt_now (rec_runtime rt) w = rt_now rt (fst w)" "rt_rand (rec_runtime rt) w = rt_rand rt (fst w)"
  "rt_syntax (rec_runtime rt) = rt_syntax rt" "rt_quoted (rec_runtime rt) = rt_quoted rt"
  by (simp_all add: rec_runtime_def)

lemma dead_letter_target_rec [simp]: "dead_letter_target (rec_app a) m = dead_letter_target a m"
  by (simp add: dead_letter_target_def rec_transport_def split: option.split)

lemma unknown_urn_error_rec [simp]: "unknown_urn_error (rec_runtime rt) u = unknown_urn_error rt u"
  by (simp add: unknown_urn_error_def)

lemma poison_body_rec [simp]: "poison_dead_letter_body (rec_runtime rt) m e w = poison_dead_letter_body rt m e (fst w)"
  by (simp add: poison_dead_letter_body_def)

subsection \<open>The operations, recorded\<close>

text \<open>The events after a handler has run: no second call, and the message settled or with the broker.\<close>

definition settles :: "bool \<Rightarrow> bytes list \<Rightarrow> phase \<Rightarrow> event list \<Rightarrow> bool" where
  "settles d qs p es \<longleftrightarrow> list_all (\<lambda>e. \<not> is_handled e) es
     \<and> (phase_run d qs p es = Some Settled \<or> phase_run d qs p es = Some Failed)"

definition destinations :: "'w app \<Rightarrow> received_message \<Rightarrow> bytes list" where
  "destinations a m = [msg_queue m, dead_letter_target a m]"

lemma ack_rec:
  "\<exists>r. ack (rec_app a) ctx m (w, es) = (ack a ctx m w, es @ [Acked r])"
  by (simp add: ack_def rec_transport_def rec_effect_def rec_hook_def split: prod.split option.split)

lemma notify_rec [simp]:
  "notify_dead_letter (rec_app a) ctx ev (w, es) = (notify_dead_letter a ctx ev w, es)"
  by (simp add: notify_dead_letter_def split: option.split)

lemma report_rec [simp]:
  "report_release_error (rec_app a) ctx m e (w, es) = (report_release_error a ctx m e w, es)"
  "report_dead_letter_error (rec_app a) ctx m e (w, es) = (report_dead_letter_error a ctx m e w, es)"
  by (simp_all add: report_release_error_def report_dead_letter_error_def rec_hook_def split: option.split)

lemma leave_rec:
  assumes "\<And>e w es. report' ctx m e (w, es) = (report ctx m e w, es)"
  shows "\<exists>es'. leave_unsettled (rec_app a) ctx m err report' (w, es) = (leave_unsettled a ctx m err report w, es @ es')
    \<and> settles d qs Failed es'"
proof (cases "tr_rewind (app_transport a)")
  case None
  then show ?thesis by (intro exI [of _ "[]"]) (simp add: leave_unsettled_def rec_transport_def assms settles_def)
next
  case (Some f)
  obtain r w' where "f m w = (r, w')" by fastforce
  then show ?thesis using Some
    by (intro exI [of _ "[Rewound r]"])
      (auto simp: leave_unsettled_def rec_transport_def rec_effect_def assms settles_def split: option.split)
qed

lemma leave_both_rec:
  "\<exists>es'. leave_dead_letter_unsettled (rec_app a) ctx m err (w, es) = (leave_dead_letter_unsettled a ctx m err w, es @ es')
     \<and> settles d qs Failed es'"
  "\<exists>es'. leave_republish_unsettled (rec_app a) ctx m err (w, es) = (leave_republish_unsettled a ctx m err w, es @ es')
     \<and> settles d qs Failed es'"
  unfolding leave_dead_letter_unsettled_def leave_republish_unsettled_def
  by (rule leave_rec, simp)+

lemma republish_rec:
  "republish (rec_app a) m q b (w, es) =
     (fst (republish a m q b w), (snd (republish a m q b w), es @ [Published q b (fst (republish a m q b w))]))"
  by (simp add: republish_def publish_keeping_route_def rec_transport_def rec_effect_def split: option.split prod.split)

lemma release_rec:
  "\<exists>es'. release (rec_app a) ctx m d (w, es) = (fst (release a ctx m d w), (snd (release a ctx m d w), es @ es'))
     \<and> list_all (\<lambda>e. \<not> is_handled e) es'
     \<and> (if fst (release a ctx m d w) then phase_run dr qs Pending es' \<in> {Some Settled, Some Failed}
        else phase_run dr qs Pending es' = Some Pending)"
proof (cases "tr_release (app_transport a)")
  case None
  then show ?thesis by (intro exI [of _ "[]"]) (simp add: release_def rec_transport_def)
next
  case (Some f)
  obtain r w' where "f m d w = (r, w')" by fastforce
  then show ?thesis using Some
    by (intro exI [of _ "[Released r]"])
      (auto simp: release_def rec_transport_def rec_effect_def rec_hook_def split: option.split)
qed

text \<open>A raw dead-letter write, and what follows it in all three callers: the message is settled when
  the write succeeded and left alone when it failed.\<close>

definition dead_letter_event_of :: "bytes \<Rightarrow> bytes \<Rightarrow> bool \<times> go_error option \<Rightarrow> event" where
  "dead_letter_event_of q body r = (if fst r then DeadLettered q body (snd r) else Published q body (snd r))"

lemma dead_letter_raw_rec:
  "dead_letter_raw (rec_app a) ctx m body reason sq (w, es) =
     (fst (dead_letter_raw a ctx m body reason sq w), (snd (dead_letter_raw a ctx m body reason sq w),
       es @ [dead_letter_event_of (dead_letter_target a m) body (fst (dead_letter_raw a ctx m body reason sq w))]))"
proof (cases "tr_dead_letter (app_transport a)")
  case None
  obtain r w' where "republish a m (dead_letter_target a m) body w = (r, w')" by fastforce
  then show ?thesis using None republish_rec [of a m "dead_letter_target a m" body w es]
    by (cases r) (simp_all add: dead_letter_raw_def rec_transport_def Let_def dead_letter_event_of_def)
next
  case (Some f)
  obtain r w' where "f m (dead_letter_target a m) body w = (r, w')" by fastforce
  then show ?thesis using Some
    by (cases r) (simp_all add: dead_letter_raw_def rec_transport_def rec_effect_def Let_def dead_letter_event_of_def)
qed

definition after_dead_letter ::
  "'w app \<Rightarrow> delivery_ctx \<Rightarrow> received_message \<Rightarrow> (bool \<times> go_error option) \<times> 'w \<Rightarrow> 'w" where
  "after_dead_letter a ctx m x =
     (case x of
        ((settled, Some e), w') \<Rightarrow> leave_dead_letter_unsettled a ctx m e w'
      | ((settled, None), w') \<Rightarrow> settle a ctx m settled w')"

lemma after_dead_letter_rec:
  assumes "target \<in> set qs"
  shows "\<exists>es'. after_dead_letter (rec_app a) ctx m (r, (w, es @ [dead_letter_event_of target body r]))
      = (after_dead_letter a ctx m (r, w), es @ es')
    \<and> settles d qs Pending es' \<and> (\<exists>es2. es' = dead_letter_event_of target body r # es2
        \<and> list_all (\<lambda>e. case e of Acked x \<Rightarrow> True | Rewound x \<Rightarrow> True | _ \<Rightarrow> False) es2)"
proof -
  obtain settled err where r: "r = (settled, err)" by fastforce
  show ?thesis
  proof (cases err)
    case (Some e)
    show ?thesis
    proof (cases "tr_rewind (app_transport a)")
      case None
      then show ?thesis using r Some assms
        by (intro exI [of _ "[dead_letter_event_of target body r]"])
          (simp add: after_dead_letter_def leave_dead_letter_unsettled_def leave_unsettled_def rec_transport_def
            settles_def dead_letter_event_of_def)
    next
      case (Some f)
      obtain x w' where "f m w = (x, w')" by fastforce
      then show ?thesis using r \<open>err = Some e\<close> Some assms
        by (intro exI [of _ "[dead_letter_event_of target body r, Rewound x]"])
          (auto simp: after_dead_letter_def leave_dead_letter_unsettled_def leave_unsettled_def rec_transport_def
            rec_effect_def settles_def dead_letter_event_of_def split: option.split)
    qed
  next
    case None
    obtain x where x: "ack (rec_app a) ctx m (w, es @ [Published target body None]) =
        (ack a ctx m w, (es @ [Published target body None]) @ [Acked x])"
      using ack_rec [of a ctx m w "es @ [Published target body None]"] by (elim exE)
    then show ?thesis using r None assms
      by (intro exI [of _ "dead_letter_event_of target body r # (if settled then [] else [Acked x])"])
        (simp add: after_dead_letter_def settle_def settles_def dead_letter_event_of_def)
  qed
qed

text \<open>Every write of a raw record ends here.\<close>

lemma dead_letter_and_settle:
  "\<exists>es' r. after_dead_letter (rec_app a) ctx m (dead_letter_raw (rec_app a) ctx m body reason sq (w, es))
      = (after_dead_letter a ctx m (dead_letter_raw a ctx m body reason sq w), es @ es')
    \<and> settles d (destinations a m) Pending es' \<and> (\<exists>es2. es' = dead_letter_event_of (dead_letter_target a m) body r # es2
        \<and> list_all (\<lambda>e. case e of Acked x \<Rightarrow> True | Rewound x \<Rightarrow> True | _ \<Rightarrow> False) es2)"
proof -
  have "dead_letter_target a m \<in> set (destinations a m)" by (simp add: destinations_def)
  then show ?thesis
    using after_dead_letter_rec [of "dead_letter_target a m" "destinations a m" a ctx m
      "fst (dead_letter_raw a ctx m body reason sq w)" "snd (dead_letter_raw a ctx m body reason sq w)" es body d]
    unfolding dead_letter_raw_rec prod.collapse by blast
qed

lemma settle_raw_poison_alt:
  "settle_raw_poison rt a ctx m err w = after_dead_letter a ctx m
     (dead_letter_raw a ctx m (poison_dead_letter_body rt m err w) ''poison'' (msg_queue m) w)"
  by (simp add: settle_raw_poison_def after_dead_letter_def)

lemma dead_letter_message_alt:
  "dead_letter_message rt a ctx m env reason cause w = after_dead_letter a ctx m (write_dead_letter rt a ctx m env reason cause w)"
  by (simp add: dead_letter_message_def after_dead_letter_def)

lemma settle_raw_poison_rec:
  "\<exists>es'. settle_raw_poison (rec_runtime rt) (rec_app a) ctx m err (w, es) = (settle_raw_poison rt a ctx m err w, es @ es')
    \<and> settles d (destinations a m) Pending es'"
  using dead_letter_and_settle [of a ctx m "poison_dead_letter_body rt m err w" "''poison''" "msg_queue m" w es d]
  unfolding settle_raw_poison_alt poison_body_rec fst_conv by blast

subsection \<open>Encoding never fails in the runtime\<close>

text \<open>The runtime encodes only what it decoded, with the counter and the dead-letter block changed.
  Such an envelope always encodes: strings are made valid by the encoder, and decoded extras hold no
  forbidden key. So the error branches after \<open>Encode\<close> in the runtime are not reached.\<close>

definition encodable :: "envelope \<Rightarrow> bool" where
  "encodable e \<longleftrightarrow> json_ok 1 (data_json (env_data e)) \<and> fields_ok top_level_keys 1 (env_extras e)
     \<and> fields_ok (core_meta_keys @ forbidden_meta_keys) 2 (env_meta_extras e)"

lemma encodable_encode:
  assumes "encodable e"
  shows "encode stx e = Inr (json_print (envelope_json e))"
proof (rule encode_tree)
  show "check_extras e = None" using assms by (auto simp: encodable_def intro: check_extras_None)
  have "json_ok 1 (meta_json e)" using assms json_ok_meta by (auto simp: encodable_def)
  moreover have "\<forall>(k, v) \<in> set (fields_json (env_extras e)). body_ok k \<and> json_ok 1 v"
    using json_ok_fields assms by (auto simp: encodable_def)
  ultimately show "json_ok 0 (envelope_json e)" using json_ok_dead_letter assms
    by (auto simp: envelope_json_def max_depth_gt encodable_def split: option.split)
qed

lemma encodable_update [simp]:
  "encodable (e\<lparr>env_attempts := n\<rparr>) = encodable e"
  "encodable (e\<lparr>env_dead_letter := dl\<rparr>) = encodable e"
  "encodable (annotate now e reason q n err) = encodable e"
  by (simp_all add: encodable_def annotate_def)

lemma decode_other_error:
  "decode stx raw = (e, Some x) \<Longrightarrow> \<not> errors_is x ErrNoIdentity \<Longrightarrow> e = zero_envelope"
  by (auto simp: decode_def decode_envelope_def dec_finish_def Let_def split: if_splits option.splits sum.splits)

lemma encodable_zero: "encodable zero_envelope"
  by (simp add: encodable_def zero_envelope_def data_json_def fields_ok_def)

lemma encodable_decoded: "encodable (fst (decode stx raw))"
proof -
  obtain e err where d: "decode stx raw = (e, err)" by fastforce
  show ?thesis
  proof (cases "\<forall>x. err = Some x \<longrightarrow> errors_is x ErrNoIdentity")
    case True
    then show ?thesis using decoded_ok [OF d] d by (simp add: envelope_ok_def encodable_def)
  next
    case False
    then show ?thesis using decode_other_error d encodable_zero by auto
  qed
qed

subsection \<open>The routes, recorded\<close>

lemma dead_letter_message_rec:
  assumes "encodable env"
  shows "\<exists>es'. dead_letter_message (rec_runtime rt) (rec_app a) ctx m env reason cause (w, es)
      = (dead_letter_message rt a ctx m env reason cause w, es @ es')
    \<and> settles d (destinations a m) Pending es'"
proof -
  define body where "body = json_print (envelope_json (annotate (rt_now rt w) env reason
     (if meta_queue (env_meta env) \<noteq> [] then meta_queue (env_meta env) else msg_queue m) (env_attempts env) cause))"
  define sq where "sq = (if is_blank_ascii (meta_queue (env_meta env)) then msg_queue m else meta_queue (env_meta env))"
  have "write_dead_letter rt a ctx m env reason cause w = dead_letter_raw a ctx m body reason sq w"
    "write_dead_letter (rec_runtime rt) (rec_app a) ctx m env reason cause (w, es) =
       dead_letter_raw (rec_app a) ctx m body reason sq (w, es)"
    unfolding write_dead_letter_def Let_def rec_runtime_fields fst_conv body_def sq_def
    using assms by (simp_all add: encodable_encode)
  then show ?thesis using dead_letter_and_settle [of a ctx m body reason sq w es d]
    unfolding dead_letter_message_alt by metis
qed

text \<open>Republishing a copy and acknowledging the original, as a retry and a release fallback do.\<close>

definition republish_and_ack ::
  "'w app \<Rightarrow> delivery_ctx \<Rightarrow> received_message \<Rightarrow> bytes \<Rightarrow> 'w \<Rightarrow> 'w" where
  "republish_and_ack a ctx m body w =
     (case republish a m (msg_queue m) body w of
        (Some e, w2) \<Rightarrow> leave_republish_unsettled a ctx m e w2
      | (None, w2) \<Rightarrow> ack a ctx m w2)"

lemma republish_and_ack_rec:
  "\<exists>es'. republish_and_ack (rec_app a) ctx m body (w, es) = (republish_and_ack a ctx m body w, es @ es')
    \<and> settles d (destinations a m) Pending es'"
proof -
  obtain r w2 where r: "republish a m (msg_queue m) body w = (r, w2)" by fastforce
  have r': "republish (rec_app a) m (msg_queue m) body (w, es) = (r, (w2, es @ [Published (msg_queue m) body r]))"
    using republish_rec [of a m "msg_queue m" body w es] r by simp
  show ?thesis
  proof (cases r)
    case None
    obtain x where "ack (rec_app a) ctx m (w2, es @ [Published (msg_queue m) body r])
        = (ack a ctx m w2, (es @ [Published (msg_queue m) body r]) @ [Acked x])"
      using ack_rec [of a ctx m w2 "es @ [Published (msg_queue m) body r]"] by (elim exE)
    then show ?thesis using r r' None
      by (intro exI [of _ "[Published (msg_queue m) body r, Acked x]"])
        (simp add: republish_and_ack_def settles_def destinations_def)
  next
    case (Some e)
    obtain es' where "leave_republish_unsettled (rec_app a) ctx m e (w2, es @ [Published (msg_queue m) body r])
        = (leave_republish_unsettled a ctx m e w2, (es @ [Published (msg_queue m) body r]) @ es')"
      "settles d (destinations a m) Failed es'"
      using leave_both_rec(2) [of a ctx m e w2 "es @ [Published (msg_queue m) body r]" d "destinations a m"] by blast
    then show ?thesis using r r' Some
      by (intro exI [of _ "Published (msg_queue m) body r # es'"])
        (simp add: republish_and_ack_def settles_def destinations_def)
  qed
qed

lemma release_or_republish_rec:
  "\<exists>es'. (case release (rec_app a) ctx m delay (w, es) of
             (True, w') \<Rightarrow> w' | (False, w') \<Rightarrow> republish_and_ack (rec_app a) ctx m body w')
       = (case release a ctx m delay w of (True, w') \<Rightarrow> w' | (False, w') \<Rightarrow> republish_and_ack a ctx m body w',
          es @ es')
     \<and> settles d (destinations a m) Pending es'"
proof -
  obtain ok w' where r: "release a ctx m delay w = (ok, w')" by fastforce
  obtain es1 where 1: "release (rec_app a) ctx m delay (w, es) = (ok, (w', es @ es1))"
    "list_all (\<lambda>e. \<not> is_handled e) es1"
    "if ok then phase_run d (destinations a m) Pending es1 \<in> {Some Settled, Some Failed}
     else phase_run d (destinations a m) Pending es1 = Some Pending"
    using release_rec [of a ctx m delay w es d "destinations a m"] r by auto
  obtain es2 where "republish_and_ack (rec_app a) ctx m body (w', es @ es1) = (republish_and_ack a ctx m body w', (es @ es1) @ es2)"
    "settles d (destinations a m) Pending es2"
    using republish_and_ack_rec [of a ctx m body w' "es @ es1" d] by blast
  then show ?thesis using r 1 by (intro exI [of _ "if ok then es1 else es1 @ es2"]) (auto simp: settles_def)
qed

text \<open>Dropping a message is an acknowledgement on its own.\<close>

lemma drop_rec:
  "\<exists>es'. ack (rec_app a) ctx m (w, es) = (ack a ctx m w, es @ es') \<and> settles True qs Pending es'"
proof -
  obtain x where "ack (rec_app a) ctx m (w, es) = (ack a ctx m w, es @ [Acked x])"
    using ack_rec [of a ctx m w es] by (elim exE)
  then show ?thesis by (intro exI [of _ "[Acked x]"]) (simp add: settles_def)
qed

lemma settle_native_rec:
  "\<exists>es'. settle_native (rec_app a) ctx m reason desc (w, es)
      = (fst (settle_native a ctx m reason desc w), (snd (settle_native a ctx m reason desc w), es @ es'))
    \<and> (if fst (settle_native a ctx m reason desc w) then settles True qs Pending es' else es' = [])"
proof (cases "tr_settle_native_dead_letter (app_transport a)")
  case None
  show ?thesis
  proof (cases "tr_settle_native (app_transport a)")
    case (Some f)
    obtain r w' where "f m reason desc w = (r, w')" by fastforce
    then show ?thesis using None Some
      by (intro exI [of _ "[NativeSettled]"]) (simp add: settle_native_def rec_transport_def rec_effect_def settles_def)
  qed (use None in \<open>simp add: settle_native_def rec_transport_def\<close>)
next
  case (Some f)
  obtain dl r w' where "f m reason desc w = ((dl, r), w')" by (metis prod.exhaust)
  then show ?thesis using Some
    by (intro exI [of _ "[NativeSettled]"]) (simp add: settle_native_def rec_transport_def settles_def)
qed

lemma retry_alt:
  assumes "encodable env"
  shows "retry_or_dead_letter rt a ctx m env cause w =
    (let env' = env\<lparr>env_attempts := wrap64 (env_attempts env + 1)\<rparr> in
     if env_attempts env' < app_max_attempts a then
       (case release a ctx m
               (retry_delay (app_retry_backoff a) (app_retry_multiplier a) (app_retry_backoff_max a)
                  (app_retry_jitter a) (env_attempts env') (rt_rand rt w)) w of
          (True, w') \<Rightarrow> w'
        | (False, w') \<Rightarrow> republish_and_ack a ctx m (json_print (envelope_json env')) w')
     else if app_dead_letter a then
       dead_letter_message rt a ctx m env'
         (if errors_is cause ErrUnknownURN then ''unknown_urn'' else ''failed'') (Some cause) w
     else ack a ctx m w)"
  using assms by (simp add: retry_or_dead_letter_def republish_and_ack_def encodable_encode Let_def split: prod.split bool.split)

lemma retry_rec:
  assumes "encodable env" and "\<not> app_dead_letter a \<longrightarrow> d"
  shows "\<exists>es'. retry_or_dead_letter (rec_runtime rt) (rec_app a) ctx m env cause (w, es)
      = (retry_or_dead_letter rt a ctx m env cause w, es @ es')
    \<and> settles d (destinations a m) Pending es'"
proof -
  define env' where "env' = env\<lparr>env_attempts := wrap64 (env_attempts env + 1)\<rparr>"
  have e: "encodable env'" using assms(1) by (simp add: env'_def)
  consider "env_attempts env' < app_max_attempts a" | "\<not> env_attempts env' < app_max_attempts a" "app_dead_letter a"
    | "\<not> env_attempts env' < app_max_attempts a" "\<not> app_dead_letter a" by blast
  then show ?thesis
  proof cases
    case 1
    then show ?thesis
      using release_or_republish_rec [of a ctx m "json_print (envelope_json env')"
          "retry_delay (app_retry_backoff a) (app_retry_multiplier a) (app_retry_backoff_max a)
             (app_retry_jitter a) (env_attempts env') (rt_rand rt w)" w es d]
      unfolding retry_alt [OF assms(1)] Let_def env'_def [symmetric] by simp
  next
    case 2
    then show ?thesis
      using dead_letter_message_rec [OF e, of rt a ctx m "if errors_is cause ErrUnknownURN then ''unknown_urn'' else ''failed''"
          "Some cause" w es d]
      unfolding retry_alt [OF assms(1)] Let_def env'_def [symmetric] by simp
  next
    case 3
    then show ?thesis using drop_rec assms(2)
      unfolding retry_alt [OF assms(1)] Let_def env'_def [symmetric] by simp
  qed
qed

lemma route_unknown_alt:
  "route_unknown rt a ctx u m env w =
     (if app_on_unknown_urn a = strategy_delete then ack a ctx m w
      else if app_on_unknown_urn a = strategy_release then
        (case release a ctx m (app_unknown_urn_delay a) w of
           (True, w') \<Rightarrow> w' | (False, w') \<Rightarrow> republish_and_ack a ctx m (msg_body m) w')
      else if app_on_unknown_urn a = strategy_dead_letter then
        dead_letter_message rt a ctx m env ''unknown_urn'' None w
      else retry_or_dead_letter rt a ctx m env (unknown_urn_error rt u) w)"
  by (simp add: route_unknown_def republish_and_ack_def split: prod.split bool.split)

lemma route_unknown_rec:
  assumes "encodable env"
  shows "\<exists>es'. route_unknown (rec_runtime rt) (rec_app a) ctx u m env (w, es)
      = (route_unknown rt a ctx u m env w, es @ es') \<and> settles (drop_ok a) (destinations a m) Pending es'"
proof -
  consider "app_on_unknown_urn a = strategy_delete" | "app_on_unknown_urn a = strategy_release"
      "app_on_unknown_urn a \<noteq> strategy_delete"
    | "app_on_unknown_urn a = strategy_dead_letter" "app_on_unknown_urn a \<noteq> strategy_delete"
      "app_on_unknown_urn a \<noteq> strategy_release"
    | "app_on_unknown_urn a \<noteq> strategy_delete" "app_on_unknown_urn a \<noteq> strategy_release"
      "app_on_unknown_urn a \<noteq> strategy_dead_letter" by blast
  then show ?thesis
  proof cases
    case 1
    then show ?thesis using drop_rec [of a ctx m w es] by (simp add: route_unknown_def drop_ok_def)
  next
    case 2
    then show ?thesis using release_or_republish_rec [of a ctx m "msg_body m" "app_unknown_urn_delay a" w es "drop_ok a"]
      unfolding route_unknown_alt by simp
  next
    case 3
    then show ?thesis using dead_letter_message_rec [OF assms] unfolding route_unknown_alt by simp
  next
    case 4
    then show ?thesis using retry_rec [OF assms, of a "drop_ok a"] unfolding route_unknown_alt by (simp add: drop_ok_def)
  qed
qed

text \<open>A delivery left to the broker's native mechanism, with what is done when there is none.\<close>

lemma native_then_rec:
  assumes "\<And>w es. \<exists>es'. f' (w, es) = (f w, es @ es') \<and> settles d qs Pending es'" and "d"
  shows "\<exists>es'. (case settle_native (rec_app a) ctx m reason desc (w, es) of (True, w') \<Rightarrow> w' | (False, w') \<Rightarrow> f' w')
       = (case settle_native a ctx m reason desc w of (True, w') \<Rightarrow> w' | (False, w') \<Rightarrow> f w', es @ es')
     \<and> settles d qs Pending es'"
proof -
  obtain ok w' where n: "settle_native a ctx m reason desc w = (ok, w')" by fastforce
  obtain es1 where 1: "settle_native (rec_app a) ctx m reason desc (w, es) = (ok, (w', es @ es1))"
    "if ok then settles True qs Pending es1 else es1 = []"
    using settle_native_rec [of a ctx m reason desc w es qs] n by auto
  obtain es2 where "f' (w', es) = (f w', es @ es2)" "settles d qs Pending es2" using assms(1) by blast
  then show ?thesis using n 1 assms(2)
    by (intro exI [of _ "if ok then es1 else es2"]) (auto split: bool.split)
qed

lemma version_gated_rec:
  "\<exists>es'. settle_version_gated (rec_app a) ctx m (w, es) = (settle_version_gated a ctx m w, es @ es')
    \<and> settles (drop_ok a) (destinations a m) Pending es'"
proof -
  consider "app_on_unknown_urn a = strategy_delete"
    | "app_on_unknown_urn a \<noteq> strategy_delete" "\<not> app_dead_letter a" "app_on_unknown_urn a \<noteq> strategy_dead_letter"
    | "app_on_unknown_urn a \<noteq> strategy_delete" "app_dead_letter a \<or> app_on_unknown_urn a = strategy_dead_letter" by blast
  then show ?thesis
  proof cases
    case 1
    then show ?thesis using drop_rec [of a ctx m w es] by (simp add: settle_version_gated_def drop_ok_def)
  next
    case 2
    have "\<exists>es'. ack (rec_app a) ctx m (w, es) = (ack a ctx m w, es @ es') \<and> settles (drop_ok a) (destinations a m) Pending es'" for w es
      using drop_rec [of a ctx m w es "destinations a m"] 2 by (simp add: drop_ok_def)
    then show ?thesis
      using native_then_rec [of "ack (rec_app a) ctx m" "ack a ctx m" "drop_ok a" "destinations a m"] 2
      by (simp add: settle_version_gated_def drop_ok_def)
  next
    case 3
    then have "settle_version_gated a ctx m w = after_dead_letter a ctx m (dead_letter_raw a ctx m (msg_body m) [] (msg_queue m) w)"
      "settle_version_gated (rec_app a) ctx m (w, es) =
        after_dead_letter (rec_app a) ctx m (dead_letter_raw (rec_app a) ctx m (msg_body m) [] (msg_queue m) (w, es))"
      by (auto simp: settle_version_gated_def after_dead_letter_def)
    then show ?thesis using dead_letter_and_settle [of a ctx m "msg_body m" "[]" "msg_queue m" w es "drop_ok a"] by metis
  qed
qed

lemma route_poison_rec:
  assumes "encodable env"
  shows "\<exists>es'. route_poison (rec_runtime rt) (rec_app a) ctx m env err (w, es) = (route_poison rt a ctx m env err w, es @ es')
    \<and> settles (drop_ok a) (destinations a m) Pending es'"
proof -
  define cause where "cause = (case err of None \<Rightarrow> unknown_urn_error rt []
    | Some e \<Rightarrow> wrap_error [] (plain_error ErrUnknownURN) ('': undecodable body: '' @ err_text e))"
  define rest where "rest = (\<lambda>w. if app_on_unknown_urn a \<noteq> strategy_release then route_unknown rt a ctx [] m env w
     else retry_or_dead_letter rt a ctx m env cause w)"
  define rest' where "rest' = (\<lambda>w. if app_on_unknown_urn a \<noteq> strategy_release
     then route_unknown (rec_runtime rt) (rec_app a) ctx [] m env w
     else retry_or_dead_letter (rec_runtime rt) (rec_app a) ctx m env cause w)"
  have r: "\<exists>es'. rest' (w, es) = (rest w, es @ es') \<and> settles (drop_ok a) (destinations a m) Pending es'" for w es
  proof -
    have "\<not> app_dead_letter a \<longrightarrow> drop_ok a" by (simp add: drop_ok_def)
    then show ?thesis
      using route_unknown_rec [OF assms, of rt a ctx "[]" m w es] retry_rec [OF assms, of a "drop_ok a" rt ctx m cause w es]
      by (simp only: rest_def rest'_def split: if_split) blast
  qed
  have c: "(case err of None \<Rightarrow> unknown_urn_error (rec_runtime rt) []
      | Some e \<Rightarrow> wrap_error [] (plain_error ErrUnknownURN) ('': undecodable body: '' @ err_text e)) = cause"
    by (simp add: cause_def split: option.split)
  consider "err \<noteq> None \<and> app_on_unknown_urn a \<noteq> strategy_delete
      \<and> (app_dead_letter a \<or> app_on_unknown_urn a = strategy_dead_letter)"
    | "\<not> (err \<noteq> None \<and> app_on_unknown_urn a \<noteq> strategy_delete
      \<and> (app_dead_letter a \<or> app_on_unknown_urn a = strategy_dead_letter))"
      "app_on_unknown_urn a \<noteq> strategy_delete \<and> \<not> app_dead_letter a \<and> app_on_unknown_urn a \<noteq> strategy_dead_letter"
    | "\<not> (err \<noteq> None \<and> app_on_unknown_urn a \<noteq> strategy_delete
      \<and> (app_dead_letter a \<or> app_on_unknown_urn a = strategy_dead_letter))"
      "\<not> (app_on_unknown_urn a \<noteq> strategy_delete \<and> \<not> app_dead_letter a \<and> app_on_unknown_urn a \<noteq> strategy_dead_letter)"
    by blast
  then show ?thesis
  proof cases
    case 1
    then show ?thesis using settle_raw_poison_rec [of rt a ctx m err w es "drop_ok a"] by (simp add: route_poison_def)
  next
    case 2
    then have "route_poison rt a ctx m env err w =
        (case settle_native a ctx m ''poison'' ''the body does not decode into a valid envelope'' w of
           (True, w') \<Rightarrow> w' | (False, w') \<Rightarrow> rest w')"
      "route_poison (rec_runtime rt) (rec_app a) ctx m env err (w, es) =
        (case settle_native (rec_app a) ctx m ''poison'' ''the body does not decode into a valid envelope'' (w, es) of
           (True, w') \<Rightarrow> w' | (False, w') \<Rightarrow> rest' w')"
      unfolding route_poison_def c cause_def [symmetric] rest_def rest'_def by (auto split: prod.split bool.split)
    then show ?thesis using native_then_rec [of rest' rest "drop_ok a" "destinations a m", OF r] 2 by (simp add: drop_ok_def)
  next
    case 3
    then have "route_poison rt a ctx m env err w = rest w"
      "route_poison (rec_runtime rt) (rec_app a) ctx m env err (w, es) = rest' (w, es)"
      unfolding route_poison_def c cause_def [symmetric] rest_def rest'_def by auto
    then show ?thesis using r by simp
  qed
qed

subsection \<open>A whole dispatch\<close>

text \<open>Which handler a delivery reaches, and with which envelope: none for a version-gated or poison
  delivery, none when the body does not decode (a missing identity apart, when the transport gives
  the route), none for a blank or unregistered URN. The attempts handed over are at least what the
  broker's delivery count says.\<close>

definition handler_input :: "'w runtime \<Rightarrow> 'w app \<Rightarrow> received_message \<Rightarrow> (bytes \<times> envelope) option" where
  "handler_input rt a msg =
     (if has_prefix (msg_route_urn msg) unsupported_schema_route_prefix \<or> msg_poison msg then None
      else case decode (rt_syntax rt) (msg_body msg) of
        (env, err) \<Rightarrow>
          let u = (if msg_route_urn msg = [] then urn env else msg_route_urn msg)
          in if (case err of None \<Rightarrow> True | Some e \<Rightarrow> errors_is e ErrNoIdentity \<and> msg_route_urn msg \<noteq> [])
                \<and> \<not> is_blank_ascii u \<and> smap_get (app_handlers a) u \<noteq> None
             then Some (u, env\<lparr>env_attempts := max (env_attempts env) (wrap64 (msg_delivery_count msg - 1))\<rparr>)
             else None)"

fun handled_with :: "event \<Rightarrow> (bytes \<times> envelope) list" where
  "handled_with (Handled u env r) = [(u, env)]"
| "handled_with _ = []"

lemma not_handled_with: "list_all (\<lambda>e. \<not> is_handled e) es \<Longrightarrow> concat (map handled_with es) = []"
proof (induction es)
  case (Cons e es)
  then show ?case by (cases e) auto
qed simp

lemma urn_attempts [simp]: "urn (env\<lparr>env_attempts := n\<rparr>) = urn env"
  by (simp add: urn_def)

lemma encodable_if: "encodable env \<Longrightarrow> encodable (if b then env\<lparr>env_attempts := n\<rparr> else env)"
  by simp

lemma attempts_max:
  "(if env_attempts env < n then env\<lparr>env_attempts := n\<rparr> else env) = env\<lparr>env_attempts := max (env_attempts env) n\<rparr>"
  by (simp add: max_def)

lemma handle_rec:
  assumes "encodable env" and "smap_get (app_handlers a) u = Some h"
  shows "\<exists>es. (case rec_handler u h ctx env (w, []) of
        (Some e, w') \<Rightarrow> retry_or_dead_letter (rec_runtime rt) (rec_app a) ctx m env e w'
      | (None, w') \<Rightarrow> ack (rec_app a) ctx m w')
     = (case h ctx env w of (Some e, w') \<Rightarrow> retry_or_dead_letter rt a ctx m env e w' | (None, w') \<Rightarrow> ack a ctx m w', es)
    \<and> phase_run (drop_ok a) (destinations a m) Pending es \<in> {Some Settled, Some Failed}
    \<and> concat (map handled_with es) = [(u, env)]"
proof -
  obtain r w' where h: "h ctx env w = (r, w')" by fastforce
  have h': "rec_handler u h ctx env (w, []) = (r, (w', [Handled u env r]))"
    by (simp add: rec_handler_def rec_effect_def h)
  show ?thesis
  proof (cases r)
    case None
    obtain x where "ack (rec_app a) ctx m (w', [Handled u env r]) = (ack a ctx m w', [Handled u env r] @ [Acked x])"
      using ack_rec [of a ctx m w' "[Handled u env r]"] by (elim exE)
    then show ?thesis using h h' None by (intro exI [of _ "[Handled u env r, Acked x]"]) simp
  next
    case r: (Some x)
    have "\<not> app_dead_letter a \<longrightarrow> drop_ok a" by (simp add: drop_ok_def)
    then obtain es where es: "retry_or_dead_letter (rec_runtime rt) (rec_app a) ctx m env x (w', [Handled u env r])
        = (retry_or_dead_letter rt a ctx m env x w', [Handled u env r] @ es)"
      "settles (drop_ok a) (destinations a m) Pending es"
      using retry_rec [OF assms(1), of a "drop_ok a" rt ctx m x w' "[Handled u env r]"] by blast
    then show ?thesis using h h' r not_handled_with [of es]
      by (intro exI [of _ "Handled u env r # es"]) (auto simp: settles_def)
  qed
qed

lemma dispatch_rec:
  "\<exists>es. dispatch (rec_runtime rt) (rec_app a) msg (w, []) = (dispatch rt a msg w, es)
    \<and> phase_run (drop_ok a) (destinations a msg) Pending es \<in> {Some Settled, Some Failed}
    \<and> concat (map handled_with es) = (case handler_input rt a msg of None \<Rightarrow> [] | Some x \<Rightarrow> [x])"
proof -
  define ctx where "ctx = delivery_context msg"
  have fin: "\<exists>es. f' = (f, es) \<and> phase_run (drop_ok a) (destinations a msg) Pending es \<in> {Some Settled, Some Failed}
      \<and> concat (map handled_with es) = []"
    if "\<exists>es. f' = (f, [] @ es) \<and> settles (drop_ok a) (destinations a msg) Pending es" for f f'
    using that not_handled_with by (fastforce simp: settles_def)
  show ?thesis
  proof (cases "has_prefix (msg_route_urn msg) unsupported_schema_route_prefix")
    case True
    then show ?thesis using fin [OF version_gated_rec [of a ctx msg w "[]"]]
      by (simp add: dispatch_def ctx_def handler_input_def)
  next
    case nogate: False
    show ?thesis
    proof (cases "msg_poison msg")
      case True
      then show ?thesis using nogate fin [OF settle_raw_poison_rec [where es = "[]"]]
        by (simp add: dispatch_def ctx_def handler_input_def settle_transport_poison_def)
    next
      case nopoison: False
      obtain env0 err0 where d: "decode (rt_syntax rt) (msg_body msg) = (env0, err0)" by fastforce
      define env where "env = env0\<lparr>env_attempts := max (env_attempts env0) (wrap64 (msg_delivery_count msg - 1))\<rparr>"
      define err where "err = (if (case err0 of None \<Rightarrow> False | Some e \<Rightarrow> errors_is e ErrNoIdentity)
          \<and> msg_route_urn msg \<noteq> [] then None else err0)"
      define u where "u = (if err = None \<and> msg_route_urn msg \<noteq> [] then msg_route_urn msg else urn env)"
      have e: "encodable env" using encodable_decoded [of "rt_syntax rt" "msg_body msg"] d by (simp add: env_def)
      have D: "dispatch rt a msg w =
          (if err \<noteq> None \<or> is_blank_ascii u then route_poison rt a ctx msg env err w
           else (case smap_get (app_handlers a) u of
                   None \<Rightarrow> route_unknown rt a ctx u msg env w
                 | Some handler \<Rightarrow>
                     (case handler ctx env w of
                        (Some e, w') \<Rightarrow> retry_or_dead_letter rt a ctx msg env e w'
                      | (None, w') \<Rightarrow> ack a ctx msg w')))"
        using nogate nopoison unfolding dispatch_def Let_def d prod.case attempts_max env_def err_def u_def ctx_def by simp
      have D': "dispatch (rec_runtime rt) (rec_app a) msg (w, []) =
          (if err \<noteq> None \<or> is_blank_ascii u then route_poison (rec_runtime rt) (rec_app a) ctx msg env err (w, [])
           else (case map_option (rec_handler u) (smap_get (app_handlers a) u) of
                   None \<Rightarrow> route_unknown (rec_runtime rt) (rec_app a) ctx u msg env (w, [])
                 | Some handler \<Rightarrow>
                     (case handler ctx env (w, []) of
                        (Some e, w') \<Rightarrow> retry_or_dead_letter (rec_runtime rt) (rec_app a) ctx msg env e w'
                      | (None, w') \<Rightarrow> ack (rec_app a) ctx msg w')))"
        using nogate nopoison unfolding dispatch_def Let_def rec_runtime_fields rec_handlers d prod.case attempts_max
          env_def err_def u_def ctx_def by simp
      have I: "handler_input rt a msg = (if err = None \<and> \<not> is_blank_ascii u \<and> smap_get (app_handlers a) u \<noteq> None
          then Some (u, env) else None)"
        using nogate nopoison unfolding handler_input_def d Let_def by (auto simp: err_def u_def env_def split: option.splits)
      show ?thesis
      proof (cases "err \<noteq> None \<or> is_blank_ascii u")
        case True
        then show ?thesis using fin [OF route_poison_rec [OF e, of rt a ctx msg err w "[]"]] D D' I by auto
      next
        case False
        show ?thesis
        proof (cases "smap_get (app_handlers a) u")
          case None
          then show ?thesis using False fin [OF route_unknown_rec [OF e, of rt a ctx u msg w "[]"]] D D' I by auto
        next
          case (Some h)
          then show ?thesis using False handle_rec [OF e Some, where ctx = ctx and w = w and rt = rt and m = msg] D D' I by simp
        qed
      qed
    qed
  qed
qed



end
