(* ===== verification/AppQueue.thy ===== *)
theory AppQueue
  imports AppTrace
begin

section \<open>The runtime on the in-memory transport\<close>

text \<open>
  With the transport fixed the runtime's effect on the queues can be stated exactly: what a dispatch
  leaves of the message it was given, that a drain ends, and what a failed message looks like in the
  dead-letter queue.
\<close>

definition on_memory :: "(queues \<times> 'a) app \<Rightarrow> bool" where
  "on_memory a \<longleftrightarrow> app_transport a = in_memory_transport"

text \<open>The queue operations of a dispatch on this transport.\<close>

definition pushed :: "bytes \<Rightarrow> bytes \<Rightarrow> queues \<times> 'a \<Rightarrow> queues \<times> 'a" where
  "pushed q b w = snd (im_publish q b w)"

lemma queue_pushed [simp]:
  "queue_of (fst (pushed q b w)) q' =
     queue_of (fst w) q' @ (if q' = q then [\<lparr>im_body = b, im_headers = []\<rparr>] else [])"
  by (simp add: pushed_def im_publish_def queue_of_put)

lemma mem_ops:
  assumes "on_memory a"
  shows "ack a ctx m w = w" "release a ctx m d w = (False, w)"
    "republish a m q b w = (None, pushed q b w)"
    "settle_native a ctx m r s w = (False, w)"
    "dead_letter_raw a ctx m b reason sq w = ((False, None),
       notify_dead_letter a ctx \<lparr>ev_queue = sq, ev_dead_letter_queue = dead_letter_target a m, ev_reason = reason\<rparr>
         (pushed (dead_letter_target a m) b w))"
  using assms
  by (simp_all add: on_memory_def ack_def im_ack_def release_def republish_def publish_keeping_route_def
      im_publish_def pushed_def settle_native_def dead_letter_raw_def Let_def)

lemma mem_target:
  "on_memory a \<Longrightarrow> dead_letter_target a m =
    (if app_dead_letter_queue a \<noteq> [] then app_dead_letter_queue a else msg_queue m @ app_dead_letter_suffix a)"
  by (simp add: on_memory_def dead_letter_target_def)

lemma mem_after_dead_letter:
  "on_memory a \<Longrightarrow> after_dead_letter a ctx m ((False, None), w) = w"
  by (simp add: after_dead_letter_def settle_def mem_ops)

text \<open>The record a dead-lettered envelope leaves.\<close>

definition dead_letter_env ::
  "'w runtime \<Rightarrow> received_message \<Rightarrow> envelope \<Rightarrow> bytes \<Rightarrow> go_error option \<Rightarrow> 'w \<Rightarrow> envelope" where
  "dead_letter_env rt m env reason cause w =
     annotate (rt_now rt w) env reason
       (if meta_queue (env_meta env) \<noteq> [] then meta_queue (env_meta env) else msg_queue m) (env_attempts env) cause"

lemma mem_dead_letter_message:
  assumes "on_memory a" and "encodable env"
  shows "\<exists>ev. dead_letter_message rt a ctx m env reason cause w = notify_dead_letter a ctx ev
    (pushed (dead_letter_target a m) (json_print (envelope_json (dead_letter_env rt m env reason cause w))) w)"
proof -
  have "encodable (dead_letter_env rt m env reason cause w)" using assms(2) by (simp add: dead_letter_env_def)
  then show ?thesis
    unfolding dead_letter_message_alt write_dead_letter_def Let_def dead_letter_env_def [symmetric]
    by (auto simp: encodable_encode mem_ops [OF assms(1)] mem_after_dead_letter [OF assms(1)])
qed

definition next_attempt :: "envelope \<Rightarrow> envelope" where
  "next_attempt env = env\<lparr>env_attempts := wrap64 (env_attempts env + 1)\<rparr>"

lemma mem_retry:
  assumes "on_memory a" and "encodable env"
  shows "\<exists>ev. retry_or_dead_letter rt a ctx m env cause w =
    (if env_attempts (next_attempt env) < app_max_attempts a
     then pushed (msg_queue m) (json_print (envelope_json (next_attempt env))) w
     else if app_dead_letter a
     then notify_dead_letter a ctx ev (pushed (dead_letter_target a m)
       (json_print (envelope_json (dead_letter_env rt m (next_attempt env)
          (if errors_is cause ErrUnknownURN then ''unknown_urn'' else ''failed'') (Some cause) w))) w)
     else w)"
proof -
  have e: "encodable (next_attempt env)" using assms(2) by (simp add: next_attempt_def)
  obtain ev where "dead_letter_message rt a ctx m (next_attempt env)
      (if errors_is cause ErrUnknownURN then ''unknown_urn'' else ''failed'') (Some cause) w =
    notify_dead_letter a ctx ev (pushed (dead_letter_target a m)
       (json_print (envelope_json (dead_letter_env rt m (next_attempt env)
          (if errors_is cause ErrUnknownURN then ''unknown_urn'' else ''failed'') (Some cause) w))) w)"
    using mem_dead_letter_message [OF assms(1) e] by blast
  then show ?thesis unfolding retry_alt [OF assms(2)] Let_def next_attempt_def [symmetric]
    by (intro exI [of _ ev]) (simp add: mem_ops [OF assms(1)] republish_and_ack_def)
qed

subsection \<open>A drain ends\<close>

text \<open>Handlers and the observer may do what they like with their own state, but the queues are the
  runtime's.\<close>

definition quiet :: "(queues \<times> 'a) app \<Rightarrow> bool" where
  "quiet a \<longleftrightarrow>
     list_all (\<lambda>(u, h). \<forall>ctx env qs x. fst (snd (h ctx env (qs, x))) = qs) (app_handlers a)
     \<and> (case app_on_dead_letter a of None \<Rightarrow> True | Some f \<Rightarrow> \<forall>ctx ev qs x. fst (f ctx ev (qs, x)) = qs)"

lemma quiet_handler: "quiet a \<Longrightarrow> smap_get (app_handlers a) u = Some h \<Longrightarrow> h ctx env w = (r, w') \<Longrightarrow> fst w' = fst w"
proof -
  assume a: "quiet a" "smap_get (app_handlers a) u = Some h" "h ctx env w = (r, w')"
  then have "(u, h) \<in> set (app_handlers a)" by (simp add: map_of_SomeD)
  then have "fst (snd (h ctx env w)) = fst w" using a(1) by (cases w) (auto simp: quiet_def list_all_iff)
  then show ?thesis using a(3) by simp
qed

lemma quiet_notify [simp]: "quiet a \<Longrightarrow> fst (notify_dead_letter a ctx ev w) = fst w"
  by (cases w) (simp add: quiet_def notify_dead_letter_def split: option.splits)

text \<open>How many dispatches a message may still take: its remaining attempts, and at least one. A
  counter at the largest integer wraps to the smallest one, from where it is raised to \<open>-1\<close>.\<close>

definition tries :: "int \<Rightarrow> int \<Rightarrow> nat" where
  "tries limit n = (if n = max_int64 then 1 + max 1 (nat (limit + 1)) else max 1 (nat (limit - max n (- 1))))"

definition body_tries :: "(bytes \<Rightarrow> bytes) \<Rightarrow> int \<Rightarrow> bytes \<Rightarrow> nat" where
  "body_tries stx limit b = tries limit (env_attempts (fst (decode stx b)))"

lemma wrap64_minus_one: "wrap64 (0 - 1) = - 1"
  by (simp add: wrap64_def)

lemma tries_next:
  assumes "int64_ok n" and "wrap64 (max n (- 1) + 1) < limit" and "limit \<le> max_int64"
  shows "tries limit (wrap64 (max n (- 1) + 1)) < tries limit n"
proof (cases "n = max_int64")
  case True
  then have "wrap64 (max n (- 1) + 1) = min_int64" using wrap64_max by (simp add: max_int64_def max_def)
  then show ?thesis using True by (simp add: tries_def min_int64_def max_int64_def)
next
  case False
  then have "wrap64 (max n (- 1) + 1) = max n (- 1) + 1"
    using assms(1) by (intro wrap64_id) (auto simp: int64_ok_def min_int64_def max_int64_def)
  then show ?thesis using False assms by (auto simp: tries_def max_def)
qed

lemma tries_pos: "0 < tries limit n"
  by (auto simp: tries_def max_def)

lemma envelope_ok_decoded: "envelope_ok (fst (decode stx raw))"
proof -
  obtain e err where d: "decode stx raw = (e, err)" by fastforce
  show ?thesis
  proof (cases "\<forall>x. err = Some x \<longrightarrow> errors_is x ErrNoIdentity")
    case True
    then show ?thesis using decoded_ok [OF d] d by simp
  next
    case False
    then have "e = zero_envelope" using decode_other_error d by auto
    then show ?thesis using d dec_init_ok by (simp add: dec_ok_def dec_init_def zero_envelope_def envelope_ok_def)
  qed
qed

lemma encodable_ok: "envelope_ok e \<Longrightarrow> encodable e"
  by (simp add: envelope_ok_def encodable_def)

lemma envelope_ok_attempts: "envelope_ok e \<Longrightarrow> int64_ok n \<Longrightarrow> envelope_ok (e\<lparr>env_attempts := n\<rparr>)"
  by (simp add: envelope_ok_def)

lemma decode_attempts: "envelope_ok e \<Longrightarrow> env_attempts (fst (decode stx (json_print (envelope_json e)))) = env_attempts e"
  by (simp add: decode_written)

text \<open>What a dispatch puts back on the message's own queue counts for less than the message did.\<close>

definition puts_back :: "'w runtime \<Rightarrow> int \<Rightarrow> bytes \<Rightarrow> bytes \<Rightarrow> queues \<Rightarrow> queues \<Rightarrow> bool" where
  "puts_back rt limit queue body qs qs' \<longleftrightarrow> (\<exists>bs. queue_of qs' queue = queue_of qs queue @ bs
     \<and> sum_list (map (body_tries (rt_syntax rt) limit \<circ> im_body) bs) < body_tries (rt_syntax rt) limit body)"

lemma puts_back_nothing: "queue_of qs' queue = queue_of qs queue \<Longrightarrow> puts_back rt limit queue body qs qs'"
  by (simp add: puts_back_def body_tries_def tries_pos)

lemma mem_retry_back:
  assumes "on_memory a" "quiet a" "app_max_attempts a \<le> max_int64" "dead_letter_target a m \<noteq> queue" "msg_queue m = queue"
    and "env = env0\<lparr>env_attempts := max (env_attempts env0) (- 1)\<rparr>" "env0 = fst (decode (rt_syntax rt) body)"
  shows "puts_back rt (app_max_attempts a) queue body (fst w) (fst (retry_or_dead_letter rt a ctx m env cause w))"
proof -
  have ok0: "envelope_ok env0" using assms(7) envelope_ok_decoded by simp
  then have n: "int64_ok (env_attempts env0)" by (simp add: envelope_ok_def)
  then have ok: "envelope_ok env" using ok0 assms(6)
    by (auto intro!: envelope_ok_attempts simp: int64_ok_def max_def min_int64_def max_int64_def)
  have ok': "envelope_ok (next_attempt env)" using ok by (simp add: next_attempt_def envelope_ok_attempts)
  obtain ev where r: "retry_or_dead_letter rt a ctx m env cause w =
    (if env_attempts (next_attempt env) < app_max_attempts a
     then pushed (msg_queue m) (json_print (envelope_json (next_attempt env))) w
     else if app_dead_letter a
     then notify_dead_letter a ctx ev (pushed (dead_letter_target a m)
       (json_print (envelope_json (dead_letter_env rt m (next_attempt env)
          (if errors_is cause ErrUnknownURN then ''unknown_urn'' else ''failed'') (Some cause) w))) w)
     else w)" using mem_retry [OF assms(1) encodable_ok [OF ok]] by blast
  show ?thesis
  proof (cases "env_attempts (next_attempt env) < app_max_attempts a")
    case True
    have att: "env_attempts (next_attempt env) = wrap64 (max (env_attempts env0) (- 1) + 1)"
      using assms(6) by (simp add: next_attempt_def)
    have "tries (app_max_attempts a) (env_attempts (next_attempt env)) < tries (app_max_attempts a) (env_attempts env0)"
      using tries_next [OF n _ assms(3)] True unfolding att by simp
    then show ?thesis using r True assms(5,7)
      by (simp add: puts_back_def body_tries_def decode_attempts [OF ok'])
  next
    case False
    then show ?thesis using r assms(2,4) by (intro puts_back_nothing) simp
  qed
qed

lemma mem_route_unknown_back:
  assumes "on_memory a" "quiet a" "app_max_attempts a \<le> max_int64" "dead_letter_target a m \<noteq> queue" "msg_queue m = queue"
    and "env = env0\<lparr>env_attempts := max (env_attempts env0) (- 1)\<rparr>" "env0 = fst (decode (rt_syntax rt) body)"
    and "app_on_unknown_urn a \<noteq> strategy_release"
  shows "puts_back rt (app_max_attempts a) queue body (fst w) (fst (route_unknown rt a ctx u m env w))"
proof -
  have e: "encodable env" using assms(6,7) encodable_ok [OF envelope_ok_decoded] by simp
  obtain ev where "dead_letter_message rt a ctx m env ''unknown_urn'' None w = notify_dead_letter a ctx ev
    (pushed (dead_letter_target a m) (json_print (envelope_json (dead_letter_env rt m env ''unknown_urn'' None w))) w)"
    using mem_dead_letter_message [OF assms(1) e] by blast
  then have dl: "puts_back rt (app_max_attempts a) queue body (fst w) (fst (dead_letter_message rt a ctx m env ''unknown_urn'' None w))"
    using assms(2,4) by (intro puts_back_nothing) simp
  have none: "puts_back rt (app_max_attempts a) queue body (fst w) (fst w)" by (rule puts_back_nothing) simp
  show ?thesis using dl none assms(8) mem_retry_back [OF assms(1-7)]
    by (simp add: route_unknown_alt mem_ops [OF assms(1)])
qed

lemma mem_raw_poison_back:
  assumes "on_memory a" "quiet a" "dead_letter_target a m \<noteq> queue"
  shows "puts_back rt limit queue body (fst w) (fst (settle_raw_poison rt a ctx m err w))"
  using assms by (intro puts_back_nothing)
    (simp add: settle_raw_poison_alt mem_ops mem_after_dead_letter)

text \<open>A delivery of this transport has a native count of zero, no route and no mark of its own.\<close>

lemma mem_dispatch:
  assumes "decode (rt_syntax rt) (im_body x) = (env0, err)" and "env = env0\<lparr>env_attempts := max (env_attempts env0) (- 1)\<rparr>"
    and "m = received_of queue x" and "ctx = delivery_context m"
  shows "dispatch rt a m w =
      (if err \<noteq> None \<or> is_blank_ascii (urn env) then route_poison rt a ctx m env err w
       else (case smap_get (app_handlers a) (urn env) of
               None \<Rightarrow> route_unknown rt a ctx (urn env) m env w
             | Some handler \<Rightarrow>
                 (case handler ctx env w of
                    (Some e, w') \<Rightarrow> retry_or_dead_letter rt a ctx m env e w'
                  | (None, w') \<Rightarrow> ack a ctx m w')))"
proof -
  have m: "msg_body m = im_body x" "msg_route_urn m = []" "\<not> msg_poison m" "msg_delivery_count m = 0"
    using assms(3) by (simp_all add: received_of_def)
  have "\<not> has_prefix [] unsupported_schema_route_prefix"
    by (simp add: has_prefix_def unsupported_schema_route_prefix_def)
  then show ?thesis
    unfolding dispatch_def Let_def m assms(1) prod.case attempts_max wrap64_minus_one assms(2,4) using m(3) by simp
qed

lemma mem_dispatch_back:
  assumes "on_memory a" "quiet a" "app_max_attempts a \<le> max_int64" "app_on_unknown_urn a \<noteq> strategy_release"
    and "dead_letter_target a m \<noteq> queue" "m = received_of queue x"
  shows "puts_back rt (app_max_attempts a) queue (im_body x) (fst w) (fst (dispatch rt a m w))"
proof -
  have m: "msg_queue m = queue" "msg_body m = im_body x" "msg_route_urn m = []" "\<not> msg_poison m" "msg_delivery_count m = 0"
    using assms(6) by (simp_all add: received_of_def)
  obtain env0 err where d: "decode (rt_syntax rt) (im_body x) = (env0, err)" by fastforce
  define ctx where "ctx = delivery_context m"
  define env where "env = env0\<lparr>env_attempts := max (env_attempts env0) (- 1)\<rparr>"
  have env0: "env0 = fst (decode (rt_syntax rt) (im_body x))" using d by simp
  note kept = mem_retry_back [OF assms(1-3,5) m(1) env_def env0] mem_raw_poison_back [OF assms(1,2,5)]
    mem_route_unknown_back [OF assms(1-3,5) m(1) env_def env0 assms(4)]
  note D = mem_dispatch [OF d env_def assms(6) ctx_def, of a w]
  have P: "puts_back rt (app_max_attempts a) queue (im_body x) (fst w) (fst (route_poison rt a ctx m env err w))"
    unfolding route_poison_def Let_def using kept assms(4) mem_ops(4) [OF assms(1)] by simp
  show ?thesis
  proof (cases "err \<noteq> None \<or> is_blank_ascii (urn env)")
    case True
    then show ?thesis unfolding D using P by simp
  next
    case False
    show ?thesis
    proof (cases "smap_get (app_handlers a) (urn env)")
      case None
      then show ?thesis using False kept(3) unfolding D by simp
    next
      case (Some h)
      obtain r w' where h: "h ctx env w = (r, w')" by (cases "h ctx env w")
      have w': "fst w' = fst w" using quiet_handler [OF assms(2) Some h] .
      have "puts_back rt (app_max_attempts a) queue (im_body x) (fst w') (fst w')" by (rule puts_back_nothing) simp
      then show ?thesis using False Some h kept(1) [where w = w'] mem_ops(1) [OF assms(1)] unfolding D w' [symmetric]
        by (cases r) simp_all
    qed
  qed
qed

definition queue_tries :: "'w runtime \<Rightarrow> int \<Rightarrow> in_memory_message list \<Rightarrow> nat" where
  "queue_tries rt limit ms = sum_list (map (body_tries (rt_syntax rt) limit \<circ> im_body) ms)"

lemma queue_tries_simps [simp]:
  "queue_tries rt limit [] = 0"
  "queue_tries rt limit (m # ms) = body_tries (rt_syntax rt) limit (im_body m) + queue_tries rt limit ms"
  "queue_tries rt limit (ms @ ms') = queue_tries rt limit ms + queue_tries rt limit ms'"
  by (simp_all add: queue_tries_def)

lemma drain_loop_ends:
  assumes "on_memory a" "quiet a" "app_max_attempts a \<le> max_int64" "app_on_unknown_urn a \<noteq> strategy_release"
    and "dead_letter_target a (received_of queue \<lparr>im_body = [], im_headers = []\<rparr>) \<noteq> queue"
  shows "\<exists>n err w'. drain_loop rt a queue max' processed w = Some ((n, err), w')
    \<and> n \<le> processed + int (queue_tries rt (app_max_attempts a) (queue_of (fst w) queue))
    \<and> (max' \<le> 0 \<and> err = None \<longrightarrow> queue_of (fst w') queue = [])"
proof (induction "queue_tries rt (app_max_attempts a) (queue_of (fst w) queue)" arbitrary: w processed rule: less_induct)
  case less
  show ?case
  proof (cases "(max' \<le> 0 \<or> processed < max') \<and> rt_ctx_err rt w = None")
    case False
    then show ?thesis by (subst drain_loop.simps) (auto split: option.split)
  next
    case go: True
    show ?thesis
    proof (cases "queue_of (fst w) queue")
      case Nil
      then show ?thesis using go assms(1)
        by (subst drain_loop.simps) (simp add: on_memory_def im_pop_def)
    next
      case (Cons x ms)
      define w1 where "w1 = (smap_put queue ms (fst w), snd w)"
      define m where "m = received_of queue x"
      define w2 where "w2 = dispatch rt a m w1"
      have pop: "tr_pop (app_transport a) queue (app_poll_timeout a) w = (Inr (Some m), w1)"
        using assms(1) Cons by (simp add: on_memory_def im_pop_def w1_def m_def)
      have t: "dead_letter_target a m \<noteq> queue"
      proof -
        have "dead_letter_target a m = dead_letter_target a (received_of queue \<lparr>im_body = [], im_headers = []\<rparr>)"
          by (simp add: mem_target [OF assms(1)] m_def received_of_def)
        then show ?thesis using assms(5) by simp
      qed
      obtain bs where bs: "queue_of (fst w2) queue = ms @ bs"
        "queue_tries rt (app_max_attempts a) bs < body_tries (rt_syntax rt) (app_max_attempts a) (im_body x)"
        using mem_dispatch_back [OF assms(1-4) t m_def, of rt w1]
        by (auto simp: puts_back_def w2_def w1_def queue_of_put queue_tries_def)
      have less': "queue_tries rt (app_max_attempts a) (queue_of (fst w2) queue)
          < queue_tries rt (app_max_attempts a) (queue_of (fst w) queue)"
        using bs Cons by simp
      have step: "drain_loop rt a queue max' processed w = drain_loop rt a queue max' (processed + 1) w2"
        using go pop by (subst drain_loop.simps) (simp add: w2_def)
      obtain n err w' where "drain_loop rt a queue max' (processed + 1) w2 = Some ((n, err), w')"
        "n \<le> processed + 1 + int (queue_tries rt (app_max_attempts a) (queue_of (fst w2) queue))"
        "max' \<le> 0 \<and> err = None \<longrightarrow> queue_of (fst w') queue = []"
        using less.hyps [OF less'] by blast
      then show ?thesis unfolding step using less' by (intro exI [of _ n] exI [of _ err] exI [of _ w']) auto
    qed
  qed
qed


end
