(* ===== verification/AppLaws.thy ===== *)
theory AppLaws
  imports AppQueue EnvelopeLaws
begin

section \<open>What becomes of a message\<close>

text \<open>
  Properties of whole deliveries on the in-memory transport: what a consumer gets of what was
  published, what a failed message looks like when it comes back and when it is dead-lettered, and
  how a version-gated delivery is left untouched. The sample application here is what the witnesses
  run.
\<close>

lemma handler_input_decoded:
  assumes "handler_input rt a m = Some (u, env)" and "msg_route_urn m = []"
  obtains env0 where "decode (rt_syntax rt) (msg_body m) = (env0, None)" "u = urn env0"
    "env = env0\<lparr>env_attempts := max (env_attempts env0) (wrap64 (msg_delivery_count m - 1))\<rparr>"
    "\<not> has_prefix (msg_route_urn m) unsupported_schema_route_prefix" "\<not> msg_poison m"
    "smap_get (app_handlers a) u \<noteq> None" "\<not> is_blank_ascii u"
  using assms by (auto simp: handler_input_def Let_def split: if_splits prod.splits option.splits)

lemma handler_input_ok:
  assumes "handler_input rt a m = Some (u, env)" and "msg_route_urn m = []"
  shows "envelope_ok env \<and> \<not> is_blank_ascii (env_job env)"
proof -
  obtain env0 where d: "decode (rt_syntax rt) (msg_body m) = (env0, None)"
    and env: "env = env0\<lparr>env_attempts := max (env_attempts env0) (wrap64 (msg_delivery_count m - 1))\<rparr>"
    by (rule handler_input_decoded [OF assms]) blast
  have "envelope_ok env0 \<and> \<not> is_blank_ascii (env_job env0)" using decoded_ok [OF d] by simp
  moreover have "int64_ok (max (env_attempts env0) (wrap64 (msg_delivery_count m - 1)))"
    using calculation wrap64_ok [of "msg_delivery_count m - 1"] by (simp add: envelope_ok_def max_def)
  ultimately show ?thesis using env by (simp add: envelope_ok_attempts)
qed

text \<open>A delivery whose handler fails goes to the retry path with the handler's world.\<close>

lemma dispatch_failed:
  assumes "handler_input rt a m = Some (u, env)" and "smap_get (app_handlers a) u = Some h"
    and "h (delivery_context m) env w = (Some e, w1)"
  shows "dispatch rt a m w = retry_or_dead_letter rt a (delivery_context m) m env e w1"
proof -
  obtain env0 err0 where d: "decode (rt_syntax rt) (msg_body m) = (env0, err0)" by fastforce
  have c: "\<not> has_prefix (msg_route_urn m) unsupported_schema_route_prefix" "\<not> msg_poison m"
    "case err0 of None \<Rightarrow> True | Some e \<Rightarrow> errors_is e ErrNoIdentity \<and> msg_route_urn m \<noteq> []"
    "u = (if msg_route_urn m = [] then urn env0 else msg_route_urn m)" "\<not> is_blank_ascii u"
    "env = env0\<lparr>env_attempts := max (env_attempts env0) (wrap64 (msg_delivery_count m - 1))\<rparr>"
    using assms(1) d by (auto simp: handler_input_def Let_def split: if_splits)
  then show ?thesis using assms(2,3)
    unfolding dispatch_def Let_def d prod.case attempts_max by (auto split: option.splits)
qed

lemma decode_failed_record:
  assumes "envelope_ok env" and "\<not> is_blank_ascii (env_job env)"
  shows "decode stx (json_print (envelope_json env)) = (env\<lparr>env_warnings := []\<rparr>, None)"
  using decode_written [OF assms(1), of stx] assms(2) by simp

lemma envelope_ok_annotate:
  assumes "envelope_ok env" "int64_ok now" "utf8_ok reason" "utf8_ok q" "int64_ok n"
    and "case_option True (\<lambda>e. utf8_ok (err_text e) \<and> utf8_ok (err_type e)) cause"
  shows "envelope_ok (annotate now env reason q n cause)"
  using assms by (cases cause) (simp_all add: envelope_ok_def annotate_def dead_letter_ok_def source_lang_def)

lemma next_attempt_ok: "envelope_ok env \<Longrightarrow> envelope_ok (next_attempt env)"
  by (simp add: next_attempt_def envelope_ok_attempts)

lemma next_attempt_fields [simp]:
  "env_job (next_attempt env) = env_job env" "env_meta (next_attempt env) = env_meta env"
  "env_attempts (next_attempt env) = wrap64 (env_attempts env + 1)"
  by (simp_all add: next_attempt_def)

lemma annotate_job [simp]: "env_job (annotate now env reason q n cause) = env_job env"
  by (simp add: annotate_def)


subsection \<open>A sample application\<close>

text \<open>An application on the in-memory transport with dead-lettering on and one handler, which fails
  for a message whose trace is \<open>bad\<close>; the world's second part counts its calls.\<close>

definition sample_failure :: go_error where
  "sample_failure = \<lparr>err_is = [], err_text = ''boom'', err_type = ''*errors.errorString''\<rparr>"

definition sample_handler :: "(queues \<times> nat) handler" where
  "sample_handler ctx env w =
     (if env_trace_id env = ''bad'' then Some sample_failure else None, (fst w, Suc (snd w)))"

definition sample_app :: "(queues \<times> nat) app" where
  "sample_app = handle ''u:x'' sample_handler (new_app in_memory_transport [with_dead_letter True])"

definition sample_runtime :: "(queues \<times> nat) runtime" where
  "sample_runtime =
     \<lparr>rt_now = (\<lambda>_. 7), rt_rand = (\<lambda>_. (0, 0)), rt_uuid = (\<lambda>_ _. replicate 16 0), rt_ctx_err = (\<lambda>_. None),
      rt_syntax = (\<lambda>_. []), rt_quoted = (\<lambda>_. [])\<rparr>"

definition sample_delivery :: "bytes \<Rightarrow> received_message" where
  "sample_delivery b = received_of ''q'' \<lparr>im_body = b, im_headers = []\<rparr>"

definition bad_body :: "int \<Rightarrow> bytes" where
  "bad_body n = json_print (envelope_json (zero_envelope\<lparr>env_job := ''u:x'', env_trace_id := ''bad'', env_attempts := n\<rparr>))"

lemma sample_on_memory: "on_memory sample_app"
  by (simp add: on_memory_def sample_app_def handle_def new_app_def default_app_def with_dead_letter_def)

lemma sample_quiet: "quiet sample_app"
  by (simp add: quiet_def sample_app_def sample_handler_def handle_def new_app_def default_app_def with_dead_letter_def)

lemma bad_body_ok: "int64_ok n \<Longrightarrow>
  envelope_ok (zero_envelope\<lparr>env_job := ''u:x'', env_trace_id := ''bad'', env_attempts := n\<rparr>)"
  using dec_init_ok by (simp add: dec_ok_def dec_init_def zero_envelope_def envelope_ok_def)

lemma bad_input:
  assumes "int64_ok n" and "- 1 \<le> n"
  shows "handler_input sample_runtime sample_app (sample_delivery (bad_body n)) =
    Some (''u:x'', zero_envelope\<lparr>env_job := ''u:x'', env_trace_id := ''bad'', env_attempts := n\<rparr>)"
proof -
  define env where "env = zero_envelope\<lparr>env_job := ''u:x'', env_trace_id := ''bad'', env_attempts := n\<rparr>"
  have nb: "\<not> is_blank_ascii (env_job env)" unfolding env_def by (simp, code_simp)
  have d: "decode (rt_syntax sample_runtime) (bad_body n) = (env\<lparr>env_warnings := []\<rparr>, None)"
    unfolding bad_body_def env_def [symmetric]
    using decode_failed_record [of env] bad_body_ok [OF assms(1)] nb by (simp add: env_def)
  have "\<not> has_prefix [] unsupported_schema_route_prefix"
    by (simp add: has_prefix_def unsupported_schema_route_prefix_def)
  moreover have "smap_get (app_handlers sample_app) ''u:x'' = Some sample_handler"
    by (simp add: sample_app_def handle_def new_app_def default_app_def with_dead_letter_def)
  moreover have "max n (- 1) = n" "wrap64 (0 - 1) = - 1" using assms(2) by (simp_all add: wrap64_def)
  ultimately show ?thesis using d nb
    unfolding handler_input_def sample_delivery_def received_of_def Let_def
    by (simp add: env_def urn_def zero_envelope_def)
qed

definition sample_world :: "bytes \<Rightarrow> queues \<times> nat" where
  "sample_world b = ([(''q'', [\<lparr>im_body = b, im_headers = []\<rparr>])], 0)"

lemma sample_fields [simp]:
  "app_max_attempts sample_app = 3" "app_on_unknown_urn sample_app = strategy_fail" "app_dead_letter sample_app"
  "dead_letter_target sample_app m = msg_queue m @ ''.dlq''"
  "smap_get (app_handlers sample_app) ''u:x'' = Some sample_handler"
  by (simp_all add: sample_app_def handle_def new_app_def default_app_def with_dead_letter_def dead_letter_target_def)



subsection \<open>Published messages\<close>

lemma published_message:
  assumes "on_memory a" and "publish_envelope_with_headers rt a u data headers opts w = ((env, None), w1)"
    and "utf8_ok u" "utf8_ok (app_queue a)" "list_all option_ok opts" "int64_ok (rt_now rt w)"
    and "goval_ok (case_option GNull GObj data)" and "json_ok 1 (data_json data)"
  shows "\<exists>m. queue_of (fst w1) (meta_queue (env_meta env)) = queue_of (fst w) (meta_queue (env_meta env)) @ [m]
    \<and> snd w1 = snd w \<and> im_headers m = headers
    \<and> handler_input rt a (received_of (meta_queue (env_meta env)) m) =
        (if smap_get (app_handlers a) (env_job env) = None then None else Some (env_job env, env))"
proof -
  obtain body where mk: "Make (rt_uuid rt 0 w) (rt_uuid rt 1 w) (rt_now rt w) u data (WithQueue (app_queue a) # opts) = Inr env"
    and enc: "encode (rt_syntax rt) env = Inr body"
    using assms(2) by (auto simp: publish_envelope_with_headers_def apfst_def map_prod_def split: sum.splits option.splits prod.splits)
  have ok: "envelope_ok env" "\<not> is_blank_ascii (env_job env)" "env_warnings env = []" "env_attempts env = 0"
    using Make_ok [OF mk assms(3) _ assms(6-8)] assms(4,5) by simp_all
  have body: "body = json_print (envelope_json env)" using encode_ok [OF ok(1)] enc by simp
  define m where "m = \<lparr>im_body = body, im_headers = headers\<rparr>"
  have w1: "w1 = (smap_put (meta_queue (env_meta env)) (queue_of (fst w) (meta_queue (env_meta env)) @ [m]) (fst w), snd w)"
    using assms(1,2) mk enc
    by (cases "headers = []") (simp_all add: publish_envelope_with_headers_def on_memory_def im_publish_def
        im_publish_with_headers_def m_def)
  have d: "decode (rt_syntax rt) (im_body m) = (env, None)"
    using decode_failed_record [OF ok(1,2), of "rt_syntax rt"] ok(3) by (simp add: m_def body)
  have "\<not> has_prefix [] unsupported_schema_route_prefix"
    by (simp add: has_prefix_def unsupported_schema_route_prefix_def)
  then have "handler_input rt a (received_of (meta_queue (env_meta env)) m) =
      (if smap_get (app_handlers a) (env_job env) = None then None else Some (env_job env, env))"
    using d ok(2,4) unfolding handler_input_def received_of_def Let_def
    by (simp add: urn_def wrap64_minus_one [simplified])
  then show ?thesis using w1 by (intro exI [of _ m]) (simp add: queue_of_put m_def)
qed



subsection \<open>Version-gated deliveries\<close>


definition gated_delivery :: received_message where
  "gated_delivery = (sample_delivery ''{'')\<lparr>msg_route_urn := unsupported_schema_route_prefix @ ''2''\<rparr>"


lemma utf8_len_append_ascii:
  assumes "x \<noteq> []" and "list_all (\<lambda>c. byte c < 0x80) y"
  shows "utf8_len (x @ y) = utf8_len x"
proof (cases "utf8_len x = 0")
  case False
  then show ?thesis by (simp add: utf8_len_append)
next
  case True
  obtain b s where x: "x = b # s" using assms(1) by (cases x) auto
  have no: "\<not> list_all (in_range lo hi) (take k y)" if "0 < k" "y \<noteq> []" "0x80 \<le> lo" for lo hi k
    using that assms(2) by (cases y; cases k) (auto simp: in_range_def)
  have "utf8_len (x @ y) = 0"
  proof (cases "utf8_lead (byte b)")
    case (Some t)
    obtain k lo hi where t: "t = (k, lo, hi)" by (cases t)
    have lo: "0x80 \<le> lo" using Some t by (auto simp: utf8_lead_def split: if_splits)
    have "\<not> utf8_conts lo hi (take k (s @ y))" if "k \<le> length s + length y"
    proof (cases "k \<le> length s")
      case True
      then show ?thesis using \<open>utf8_len x = 0\<close> x Some t by (simp add: utf8_len.simps split: if_splits)
    next
      case False
      then have k: "take k (s @ y) = s @ take (k - length s) y" "0 < k - length s" "y \<noteq> []"
        using that by auto
      show ?thesis
      proof (cases s)
        case Nil
        have "take k y \<noteq> []" using k(2,3) Nil by simp
        then show ?thesis using k(1) Nil lo assms(2) by (cases y; cases k) (auto simp: in_range_def)
      next
        case (Cons d s')
        then show ?thesis using k no [where k = "k - length s" and lo = "0x80" and hi = "0xBF"] by simp
      qed
    qed
    then show ?thesis using x Some t by (simp add: utf8_len.simps)
  qed (simp add: x utf8_len.simps)
  then show ?thesis using True by simp
qed

lemma runes_append_ascii:
  assumes "list_all (\<lambda>c. byte c < 0x80) y"
  shows "runes (x @ y) = runes x @ runes y"
proof (induction x rule: runes_induct)
  case (Bad c s)
  have "utf8_len (c # s @ y) = 0" using utf8_len_append_ascii [of "c # s" y] assms Bad(1) by simp
  then show ?case using Bad by (simp add: runes_Cons_bad)
next
  case (Good q s)
  then show ?case by (simp add: runes_good)
qed simp

lemma runes_take_index:
  "runes (take (rune_index k v) v) = take k (runes v)"
proof (induction v arbitrary: k rule: runes_induct)
  case (Bad c s)
  show ?case
  proof (cases k)
    case (Suc j)
    let ?t = "take (rune_index j s) s"
    have "utf8_len (c # ?t) = 0"
    proof (rule ccontr)
      assume "utf8_len (c # ?t) \<noteq> 0"
      then have "utf8_len ((c # ?t) @ drop (rune_index j s) s) \<noteq> 0" using utf8_len_append [of "c # ?t" "drop (rune_index j s) s"] by simp
      then show False using Bad(1) unfolding append_Cons append_take_drop_id by simp
    qed
    then show ?thesis using Suc Bad by (simp add: runes_Cons_bad)
  qed simp
next
  case (Good q s)
  then obtain c r where q: "q = c # r" by (cases q) auto
  have n: "utf8_len (c # r @ s) = length q" using utf8_len_append [of q s] Good q by simp
  show ?case
  proof (cases k)
    case (Suc j)
    have "take (rune_index k (q @ s)) (q @ s) = q @ take (rune_index j s) s" using Suc q n by simp
    then show ?thesis using Suc Good by (simp add: runes_good)
  qed simp
next
  case Nil
  then show ?case by (cases k) simp_all
qed

text \<open>A rejected version is capped without cutting a character: a value of at most 64 characters is
  kept, a longer one becomes its first 64 characters (an invalid byte counting as one) and three
  dots. So the result has at most 67 characters and is valid UTF-8 when the value was.\<close>

theorem truncate_declared:
  "runes (truncate_declared_version v) =
    (if length (runes v) \<le> 64 then runes v else take 64 (runes v) @ [Some ''.'', Some ''.'', Some ''.''])"
proof -
  have "runes ''...'' = [Some ''.'', Some ''.'', Some ''.'']" by code_simp
  then show ?thesis
    using runes_append_ascii [of "''...''" "take (rune_index 64 v) v"] runes_take_index [of 64 v]
    by (simp add: truncate_declared_version_def declared_version_max_chars_def)
qed

subsection \<open>Two limits of the retry\<close>

text \<open>A retry does not carry the delivery's headers. A message redriven with the replay marker
  whose handler fails comes back without it: the next delivery is not a replay, so its handler runs
  the external effects the marker was to suppress. (The transport does offer headers; the retry
  does not use them.)\<close>

theorem retry_loses_replay_marker:
  assumes "on_memory a" and "handler_input rt a m = Some (u, env)" and "msg_route_urn m = []"
    and "smap_get (app_handlers a) u = Some h" and "h (delivery_context m) env w = (Some e, w1)"
    and "is_replay (delivery_context m)" and "env_attempts (next_attempt env) < app_max_attempts a"
  shows "\<exists>x. queue_of (fst (dispatch rt a m w)) (msg_queue m) = queue_of (fst w1) (msg_queue m) @ [x]
    \<and> \<not> is_replay (delivery_context (received_of (msg_queue m) x))"
proof -
  have ok: "envelope_ok env" using handler_input_ok [OF assms(2,3)] by simp
  define x where "x = \<lparr>im_body = json_print (envelope_json (next_attempt env)), im_headers = []\<rparr>"
  have "dispatch rt a m w = pushed (msg_queue m) (im_body x) w1"
    using mem_retry [OF assms(1) encodable_ok [OF ok], of rt "delivery_context m" m e w1] assms(7)
    unfolding dispatch_failed [OF assms(2,4,5)] x_def by simp
  then have "queue_of (fst (dispatch rt a m w)) (msg_queue m) = queue_of (fst w1) (msg_queue m) @ [x]"
    by (simp add: x_def)
  moreover have "\<not> is_replay (delivery_context (received_of (msg_queue m) x))"
    by (simp add: x_def delivery_context_def received_of_def is_replay_def with_headers_def background_def Let_def)
  ultimately show ?thesis by blast
qed

definition replayed_delivery :: "bytes \<Rightarrow> received_message" where
  "replayed_delivery b = received_of ''q'' \<lparr>im_body = b, im_headers = [(header_replay_bypass, ''1'')]\<rparr>"

theorem retry_loses_replay_marker_witness:
  "\<exists>x. queue_of (fst (dispatch sample_runtime sample_app (replayed_delivery (bad_body 0)) (sample_world []))) ''q'' =
      queue_of (fst (sample_world [])) ''q'' @ [x]
    \<and> \<not> is_replay (delivery_context (received_of ''q'' x))"
proof -
  have f: "msg_body (replayed_delivery b) = msg_body (sample_delivery b)"
    "msg_route_urn (replayed_delivery b) = msg_route_urn (sample_delivery b)"
    "msg_poison (replayed_delivery b) = msg_poison (sample_delivery b)"
    "msg_delivery_count (replayed_delivery b) = msg_delivery_count (sample_delivery b)" for b
    by (simp_all add: replayed_delivery_def sample_delivery_def received_of_def)
  have "handler_input sample_runtime sample_app (replayed_delivery b) = handler_input sample_runtime sample_app (sample_delivery b)" for b
    unfolding handler_input_def f by (rule refl)
  then have i: "handler_input sample_runtime sample_app (replayed_delivery (bad_body 0)) =
      Some (''u:x'', zero_envelope\<lparr>env_job := ''u:x'', env_trace_id := ''bad'', env_attempts := 0\<rparr>)"
    using bad_input [of 0] by (simp add: int64_ok_def min_int64_def max_int64_def)
  have q: "msg_queue (replayed_delivery b) = ''q''" "msg_route_urn (replayed_delivery b) = []" for b
    by (simp_all add: replayed_delivery_def received_of_def)
  have "is_replay (delivery_context (replayed_delivery b))" for b
    by (simp add: replayed_delivery_def delivery_context_def received_of_def is_replay_def with_replay_def Let_def)
  then show ?thesis
    using retry_loses_replay_marker [OF sample_on_memory i, of sample_handler "sample_world []" sample_failure
      "(fst (sample_world []), 1)"]
    by (simp add: q sample_handler_def sample_world_def wrap64_def)
qed

text \<open>The attempts counter wraps. A body that carries the largest 64-bit counter is past every
  limit, but its counter after the failure is the smallest 64-bit integer: instead of being
  dead-lettered it is retried, and (the next delivery raises the counter to \<open>-1\<close>) gets a whole new
  series of attempts.\<close>

theorem attempts_wrap:
  assumes "on_memory a" and "handler_input rt a m = Some (u, env)" and "msg_route_urn m = []"
    and "smap_get (app_handlers a) u = Some h" and "h (delivery_context m) env w = (Some e, w1)"
    and "env_attempts env = max_int64" and "0 \<le> app_max_attempts a"
  shows "\<exists>b. dispatch rt a m w = pushed (msg_queue m) b w1
    \<and> env_attempts (fst (decode (rt_syntax rt) b)) = min_int64"
proof -
  have ok: "envelope_ok env" using handler_input_ok [OF assms(2,3)] by simp
  have n: "env_attempts (next_attempt env) = min_int64" using assms(6) wrap64_max by simp
  then have "env_attempts (next_attempt env) < app_max_attempts a" using assms(7) by (simp add: min_int64_def)
  then have "dispatch rt a m w = pushed (msg_queue m) (json_print (envelope_json (next_attempt env))) w1"
    using mem_retry [OF assms(1) encodable_ok [OF ok], of rt "delivery_context m" m e w1]
    unfolding dispatch_failed [OF assms(2,4,5)] by simp
  then show ?thesis using decode_attempts [OF next_attempt_ok [OF ok], of "rt_syntax rt"] n by auto
qed

theorem attempts_wrap_witness:
  "\<exists>b. dispatch sample_runtime sample_app (sample_delivery (bad_body max_int64)) (sample_world []) =
       pushed ''q'' b (fst (sample_world []), 1)
    \<and> env_attempts (fst (decode (\<lambda>_. []) b)) = min_int64"
proof -
  have "msg_queue (sample_delivery b) = ''q''" "msg_route_urn (sample_delivery b) = []" for b
    by (simp_all add: sample_delivery_def received_of_def)
  moreover have "rt_syntax sample_runtime = (\<lambda>_. [])" by (simp add: sample_runtime_def)
  ultimately show ?thesis
    using attempts_wrap [OF sample_on_memory bad_input [of max_int64], of sample_handler "sample_world []" sample_failure
      "(fst (sample_world []), 1)"]
    by (simp add: sample_handler_def sample_world_def int64_ok_def min_int64_def max_int64_def)
qed

end
