(* ===== verification/Redrive.thy ===== *)
theory Redrive
  imports AppLaws
begin

section \<open>Redriving a dead-letter queue\<close>

text \<open>
  \<open>redrive.go\<close>. A run first drains the dead-letter queue into a batch and then treats the messages
  one by one: written back (undecodable, not selected, dry run), or reset and published to the
  target and acknowledged. The drain may go on for ever with an unbounded \<open>Max\<close> and a queue that
  fills, so it is a partial function. Decode warnings are only logged and left out.
\<close>

record redrive_options =
  ro_to_queue :: bytes
  ro_max :: int
  ro_dry_run :: bool
  ro_select :: "(envelope \<Rightarrow> bool) option"
  ro_bypass :: bool
  ro_timeout :: int

record redrive_item =
  ri_message_id :: bytes
  ri_trace_id :: bytes
  ri_urn :: bytes
  ri_reason :: bytes
  ri_from :: bytes
  ri_to :: bytes
  ri_redriven :: bool
  ri_bypassed :: bool

record redrive_result =
  rr_redriven :: int
  rr_skipped :: int
  rr_items :: "redrive_item list"

record pending =
  pd_msg :: received_message
  pd_env :: envelope
  pd_decoded :: bool

definition zero_item :: redrive_item where
  "zero_item = \<lparr>ri_message_id = [], ri_trace_id = [], ri_urn = [], ri_reason = [], ri_from = [], ri_to = [],
     ri_redriven = False, ri_bypassed = False\<rparr>"

definition zero_result :: redrive_result where
  "zero_result = \<lparr>rr_redriven = 0, rr_skipped = 0, rr_items = []\<rparr>"

definition source_queue_of :: "envelope \<Rightarrow> bytes" where
  "source_queue_of env =
     (case env_dead_letter env of
        Some d \<Rightarrow> if dl_original_queue d \<noteq> [] then dl_original_queue d else meta_queue (env_meta env)
      | None \<Rightarrow> meta_queue (env_meta env))"

definition republish_from :: "'w transport \<Rightarrow> bytes \<Rightarrow> bytes \<Rightarrow> received_message \<Rightarrow> 'w effect" where
  "republish_from t queue body from' w =
     (case tr_publish_from t of
        Some f \<Rightarrow> f queue body from' w
      | None \<Rightarrow> publish_keeping_route t queue body (msg_route_urn from') w)"

text \<open>The reserved message is never nil here.\<close>

definition bypass_headers :: "bytes smap" where
  "bypass_headers = [(header_replay_bypass, ''1'')]"

definition publish_redriven ::
  "'w transport \<Rightarrow> bytes \<Rightarrow> bytes \<Rightarrow> bool \<Rightarrow> received_message \<Rightarrow> 'w \<Rightarrow> (bool \<times> go_error option) \<times> 'w" where
  "publish_redriven t queue body bypass from' w =
     (case (if bypass then tr_publish_from_with_headers t else None) of
        Some f \<Rightarrow> apfst (Pair True) (f queue body from' bypass_headers w)
      | None \<Rightarrow>
          (case (if bypass then tr_publish_with_headers t else None) of
             Some f \<Rightarrow> apfst (Pair True) (f queue body bypass_headers w)
           | None \<Rightarrow> apfst (Pair False) (republish_from t queue body from' w)))"

definition restore_to_dlq :: "'w transport \<Rightarrow> bytes \<Rightarrow> received_message \<Rightarrow> 'w effect" where
  "restore_to_dlq t dlq msg w =
     (case republish_from t dlq (msg_body msg) msg w of
        (Some err, w') \<Rightarrow>
          (case tr_rewind t of
             None \<Rightarrow> (Some err, w')
           | Some f \<Rightarrow>
               (case f msg w' of
                  (None, w2) \<Rightarrow> (Some err, w2)
                | (Some rerr, w2) \<Rightarrow> (Some (join_errors err rerr), w2)))
      | (None, w') \<Rightarrow> (None, snd (tr_ack t msg w')))"

definition abort_redrive ::
  "'w transport \<Rightarrow> bytes \<Rightarrow> received_message \<Rightarrow> go_error \<Rightarrow> 'w \<Rightarrow> go_error \<times> 'w" where
  "abort_redrive t dlq msg cause w =
     (case restore_to_dlq t dlq msg w of
        (Some rerr, w') \<Rightarrow> (join_errors cause rerr, w')
      | (None, w') \<Rightarrow>
          (case tr_rewind t of
             None \<Rightarrow> (cause, w')
           | Some f \<Rightarrow>
               (case f msg w' of
                  (None, w2) \<Rightarrow> (cause, w2)
                | (Some rerr, w2) \<Rightarrow> (join_errors cause rerr, w2))))"

partial_function (option) redrive_drain ::
  "(bytes \<Rightarrow> bytes) \<Rightarrow> 'w transport \<Rightarrow> bytes \<Rightarrow> int \<Rightarrow> int \<Rightarrow> pending list \<Rightarrow> 'w
   \<Rightarrow> ((go_error + pending list) \<times> 'w) option" where
  "redrive_drain stx t dlq timeout max' batch w =
     (if max' = 0 \<or> int (length batch) < max' then
        (case tr_pop t dlq timeout w of
           (Inl e, w') \<Rightarrow> Some (Inl e, w')
         | (Inr None, w') \<Rightarrow> Some (Inr batch, w')
         | (Inr (Some msg), w') \<Rightarrow>
             redrive_drain stx t dlq timeout max'
               (batch @ [case decode stx (msg_body msg) of
                           (env, derr) \<Rightarrow> \<lparr>pd_msg = msg, pd_env = env, pd_decoded = (derr = None)\<rparr>]) w')
      else Some (Inr batch, w))"

definition item_of :: "bytes \<Rightarrow> envelope \<Rightarrow> redrive_item" where
  "item_of dlq env =
     zero_item\<lparr>ri_message_id := meta_id (env_meta env), ri_trace_id := env_trace_id env, ri_urn := urn env,
       ri_from := dlq, ri_reason := (case env_dead_letter env of None \<Rightarrow> [] | Some d \<Rightarrow> dl_reason d)\<rparr>"

definition skip_message ::
  "'w transport \<Rightarrow> bytes \<Rightarrow> received_message \<Rightarrow> redrive_item \<Rightarrow> 'w \<Rightarrow> (go_error + redrive_item) \<times> 'w" where
  "skip_message t dlq msg item w =
     (case restore_to_dlq t dlq msg w of (Some e, w') \<Rightarrow> (Inl e, w') | (None, w') \<Rightarrow> (Inr item, w'))"

text \<open>One message of the batch: the error that ends the run, or its item.\<close>

definition redrive_message ::
  "(bytes \<Rightarrow> bytes) \<Rightarrow> 'w transport \<Rightarrow> bytes \<Rightarrow> redrive_options \<Rightarrow> pending \<Rightarrow> 'w
   \<Rightarrow> (go_error + redrive_item) \<times> 'w" where
  "redrive_message stx t dlq opts p w =
     (if \<not> pd_decoded p then skip_message t dlq (pd_msg p) (zero_item\<lparr>ri_from := dlq\<rparr>) w
      else
        let item = item_of dlq (pd_env p) in
        if (case ro_select opts of None \<Rightarrow> False | Some f \<Rightarrow> \<not> f (pd_env p)) then
          skip_message t dlq (pd_msg p) item w
        else
          let target = (if ro_to_queue opts = [] then source_queue_of (pd_env p) else ro_to_queue opts);
              item = item\<lparr>ri_to := target\<rparr>
          in if ro_dry_run opts then skip_message t dlq (pd_msg p) item w
             else
               (case encode stx ((pd_env p)\<lparr>env_dead_letter := None, env_attempts := 0\<rparr>) of
                  Inl e \<Rightarrow> apfst Inl (abort_redrive t dlq (pd_msg p) e w)
                | Inr body \<Rightarrow>
                    (case publish_redriven t target body (ro_bypass opts) (pd_msg p) w of
                       ((bypassed, Some e), w') \<Rightarrow> apfst Inl (abort_redrive t dlq (pd_msg p) e w')
                     | ((bypassed, None), w') \<Rightarrow>
                         (Inr (item\<lparr>ri_redriven := True, ri_bypassed := bypassed\<rparr>), snd (tr_ack t (pd_msg p) w')))))"

definition add_item :: "redrive_item \<Rightarrow> redrive_result \<Rightarrow> redrive_result" where
  "add_item item res =
     (if ri_redriven item then res\<lparr>rr_redriven := rr_redriven res + 1, rr_items := rr_items res @ [item]\<rparr>
      else res\<lparr>rr_skipped := rr_skipped res + 1, rr_items := rr_items res @ [item]\<rparr>)"

fun redrive_batch ::
  "(bytes \<Rightarrow> bytes) \<Rightarrow> 'w transport \<Rightarrow> bytes \<Rightarrow> redrive_options \<Rightarrow> pending list \<Rightarrow> redrive_result \<Rightarrow> 'w
   \<Rightarrow> (redrive_result \<times> go_error option) \<times> 'w" where
  "redrive_batch stx t dlq opts [] res w = ((res, None), w)"
| "redrive_batch stx t dlq opts (p # ps) res w =
     (case redrive_message stx t dlq opts p w of
        (Inl e, w') \<Rightarrow> ((res, Some e), w')
      | (Inr item, w') \<Rightarrow> redrive_batch stx t dlq opts ps (add_item item res) w')"

definition redrive ::
  "(bytes \<Rightarrow> bytes) \<Rightarrow> 'w transport \<Rightarrow> bytes \<Rightarrow> redrive_options \<Rightarrow> 'w
   \<Rightarrow> ((redrive_result \<times> go_error option) \<times> 'w) option" where
  "redrive stx t dlq opts w =
     (case redrive_drain stx t dlq (if ro_timeout opts \<le> 0 then seconds 1 else ro_timeout opts) (ro_max opts) [] w of
        None \<Rightarrow> None
      | Some (Inl e, w') \<Rightarrow> Some ((zero_result, Some e), w')
      | Some (Inr batch, w') \<Rightarrow> Some (redrive_batch stx t dlq opts batch zero_result w'))"

subsection \<open>An acknowledgement follows a write\<close>

text \<open>In a trace where no message is dropped every acknowledgement comes right after a write that
  succeeded.\<close>

fun acks_covered :: "bool \<Rightarrow> event list \<Rightarrow> bool" where
  "acks_covered written [] = True"
| "acks_covered written (Acked r # es) = (written \<and> acks_covered False es)"
| "acks_covered written (Published q b r # es) = acks_covered (r = None) es"
| "acks_covered written (e # es) = acks_covered False es"

lemma acks_covered_mono: "acks_covered False es \<Longrightarrow> acks_covered b es"
proof (cases es)
  case (Cons e es')
  then show "acks_covered False es \<Longrightarrow> acks_covered b es" by (cases e) auto
qed simp

lemma acks_covered_append: "acks_covered b es \<Longrightarrow> acks_covered False es' \<Longrightarrow> acks_covered b (es @ es')"
  by (induction b es rule: acks_covered.induct) (auto simp: acks_covered_mono)

text \<open>What a recorded operation returns and adds.\<close>

definition covers :: "('w \<times> event list \<Rightarrow> 'r \<times> 'w \<times> event list) \<Rightarrow> ('w \<Rightarrow> 'r \<times> 'w) \<Rightarrow> bool" where
  "covers f' f \<longleftrightarrow> (\<forall>w es. \<exists>es'. f' (w, es) = (fst (f w), (snd (f w), es @ es')) \<and> acks_covered False es')"

lemma republish_from_rec:
  "republish_from (rec_transport t) q b m (w, es) =
     (fst (republish_from t q b m w), (snd (republish_from t q b m w), es @ [Published q b (fst (republish_from t q b m w))]))"
  by (simp add: republish_from_def publish_keeping_route_def rec_transport_def rec_effect_def split: option.split prod.split)

lemma publish_redriven_rec:
  "publish_redriven (rec_transport t) q b bypass m (w, es) =
     (fst (publish_redriven t q b bypass m w), (snd (publish_redriven t q b bypass m w),
       es @ [Published q b (snd (fst (publish_redriven t q b bypass m w)))]))"
proof -
  have ops: "tr_publish_with_headers (rec_transport t) =
      map_option (\<lambda>f q b h. rec_effect (Published q b) (f q b h)) (tr_publish_with_headers t)"
    "tr_publish_from_with_headers (rec_transport t) =
      map_option (\<lambda>f q b m h. rec_effect (Published q b) (f q b m h)) (tr_publish_from_with_headers t)"
    by (simp_all add: rec_transport_def)
  show ?thesis
    by (cases bypass; cases "tr_publish_from_with_headers t"; cases "tr_publish_with_headers t")
       (simp_all add: publish_redriven_def ops republish_from_rec rec_effect_def apfst_def map_prod_def split: prod.split)
qed

lemma ack_event: "tr_ack (rec_transport t) m (w, es) = (fst (tr_ack t m w), (snd (tr_ack t m w), es @ [Acked (fst (tr_ack t m w))]))"
  by (simp add: rec_transport_def rec_effect_def split: prod.split)

lemma rewind_event:
  "tr_rewind (rec_transport t) = map_option (\<lambda>f m. rec_effect Rewound (f m)) (tr_rewind t)"
  by (simp add: rec_transport_def)

lemma covers_restore: "covers (restore_to_dlq (rec_transport t) dlq m) (restore_to_dlq t dlq m)"
  unfolding covers_def
proof (intro allI)
  fix w es
  obtain r w' where r: "republish_from t dlq (msg_body m) m w = (r, w')" by fastforce
  note R = republish_from_rec [of t dlq "msg_body m" m w es, unfolded r fst_conv snd_conv]
  show "\<exists>es'. restore_to_dlq (rec_transport t) dlq m (w, es) =
      (fst (restore_to_dlq t dlq m w), (snd (restore_to_dlq t dlq m w), es @ es')) \<and> acks_covered False es'"
  proof (cases r)
    case None
    then show ?thesis using r R
      by (intro exI [of _ "[Published dlq (msg_body m) None, Acked (fst (tr_ack t m w'))]"])
        (simp add: restore_to_dlq_def ack_event)
  next
    case (Some e)
    show ?thesis
    proof (cases "tr_rewind t")
      case None
      then show ?thesis using r R Some
        by (intro exI [of _ "[Published dlq (msg_body m) r]"]) (simp add: restore_to_dlq_def rewind_event)
    next
      case f: (Some f)
      obtain x w2 where "f m w' = (x, w2)" by fastforce
      then show ?thesis using r R \<open>r = Some e\<close> f
        by (intro exI [of _ "[Published dlq (msg_body m) r, Rewound x]"])
          (cases x; simp add: restore_to_dlq_def rewind_event rec_effect_def)
    qed
  qed
qed

lemma coversE:
  assumes "covers f' f" and "f w = (r, w')"
  obtains es' where "f' (w, es) = (r, (w', es @ es'))" "acks_covered False es'"
  using assms unfolding covers_def by (metis fst_conv snd_conv)

lemma coversI:
  assumes "\<And>w es. \<exists>es'. f' (w, es) = (fst (f w), (snd (f w), es @ es')) \<and> acks_covered False es'"
  shows "covers f' f"
  using assms by (simp add: covers_def)

lemma covers_abort: "covers (abort_redrive (rec_transport t) dlq m cause) (abort_redrive t dlq m cause)"
proof (rule coversI)
  fix w es
  obtain r w' where r: "restore_to_dlq t dlq m w = (r, w')" by fastforce
  obtain es1 where 1: "restore_to_dlq (rec_transport t) dlq m (w, es) = (r, (w', es @ es1))" "acks_covered False es1"
    by (rule coversE [OF covers_restore r])
  show "\<exists>es'. abort_redrive (rec_transport t) dlq m cause (w, es) =
      (fst (abort_redrive t dlq m cause w), (snd (abort_redrive t dlq m cause w), es @ es')) \<and> acks_covered False es'"
  proof (cases "r = None \<and> tr_rewind t \<noteq> None")
    case True
    then obtain f where f: "tr_rewind t = Some f" by auto
    obtain x w2 where "f m w' = (x, w2)" by fastforce
    then show ?thesis using r 1 True f acks_covered_append [OF 1(2), of "[Rewound x]"]
      by (intro exI [of _ "es1 @ [Rewound x]"]) (cases x; simp add: abort_redrive_def rewind_event rec_effect_def)
  next
    case False
    then show ?thesis using r 1 by (intro exI [of _ es1]) (cases r; simp add: abort_redrive_def rewind_event)
  qed
qed

lemma covers_skip: "covers (skip_message (rec_transport t) dlq m item) (skip_message t dlq m item)"
proof (rule coversI)
  fix w es
  obtain r w' where r: "restore_to_dlq t dlq m w = (r, w')" by fastforce
  obtain es1 where "restore_to_dlq (rec_transport t) dlq m (w, es) = (r, (w', es @ es1))" "acks_covered False es1"
    by (rule coversE [OF covers_restore r])
  then show "\<exists>es'. skip_message (rec_transport t) dlq m item (w, es) =
      (fst (skip_message t dlq m item w), (snd (skip_message t dlq m item w), es @ es')) \<and> acks_covered False es'"
    using r by (intro exI [of _ es1]) (cases r; simp add: skip_message_def)
qed

lemma covers_message: "covers (redrive_message stx (rec_transport t) dlq opts p) (redrive_message stx t dlq opts p)"
proof (rule coversI)
  fix w :: 'a and es
  let ?goal = "\<lambda>f' f. \<exists>es'. f' (w, es) = (fst (f w), (snd (f w), es @ es')) \<and> acks_covered False es'"
  have skip: "?goal (skip_message (rec_transport t) dlq (pd_msg p) i) (skip_message t dlq (pd_msg p) i)" for i
    using covers_skip [of t dlq "pd_msg p" i] unfolding covers_def by blast
  define env where "env = (pd_env p)\<lparr>env_dead_letter := None, env_attempts := 0\<rparr>"
  define target where "target = (if ro_to_queue opts = [] then source_queue_of (pd_env p) else ro_to_queue opts)"
  consider "\<not> pd_decoded p" | "pd_decoded p" "case ro_select opts of None \<Rightarrow> False | Some f \<Rightarrow> \<not> f (pd_env p)"
    | "pd_decoded p" "\<not> (case ro_select opts of None \<Rightarrow> False | Some f \<Rightarrow> \<not> f (pd_env p))" "ro_dry_run opts"
    | "pd_decoded p" "\<not> (case ro_select opts of None \<Rightarrow> False | Some f \<Rightarrow> \<not> f (pd_env p))" "\<not> ro_dry_run opts" by blast
  then show "?goal (redrive_message stx (rec_transport t) dlq opts p) (redrive_message stx t dlq opts p)"
  proof cases
    case 4
    show ?thesis
    proof (cases "encode stx env")
      case (Inl e)
      obtain r w' where r: "abort_redrive t dlq (pd_msg p) e w = (r, w')" by fastforce
      obtain es1 where "abort_redrive (rec_transport t) dlq (pd_msg p) e (w, es) = (r, (w', es @ es1))" "acks_covered False es1"
        by (rule coversE [OF covers_abort r])
      then show ?thesis using 4 Inl r by (auto simp: redrive_message_def Let_def env_def [symmetric])
    next
      case (Inr body)
      obtain b r w1 where pub: "publish_redriven t target body (ro_bypass opts) (pd_msg p) w = ((b, r), w1)"
        by (metis prod.exhaust)
      note P = publish_redriven_rec [of t target body "ro_bypass opts" "pd_msg p" w es, unfolded pub fst_conv snd_conv]
      show ?thesis
      proof (cases r)
        case None
        then show ?thesis using 4 Inr pub P
          by (intro exI [of _ "[Published target body None, Acked (fst (tr_ack t (pd_msg p) w1))]"])
            (simp add: redrive_message_def Let_def env_def [symmetric] target_def [symmetric] ack_event)
      next
        case (Some e)
        obtain x w' where x: "abort_redrive t dlq (pd_msg p) e w1 = (x, w')" by fastforce
        obtain es1 where "abort_redrive (rec_transport t) dlq (pd_msg p) e (w1, es @ [Published target body r])
            = (x, (w', (es @ [Published target body r]) @ es1))" "acks_covered False es1"
          by (rule coversE [OF covers_abort x])
        then show ?thesis using 4 Inr pub P x Some
          by (intro exI [of _ "Published target body r # es1"])
            (simp add: redrive_message_def Let_def env_def [symmetric] target_def [symmetric])
      qed
    qed
  qed (use skip in \<open>auto simp: redrive_message_def Let_def\<close>)
qed

lemma covers_batch: "covers (redrive_batch stx (rec_transport t) dlq opts ps res) (redrive_batch stx t dlq opts ps res)"
proof (induction ps arbitrary: res)
  case (Cons p ps)
  show ?case
  proof (rule coversI)
    fix w es
    obtain r w' where r: "redrive_message stx t dlq opts p w = (r, w')" by fastforce
    obtain es1 where 1: "redrive_message stx (rec_transport t) dlq opts p (w, es) = (r, (w', es @ es1))" "acks_covered False es1"
      by (rule coversE [OF covers_message r])
    show "\<exists>es'. redrive_batch stx (rec_transport t) dlq opts (p # ps) res (w, es) =
        (fst (redrive_batch stx t dlq opts (p # ps) res w), (snd (redrive_batch stx t dlq opts (p # ps) res w), es @ es'))
        \<and> acks_covered False es'"
    proof (cases r)
      case (Inr item)
      obtain x w2 where x: "redrive_batch stx t dlq opts ps (add_item item res) w' = (x, w2)" by fastforce
      obtain es2 where "redrive_batch stx (rec_transport t) dlq opts ps (add_item item res) (w', es @ es1) = (x, (w2, (es @ es1) @ es2))"
        "acks_covered False es2"
        by (rule coversE [OF Cons.IH x])
      then show ?thesis using r 1 Inr x acks_covered_append [OF 1(2)]
        by (intro exI [of _ "es1 @ es2"]) simp
    qed (use r 1 in auto)
  qed
qed (simp add: covers_def)


subsection \<open>A run on the in-memory transport\<close>

text \<open>Where each message of the queue ends up, and as what.\<close>

definition redriven_env :: "envelope \<Rightarrow> envelope" where
  "redriven_env env = env\<lparr>env_dead_letter := None, env_attempts := 0\<rparr>"

definition redrive_copy ::
  "(bytes \<Rightarrow> bytes) \<Rightarrow> bytes \<Rightarrow> redrive_options \<Rightarrow> in_memory_message \<Rightarrow> bool \<times> bytes \<times> in_memory_message" where
  "redrive_copy stx dlq opts m =
     (case decode stx (im_body m) of
        (env, err) \<Rightarrow>
          if err \<noteq> None \<or> (case ro_select opts of None \<Rightarrow> False | Some f \<Rightarrow> \<not> f env) \<or> ro_dry_run opts
          then (False, dlq, \<lparr>im_body = im_body m, im_headers = []\<rparr>)
          else (True, if ro_to_queue opts = [] then source_queue_of env else ro_to_queue opts,
                \<lparr>im_body = json_print (envelope_json (redriven_env env)),
                 im_headers = (if ro_bypass opts then bypass_headers else [])\<rparr>))"

definition pending_of :: "(bytes \<Rightarrow> bytes) \<Rightarrow> bytes \<Rightarrow> in_memory_message \<Rightarrow> pending" where
  "pending_of stx dlq m =
     (case decode stx (im_body m) of (env, err) \<Rightarrow> \<lparr>pd_msg = received_of dlq m, pd_env = env, pd_decoded = (err = None)\<rparr>)"

lemma mem_restore: "restore_to_dlq in_memory_transport dlq m w = (None, pushed dlq (msg_body m) w)"
  by (simp add: restore_to_dlq_def republish_from_def publish_keeping_route_def im_publish_def im_ack_def pushed_def)

lemma mem_drain:
  "\<exists>w'. redrive_drain stx in_memory_transport dlq n 0 batch w =
      Some (Inr (batch @ map (pending_of stx dlq) (queue_of (fst w) dlq)), w')
    \<and> queue_of (fst w') = (queue_of (fst w))(dlq := []) \<and> snd w' = snd w"
proof (induction "queue_of (fst w) dlq" arbitrary: w batch)
  case Nil
  then show ?case by (subst redrive_drain.simps) (simp add: im_pop_def Nil [symmetric] fun_eq_iff)
next
  case (Cons m ms)
  define w1 where "w1 = (smap_put dlq ms (fst w), snd w)"
  have q: "queue_of (fst w1) dlq = ms" "queue_of (fst w1) = (queue_of (fst w))(dlq := ms)"
    by (simp_all add: w1_def queue_of_put)
  have "redrive_drain stx in_memory_transport dlq n 0 batch w =
      redrive_drain stx in_memory_transport dlq n 0 (batch @ [pending_of stx dlq m]) w1"
    by (subst redrive_drain.simps)
       (simp add: im_pop_def Cons(2) [symmetric] w1_def pending_of_def received_of_def split: prod.split)
  then show ?case using Cons(1) [of w1 "batch @ [pending_of stx dlq m]"] q Cons(2) [symmetric]
    by (simp add: w1_def)
qed

lemma mem_message:
  "\<exists>item w'. redrive_message stx in_memory_transport dlq opts (pending_of stx dlq m) w = (Inr item, w')
    \<and> (case redrive_copy stx dlq opts m of (moved, q, c) \<Rightarrow> ri_redriven item = moved
        \<and> queue_of (fst w') = (queue_of (fst w))(q := queue_of (fst w) q @ [c]) \<and> snd w' = snd w)"
proof -
  obtain env err where d: "decode stx (im_body m) = (env, err)" by fastforce
  have e: "encode stx (env\<lparr>env_dead_letter := None, env_attempts := 0\<rparr>) = Inr (json_print (envelope_json (redriven_env env)))"
    using encodable_decoded [of stx "im_body m"] d by (simp add: redriven_env_def encodable_encode)
  have f: "pd_decoded (pending_of stx dlq m) = (err = None)" "pd_env (pending_of stx dlq m) = env"
    "pd_msg (pending_of stx dlq m) = received_of dlq m" "msg_body (received_of dlq m) = im_body m"
    by (simp_all add: pending_of_def d received_of_def)
  have s: "skip_message in_memory_transport dlq (received_of dlq m) i w = (Inr i, pushed dlq (im_body m) w)" for i
    by (simp add: skip_message_def mem_restore f)
  have z: "\<not> ri_redriven (zero_item\<lparr>ri_from := dlq\<rparr>)" "\<not> ri_redriven (item_of dlq env)"
    "\<not> ri_redriven (item_of dlq env\<lparr>ri_to := q\<rparr>)" for q
    by (simp_all add: zero_item_def item_of_def)
  have p: "queue_of (fst (pushed q b w)) = (queue_of (fst w))(q := queue_of (fst w) q @ [\<lparr>im_body = b, im_headers = []\<rparr>])"
    "snd (pushed q b w) = snd w" for q b
    by (simp_all add: fun_eq_iff) (simp add: pushed_def im_publish_def)
  consider "err \<noteq> None" | "err = None" "case ro_select opts of None \<Rightarrow> False | Some f \<Rightarrow> \<not> f env"
    | "err = None" "\<not> (case ro_select opts of None \<Rightarrow> False | Some f \<Rightarrow> \<not> f env)" "ro_dry_run opts"
    | "err = None" "\<not> (case ro_select opts of None \<Rightarrow> False | Some f \<Rightarrow> \<not> f env)" "\<not> ro_dry_run opts" by blast
  then show ?thesis
  proof cases
    case 4
    then show ?thesis unfolding redrive_message_def redrive_copy_def f d e prod.case Let_def
      by (cases "ro_bypass opts")
        (simp_all add: publish_redriven_def republish_from_def publish_keeping_route_def im_publish_def
          im_publish_with_headers_def im_ack_def queue_of_put received_of_def)
  qed (unfold redrive_message_def redrive_copy_def f d prod.case Let_def, simp_all add: s z p)
qed

definition placed :: "bytes \<Rightarrow> (bool \<times> bytes \<times> in_memory_message) list \<Rightarrow> in_memory_message list" where
  "placed q copies = concat (map (\<lambda>(moved, q', c). if q' = q then [c] else []) copies)"

lemma mem_batch:
  "\<exists>res' w'. redrive_batch stx in_memory_transport dlq opts (map (pending_of stx dlq) ms) res w = ((res', None), w')
    \<and> snd w' = snd w
    \<and> rr_redriven res' = rr_redriven res + int (length (filter fst (map (redrive_copy stx dlq opts) ms)))
    \<and> rr_redriven res' + rr_skipped res' = rr_redriven res + rr_skipped res + int (length ms)
    \<and> (\<forall>q. queue_of (fst w') q = queue_of (fst w) q @ placed q (map (redrive_copy stx dlq opts) ms))"
proof (induction ms arbitrary: res w)
  case (Cons m ms)
  obtain moved q0 c where cp: "redrive_copy stx dlq opts m = (moved, q0, c)" by (metis prod.exhaust)
  obtain item w1 where 1: "redrive_message stx in_memory_transport dlq opts (pending_of stx dlq m) w = (Inr item, w1)"
    "ri_redriven item = moved" "queue_of (fst w1) = (queue_of (fst w))(q0 := queue_of (fst w) q0 @ [c])" "snd w1 = snd w"
    using mem_message [of stx dlq opts m w] cp by auto
  obtain res' w' where "redrive_batch stx in_memory_transport dlq opts (map (pending_of stx dlq) ms) (add_item item res) w1 = ((res', None), w')"
    "snd w' = snd w1"
    "rr_redriven res' = rr_redriven (add_item item res) + int (length (filter fst (map (redrive_copy stx dlq opts) ms)))"
    "rr_redriven res' + rr_skipped res' = rr_redriven (add_item item res) + rr_skipped (add_item item res) + int (length ms)"
    "\<forall>q. queue_of (fst w') q = queue_of (fst w1) q @ placed q (map (redrive_copy stx dlq opts) ms)"
    using Cons.IH [of "add_item item res" w1] by blast
  then show ?case using 1 cp by (intro exI [of _ res'] exI [of _ w']) (simp add: add_item_def placed_def)
qed (simp add: placed_def)

text \<open>C12. What a redrive of the whole in-memory dead-letter queue does, exactly. It returns without an
  error; every message of the queue ends up once, in order, where \<open>redrive_copy\<close> says: an undecodable,
  unselected or dry-run message back in the dead-letter queue with its body unchanged, any other in
  \<open>ToQueue\<close> or its own source queue, reset; no other message moves, and the counts are right.\<close>

theorem redrive_effect:
  assumes "ro_max opts = 0"
  shows "\<exists>res w'. redrive stx in_memory_transport dlq opts w = Some ((res, None), w') \<and> snd w' = snd w
    \<and> rr_redriven res = int (length (filter fst (map (redrive_copy stx dlq opts) (queue_of (fst w) dlq))))
    \<and> rr_redriven res + rr_skipped res = int (length (queue_of (fst w) dlq))
    \<and> (\<forall>q. queue_of (fst w') q = (if q = dlq then [] else queue_of (fst w) q)
          @ placed q (map (redrive_copy stx dlq opts) (queue_of (fst w) dlq)))"
proof -
  obtain w1 where 1: "redrive_drain stx in_memory_transport dlq (if ro_timeout opts \<le> 0 then seconds 1 else ro_timeout opts) 0 [] w =
      Some (Inr (map (pending_of stx dlq) (queue_of (fst w) dlq)), w1)"
    "queue_of (fst w1) = (queue_of (fst w))(dlq := [])" "snd w1 = snd w"
    using mem_drain [of stx dlq "if ro_timeout opts \<le> 0 then seconds 1 else ro_timeout opts" "[]" w] by auto
  then show ?thesis using mem_batch [of stx dlq opts "queue_of (fst w) dlq" zero_result w1] assms
    by (auto simp: redrive_def zero_result_def)
qed

definition sample_redrive :: redrive_options where
  "sample_redrive = \<lparr>ro_to_queue = [], ro_max = 0, ro_dry_run = False, ro_select = None, ro_bypass = True, ro_timeout = 0\<rparr>"

theorem redrive_effect_witness:
  "\<exists>res w'. redrive (\<lambda>_. []) in_memory_transport ''q'' sample_redrive (sample_world ''{'') = Some ((res, None), w')
    \<and> rr_redriven res = 0 \<and> rr_redriven res + rr_skipped res = 1
    \<and> queue_of (fst w') ''q'' = [\<lparr>im_body = ''{'', im_headers = []\<rparr>]"
proof -
  have "redrive_copy (\<lambda>_. []) ''q'' sample_redrive \<lparr>im_body = ''{'', im_headers = []\<rparr> =
      (False, ''q'', \<lparr>im_body = ''{'', im_headers = []\<rparr>)" by code_simp
  moreover have "queue_of (fst (sample_world ''{'')) ''q'' = [\<lparr>im_body = ''{'', im_headers = []\<rparr>]"
    by (simp add: sample_world_def queue_of_def)
  ultimately show ?thesis
    using redrive_effect [of sample_redrive "\<lambda>_. []" "''q''" "sample_world ''{''"]
    by (auto simp: sample_redrive_def placed_def)
qed



end
