(* ===== verification/Outbox.thy ===== *)
theory Outbox
  imports AppTrace
begin

section \<open>The transactional outbox\<close>

text \<open>
  \<open>outbox/outbox.go\<close> and \<open>outbox/relay.go\<close>. A store is a record of operations over its own state
  \<open>'s\<close> (the caller's database); the in-memory store of the package is modelled in full. The relay
  works on a pair of the store's state and the world \<open>'b\<close> of the transport. The mutex of the
  in-memory store makes each operation atomic, so an operation is one function.
\<close>

record outbox_record =
  or_id :: bytes
  or_body :: bytes
  or_queue :: bytes
  or_attempts :: int

record 's store =
  st_save :: "bytes \<Rightarrow> bytes \<Rightarrow> 's \<Rightarrow> (go_error + bytes) \<times> 's"
  st_fetch :: "int \<Rightarrow> 's \<Rightarrow> (go_error + outbox_record list) \<times> 's"
  st_mark_published :: "bytes list \<Rightarrow> 's effect"
  st_mark_failed :: "bytes \<Rightarrow> bytes \<Rightarrow> 's effect"

definition outbox_queue_of :: "envelope \<Rightarrow> bytes" where
  "outbox_queue_of env = (if meta_queue (env_meta env) \<noteq> [] then meta_queue (env_meta env) else ''default'')"

definition outbox_write ::
  "(bytes \<Rightarrow> bytes) \<Rightarrow> 's store \<Rightarrow> envelope \<Rightarrow> 's \<Rightarrow> (go_error + bytes) \<times> 's" where
  "outbox_write stx st env s =
     (case encode stx env of
        Inl e \<Rightarrow> (Inl e, s)
      | Inr body \<Rightarrow> st_save st body (outbox_queue_of env) s)"

subsection \<open>The in-memory store\<close>

record mem_row =
  row_id :: bytes
  row_body :: bytes
  row_queue :: bytes
  row_attempts :: int
  row_published :: bool
  row_last_error :: bytes

record mem_store =
  mo_rows :: "mem_row list"
  mo_sequence :: int

definition new_mem_store :: mem_store where
  "new_mem_store = \<lparr>mo_rows = [], mo_sequence = 0\<rparr>"

definition row_name :: "int \<Rightarrow> bytes" where
  "row_name n = ''ob-'' @ int_text n"

definition mo_save :: "bytes \<Rightarrow> bytes \<Rightarrow> mem_store \<Rightarrow> (go_error + bytes) \<times> mem_store" where
  "mo_save encoded queue s =
     (let n = wrap64 (mo_sequence s + 1) in
      (Inr (row_name n),
       s\<lparr>mo_sequence := n,
         mo_rows := mo_rows s @ [\<lparr>row_id = row_name n, row_body = encoded, row_queue = queue, row_attempts = 0,
                                  row_published = False, row_last_error = []\<rparr>]\<rparr>))"

definition record_of :: "mem_row \<Rightarrow> outbox_record" where
  "record_of r = \<lparr>or_id = row_id r, or_body = row_body r, or_queue = row_queue r, or_attempts = row_attempts r\<rparr>"

fun fetch_rows :: "int \<Rightarrow> mem_row list \<Rightarrow> outbox_record list \<Rightarrow> outbox_record list" where
  "fetch_rows limit [] out = out"
| "fetch_rows limit (r # rs) out =
     (if row_published r then fetch_rows limit rs out
      else let out' = out @ [record_of r] in
           if limit \<le> int (length out') then out' else fetch_rows limit rs out')"

definition mo_fetch :: "int \<Rightarrow> mem_store \<Rightarrow> (go_error + outbox_record list) \<times> mem_store" where
  "mo_fetch limit s = (Inr (if limit \<le> 0 then [] else fetch_rows limit (mo_rows s) []), s)"

text \<open>\<open>find\<close> gives a pointer to the first row with the id; writing through it updates that row.\<close>

definition mo_find :: "bytes \<Rightarrow> mem_store \<Rightarrow> mem_row option" where
  "mo_find i s = find (\<lambda>r. row_id r = i) (mo_rows s)"

fun update_row :: "bytes \<Rightarrow> (mem_row \<Rightarrow> mem_row) \<Rightarrow> mem_row list \<Rightarrow> mem_row list" where
  "update_row i f [] = []"
| "update_row i f (r # rs) = (if row_id r = i then f r # rs else r # update_row i f rs)"

definition mo_mark_published :: "bytes list \<Rightarrow> mem_store effect" where
  "mo_mark_published ids s =
     (None, s\<lparr>mo_rows := fold (\<lambda>i. update_row i (\<lambda>r. r\<lparr>row_published := True\<rparr>)) ids (mo_rows s)\<rparr>)"

definition mo_mark_failed :: "bytes \<Rightarrow> bytes \<Rightarrow> mem_store effect" where
  "mo_mark_failed i reason s =
     (None, s\<lparr>mo_rows := update_row i
        (\<lambda>r. r\<lparr>row_attempts := wrap64 (row_attempts r + 1), row_last_error := reason\<rparr>) (mo_rows s)\<rparr>)"

definition mo_pending_count :: "mem_store \<Rightarrow> nat" where
  "mo_pending_count s = length (filter (\<lambda>r. \<not> row_published r) (mo_rows s))"

definition mo_attempts_of :: "bytes \<Rightarrow> mem_store \<Rightarrow> int" where
  "mo_attempts_of i s = (case mo_find i s of None \<Rightarrow> 0 | Some r \<Rightarrow> row_attempts r)"

definition mo_last_error_of :: "bytes \<Rightarrow> mem_store \<Rightarrow> bytes" where
  "mo_last_error_of i s = (case mo_find i s of None \<Rightarrow> [] | Some r \<Rightarrow> row_last_error r)"

definition mem_outbox :: "mem_store store" where
  "mem_outbox = \<lparr>st_save = mo_save, st_fetch = mo_fetch, st_mark_published = mo_mark_published,
     st_mark_failed = mo_mark_failed\<rparr>"

subsection \<open>The relay\<close>

record ('s, 'b) relay =
  rl_transport :: "'b transport"
  rl_store :: "'s store"
  rl_batch_size :: int
  rl_backoff_step :: int
  rl_backoff_cap :: int
  rl_sleep :: "int \<Rightarrow> 'b \<Rightarrow> 'b"

record 'b relay_options =
  ro_batch_size :: int
  ro_backoff_step :: int
  ro_backoff_cap :: int
  ro_sleeper :: "(int \<Rightarrow> 'b \<Rightarrow> 'b) option"

text \<open>The default sleeper waits; nothing else changes.\<close>

definition new_relay :: "'b transport \<Rightarrow> 's store \<Rightarrow> 'b relay_options \<Rightarrow> ('s, 'b) relay" where
  "new_relay t st opts =
     \<lparr>rl_transport = t, rl_store = st,
      rl_batch_size = (if ro_batch_size opts \<le> 0 then 100 else ro_batch_size opts),
      rl_backoff_step = (if ro_backoff_step opts \<le> 0 then 50000000 else ro_backoff_step opts),
      rl_backoff_cap = (if ro_backoff_cap opts \<le> 0 then 5000000000 else ro_backoff_cap opts),
      rl_sleep = (case ro_sleeper opts of None \<Rightarrow> (\<lambda>d b. b) | Some f \<Rightarrow> f)\<rparr>"

definition backoff_for :: "('s, 'b) relay \<Rightarrow> int \<Rightarrow> int" where
  "backoff_for r prior_attempts =
     (let steps = wrap64 (prior_attempts + 1);
          steps = (if steps < 1 then 1 else steps);
          delay = wrap64 (rl_backoff_step r * steps)
      in if delay > rl_backoff_cap r then rl_backoff_cap r else delay)"

record relay_result =
  res_published :: int
  res_failed :: int

definition attempted :: "relay_result \<Rightarrow> int" where
  "attempted r = res_published r + res_failed r"

definition zero_relay_result :: relay_result where
  "zero_relay_result = \<lparr>res_published = 0, res_failed = 0\<rparr>"

fun flush_rows ::
  "('s, 'b) relay \<Rightarrow> outbox_record list \<Rightarrow> bytes list \<Rightarrow> int \<Rightarrow> 's \<times> 'b
   \<Rightarrow> (go_error + bytes list \<times> int) \<times> 's \<times> 'b" where
  "flush_rows r [] published failed w = (Inr (published, failed), w)"
| "flush_rows r (rec # recs) published failed w =
     (case tr_publish (rl_transport r) (or_queue rec) (or_body rec) (snd w) of
        (Some e, b) \<Rightarrow>
          (case st_mark_failed (rl_store r) (or_id rec) (err_text e) (fst w) of
             (Some me, s) \<Rightarrow> (Inl me, (s, b))
           | (None, s) \<Rightarrow>
               flush_rows r recs published (failed + 1) (s, rl_sleep r (backoff_for r (or_attempts rec)) b))
      | (None, b) \<Rightarrow> flush_rows r recs (published @ [or_id rec]) failed (fst w, b))"

definition relay_flush :: "('s, 'b) relay \<Rightarrow> 's \<times> 'b \<Rightarrow> (relay_result \<times> go_error option) \<times> 's \<times> 'b" where
  "relay_flush r w =
     (case st_fetch (rl_store r) (rl_batch_size r) (fst w) of
        (Inl e, s) \<Rightarrow> ((zero_relay_result, Some e), (s, snd w))
      | (Inr records, s) \<Rightarrow>
          (case flush_rows r records [] 0 (s, snd w) of
             (Inl e, w') \<Rightarrow> ((zero_relay_result, Some e), w')
           | (Inr (published, failed), w') \<Rightarrow>
               (case (if published = [] then (None, fst w')
                      else st_mark_published (rl_store r) published (fst w')) of
                  (Some me, s') \<Rightarrow> ((zero_relay_result, Some me), (s', snd w'))
                | (None, s') \<Rightarrow>
                    ((\<lparr>res_published = int (length published), res_failed = failed\<rparr>, None), (s', snd w')))))"

definition default_drain_ceiling :: int where
  "default_drain_ceiling = 10000"

fun drain_passes ::
  "('s, 'b) relay \<Rightarrow> nat \<Rightarrow> relay_result \<Rightarrow> 's \<times> 'b \<Rightarrow> (relay_result \<times> go_error option) \<times> 's \<times> 'b" where
  "drain_passes r 0 sum_res w = ((sum_res, None), w)"
| "drain_passes r (Suc n) sum_res w =
     (case relay_flush r w of
        ((res, Some e), w') \<Rightarrow> ((sum_res, Some e), w')
      | ((res, None), w') \<Rightarrow>
          let sum_res' = \<lparr>res_published = res_published sum_res + res_published res,
                          res_failed = res_failed sum_res + res_failed res\<rparr>
          in if res_published res = 0 then ((sum_res', None), w') else drain_passes r n sum_res' w')"

definition relay_drain :: "('s, 'b) relay \<Rightarrow> int \<Rightarrow> 's \<times> 'b \<Rightarrow> (relay_result \<times> go_error option) \<times> 's \<times> 'b" where
  "relay_drain r max_passes w =
     drain_passes r (nat (if max_passes \<le> 0 then default_drain_ceiling else max_passes)) zero_relay_result w"

subsection \<open>Recording a relay\<close>

definition rec_relay :: "('s, 'b) relay \<Rightarrow> ('s, 'b \<times> event list) relay" where
  "rec_relay r =
     \<lparr>rl_transport = rec_transport (rl_transport r), rl_store = rl_store r, rl_batch_size = rl_batch_size r,
      rl_backoff_step = rl_backoff_step r, rl_backoff_cap = rl_backoff_cap r,
      rl_sleep = (\<lambda>d w. (rl_sleep r d (fst w), snd w))\<rparr>"

lemma rec_relay_fields [simp]:
  "rl_transport (rec_relay r) = rec_transport (rl_transport r)" "rl_store (rec_relay r) = rl_store r"
  "rl_batch_size (rec_relay r) = rl_batch_size r" "rl_sleep (rec_relay r) d w = (rl_sleep r d (fst w), snd w)"
  "backoff_for (rec_relay r) n = backoff_for r n"
  by (simp_all add: rec_relay_def backoff_for_def Let_def)

lemma publish_event:
  "tr_publish (rec_transport t) q b (w, es) =
     (fst (tr_publish t q b w), (snd (tr_publish t q b w), es @ [Published q b (fst (tr_publish t q b w))]))"
  by (simp add: rec_transport_def rec_effect_def split: prod.split)

text \<open>A row and the event of publishing it.\<close>

fun row_event :: "outbox_record \<Rightarrow> event \<Rightarrow> bool" where
  "row_event rec (Published q b r) = (q = or_queue rec \<and> b = or_body rec)"
| "row_event rec ev = False"

fun went :: "event \<Rightarrow> bool" where
  "went (Published q b r) = (r = None)"
| "went ev = False"

text \<open>The loop over a batch publishes the rows in order, each at most once and as it is; what it collects
  are the ids of those whose publish succeeded.\<close>

lemma flush_rows_rec:
  assumes "flush_rows r recs pub failed (s, b) = (res, (s', b'))"
  shows "\<exists>es'. flush_rows (rec_relay r) recs pub failed (s, (b, es)) = (res, (s', (b', es @ es')))
    \<and> length es' \<le> length recs \<and> list_all2 row_event (take (length es') recs) es'
    \<and> (case res of Inl e \<Rightarrow> True
       | Inr (pub', failed') \<Rightarrow> length es' = length recs
           \<and> pub' = pub @ map (or_id \<circ> fst) (filter (went \<circ> snd) (zip recs es'))
           \<and> failed' = failed + int (length (filter (Not \<circ> went) es')))"
  using assms
proof (induction recs arbitrary: pub failed s b es)
  case (Cons rec recs)
  obtain x b1 where x: "tr_publish (rl_transport r) (or_queue rec) (or_body rec) b = (x, b1)" by fastforce
  define ev where "ev = Published (or_queue rec) (or_body rec) x"
  have x': "tr_publish (rec_transport (rl_transport r)) (or_queue rec) (or_body rec) (b, es) = (x, (b1, es @ [ev]))"
    by (simp add: publish_event x ev_def)
  show ?case
  proof (cases x)
    case None
    then have "flush_rows r recs (pub @ [or_id rec]) failed (s, b1) = (res, (s', b'))" using Cons.prems x by simp
    from Cons.IH [OF this, of "es @ [ev]"] obtain es' where
      "flush_rows (rec_relay r) recs (pub @ [or_id rec]) failed (s, (b1, es @ [ev])) = (res, (s', (b', (es @ [ev]) @ es')))"
      "length es' \<le> length recs" "list_all2 row_event (take (length es') recs) es'"
      "case res of Inl e \<Rightarrow> True | Inr (pub', failed') \<Rightarrow> length es' = length recs
         \<and> pub' = (pub @ [or_id rec]) @ map (or_id \<circ> fst) (filter (went \<circ> snd) (zip recs es'))
         \<and> failed' = failed + int (length (filter (Not \<circ> went) es'))" by blast
    then show ?thesis using x' None
      by (intro exI [of _ "ev # es'"]) (auto simp: ev_def split: sum.splits)
  next
    case (Some e)
    obtain y s1 where y: "st_mark_failed (rl_store r) (or_id rec) (err_text e) s = (y, s1)" by fastforce
    show ?thesis
    proof (cases y)
      case None
      then have "flush_rows r recs pub (failed + 1) (s1, rl_sleep r (backoff_for r (or_attempts rec)) b1) = (res, (s', b'))"
        using Cons.prems x y Some by simp
      from Cons.IH [OF this, of "es @ [ev]"] obtain es' where
        "flush_rows (rec_relay r) recs pub (failed + 1) (s1, (rl_sleep r (backoff_for r (or_attempts rec)) b1, es @ [ev]))
          = (res, (s', (b', (es @ [ev]) @ es')))"
        "length es' \<le> length recs" "list_all2 row_event (take (length es') recs) es'"
        "case res of Inl e \<Rightarrow> True | Inr (pub', failed') \<Rightarrow> length es' = length recs
           \<and> pub' = pub @ map (or_id \<circ> fst) (filter (went \<circ> snd) (zip recs es'))
           \<and> failed' = failed + 1 + int (length (filter (Not \<circ> went) es'))" by blast
      then show ?thesis using x' Some y None
        by (intro exI [of _ "ev # es'"]) (auto simp: ev_def split: sum.splits)
    next
      case (Some me)
      then have "res = Inl me" "s' = s1" "b' = b1" using Cons.prems x y \<open>x = Some e\<close> by auto
      then show ?thesis using x' \<open>x = Some e\<close> y Some
        by (intro exI [of _ "[ev]"]) (simp add: ev_def)
    qed
  qed
qed auto

subsection \<open>At least once\<close>

text \<open>What a relay run may do to the pending rows \<open>p\<close>: a row leaves only when its body was published,
  successfully, to its queue; the rows that stay are as they were; and nothing is published but
  pending rows, as they are.\<close>

definition relayed ::
  "(bytes \<Rightarrow> (bytes \<times> bytes) option) \<Rightarrow> (bytes \<Rightarrow> (bytes \<times> bytes) option) \<Rightarrow> event list \<Rightarrow> bool" where
  "relayed p p' es \<longleftrightarrow>
     (\<forall>i body q. p i = Some (body, q) \<longrightarrow> p' i = Some (body, q) \<or> Published q body None \<in> set es)
     \<and> (\<forall>i x. p' i = Some x \<longrightarrow> p i = Some x)
     \<and> (\<forall>e \<in> set es. \<exists>i body q r. p i = Some (body, q) \<and> e = Published q body r)"

lemma relayed_refl: "relayed p p []"
  by (simp add: relayed_def)

lemma relayed_trans:
  assumes "relayed p p1 es1" and "relayed p1 p2 es2"
  shows "relayed p p2 (es1 @ es2)"
proof -
  have "p2 i = Some (body, q) \<or> Published q body None \<in> set (es1 @ es2)" if "p i = Some (body, q)" for i body q
    using assms that unfolding relayed_def set_append by blast
  moreover have "p i = Some x" if "p2 i = Some x" for i x using assms that unfolding relayed_def by blast
  moreover have "\<exists>i body q r. p i = Some (body, q) \<and> e = Published q body r" if "e \<in> set (es1 @ es2)" for e
    using assms that unfolding relayed_def set_append by blast
  ultimately show ?thesis unfolding relayed_def by blast
qed

text \<open>The events of a batch and the rows they belong to.\<close>

lemma events_rows:
  assumes "list_all2 row_event (take (length es) recs) es" and "e \<in> set es"
  shows "\<exists>rec r. rec \<in> set recs \<and> e = Published (or_queue rec) (or_body rec) r"
proof -
  obtain n where n: "n < length es" "e = es ! n" using assms(2) by (auto simp: in_set_conv_nth)
  then have l: "n < length (take (length es) recs)" and ev: "row_event (take (length es) recs ! n) e"
    using assms(1) by (auto simp: list_all2_conv_all_nth)
  then show ?thesis
    by (intro exI [of _ "recs ! n"]) (cases "(recs ! n, e)" rule: row_event.cases; auto)
qed

lemma went_rows:
  assumes "list_all2 row_event recs es" and "i \<in> set (map (or_id \<circ> fst) (filter (went \<circ> snd) (zip recs es)))"
  shows "\<exists>rec \<in> set recs. or_id rec = i \<and> Published (or_queue rec) (or_body rec) None \<in> set es"
proof -
  obtain rec e where re: "(rec, e) \<in> set (zip recs es)" "went e" "or_id rec = i" using assms(2) by auto
  have "row_event rec e" using re(1) assms(1) by (auto simp: list_all2_iff)
  then have "e = Published (or_queue rec) (or_body rec) None" using re(2) by (cases "(rec, e)" rule: row_event.cases) auto
  then show ?thesis using re set_zip_leftD set_zip_rightD by metis
qed

subsection \<open>The store contract\<close>

text \<open>
  What the relay relies on of a store. \<open>pending\<close> is the abstract content: the rows still to be
  published, each with its body and its queue. A store keeps \<open>inv\<close>; saving adds a row under a fresh
  id while there is \<open>room\<close> for one; fetching returns rows that are pending and, when there are any, at
  least one; marking removes exactly the marked rows; a recorded failure changes nothing of what is
  pending. A marking that fails may have marked some of the rows.
\<close>

locale outbox_store =
  fixes st :: "'s store"
    and inv :: "'s \<Rightarrow> bool"
    and room :: "'s \<Rightarrow> bool"
    and pending :: "'s \<Rightarrow> bytes \<Rightarrow> (bytes \<times> bytes) option"
  assumes save_ok: "inv s \<Longrightarrow> room s \<Longrightarrow> st_save st body queue s = (Inr i, s') \<Longrightarrow>
      inv s' \<and> pending s i = None \<and> pending s' = (pending s)(i \<mapsto> (body, queue))"
    and fetch_ok: "inv s \<Longrightarrow> st_fetch st limit s = (Inr recs, s') \<Longrightarrow>
      inv s' \<and> pending s' = pending s \<and> distinct (map or_id recs)
        \<and> list_all (\<lambda>rec. pending s (or_id rec) = Some (or_body rec, or_queue rec)) recs
        \<and> (0 < limit \<longrightarrow> int (length recs) \<le> limit \<and> (recs = [] \<longrightarrow> pending s = Map.empty))"
    and fetch_fail: "inv s \<Longrightarrow> st_fetch st limit s = (Inl e, s') \<Longrightarrow> inv s' \<and> pending s' = pending s"
    and published_ok: "inv s \<Longrightarrow> st_mark_published st ids s = (None, s') \<Longrightarrow>
      inv s' \<and> pending s' = pending s |` (- set ids)"
    and published_fail: "inv s \<Longrightarrow> st_mark_published st ids s = (Some e, s') \<Longrightarrow>
      inv s' \<and> (\<exists>done. done \<subseteq> set ids \<and> pending s' = pending s |` (- done))"
    and failed_keeps: "inv s \<Longrightarrow> st_mark_failed st i reason s = (r, s') \<Longrightarrow> inv s' \<and> pending s' = pending s"
begin

lemma rows_keep:
  assumes "rl_store r = st" "inv s" "flush_rows r recs pub failed (s, b) = (res, (s', b'))"
  shows "inv s' \<and> pending s' = pending s"
  using assms(2,3)
proof (induction recs arbitrary: pub failed s b)
  case (Cons rec recs)
  obtain x b1 where x: "tr_publish (rl_transport r) (or_queue rec) (or_body rec) b = (x, b1)" by fastforce
  show ?case
  proof (cases x)
    case None
    then show ?thesis using Cons.IH [OF Cons.prems(1)] Cons.prems(2) x by simp
  next
    case (Some e)
    obtain y s1 where y: "st_mark_failed st (or_id rec) (err_text e) s = (y, s1)" by fastforce
    have s1: "inv s1 \<and> pending s1 = pending s" using failed_keeps [OF Cons.prems(1) y] .
    then show ?thesis using Cons.IH [of s1] Cons.prems(2) x y Some assms(1) by (cases y) auto
  qed
qed simp

text \<open>A pass over a store that keeps the contract is at least once, whatever fails in it.\<close>

lemma flush_relayed:
  assumes "rl_store r = st" "inv s" "relay_flush r (s, b) = (x, (s', b'))"
  shows "\<exists>es'. relay_flush (rec_relay r) (s, (b, es)) = (x, (s', (b', es @ es')))
    \<and> inv s' \<and> relayed (pending s) (pending s') es'"
proof (cases "st_fetch st (rl_batch_size r) s")
  case fetch: (Pair f s1)
  show ?thesis
  proof (cases f)
    case (Inl e)
    then show ?thesis using assms fetch fetch_fail [OF assms(2)] relayed_refl [of "pending s"]
      by (intro exI [of _ "[]"]) (auto simp: relay_flush_def)
  next
    case (Inr recs)
    have 1: "inv s1" "pending s1 = pending s" "list_all (\<lambda>rec. pending s (or_id rec) = Some (or_body rec, or_queue rec)) recs"
      using fetch_ok [OF assms(2)] fetch Inr by auto
    obtain res s2 b2 where rows: "flush_rows r recs [] 0 (s1, b) = (res, (s2, b2))" by (metis prod.exhaust)
    have 2: "inv s2" "pending s2 = pending s" using rows_keep [OF assms(1) 1(1) rows] 1(2) by auto
    obtain es' where es: "flush_rows (rec_relay r) recs [] 0 (s1, (b, es)) = (res, (s2, (b2, es @ es')))"
      "list_all2 row_event (take (length es') recs) es'"
      "case res of Inl e \<Rightarrow> True | Inr (pub', failed') \<Rightarrow> length es' = length recs
         \<and> pub' = [] @ map (or_id \<circ> fst) (filter (went \<circ> snd) (zip recs es'))
         \<and> failed' = 0 + int (length (filter (Not \<circ> went) es'))"
      using flush_rows_rec [OF rows, of es] by blast
    have evs: "\<exists>i body q r. pending s i = Some (body, q) \<and> e = Published q body r" if "e \<in> set es'" for e
      using events_rows [OF es(2) that] 1(3) by (fastforce simp: list_all_iff)
    then have none: "relayed (pending s) (pending s) es'" by (auto simp: relayed_def)
    show ?thesis
    proof (cases res)
      case (Inl e)
      then show ?thesis using assms fetch Inr rows es(1) 2 none
        by (intro exI [of _ es']) (auto simp: relay_flush_def)
    next
      case res: (Inr pf)
      obtain pub failed where pf: "pf = (pub, failed)" by (cases pf)
      have pub: "list_all2 row_event recs es'" "pub = map (or_id \<circ> fst) (filter (went \<circ> snd) (zip recs es'))"
        using es(2,3) res pf by auto
      obtain y s3 where y: "(if pub = [] then (None, s2) else st_mark_published st pub s2) = (y, s3)" by fastforce
      have "inv s3 \<and> (\<exists>done'. done' \<subseteq> set pub \<and> pending s3 = pending s2 |` (- done'))"
      proof (cases "pub = []")
        case True
        then show ?thesis using y 2 by auto
      next
        case False
        then show ?thesis using y published_ok [OF 2(1)] published_fail [OF 2(1)] by (cases y) auto
      qed
      then obtain done' where 3: "inv s3" "done' \<subseteq> set pub" "pending s3 = pending s |` (- done')" using 2(2) by auto
      have "Published q body None \<in> set es'" if "pending s i = Some (body, q)" "i \<in> done'" for i body q
      proof -
        have "i \<in> set (map (or_id \<circ> fst) (filter (went \<circ> snd) (zip recs es')))" using that(2) 3(2) unfolding pub(2) by blast
        then obtain rec where "rec \<in> set recs" "or_id rec = i" "Published (or_queue rec) (or_body rec) None \<in> set es'"
          using went_rows [OF pub(1)] by blast
        then show ?thesis using that(1) 1(3) by (auto simp: list_all_iff)
      qed
      then have "relayed (pending s) (pending s3) es'"
        using evs 3(3) by (auto simp: relayed_def restrict_map_def split: if_splits)
      then show ?thesis using assms fetch Inr rows es(1) res pf y 3(1)
        by (intro exI [of _ es']) (auto simp: relay_flush_def split: option.splits)
    qed
  qed
qed

lemma drain_relayed:
  assumes "rl_store r = st" "inv s" "drain_passes r n tot (s, b) = (x, (s', b'))"
  shows "\<exists>es'. drain_passes (rec_relay r) n tot (s, (b, es)) = (x, (s', (b', es @ es')))
    \<and> inv s' \<and> relayed (pending s) (pending s') es'"
  using assms(2,3)
proof (induction n arbitrary: tot s b es)
  case (Suc n)
  obtain res err s1 b1 where f: "relay_flush r (s, b) = ((res, err), (s1, b1))" by (metis prod.exhaust)
  obtain es1 where 1: "relay_flush (rec_relay r) (s, (b, es)) = ((res, err), (s1, (b1, es @ es1)))"
    "inv s1" "relayed (pending s) (pending s1) es1"
    using flush_relayed [OF assms(1) Suc.prems(1) f, of es] by blast
  define tot' where "tot' = \<lparr>res_published = res_published tot + res_published res,
    res_failed = res_failed tot + res_failed res\<rparr>"
  show ?case
  proof (cases "err = None \<and> res_published res \<noteq> 0")
    case True
    then have "drain_passes r n tot' (s1, b1) = (x, (s', b'))" using Suc.prems(2) f by (simp add: tot'_def Let_def)
    then obtain es2 where "drain_passes (rec_relay r) n tot' (s1, (b1, es @ es1)) = (x, (s', (b', (es @ es1) @ es2)))"
      "inv s'" "relayed (pending s1) (pending s') es2"
      using Suc.IH [OF 1(2)] by blast
    then show ?thesis using True 1 relayed_trans
      by (intro exI [of _ "es1 @ es2"]) (auto simp: tot'_def Let_def)
  next
    case False
    then show ?thesis using 1 f Suc.prems(2)
      by (intro exI [of _ es1]) (cases err; auto simp: Let_def)
  qed
qed (use relayed_refl in auto)

end

end
