(* ===== verification/OutboxLaws.thy ===== *)
theory OutboxLaws
  imports Outbox AppLaws
begin

section \<open>The in-memory store keeps the contract\<close>

text \<open>
  The in-memory store satisfies the contract a relay needs (\<open>ob\<close> interprets \<open>outbox_store\<close>), and what the relay does
  over it: nothing pending is lost without a publish, a healthy broker empties the outbox, and a refusing one
  stalls it.
\<close>

definition mo_inv :: "mem_store \<Rightarrow> bool" where
  "mo_inv s \<longleftrightarrow> distinct (map row_id (mo_rows s)) \<and> 0 \<le> mo_sequence s \<and> mo_sequence s \<le> max_int64
     \<and> (\<forall>r \<in> set (mo_rows s). row_id r \<in> row_name ` {1..mo_sequence s})"

definition mo_room :: "mem_store \<Rightarrow> bool" where
  "mo_room s \<longleftrightarrow> mo_sequence s < max_int64"

definition unpublished :: "mem_store \<Rightarrow> mem_row list" where
  "unpublished s = filter (\<lambda>r. \<not> row_published r) (mo_rows s)"

definition mo_pending :: "mem_store \<Rightarrow> bytes \<Rightarrow> (bytes \<times> bytes) option" where
  "mo_pending s = map_of (map (\<lambda>r. (row_id r, (row_body r, row_queue r))) (unpublished s))"

lemma row_name_inj: "int64_ok m \<Longrightarrow> int64_ok n \<Longrightarrow> row_name m = row_name n \<Longrightarrow> m = n"
  by (metis parse_int_text option.inject row_name_def same_append_eq)

lemma fetch_rows_eq:
  "int (length out) < limit \<Longrightarrow> fetch_rows limit rs out =
     out @ map record_of (take (nat limit - length out) (filter (\<lambda>r. \<not> row_published r) rs))"
proof (induction rs arbitrary: out)
  case (Cons r rs)
  show ?case
  proof (cases "row_published r")
    case True
    then show ?thesis using Cons by simp
  next
    case False
    have n: "nat limit - length out = Suc (nat limit - length (out @ [record_of r]))" using Cons.prems by simp
    show ?thesis
    proof (cases "limit \<le> int (length (out @ [record_of r]))")
      case True
      then have "nat limit - length (out @ [record_of r]) = 0" by simp
      then show ?thesis using False True n by simp
    next
      case go: False
      then show ?thesis using Cons.IH [of "out @ [record_of r]"] False n by simp
    qed
  qed
qed simp

lemma mo_fetch_eq: "mo_fetch limit s = (Inr (map record_of (take (nat limit) (unpublished s))), s)"
  using fetch_rows_eq [of "[]" limit "mo_rows s"] by (simp add: mo_fetch_def unpublished_def)

lemma update_row_map: "distinct (map row_id rs) \<Longrightarrow> update_row i f rs = map (\<lambda>r. if row_id r = i then f r else r) rs"
proof (induction rs)
  case (Cons r rs)
  then have "row_id r \<notin> row_id ` set rs" by simp
  then have "row_id r = i \<Longrightarrow> map (\<lambda>x. if row_id x = i then f x else x) rs = rs" by (induction rs) auto
  then show ?case using Cons by auto
qed simp

lemma mark_fold:
  "distinct (map row_id rs) \<Longrightarrow> fold (\<lambda>i. update_row i (\<lambda>r. r\<lparr>row_published := True\<rparr>)) ids rs =
     map (\<lambda>r. if row_id r \<in> set ids then r\<lparr>row_published := True\<rparr> else r) rs"
proof (induction ids arbitrary: rs)
  case (Cons i ids)
  let ?rs = "map (\<lambda>r. if row_id r = i then r\<lparr>row_published := True\<rparr> else r) rs"
  have "map row_id ?rs = map row_id rs" by simp
  then have "distinct (map row_id ?rs)" using Cons.prems by metis
  then show ?case using Cons.IH [of ?rs] Cons.prems by (simp add: update_row_map)
qed simp

lemma unpublished_mark:
  assumes "mo_inv s"
  shows "unpublished (snd (mo_mark_published ids s)) = filter (\<lambda>r. row_id r \<notin> set ids) (unpublished s)"
proof -
  have "filter (\<lambda>r. \<not> row_published r) (map (\<lambda>r. if row_id r \<in> set ids then r\<lparr>row_published := True\<rparr> else r) rs)
      = filter (\<lambda>r. row_id r \<notin> set ids) (filter (\<lambda>r. \<not> row_published r) rs)" for rs
    by (induction rs) auto
  then show ?thesis using assms by (simp add: unpublished_def mo_mark_published_def mark_fold mo_inv_def)
qed

lemma mo_inv_map:
  assumes "mo_inv s" and "\<And>r. row_id (f r) = row_id r"
  shows "mo_inv (s\<lparr>mo_rows := map f (mo_rows s)\<rparr>)"
proof -
  have "map row_id (map f (mo_rows s)) = map row_id (mo_rows s)" using assms(2) by simp
  then have "distinct (map row_id (map f (mo_rows s)))" using assms(1) by (metis mo_inv_def)
  then show ?thesis using assms by (auto simp: mo_inv_def)
qed

lemma mo_inv_mark: "mo_inv s \<Longrightarrow> mo_inv (snd (mo_mark_published ids s))"
  unfolding mo_mark_published_def using mo_inv_map [of s "\<lambda>r. if row_id r \<in> set ids then r\<lparr>row_published := True\<rparr> else r"]
  by (simp add: mark_fold mo_inv_def)

lemma mo_failed_keeps:
  assumes "mo_inv s"
  shows "mo_inv (snd (mo_mark_failed i reason s))" "mo_pending (snd (mo_mark_failed i reason s)) = mo_pending s"
proof -
  let ?f = "\<lambda>r. if row_id r = i then r\<lparr>row_attempts := wrap64 (row_attempts r + 1), row_last_error := reason\<rparr> else r"
  have s: "snd (mo_mark_failed i reason s) = s\<lparr>mo_rows := map ?f (mo_rows s)\<rparr>"
    using assms by (simp add: mo_mark_failed_def update_row_map mo_inv_def)
  show "mo_inv (snd (mo_mark_failed i reason s))" unfolding s by (rule mo_inv_map [OF assms]) simp
  have "map (\<lambda>r. (row_id r, (row_body r, row_queue r))) (filter (\<lambda>r. \<not> row_published r) (map ?f rs))
      = map (\<lambda>r. (row_id r, (row_body r, row_queue r))) (filter (\<lambda>r. \<not> row_published r) rs)" for rs
    by (induction rs) auto
  note e = this
  show "mo_pending (snd (mo_mark_failed i reason s)) = mo_pending s"
  proof -
    have r: "mo_rows (s\<lparr>mo_rows := rs\<rparr>) = rs" for rs by simp
    show ?thesis by (simp only: s mo_pending_def unpublished_def r e)
  qed
qed

lemma unpublished_distinct: "mo_inv s \<Longrightarrow> distinct (map row_id (unpublished s))"
  by (simp add: mo_inv_def unpublished_def distinct_map_filter)

lemma mo_pending_iff:
  assumes "mo_inv s"
  shows "mo_pending s i = Some (b, q) \<longleftrightarrow> (\<exists>r \<in> set (unpublished s). row_id r = i \<and> row_body r = b \<and> row_queue r = q)"
proof -
  have "distinct (map fst (map (\<lambda>r. (row_id r, (row_body r, row_queue r))) (unpublished s)))"
    using unpublished_distinct [OF assms] by (simp add: comp_def)
  from map_of_eq_Some_iff [OF this] show ?thesis by (auto simp: mo_pending_def)
qed

lemma mo_save_ok:
  assumes "mo_inv s" "mo_room s"
  shows "mo_inv (snd (mo_save body queue s))"
    "mo_pending s (projr (fst (mo_save body queue s))) = None"
    "mo_pending (snd (mo_save body queue s)) = (mo_pending s)(projr (fst (mo_save body queue s)) \<mapsto> (body, queue))"
proof -
  define n where "n = mo_sequence s + 1"
  have n: "wrap64 (mo_sequence s + 1) = n" "int64_ok n" "1 \<le> n" "n \<le> max_int64"
    using assms by (auto intro: wrap64_id simp: n_def mo_inv_def mo_room_def int64_ok_def min_int64_def max_int64_def)
  have fresh: "row_id r \<noteq> row_name n" if "r \<in> set (mo_rows s)" for r
  proof
    assume eq: "row_id r = row_name n"
    have "row_id r \<in> row_name ` {1..mo_sequence s}" using assms(1) that by (simp add: mo_inv_def)
    then obtain m where m: "1 \<le> m" "m \<le> mo_sequence s" "row_id r = row_name m" by auto
    have "int64_ok m" using m assms(1) by (simp add: mo_inv_def int64_ok_def min_int64_def)
    then have "m = n" using row_name_inj [of m n] n(2) m(3) eq by simp
    then show False using m(2) by (simp add: n_def)
  qed
  have s: "mo_save body queue s = (Inr (row_name n), s\<lparr>mo_sequence := n, mo_rows := mo_rows s @
      [\<lparr>row_id = row_name n, row_body = body, row_queue = queue, row_attempts = 0, row_published = False, row_last_error = []\<rparr>]\<rparr>)"
    by (simp add: mo_save_def n(1))
  have "row_name ` {1..mo_sequence s} \<subseteq> row_name ` {1..n}" by (auto simp: n_def)
  then show "mo_inv (snd (mo_save body queue s))" using assms(1) fresh n by (auto simp: s mo_inv_def)
  have none: "mo_pending s (row_name n) = None"
    using mo_pending_iff [OF assms(1), of "row_name n"] fresh by (cases "mo_pending s (row_name n)") (auto simp: unpublished_def)
  then show "mo_pending s (projr (fst (mo_save body queue s))) = None" by (simp add: s)
  show "mo_pending (snd (mo_save body queue s)) = (mo_pending s)(projr (fst (mo_save body queue s)) \<mapsto> (body, queue))"
    using none by (auto simp: s mo_pending_def unpublished_def map_of_append map_add_def fun_eq_iff split: option.split)
qed

interpretation ob: outbox_store mem_outbox mo_inv mo_room mo_pending
proof
  fix s s' :: mem_store and body queue i limit recs e ids reason r
  show "mo_inv s \<Longrightarrow> mo_room s \<Longrightarrow> st_save mem_outbox body queue s = (Inr i, s') \<Longrightarrow>
      mo_inv s' \<and> mo_pending s i = None \<and> mo_pending s' = (mo_pending s)(i \<mapsto> (body, queue))"
    using mo_save_ok [of s body queue] by (auto simp: mem_outbox_def)
  show "mo_inv s \<Longrightarrow> st_fetch mem_outbox limit s = (Inr recs, s') \<Longrightarrow>
      mo_inv s' \<and> mo_pending s' = mo_pending s \<and> distinct (map or_id recs)
        \<and> list_all (\<lambda>rec. mo_pending s (or_id rec) = Some (or_body rec, or_queue rec)) recs
        \<and> (0 < limit \<longrightarrow> int (length recs) \<le> limit \<and> (recs = [] \<longrightarrow> mo_pending s = Map.empty))"
  proof -
    assume inv: "mo_inv s" and f: "st_fetch mem_outbox limit s = (Inr recs, s')"
    have r: "recs = map record_of (take (nat limit) (unpublished s))" "s' = s"
      using f by (auto simp: mem_outbox_def mo_fetch_eq)
    have "map or_id recs = take (nat limit) (map row_id (unpublished s))" by (simp add: r take_map record_of_def comp_def)
    then have "distinct (map or_id recs)" using unpublished_distinct [OF inv] by simp
    moreover have "list_all (\<lambda>rec. mo_pending s (or_id rec) = Some (or_body rec, or_queue rec)) recs"
      using mo_pending_iff [OF inv] by (fastforce simp: r list_all_iff record_of_def dest: in_set_takeD)
    moreover have "recs = [] \<Longrightarrow> 0 < limit \<Longrightarrow> mo_pending s = Map.empty" by (simp add: r mo_pending_def)
    ultimately show ?thesis using inv r by auto
  qed
  show "mo_inv s \<Longrightarrow> st_fetch mem_outbox limit s = (Inl e, s') \<Longrightarrow> mo_inv s' \<and> mo_pending s' = mo_pending s"
    by (simp add: mem_outbox_def mo_fetch_def)
  show "mo_inv s \<Longrightarrow> st_mark_published mem_outbox ids s = (None, s') \<Longrightarrow>
      mo_inv s' \<and> mo_pending s' = mo_pending s |` (- set ids)"
  proof -
    assume inv: "mo_inv s" and f: "st_mark_published mem_outbox ids s = (None, s')"
    have s': "s' = snd (mo_mark_published ids s)" using f by (simp add: mem_outbox_def)
    have m: "map_of (map (\<lambda>r. (row_id r, (row_body r, row_queue r))) (filter (\<lambda>r. row_id r \<notin> set ids) rs))
        = map_of (map (\<lambda>r. (row_id r, (row_body r, row_queue r))) rs) |` (- set ids)" for rs
      by (induction rs) (auto simp: restrict_map_def fun_eq_iff)
    show ?thesis using mo_inv_mark [OF inv] unpublished_mark [OF inv] m by (simp add: s' mo_pending_def)
  qed
  show "mo_inv s \<Longrightarrow> st_mark_published mem_outbox ids s = (Some e, s') \<Longrightarrow>
      mo_inv s' \<and> (\<exists>done. done \<subseteq> set ids \<and> mo_pending s' = mo_pending s |` (- done))"
    by (simp add: mem_outbox_def mo_mark_published_def)
  show "mo_inv s \<Longrightarrow> st_mark_failed mem_outbox i reason s = (r, s') \<Longrightarrow> mo_inv s' \<and> mo_pending s' = mo_pending s"
    using mo_failed_keeps [of s i reason] by (auto simp: mem_outbox_def)
qed

section \<open>Properties of the outbox\<close>

text \<open>C13. The relay is at least once. Over the in-memory store, with any transport and whatever fails, a
  drain only loses a row from the pending ones after a publish of exactly its stored body to its
  queue has succeeded, keeps every other row as it is, and publishes nothing that is not a pending
  row; recording the publishes changes nothing.\<close>

theorem outbox_at_least_once:
  assumes "rl_store r = mem_outbox" "mo_inv s" "relay_drain r max_passes (s, b) = (x, (s', b'))"
  shows "\<exists>es. relay_drain (rec_relay r) max_passes (s, (b, [])) = (x, (s', (b', es)))
    \<and> mo_inv s' \<and> relayed (mo_pending s) (mo_pending s') es"
  using ob.drain_relayed [OF assms(1,2), of _ _ b x s' b' "[]"] assms(3) unfolding relay_drain_def by force

definition sample_store :: mem_store where
  "sample_store = snd (mo_save ''B2'' ''good'' (snd (mo_save ''B1'' ''bad'' new_mem_store)))"

text \<open>A transport that refuses the queue \<open>bad\<close> and keeps what it accepts.\<close>

definition picky_transport :: "(bytes \<times> bytes) list transport" where
  "picky_transport =
     \<lparr>tr_publish = (\<lambda>q b w. if q = ''bad'' then (Some sample_failure, w) else (None, w @ [(q, b)])),
      tr_pop = (\<lambda>q n w. (Inr None, w)), tr_ack = (\<lambda>m w. (None, w)),
      tr_publish_with_headers = None, tr_publish_routed = None,
      tr_publish_from = None, tr_publish_from_with_headers = None, tr_release = None,
      tr_dead_letter = None, tr_rewind = None, tr_settle_native = None,
      tr_settle_native_dead_letter = None, tr_dead_letter_queue_name = None\<rparr>"

definition sample_relay :: "int \<Rightarrow> (mem_store, (bytes \<times> bytes) list) relay" where
  "sample_relay n = new_relay picky_transport mem_outbox
     \<lparr>ro_batch_size = n, ro_backoff_step = 0, ro_backoff_cap = 0, ro_sleeper = None\<rparr>"

lemma new_mem_store_inv: "mo_inv new_mem_store"
  by (simp add: mo_inv_def new_mem_store_def max_int64_def)

lemma sample_store_inv: "mo_inv sample_store"
proof -
  have "mo_room new_mem_store" "mo_room (snd (mo_save ''B1'' ''bad'' new_mem_store))"
    by (simp_all add: mo_room_def new_mem_store_def mo_save_def Let_def wrap64_def max_int64_def)
  then show ?thesis unfolding sample_store_def using mo_save_ok(1) new_mem_store_inv by blast
qed

theorem outbox_at_least_once_witness:
  "\<exists>x s' b' es. relay_drain (rec_relay (sample_relay 100)) 0 (sample_store, ([], [])) = (x, (s', (b', es)))
    \<and> mo_inv s' \<and> relayed (mo_pending sample_store) (mo_pending s') es"
proof -
  obtain x s' b' where d: "relay_drain (sample_relay 100) 0 (sample_store, []) = (x, (s', b'))" by (metis prod.exhaust)
  have "rl_store (sample_relay 100) = mem_outbox" by (simp add: sample_relay_def new_relay_def)
  from outbox_at_least_once [OF this sample_store_inv d] show ?thesis by blast
qed

text \<open>What is written is what is relayed. \<open>Write\<close> stores exactly the encoded envelope under a fresh id
  for the envelope's queue (\<open>default\<close> when it names none) and leaves the other pending rows alone; the
  stored bytes decode to the envelope.\<close>

theorem outbox_write_stores:
  assumes "mo_inv s" "mo_room s" "envelope_ok env" "\<not> is_blank_ascii (env_job env)"
  shows "\<exists>i body s'. outbox_write stx mem_outbox env s = (Inr i, s') \<and> mo_inv s'
    \<and> mo_pending s i = None \<and> mo_pending s' = (mo_pending s)(i \<mapsto> (body, outbox_queue_of env))
    \<and> encode stx env = Inr body \<and> decode stx body = (env\<lparr>env_warnings := []\<rparr>, None)"
proof -
  define body where "body = json_print (envelope_json env)"
  obtain i s' where s: "mo_save body (outbox_queue_of env) s = (Inr i, s')"
    by (auto simp: mo_save_def Let_def)
  have e: "encode stx env = Inr body" using encode_ok [OF assms(3)] by (simp add: body_def)
  then have w: "outbox_write stx mem_outbox env s = (Inr i, s')" using s by (simp add: outbox_write_def mem_outbox_def)
  have "st_save mem_outbox body (outbox_queue_of env) s = (Inr i, s')" using s by (simp add: mem_outbox_def)
  from ob.save_ok [OF assms(1,2) this] show ?thesis
    using w e decode_failed_record [OF assms(3,4), of stx] by (auto simp: body_def)
qed

theorem outbox_write_stores_witness:
  "\<exists>i body s'. outbox_write (\<lambda>_. []) mem_outbox sample_envelope new_mem_store = (Inr i, s') \<and> mo_inv s'
    \<and> mo_pending new_mem_store i = None
    \<and> mo_pending s' = (mo_pending new_mem_store)(i \<mapsto> (body, outbox_queue_of sample_envelope))
    \<and> encode (\<lambda>_. []) sample_envelope = Inr body
    \<and> decode (\<lambda>_. []) body = (sample_envelope\<lparr>env_warnings := []\<rparr>, None)"
proof (rule outbox_write_stores [OF new_mem_store_inv])
  show "mo_room new_mem_store" by (simp add: mo_room_def new_mem_store_def max_int64_def)
qed code_simp+

text \<open>A healthy broker: every publish succeeds.\<close>

definition healthy :: "'b transport \<Rightarrow> bool" where
  "healthy t \<longleftrightarrow> (\<forall>q b w. fst (tr_publish t q b w) = None)"

lemma healthy_rows:
  assumes "healthy (rl_transport r)"
  shows "\<exists>b'. flush_rows (rec_relay r) recs pub failed (s, (b, es)) =
    (Inr (pub @ map or_id recs, failed), (s, (b', es @ map (\<lambda>rec. Published (or_queue rec) (or_body rec) None) recs)))"
proof (induction recs arbitrary: pub b es)
  case (Cons rec recs)
  obtain b1 where p: "tr_publish (rl_transport r) (or_queue rec) (or_body rec) b = (None, b1)"
    using assms by (metis healthy_def prod.collapse)
  then show ?case
    using Cons.IH [of "pub @ [or_id rec]" b1 "es @ [Published (or_queue rec) (or_body rec) None]"]
    by (auto simp: publish_event)
qed simp

definition published_rows :: "mem_row list \<Rightarrow> event list" where
  "published_rows rows = map (\<lambda>r. Published (row_queue r) (row_body r) None) rows"

lemma healthy_flush:
  assumes "healthy (rl_transport r)" "rl_store r = mem_outbox" "mo_inv s" "0 < rl_batch_size r"
  shows "\<exists>s' b'. relay_flush (rec_relay r) (s, (b, es)) =
      ((\<lparr>res_published = int (length (take (nat (rl_batch_size r)) (unpublished s))), res_failed = 0\<rparr>, None),
       (s', (b', es @ published_rows (take (nat (rl_batch_size r)) (unpublished s)))))
    \<and> mo_inv s' \<and> unpublished s' = drop (nat (rl_batch_size r)) (unpublished s)"
proof -
  define rows where "rows = take (nat (rl_batch_size r)) (unpublished s)"
  have fetch: "st_fetch mem_outbox (rl_batch_size r) s = (Inr (map record_of rows), s)"
    by (simp add: mem_outbox_def mo_fetch_eq rows_def)
  obtain b' where fl: "flush_rows (rec_relay r) (map record_of rows) [] 0 (s, (b, es)) =
      (Inr (map row_id rows, 0), (s, (b', es @ published_rows rows)))"
    using healthy_rows [OF assms(1), of "map record_of rows" "[]" 0 s b es]
    by (auto simp: published_rows_def record_of_def comp_def)
  have d: "distinct (map row_id rows @ map row_id (drop (nat (rl_batch_size r)) (unpublished s)))"
    unfolding rows_def map_append [symmetric] append_take_drop_id by (rule unpublished_distinct [OF assms(3)])
  have "filter (\<lambda>x. row_id x \<notin> set (map row_id rows)) (rows @ drop (nat (rl_batch_size r)) (unpublished s))
      = drop (nat (rl_batch_size r)) (unpublished s)"
    using d by (auto simp: filter_empty_conv intro!: filter_True)
  then have u: "unpublished (snd (mo_mark_published (map row_id rows) s)) = drop (nat (rl_batch_size r)) (unpublished s)"
    using unpublished_mark [OF assms(3), of "map row_id rows"] by (simp add: rows_def)
  show ?thesis
  proof (cases "rows = []")
    case True
    then have "unpublished s = []" using assms(4) by (simp add: rows_def)
    then show ?thesis using True assms fetch fl by (intro exI [of _ s] exI [of _ b']) (simp add: relay_flush_def rows_def)
  next
    case False
    then show ?thesis using assms fetch fl u mo_inv_mark [OF assms(3)]
      by (intro exI [of _ "snd (mo_mark_published (map row_id rows) s)"] exI [of _ b'])
        (simp add: relay_flush_def rows_def [symmetric] mem_outbox_def mo_mark_published_def)
  qed
qed

lemma healthy_passes:
  assumes "healthy (rl_transport r)" "rl_store r = mem_outbox" "0 < rl_batch_size r"
  shows "mo_inv s \<Longrightarrow> length (unpublished s) < n \<Longrightarrow>
    \<exists>s' b'. drain_passes (rec_relay r) n tot (s, (b, es)) =
      ((\<lparr>res_published = res_published tot + int (length (unpublished s)), res_failed = res_failed tot\<rparr>, None),
       (s', (b', es @ published_rows (unpublished s)))) \<and> mo_inv s' \<and> unpublished s' = []"
proof (induction n arbitrary: s b es tot)
  case (Suc n)
  let ?k = "nat (rl_batch_size r)"
  obtain s1 b1 where 1: "relay_flush (rec_relay r) (s, (b, es)) =
      ((\<lparr>res_published = int (length (take ?k (unpublished s))), res_failed = 0\<rparr>, None),
       (s1, (b1, es @ published_rows (take ?k (unpublished s)))))"
    "mo_inv s1" "unpublished s1 = drop ?k (unpublished s)"
    using healthy_flush [OF assms(1,2) Suc.prems(1) assms(3), of b es] by blast
  show ?case
  proof (cases "unpublished s = []")
    case True
    then show ?thesis using 1 by (simp add: published_rows_def Let_def)
  next
    case False
    have k: "0 < ?k" using assms(3) by simp
    have "length (unpublished s1) < n" using 1(3) Suc.prems(2) False k by (cases "unpublished s") auto
    define tot1 where "tot1 = \<lparr>res_published = res_published tot + int (length (take ?k (unpublished s))),
        res_failed = res_failed tot\<rparr>"
    obtain s' b' where 2: "drain_passes (rec_relay r) n tot1 (s1, (b1, es @ published_rows (take ?k (unpublished s)))) =
      ((\<lparr>res_published = res_published tot1 + int (length (unpublished s1)), res_failed = res_failed tot1\<rparr>, None),
       (s', (b', (es @ published_rows (take ?k (unpublished s))) @ published_rows (unpublished s1)))) \<and> mo_inv s' \<and> unpublished s' = []"
      using Suc.IH [OF 1(2) \<open>length (unpublished s1) < n\<close>] by blast
    have t: "res_published tot1 + int (length (unpublished s1)) = res_published tot + int (length (unpublished s))"
      "res_failed tot1 = res_failed tot" by (simp_all add: tot1_def 1(3))
    have m: "\<lparr>res_published = res_published tot + int (min (length (unpublished s)) ?k), res_failed = res_failed tot\<rparr> = tot1"
      by (simp add: tot1_def)
    have "published_rows (take ?k (unpublished s)) @ published_rows (unpublished s1) = published_rows (unpublished s)"
      by (simp add: published_rows_def 1(3) map_append [symmetric] del: map_append)
    then show ?thesis using 1(1) 2 False k
      by (intro exI [of _ s'] exI [of _ b']) (simp add: Let_def m t)
  qed
qed simp

text \<open>With a healthy broker one drain empties the outbox: every pending row is published exactly once,
  oldest first, as it was stored, and none is left pending (for fewer pending rows than the drain's
  ceiling of passes, whatever the batch size).\<close>

theorem healthy_drain:
  assumes "healthy (rl_transport r)" "rl_store r = mem_outbox" "mo_inv s" "0 < rl_batch_size r"
    and "int (length (unpublished s)) < (if max_passes \<le> 0 then default_drain_ceiling else max_passes)"
  shows "\<exists>s' b'. relay_drain (rec_relay r) max_passes (s, (b, [])) =
      ((\<lparr>res_published = int (length (unpublished s)), res_failed = 0\<rparr>, None),
       (s', (b', map (\<lambda>row. Published (row_queue row) (row_body row) None) (unpublished s))))
    \<and> unpublished s' = []"
proof -
  have "length (unpublished s) < nat (if max_passes \<le> 0 then default_drain_ceiling else max_passes)" using assms(5) by linarith
  from healthy_passes [OF assms(1,2,4,3) this, of zero_relay_result b "[]"] show ?thesis
    by (auto simp: relay_drain_def zero_relay_result_def published_rows_def)
qed

definition open_transport :: "(bytes \<times> bytes) list transport" where
  "open_transport = picky_transport\<lparr>tr_publish := (\<lambda>q b w. (None, w @ [(q, b)]))\<rparr>"

theorem healthy_drain_witness:
  "\<exists>s' b'. relay_drain (rec_relay ((sample_relay 1)\<lparr>rl_transport := open_transport\<rparr>)) 0 (sample_store, ([], [])) =
      ((\<lparr>res_published = 2, res_failed = 0\<rparr>, None),
       (s', (b', [Published ''bad'' ''B1'' None, Published ''good'' ''B2'' None])))
    \<and> unpublished s' = []"
proof -
  have u: "map (\<lambda>row. Published (row_queue row) (row_body row) None) (unpublished sample_store) =
      [Published ''bad'' ''B1'' None, Published ''good'' ''B2'' None]" "length (unpublished sample_store) = 2"
    by (simp_all add: unpublished_def sample_store_def mo_save_def new_mem_store_def Let_def)
  show ?thesis
    using healthy_drain [of "(sample_relay 1)\<lparr>rl_transport := open_transport\<rparr>" sample_store 0 "[]", OF _ _ sample_store_inv]
    unfolding u by (simp add: healthy_def open_transport_def sample_relay_def new_relay_def default_drain_ceiling_def)
qed

lemma refused_rows:
  assumes "rl_store r = mem_outbox"
  shows "list_all (\<lambda>rec. \<forall>w. fst (tr_publish (rl_transport r) (or_queue rec) (or_body rec) w) \<noteq> None) recs \<Longrightarrow>
    mo_inv s \<Longrightarrow> \<exists>s' b'. flush_rows r recs pub failed (s, b) = (Inr (pub, failed + int (length recs)), (s', b'))
      \<and> mo_pending s' = mo_pending s"
proof (induction recs arbitrary: failed s b)
  case (Cons rec recs)
  obtain x b1 where p: "tr_publish (rl_transport r) (or_queue rec) (or_body rec) b = (x, b1)" by fastforce
  have "fst (tr_publish (rl_transport r) (or_queue rec) (or_body rec) b) \<noteq> None" using Cons.prems(1) by simp
  then obtain e where e: "x = Some e" using p by auto
  define s1 where "s1 = snd (mo_mark_failed (or_id rec) (err_text e) s)"
  have m: "st_mark_failed mem_outbox (or_id rec) (err_text e) s = (None, s1)"
    by (simp add: mem_outbox_def s1_def mo_mark_failed_def)
  have s1: "mo_inv s1" "mo_pending s1 = mo_pending s" using mo_failed_keeps [OF Cons.prems(2)] by (simp_all add: s1_def)
  have "list_all (\<lambda>rec. \<forall>w. fst (tr_publish (rl_transport r) (or_queue rec) (or_body rec) w) \<noteq> None) recs"
    using Cons.prems(1) by simp
  from Cons.IH [OF this s1(1), of "failed + 1" "rl_sleep r (backoff_for r (or_attempts rec)) b1"] obtain s' b' where
    "flush_rows r recs pub (failed + 1) (s1, rl_sleep r (backoff_for r (or_attempts rec)) b1) =
       (Inr (pub, failed + 1 + int (length recs)), (s', b'))" "mo_pending s' = mo_pending s1" by blast
  then show ?case using p e m s1(2) assms by (intro exI [of _ s'] exI [of _ b']) simp
qed simp

text \<open>A drain does not get past failing rows. When the oldest rows fill a batch and the broker
  refuses all of them, the drain stops after that one pass: no row is published, not even those
  behind the batch that the broker would take, and the pending rows are the same for the next
  drain.\<close>

theorem stalled_drain:
  assumes "rl_store r = mem_outbox" "mo_inv s"
    and "list_all (\<lambda>row. \<forall>w. fst (tr_publish (rl_transport r) (row_queue row) (row_body row) w) \<noteq> None)
      (take (nat (rl_batch_size r)) (unpublished s))"
  shows "\<exists>s' b'. relay_drain r max_passes (s, b) =
      ((\<lparr>res_published = 0, res_failed = int (length (take (nat (rl_batch_size r)) (unpublished s)))\<rparr>, None), (s', b'))
    \<and> mo_pending s' = mo_pending s"
proof -
  define recs where "recs = map record_of (take (nat (rl_batch_size r)) (unpublished s))"
  have "list_all (\<lambda>rec. \<forall>w. fst (tr_publish (rl_transport r) (or_queue rec) (or_body rec) w) \<noteq> None) recs"
    using assms(3) by (simp add: recs_def list_all_iff record_of_def)
  from refused_rows [OF assms(1) this assms(2), of "[]" 0 b] obtain s' b' where
    f: "flush_rows r recs [] 0 (s, b) = (Inr ([], int (length recs)), (s', b'))" "mo_pending s' = mo_pending s" by auto
  have "st_fetch mem_outbox (rl_batch_size r) s = (Inr recs, s)" by (simp add: mem_outbox_def mo_fetch_eq recs_def)
  then have fl: "relay_flush r (s, b) = ((\<lparr>res_published = 0, res_failed = int (length recs)\<rparr>, None), (s', b'))"
    using f(1) assms(1) by (simp add: relay_flush_def)
  obtain n where "nat (if max_passes \<le> 0 then default_drain_ceiling else max_passes) = Suc n"
    by (cases "nat (if max_passes \<le> 0 then default_drain_ceiling else max_passes)") (auto simp: default_drain_ceiling_def split: if_splits)
  then show ?thesis using fl f(2) by (simp add: relay_drain_def zero_relay_result_def recs_def)
qed

theorem stalled_drain_witness:
  "\<exists>s' b'. relay_drain (sample_relay 1) 0 (sample_store, []) = ((\<lparr>res_published = 0, res_failed = 1\<rparr>, None), (s', b'))
    \<and> mo_pending s' = mo_pending sample_store"
proof -
  have u: "take 1 (unpublished sample_store) =
      [\<lparr>row_id = row_name 1, row_body = ''B1'', row_queue = ''bad'', row_attempts = 0, row_published = False, row_last_error = []\<rparr>]"
    by (simp add: unpublished_def sample_store_def mo_save_def new_mem_store_def Let_def wrap64_def)
  have r: "rl_store (sample_relay 1) = mem_outbox" "rl_batch_size (sample_relay 1) = 1" "rl_transport (sample_relay 1) = picky_transport"
    by (simp_all add: sample_relay_def new_relay_def)
  have "nat (rl_batch_size (sample_relay 1)) = 1" by (simp add: r)
  then show ?thesis
    using stalled_drain [OF r(1) sample_store_inv, of 0 "[]"] u by (simp add: r picky_transport_def del: length_take)
qed

end
