(* ===== verification/Idempotency.thy ===== *)
theory Idempotency
  imports AppTrace
begin

section \<open>Idempotent handlers\<close>

text \<open>
  \<open>idempotency/idempotency.go\<close> and its Redis store, \<open>idempotency-redis/redis.go\<close>. A store is a record
  of operations over a world; \<open>wrap_handler\<close> is \<open>Wrap\<close>. The in-memory store's state stands beside the
  application's own world, and a handler of the application runs on its part (\<open>beside\<close>).
\<close>

record 'w idem_store =
  sto_seen :: "bytes \<Rightarrow> 'w \<Rightarrow> (go_error + bool) \<times> 'w"
  sto_remember :: "bytes \<Rightarrow> 'w effect"
  sto_forget :: "bytes \<Rightarrow> 'w effect"

definition wrap_handler :: "'w idem_store \<Rightarrow> 'w handler \<Rightarrow> 'w handler" where
  "wrap_handler store h ctx env w =
     (let i = meta_id (env_meta env) in
      if i = [] then h ctx env w
      else case sto_seen store i w of
             (Inl e, w1) \<Rightarrow> (Some e, w1)
           | (Inr seen, w1) \<Rightarrow>
               if seen then (None, w1)
               else (case h ctx env w1 of
                       (Some e, w2) \<Rightarrow> (Some e, w2)
                     | (None, w2) \<Rightarrow> (None, snd (sto_remember store i w2))))"

subsection \<open>The in-memory store\<close>

text \<open>The Go \<open>map[string]struct{}\<close> is the set of its keys.\<close>

type_synonym seen_ids = "bytes set"

definition new_seen :: seen_ids where "new_seen = {}"

definition ids_seen :: "bytes \<Rightarrow> seen_ids \<times> 'a \<Rightarrow> (go_error + bool) \<times> seen_ids \<times> 'a" where
  "ids_seen i w = (Inr (i \<in> fst w), w)"

definition ids_remember :: "bytes \<Rightarrow> (seen_ids \<times> 'a) effect" where
  "ids_remember i w = (None, (insert i (fst w), snd w))"

definition ids_forget :: "bytes \<Rightarrow> (seen_ids \<times> 'a) effect" where
  "ids_forget i w = (None, (fst w - {i}, snd w))"

definition mem_ids :: "(seen_ids \<times> 'a) idem_store" where
  "mem_ids = \<lparr>sto_seen = ids_seen, sto_remember = ids_remember, sto_forget = ids_forget\<rparr>"

definition beside :: "'a handler \<Rightarrow> (seen_ids \<times> 'a) handler" where
  "beside h ctx env w = apsnd (Pair (fst w)) (h ctx env (snd w))"

subsection \<open>The Redis store\<close>

text \<open>The client is the seam \<open>cmdable\<close> of the code: \<open>SET NX\<close>, \<open>EXISTS\<close> and \<open>DEL\<close> of the go-redis
  client are parameters.\<close>

record 'w redis_keys_client =
  kc_set_nx :: "bytes \<Rightarrow> bytes \<Rightarrow> int \<Rightarrow> 'w \<Rightarrow> (go_error + bool) \<times> 'w"
  kc_exists :: "bytes \<Rightarrow> 'w \<Rightarrow> (go_error + int) \<times> 'w"
  kc_del :: "bytes \<Rightarrow> 'w effect"

record 'w redis_ids =
  ri_client :: "'w redis_keys_client"
  ri_prefix :: bytes
  ri_ttl :: int

definition default_prefix :: bytes where "default_prefix = ''bq:idemp:''"
definition claim_value :: bytes where "claim_value = ''1''"

definition with_prefix :: "bytes \<Rightarrow> 'w redis_ids \<Rightarrow> 'w redis_ids" where
  "with_prefix p s = s\<lparr>ri_prefix := p\<rparr>"

definition with_ttl :: "int \<Rightarrow> 'w redis_ids \<Rightarrow> 'w redis_ids" where
  "with_ttl ttl s = s\<lparr>ri_ttl := (if ttl < 0 then 0 else ttl)\<rparr>"

definition new_redis_ids :: "'w redis_keys_client \<Rightarrow> ('w redis_ids \<Rightarrow> 'w redis_ids) list \<Rightarrow> 'w redis_ids" where
  "new_redis_ids c opts = fold (\<lambda>f s. f s) opts \<lparr>ri_client = c, ri_prefix = default_prefix, ri_ttl = 0\<rparr>"

definition ri_key :: "'w redis_ids \<Rightarrow> bytes \<Rightarrow> bytes" where
  "ri_key s i = ri_prefix s @ i"

definition ri_claim :: "'w redis_ids \<Rightarrow> bytes \<Rightarrow> 'w \<Rightarrow> (go_error + bool) \<times> 'w" where
  "ri_claim s i w = kc_set_nx (ri_client s) (ri_key s i) claim_value (ri_ttl s) w"

definition ri_remember :: "'w redis_ids \<Rightarrow> bytes \<Rightarrow> 'w effect" where
  "ri_remember s i w = (case ri_claim s i w of (Inl e, w') \<Rightarrow> (Some e, w') | (Inr _, w') \<Rightarrow> (None, w'))"

definition ri_seen :: "'w redis_ids \<Rightarrow> bytes \<Rightarrow> 'w \<Rightarrow> (go_error + bool) \<times> 'w" where
  "ri_seen s i w =
     (case kc_exists (ri_client s) (ri_key s i) w of
        (Inl e, w') \<Rightarrow> (Inl e, w')
      | (Inr n, w') \<Rightarrow> (Inr (0 < n), w'))"

definition ri_forget :: "'w redis_ids \<Rightarrow> bytes \<Rightarrow> 'w effect" where
  "ri_forget s i w = kc_del (ri_client s) (ri_key s i) w"

definition redis_ids_store :: "'w redis_ids \<Rightarrow> 'w idem_store" where
  "redis_ids_store s = \<lparr>sto_seen = ri_seen s, sto_remember = ri_remember s, sto_forget = ri_forget s\<rparr>"

subsection \<open>The contract of a store, and what the wrapped handler then promises\<close>

text \<open>A sequence of deliveries, and the outcomes of the handler runs for one message id.\<close>

fun deliver_all :: "'w handler \<Rightarrow> (delivery_ctx \<times> envelope) list \<Rightarrow> 'w \<Rightarrow> go_error option list \<times> 'w" where
  "deliver_all h [] w = ([], w)"
| "deliver_all h ((ctx, env) # ds) w =
     (let (r, w1) = h ctx env w; (rs, w2) = deliver_all h ds w1 in (r # rs, w2))"

definition results_of :: "bytes \<Rightarrow> (delivery_ctx \<times> envelope) list \<Rightarrow> 'r list \<Rightarrow> 'r list" where
  "results_of i ds rs = [r. (d, r) \<leftarrow> zip ds rs, meta_id (env_meta (snd d)) = i]"

definition outcomes_of :: "bytes \<Rightarrow> (bytes \<times> 'r) list \<Rightarrow> 'r list" where
  "outcomes_of i runs = [r. (j, r) \<leftarrow> runs, j = i]"

text \<open>The runs of one id: none when it was seen before, else failures up to at most one success, after
  which it is seen; the other deliveries return nil.\<close>

definition once_run :: "bool \<Rightarrow> go_error option list \<Rightarrow> go_error option list \<Rightarrow> bool \<Rightarrow> bool" where
  "once_run seen results outcomes seen' \<longleftrightarrow>
     (seen' \<longleftrightarrow> seen \<or> None \<in> set outcomes) \<and> None \<notin> set (butlast outcomes) \<and> (outcomes = [] \<or> \<not> seen)
     \<and> (if seen' then \<exists>k. results = outcomes @ replicate k None else results = outcomes)"

lemma results_of_simps [simp]:
  "results_of i [] rs = []"
  "results_of i (d # ds) (r # rs) = (if meta_id (env_meta (snd d)) = i then r # results_of i ds rs else results_of i ds rs)"
  by (auto simp: results_of_def)

lemma outcomes_of_simps [simp]:
  "outcomes_of i [] = []"
  "outcomes_of i ((j, r) # es) = (if j = i then r # outcomes_of i es else outcomes_of i es)"
  by (auto simp: outcomes_of_def)

lemma once_run_start: "once_run s [] [] s"
  by (simp add: once_run_def)

lemma once_run_skip: "once_run True rs es s' \<Longrightarrow> once_run True (None # rs) es s'"
proof -
  assume "once_run True rs es s'"
  then have "es = []" "s'" "\<exists>k. rs = replicate k None" by (auto simp: once_run_def)
  then show ?thesis by (auto simp: once_run_def intro: exI [of _ "Suc _"])
qed

lemma once_run_fail: "once_run False rs es s' \<Longrightarrow> once_run False (Some e # rs) (Some e # es) s'"
  by (auto simp: once_run_def)

lemma once_run_done: "once_run True rs es s' \<Longrightarrow> once_run False (None # rs) (None # es) s'"
  by (auto simp: once_run_def)

locale idempotency_store =
  fixes store :: "'w idem_store"
    and remembered :: "'w \<Rightarrow> bytes set"
  assumes seen_ok: "sto_seen store i w = (Inr b, w') \<Longrightarrow> b = (i \<in> remembered w) \<and> remembered w' = remembered w"
    and seen_err: "sto_seen store i w = (Inl e, w') \<Longrightarrow> remembered w' = remembered w"
    and remember_ok: "sto_remember store i w = (None, w') \<Longrightarrow> remembered w' = insert i (remembered w)"
    and remember_err: "sto_remember store i w = (Some e, w') \<Longrightarrow>
      remembered w' = remembered w \<or> remembered w' = insert i (remembered w)"
    and forget_ok: "sto_forget store i w = (None, w') \<Longrightarrow> remembered w' = remembered w - {i}"
begin

text \<open>One delivery, for a handler that leaves the store alone. \<open>runs\<close> is any log of the handler's
  runs: a list the handler appends its outcome to, and the store's operations keep.\<close>

lemma wrap_delivery:
  fixes runs :: "'w \<Rightarrow> (bytes \<times> go_error option) list"
  assumes h: "\<And>ctx env w. remembered (snd (h ctx env w)) = remembered w"
    and hl: "\<And>ctx env w. runs (snd (h ctx env w)) = runs w @ [(meta_id (env_meta env), fst (h ctx env w))]"
    and sl: "\<And>i w. runs (snd (sto_seen store i w)) = runs w" "\<And>i w. runs (snd (sto_remember store i w)) = runs w"
    and rel: "\<And>i w. \<exists>b. fst (sto_seen store i w) = Inr b" "\<And>i w. fst (sto_remember store i w) = None"
    and w: "wrap_handler store h ctx env w = (r, w')"
    and i: "i = meta_id (env_meta env)"
  shows "i = [] \<Longrightarrow> remembered w' = remembered w \<and> runs w' = runs w @ [(i, r)]"
    and "i \<noteq> [] \<Longrightarrow> i \<in> remembered w \<Longrightarrow> r = None \<and> remembered w' = remembered w \<and> runs w' = runs w"
    and "i \<noteq> [] \<Longrightarrow> i \<notin> remembered w \<Longrightarrow>
      runs w' = runs w @ [(i, r)] \<and> remembered w' = (if r = None then insert i (remembered w) else remembered w)"
proof -
  show "i = [] \<Longrightarrow> remembered w' = remembered w \<and> runs w' = runs w @ [(i, r)]"
    using w h [of ctx env w] hl [of ctx env w] i by (simp add: wrap_handler_def)
  obtain b w1 where s: "sto_seen store i w = (Inr b, w1)"
    using rel(1) [of i w] by (cases "sto_seen store i w") auto
  have b: "b = (i \<in> remembered w)" "remembered w1 = remembered w" using seen_ok [OF s] by auto
  have l1: "runs w1 = runs w" using sl(1) [of i w] s by simp
  show "i \<noteq> [] \<Longrightarrow> i \<in> remembered w \<Longrightarrow> r = None \<and> remembered w' = remembered w \<and> runs w' = runs w"
    using w s b l1 i by (auto simp: wrap_handler_def)
  assume ne: "i \<noteq> []" "i \<notin> remembered w"
  obtain r2 w2 where h2: "h ctx env w1 = (r2, w2)" by (cases "h ctx env w1")
  have w2: "remembered w2 = remembered w" "runs w2 = runs w @ [(i, r2)]"
    using h [of ctx env w1] hl [of ctx env w1] h2 b l1 i by auto
  obtain w3 where w3: "sto_remember store i w2 = (None, w3)"
    using rel(2) [of i w2] by (cases "sto_remember store i w2") auto
  have "r = r2" "w' = (if r2 = None then w3 else w2)"
    using w s b(1) ne h2 w3 i by (auto simp: wrap_handler_def split: option.splits)
  then show "runs w' = runs w @ [(i, r)] \<and> remembered w' = (if r = None then insert i (remembered w) else remembered w)"
    using w2 remember_ok [OF w3] sl(2) [of i w2] w3 by auto
qed

lemma wrap_runs_once:
  fixes runs :: "'w \<Rightarrow> (bytes \<times> go_error option) list"
  assumes h: "\<And>ctx env w. remembered (snd (h ctx env w)) = remembered w"
    and hl: "\<And>ctx env w. runs (snd (h ctx env w)) = runs w @ [(meta_id (env_meta env), fst (h ctx env w))]"
    and sl: "\<And>i w. runs (snd (sto_seen store i w)) = runs w" "\<And>i w. runs (snd (sto_remember store i w)) = runs w"
    and rel: "\<And>i w. \<exists>b. fst (sto_seen store i w) = Inr b" "\<And>i w. fst (sto_remember store i w) = None"
    and ds: "deliver_all (wrap_handler store h) ds w = (rs, w')"
  shows "\<exists>es. runs w' = runs w @ es \<and>
    (\<forall>i. if i = [] then results_of i ds rs = outcomes_of i es
         else once_run (i \<in> remembered w) (results_of i ds rs) (outcomes_of i es) (i \<in> remembered w'))"
  using ds
proof (induction ds arbitrary: w rs)
  case Nil
  then show ?case by (auto simp: once_run_start intro!: exI [of _ "[]"])
next
  case (Cons d ds)
  obtain ctx env where d: "d = (ctx, env)" by (cases d)
  obtain r w1 where 1: "wrap_handler store h ctx env w = (r, w1)" by (cases "wrap_handler store h ctx env w")
  obtain rs' where 2: "deliver_all (wrap_handler store h) ds w1 = (rs', w')" and rs: "rs = r # rs'"
    using Cons.prems 1 d by (auto split: prod.splits)
  obtain es where es: "runs w' = runs w1 @ es"
    and IH: "\<And>i. if i = [] then results_of i ds rs' = outcomes_of i es
         else once_run (i \<in> remembered w1) (results_of i ds rs') (outcomes_of i es) (i \<in> remembered w')"
    using Cons.IH [OF 2] by blast
  let ?j = "meta_id (env_meta env)"
  note step = wrap_delivery [OF h hl sl rel 1 refl]
  show ?case
  proof (cases "?j \<noteq> [] \<and> ?j \<in> remembered w")
    case True
    then have s: "r = None" "remembered w1 = remembered w" "runs w1 = runs w" using step(2) by auto
    have "if i = [] then results_of i (d # ds) rs = outcomes_of i es
      else once_run (i \<in> remembered w) (results_of i (d # ds) rs) (outcomes_of i es) (i \<in> remembered w')" for i
      using IH [of i] True s once_run_skip d rs by (cases "i = ?j") auto
    then show ?thesis using es s by (intro exI [of _ es]) auto
  next
    case False
    have "runs w1 = runs w @ [(?j, r)]
      \<and> (\<forall>i. i \<noteq> [] \<longrightarrow> (i \<in> remembered w1 \<longleftrightarrow> i \<in> remembered w \<or> i = ?j \<and> r = None))"
    proof (cases "?j = []")
      case True
      then show ?thesis using step(1) by auto
    next
      case ne: False
      then show ?thesis using step(3) False by (cases r) auto
    qed
    then have s: "runs w1 = runs w @ [(?j, r)]"
      "\<And>i. i \<noteq> [] \<Longrightarrow> i \<in> remembered w1 \<longleftrightarrow> i \<in> remembered w \<or> i = ?j \<and> r = None"
      by simp_all
    have all: "if i = [] then results_of i (d # ds) rs = outcomes_of i ((?j, r) # es)
      else once_run (i \<in> remembered w) (results_of i (d # ds) rs) (outcomes_of i ((?j, r) # es)) (i \<in> remembered w')" for i
      using IH [of i] False s(2) [of i] once_run_done once_run_fail d rs
      by (cases "i = ?j"; cases r) auto
    have "runs w' = runs w @ (?j, r) # es" using es s(1) by simp
    then show ?thesis using all by blast
  qed
qed

end

interpretation ids: idempotency_store "mem_ids :: (seen_ids \<times> 'a) idem_store" fst
  by unfold_locales (auto simp: mem_ids_def ids_seen_def ids_remember_def ids_forget_def)


text \<open>The Redis store meets the contract when the client behaves as Redis documents: \<open>SET NX\<close> creates
  the key if it is absent, \<open>EXISTS\<close> counts it, \<open>DEL\<close> removes it. The remembered ids are those whose
  prefixed key exists, so stores with different prefixes of which none extends the other share a
  server without seeing each other's ids. (Without a TTL: an expiring key is forgotten by itself.)\<close>

lemma redis_ids_contract:
  fixes s :: "'w redis_ids" and keys :: "'w \<Rightarrow> bytes set"
  assumes "\<And>k v w b w'. kc_set_nx (ri_client s) k v (ri_ttl s) w = (Inr b, w') \<Longrightarrow>
      b = (k \<notin> keys w) \<and> keys w' = insert k (keys w)"
    and "\<And>k v w e w'. kc_set_nx (ri_client s) k v (ri_ttl s) w = (Inl e, w') \<Longrightarrow>
      keys w' = keys w \<or> keys w' = insert k (keys w)"
    and "\<And>k w n w'. kc_exists (ri_client s) k w = (Inr n, w') \<Longrightarrow> n = of_bool (k \<in> keys w) \<and> keys w' = keys w"
    and "\<And>k w e w'. kc_exists (ri_client s) k w = (Inl e, w') \<Longrightarrow> keys w' = keys w"
    and "\<And>k w w'. kc_del (ri_client s) k w = (None, w') \<Longrightarrow> keys w' = keys w - {k}"
  shows "idempotency_store (redis_ids_store s) (\<lambda>w. {i. ri_key s i \<in> keys w})"
proof
  fix i w b w' e
  show "sto_seen (redis_ids_store s) i w = (Inr b, w') \<Longrightarrow>
    b = (i \<in> {i. ri_key s i \<in> keys w}) \<and> {i. ri_key s i \<in> keys w'} = {i. ri_key s i \<in> keys w}"
    using assms(3) [of "ri_key s i" w] assms(4) [of "ri_key s i" w]
    by (cases "kc_exists (ri_client s) (ri_key s i) w") (auto simp: redis_ids_store_def ri_seen_def split: sum.splits)
  show "sto_seen (redis_ids_store s) i w = (Inl e, w') \<Longrightarrow> {i. ri_key s i \<in> keys w'} = {i. ri_key s i \<in> keys w}"
    using assms(4) [of "ri_key s i" w]
    by (cases "kc_exists (ri_client s) (ri_key s i) w") (auto simp: redis_ids_store_def ri_seen_def split: sum.splits)
  show "sto_remember (redis_ids_store s) i w = (None, w') \<Longrightarrow>
    {i. ri_key s i \<in> keys w'} = insert i {i. ri_key s i \<in> keys w}"
    using assms(1) [of "ri_key s i" claim_value w]
    by (cases "kc_set_nx (ri_client s) (ri_key s i) claim_value (ri_ttl s) w")
      (auto simp: redis_ids_store_def ri_remember_def ri_claim_def ri_key_def split: sum.splits)
  show "sto_remember (redis_ids_store s) i w = (Some e, w') \<Longrightarrow>
    {i. ri_key s i \<in> keys w'} = {i. ri_key s i \<in> keys w} \<or>
    {i. ri_key s i \<in> keys w'} = insert i {i. ri_key s i \<in> keys w}"
    using assms(2) [of "ri_key s i" claim_value w]
    by (cases "kc_set_nx (ri_client s) (ri_key s i) claim_value (ri_ttl s) w")
      (auto simp: redis_ids_store_def ri_remember_def ri_claim_def ri_key_def split: sum.splits)
  show "sto_forget (redis_ids_store s) i w = (None, w') \<Longrightarrow>
    {i. ri_key s i \<in> keys w'} = {i. ri_key s i \<in> keys w} - {i}"
    using assms(5) [of "ri_key s i" w]
    by (auto simp: redis_ids_store_def ri_forget_def ri_key_def)
qed

definition run_log :: "event list \<Rightarrow> (bytes \<times> go_error option) list" where
  "run_log es = [(meta_id (env_meta env), r). Handled u env r \<leftarrow> es]"

text \<open>C3. Through the in-memory store a message is handled once. For any handler, any sequence of
  deliveries and any ids the store holds already: the runs of one id are failures up to the first
  success, after which the id is in the store and every later delivery of it returns nil without a
  run; an id already in the store has no run; and a delivery without an id is always handled.\<close>

theorem handled_once:
  fixes h :: "'a handler"
  shows "\<exists>rs seen' w' es.
    deliver_all (wrap_handler mem_ids (beside (rec_handler u h))) ds (seen, (w, [])) = (rs, (seen', (w', es)))
    \<and> (\<forall>i. if i = [] then results_of i ds rs = outcomes_of i (run_log es)
           else once_run (i \<in> seen) (results_of i ds rs) (outcomes_of i (run_log es)) (i \<in> seen'))"
proof -
  obtain rs seen' w' es where d:
    "deliver_all (wrap_handler mem_ids (beside (rec_handler u h))) ds (seen, (w, [])) = (rs, (seen', (w', es)))"
    by (metis prod.exhaust)
  let ?h = "beside (rec_handler u h)" and ?runs = "\<lambda>w :: seen_ids \<times> 'a \<times> event list. run_log (snd (snd w))"
  have h: "fst (snd (?h ctx env w)) = fst w" "?runs (snd (?h ctx env w)) = ?runs w @ [(meta_id (env_meta env), fst (?h ctx env w))]"
    for ctx env w
    by (simp_all add: beside_def rec_handler_def rec_effect_def run_log_def split: prod.splits)
  have st: "snd (sto_seen mem_ids i w) = w" "?runs (snd (sto_remember mem_ids i w)) = ?runs w"
    "\<exists>b. fst (sto_seen mem_ids i w) = Inr b" "fst (sto_remember mem_ids i w) = None" for i and w :: "seen_ids \<times> 'a \<times> event list"
    by (simp_all add: mem_ids_def ids_seen_def ids_remember_def)
  have sl: "?runs (snd (sto_seen mem_ids i w)) = ?runs w" for i w
    by (simp only: st(1))
  have nil: "run_log [] = []" by (simp add: run_log_def)
  show ?thesis
    using ids.wrap_runs_once [where runs = ?runs, OF h sl st(2,3,4) d] d
    unfolding fst_conv snd_conv nil append_Nil by blast
qed

end
