(* ===== verification/JsonMarshal.thy ===== *)
theory JsonMarshal
  imports Codec Backoff
begin

section \<open>More of \<open>encoding/json\<close>\<close>

text \<open>
  What the companion packages use of \<open>encoding/json\<close> beside the envelope codec: the values of decoded
  numbers, \<open>json.Marshal\<close> with its HTML escapes, and the matching of member names to struct fields.
\<close>

subsection \<open>Numbers\<close>

text \<open>The float64 a canonical number denotes, in units of \<open>2^-1074\<close>: an exact integer.\<close>

definition num_units :: "bytes \<Rightarrow> int" where
  "num_units l =
     (case parse_float l of
        None \<Rightarrow> 0
      | Some (neg, f) \<Rightarrow> if neg then - fl_units f else fl_units f)"

text \<open>The conversion \<open>int(f)\<close> truncates towards zero; outside the range of \<open>int\<close> Go leaves the
  result to the implementation, and the amd64 one is the least integer.\<close>

definition int_of_num :: "bytes \<Rightarrow> int" where
  "int_of_num l =
     (let u = num_units l; n = (if u < 0 then - (- u div 2 ^ 1074) else u div 2 ^ 1074)
      in if int64_ok n then n else min_int64)"

subsection \<open>\<open>json.Marshal\<close>\<close>

text \<open>\<open>json.Marshal\<close> escapes the characters HTML gives a meaning.\<close>

fun html_rune :: "bytes option \<Rightarrow> bytes" where
  "html_rune None = quote_rune None"
| "html_rune (Some r) =
     (if r = ''<'' \<or> r = ''>'' \<or> r = ''&''
      then bslash # ''u00'' @ [hex_digit (byte (hd r) div 16), hex_digit (byte (hd r) mod 16)]
      else quote_rune (Some r))"

definition quote_html :: "bytes \<Rightarrow> bytes" where
  "quote_html s = concat (map html_rune (runes s))"

fun json_html :: "goval \<Rightarrow> json" where
  "json_html GNull = JNull"
| "json_html (GBool b) = JBool b"
| "json_html (GNum l) = JNum l"
| "json_html (GStr s) = JStr (quote_html s)"
| "json_html (GArr vs) = JArr (map json_html vs)"
| "json_html (GObj m) = JObj (map (\<lambda>(k, v). (quote_html k, json_html v)) m)"

lemma html_rune_ok:
  assumes "x = None \<or> (\<exists>q. x = Some q \<and> q \<noteq> [] \<and> utf8_len q = length q)"
  shows "body_ok (html_rune x @ s) = body_ok s"
    and "unquote (html_rune x @ s) = case_option replacement (\<lambda>q. q) x @ unquote s"
proof -
  have h: "get_hex4 (''00'' @ [hex_digit (byte c div 16), hex_digit (byte c mod 16)] @ s) = Some (byte c, s)" for c s
    using get_hex4_u00 [of "byte c" s] byte_less [of c] by (simp del: get_hex4.simps)
  have b: "body_ok (bslash # CHR ''u'' # ''00'' @ [hex_digit (byte c div 16), hex_digit (byte c mod 16)] @ s) = body_ok s" for c s
    using h [of c s] get_hex4_body_ok [OF h [of c s]] by (simp add: body_ok.simps(2) [of bslash] del: get_hex4.simps)
  have u: "byte c < 0x80 \<Longrightarrow> unquote (bslash # CHR ''u'' # ''00'' @ [hex_digit (byte c div 16), hex_digit (byte c mod 16)] @ s)
    = c # unquote s" for c s
    using unquote_u [OF h [of c s]] by (simp add: is_surrogate_def utf8_encode_def)
  show "body_ok (html_rune x @ s) = body_ok s"
    using body_ok_quote_rune [OF assms, of s] b [of _ s] by (cases x) auto
  show "unquote (html_rune x @ s) = case_option replacement (\<lambda>q. q) x @ unquote s"
    using unquote_quote_rune [OF assms, of s] u [of "CHR ''<''" s] u [of "CHR ''>''" s] u [of "CHR ''&''" s]
    by (cases x) auto
qed

lemma body_ok_quote_html [simp]: "body_ok (quote_html s)"
proof -
  have "body_ok (concat (map html_rune xs))"
    if "\<forall>x \<in> set xs. x = None \<or> (\<exists>q. x = Some q \<and> q \<noteq> [] \<and> utf8_len q = length q)" for xs
    using that by (induction xs) (simp_all add: html_rune_ok del: html_rune.simps)
  then show ?thesis unfolding quote_html_def using quote_rune_cases [of _ s] by blast
qed

lemma unquote_quote_html: "utf8_ok s \<Longrightarrow> unquote (quote_html s) = s"
proof -
  assume s: "utf8_ok s"
  have "unquote (concat (map html_rune xs)) = concat (map (case_option replacement (\<lambda>q. q)) xs)"
    if "\<forall>x \<in> set xs. x = None \<or> (\<exists>q. x = Some q \<and> q \<noteq> [] \<and> utf8_len q = length q)" for xs
    using that by (induction xs) (simp_all add: html_rune_ok del: html_rune.simps)
  then have "unquote (quote_html s) = concat (map (case_option replacement (\<lambda>q. q)) (runes s))"
    unfolding quote_html_def using quote_rune_cases [of _ s] by blast
  also have "\<dots> = unquote (quote s)"
    unfolding quote_def by (rule unquote_concat_quote [symmetric]) (use quote_rune_cases in blast)
  finally show ?thesis using s by (simp add: unquote_quote_id)
qed

lemma json_ok_html: "json_ok d (json_html v) = json_ok d (json_of_any v)"
proof (induction v arbitrary: d rule: json_html.induct)
  case (6 m)
  then show ?case by (auto simp: body_ok_quote)
qed (auto simp: body_ok_quote)

lemma any_of_json_html: "goval_ok v \<Longrightarrow> any_of_json (json_html v) = Some v"
proof (induction v rule: goval_ok.induct)
  case (3 vs)
  then have "those (map (any_of_json \<circ> json_html) vs) = Some (map (\<lambda>x. x) vs)"
    by (intro those_map_Some) auto
  then show ?case by simp
next
  case (4 m)
  have "those (map ((\<lambda>(k, v). map_option (Pair (unquote k)) (any_of_json v)) \<circ> (\<lambda>(k, v). (quote_html k, json_html v))) m)
        = Some (map (\<lambda>x. x) m)"
    using 4 by (intro those_map_Some) (auto simp: unquote_quote_html)
  then show ?case using 4 by (simp add: smap_of_id)
qed (simp_all add: unquote_quote_html)

subsection \<open>Struct fields\<close>

text \<open>A member is decoded into the field of its name, or else of a name that differs in letter case only.
  Case folding maps the long s and the Kelvin sign to ASCII letters. No two fields here fold to the
  same name, so the exact match needs no separate treatment.\<close>

fun fold_name :: "bytes \<Rightarrow> bytes" where
  "fold_name [] = []"
| "fold_name (c # s) =
     (if in_range 65 90 c then chr (byte c + 32) # fold_name s
      else if c = CHR 0xC5 \<and> take 1 s = [CHR 0xBF] then CHR ''s'' # fold_name (drop 1 s)
      else if c = CHR 0xE2 \<and> take 2 s = [CHR 0x84, CHR 0xAA] then CHR ''k'' # fold_name (drop 2 s)
      else c # fold_name s)"

definition is_field :: "bytes \<Rightarrow> bytes \<Rightarrow> bool" where
  "is_field name key \<longleftrightarrow> fold_name key = fold_name name"

end
