(* ===== verification/Schema.thy ===== *)
theory Schema
  imports AppTrace JsonMarshal
begin

section \<open>Payload schemas\<close>

text \<open>
  \<open>schema/schema.go\<close>, \<open>schema/consumer.go\<close> and the interface and the map provider of \<open>schema/provider.go\<close>:
  the parsed subset of JSON Schema, the validator, the sensitive paths and the handler guard.

  A value is what JSON decoding gives (\<open>goval\<close>); a number is its canonical text and stands for the
  float64 it denotes, so the \<open>int\<close> case of \<open>toFloat\<close>, for values a program builds itself, does not
  arise. A Go map is walked in key order; the code sorts what it collects on the way. The \<open>%q\<close> form
  of a string is an argument \<open>q\<close>.
\<close>

subsection \<open>Numbers and values\<close>

text \<open>\<open>reflect.DeepEqual\<close> on decoded values: structural, except that the two zeros are equal.\<close>

fun deep_equal :: "goval \<Rightarrow> goval \<Rightarrow> bool" where
  "deep_equal GNull GNull = True"
| "deep_equal (GBool a) (GBool b) = (a = b)"
| "deep_equal (GNum a) (GNum b) = (num_units a = num_units b)"
| "deep_equal (GStr a) (GStr b) = (a = b)"
| "deep_equal (GArr xs) (GArr ys) = list_all2 deep_equal xs ys"
| "deep_equal (GObj m) (GObj n) = list_all2 (\<lambda>(k, x) (j, y). k = j \<and> deep_equal x y) m n"
| "deep_equal _ _ = False"

text \<open>The \<open>%v\<close> form. A float64 is written with the shortest digits, in the exponent form from
  \<open>1e+06\<close> on and below \<open>1e-04\<close>.\<close>

definition fmt_exponent :: "int \<Rightarrow> bytes" where
  "fmt_exponent e =
     ''e'' @ (if e < 0 then ''-'' else ''+'') @ (if \<bar>e\<bar> < 10 then ''0'' else []) @ dec \<bar>e\<bar>"

definition fmt_float :: "bytes \<Rightarrow> bytes" where
  "fmt_float l =
     (case literal_parts l of
        None \<Rightarrow> l
      | Some (neg, d, x) \<Rightarrow>
          (if neg then ''-'' else []) @
          (if d = 0 then ''0''
           else let ds = strip_zeros (dec d); k = x + int (length (dec d))
                in if k - 1 < -4 \<or> 6 \<le> k - 1
                   then take 1 ds @ (if drop 1 ds = [] then [] else ''.'' @ drop 1 ds) @ fmt_exponent (k - 1)
                   else layout_f ds k))"

fun fmt_value :: "goval \<Rightarrow> bytes" where
  "fmt_value GNull = ''<nil>''"
| "fmt_value (GBool b) = (if b then ''true'' else ''false'')"
| "fmt_value (GNum l) = fmt_float l"
| "fmt_value (GStr s) = s"
| "fmt_value (GArr vs) = ''['' @ intersperse '' '' (map fmt_value vs) @ '']''"
| "fmt_value (GObj m) = ''map['' @ intersperse '' '' (map (\<lambda>(k, v). k @ '':'' @ fmt_value v) m) @ '']''"

subsection \<open>Schemas\<close>

text \<open>A schema node. \<open>HasConst\<close> and \<open>Const\<close> are one optional value.\<close>

datatype schema = Schema
  (s_type: bytes)
  (s_required: "bytes list")
  (s_properties: "(bytes \<times> schema) list")
  (s_additional: "bool option")
  (s_items: "schema option")
  (s_enum: "goval list option")
  (s_const: "goval option")
  (s_min_length: "int option")
  (s_minimum: "bytes option")
  (s_sensitive: bool)
  (s_category: bytes)

lemma size_member: "(k, v) \<in> set m \<Longrightarrow> size v < size (GObj m)"
  using size_list_estimation' [of "(k, v)" m "size v" "size_prod (\<lambda>x. 0) size"] by simp

lemma size_map_of: "smap_get m k = Some v \<Longrightarrow> size v < size (GObj m)"
  by (rule size_member) (rule map_of_SomeD)

lemma size_element: "x \<in> set xs \<Longrightarrow> size x < size (GArr xs)"
  using size_list_estimation' [of x xs "size x" size] by simp

function from_map :: "goval smap \<Rightarrow> schema" where
  "from_map m =
     Schema
       (case smap_get m ''type'' of Some (GStr t) \<Rightarrow> t | _ \<Rightarrow> [])
       (case smap_get m ''required'' of
          Some (GArr rs) \<Rightarrow> concat (map (\<lambda>r. case r of GStr n \<Rightarrow> [n] | _ \<Rightarrow> []) rs) | _ \<Rightarrow> [])
       (case smap_get m ''properties'' of
          Some (GObj ps) \<Rightarrow> concat (map (\<lambda>(n, p). case p of GObj pm \<Rightarrow> [(n, from_map pm)] | _ \<Rightarrow> []) ps) | _ \<Rightarrow> [])
       (case smap_get m ''additionalProperties'' of Some (GBool b) \<Rightarrow> Some b | _ \<Rightarrow> None)
       (case smap_get m ''items'' of Some (GObj im) \<Rightarrow> Some (from_map im) | _ \<Rightarrow> None)
       (case smap_get m ''enum'' of Some (GArr vs) \<Rightarrow> Some vs | _ \<Rightarrow> None)
       (smap_get m ''const'')
       (case smap_get m ''minLength'' of Some (GNum l) \<Rightarrow> Some (int_of_num l) | _ \<Rightarrow> None)
       (case smap_get m ''minimum'' of Some (GNum l) \<Rightarrow> Some l | _ \<Rightarrow> None)
       (case smap_get m ''x-gdpr-sensitive'' of Some (GBool b) \<Rightarrow> b | Some (GStr c) \<Rightarrow> c \<noteq> [] | _ \<Rightarrow> False)
       (case smap_get m ''x-gdpr-sensitive'' of Some (GStr c) \<Rightarrow> c | _ \<Rightarrow> [])"
  by auto
termination
proof (relation "measure (\<lambda>m. size (GObj m))", goal_cases)
  case (2 m g ps x n p pm)
  then show ?case using size_map_of [of m "''properties''" g] size_member [of n p ps] by simp
next
  case (3 m g im)
  then show ?case using size_map_of [of m "''items''" g] by simp
qed simp

declare from_map.simps [simp del]

definition parse_schema :: "(bytes \<Rightarrow> bytes) \<Rightarrow> bytes \<Rightarrow> go_error + schema" where
  "parse_schema stx raw =
     (case (case json_parse raw of None \<Rightarrow> Inl (syntax_error stx raw) | Some doc \<Rightarrow> assign_data doc) of
        Inl e \<Rightarrow> Inl (wrap_error ''schema: parse: '' e [])
      | Inr m \<Rightarrow> Inr (from_map (case_option [] (\<lambda>x. x) m)))"

subsection \<open>Sensitive paths\<close>

record sensitive_path =
  sp_path :: bytes
  sp_category :: bytes

definition join_path :: "bytes \<Rightarrow> bytes \<Rightarrow> bytes" where
  "join_path path key = (if path = [] then key else path @ ''.'' @ key)"

fun collect_sensitive :: "schema \<Rightarrow> bytes \<Rightarrow> sensitive_path list" where
  "collect_sensitive (Schema ty req props ap items en co ml mi sens cat) path =
     (if sens then [\<lparr>sp_path = path, sp_category = cat\<rparr>] else []) @
     concat (map (\<lambda>(n, sub). collect_sensitive sub (join_path path n)) props) @
     (case items of None \<Rightarrow> [] | Some it \<Rightarrow> collect_sensitive it (path @ ''[]''))"

definition sensitive_paths :: "schema option \<Rightarrow> sensitive_path list" where
  "sensitive_paths s =
     (case s of None \<Rightarrow> [] | Some sch \<Rightarrow> sort_key sp_path (collect_sensitive sch []))"

subsection \<open>Validation\<close>

definition at_path :: "bytes \<Rightarrow> bytes \<Rightarrow> bytes" where
  "at_path path msg = (if path = [] then msg else path @ '': '' @ msg)"

definition in_enum :: "goval \<Rightarrow> goval list \<Rightarrow> bool" where
  "in_enum v vs \<longleftrightarrow> (\<exists>e \<in> set vs. deep_equal v e)"

definition to_float :: "goval \<Rightarrow> int option" where
  "to_float v = (case v of GNum l \<Rightarrow> Some (num_units l) | _ \<Rightarrow> None)"

definition is_number :: "goval \<Rightarrow> bool" where
  "is_number v \<longleftrightarrow> to_float v \<noteq> None"

definition is_integer :: "goval \<Rightarrow> bool" where
  "is_integer v = (case to_float v of None \<Rightarrow> False | Some u \<Rightarrow> u mod 2 ^ 1074 = 0)"

definition check_minimum :: "schema \<Rightarrow> bytes \<Rightarrow> goval \<Rightarrow> bytes list" where
  "check_minimum s path v =
     (case s_minimum s of
        None \<Rightarrow> []
      | Some l \<Rightarrow>
          (case to_float v of
             None \<Rightarrow> []
           | Some u \<Rightarrow> if u < num_units l then [at_path path (''must be >= '' @ fmt_float l)] else []))"

definition check_const :: "schema \<Rightarrow> bytes \<Rightarrow> goval \<Rightarrow> bytes list" where
  "check_const s path v =
     (case s_const s of
        None \<Rightarrow> []
      | Some c \<Rightarrow> if deep_equal v c then [] else [at_path path (''must equal const '' @ fmt_value c)])"

definition enum_message :: bytes where
  "enum_message = ''value is not one of the allowed enum values''"

definition check_enum :: "schema \<Rightarrow> bytes \<Rightarrow> goval \<Rightarrow> bytes list" where
  "check_enum s path v =
     (case s_enum s of None \<Rightarrow> [] | Some vs \<Rightarrow> if in_enum v vs then [] else [at_path path enum_message])"

text \<open>The types whose check does not descend into the value.\<close>

definition check_scalar :: "schema \<Rightarrow> bytes \<Rightarrow> goval \<Rightarrow> bytes list" where
  "check_scalar s path v =
     (if s_type s = ''string'' then
        (case v of
           GStr t \<Rightarrow>
             (case s_min_length s of
                None \<Rightarrow> []
              | Some n \<Rightarrow> if int (length (runes t)) < n
                          then [at_path path (''must be at least '' @ int_text n @ '' characters'')] else [])
         | _ \<Rightarrow> [at_path path ''must be a string''])
      else if s_type s = ''integer'' then
        (if is_integer v then check_minimum s path v else [at_path path ''must be an integer''])
      else if s_type s = ''number'' then
        (if is_number v then check_minimum s path v else [at_path path ''must be a number''])
      else if s_type s = ''boolean'' then (case v of GBool b \<Rightarrow> [] | _ \<Rightarrow> [at_path path ''must be a boolean''])
      else if s_type s = ''null'' then (if v = GNull then [] else [at_path path ''must be null''])
      else [])"

definition missing_required :: "(bytes \<Rightarrow> bytes) \<Rightarrow> schema \<Rightarrow> bytes \<Rightarrow> goval smap \<Rightarrow> bytes list" where
  "missing_required q s path m =
     concat (map (\<lambda>r. if smap_get m r = None then [at_path path (''missing required property '' @ q r)] else [])
       (s_required s))"

definition additional_message :: "(bytes \<Rightarrow> bytes) \<Rightarrow> bytes \<Rightarrow> bytes \<Rightarrow> bytes" where
  "additional_message q path key = at_path path (''additional property '' @ q key @ '' is not allowed'')"

definition item_path :: "bytes \<Rightarrow> nat \<Rightarrow> bytes" where
  "item_path path i = path @ ''['' @ int_text (int i) @ '']''"

function validate :: "(bytes \<Rightarrow> bytes) \<Rightarrow> schema \<Rightarrow> bytes \<Rightarrow> goval \<Rightarrow> bytes list"
  and validate_object :: "(bytes \<Rightarrow> bytes) \<Rightarrow> schema \<Rightarrow> bytes \<Rightarrow> goval \<Rightarrow> bytes list"
  and validate_array :: "(bytes \<Rightarrow> bytes) \<Rightarrow> schema \<Rightarrow> bytes \<Rightarrow> goval \<Rightarrow> bytes list" where
  "validate q s path v =
     check_const s path v @ check_enum s path v @
     (if s_type s = ''object'' then validate_object q s path v
      else if s_type s = ''array'' then validate_array q s path v
      else check_scalar s path v)"
| "validate_object q s path v =
     (case v of
        GObj m \<Rightarrow>
          missing_required q s path m @
          concat (map (\<lambda>(key, x).
            case smap_get (s_properties s) key of
              Some sub \<Rightarrow> validate q sub (join_path path key) x
            | None \<Rightarrow> if s_additional s = Some False then [additional_message q path key] else []) m)
      | _ \<Rightarrow> [at_path path ''must be an object''])"
| "validate_array q s path v =
     (case v of
        GArr xs \<Rightarrow>
          (case s_items s of
             None \<Rightarrow> []
           | Some it \<Rightarrow> concat (map (\<lambda>(i, x). validate q it (item_path path i) x) (enumerate 0 xs)))
      | _ \<Rightarrow> [at_path path ''must be an array''])"
  by pat_completeness auto
termination
proof (relation "measure (\<lambda>a. case a of
    Inl (q, s, p, v) \<Rightarrow> 2 * size v + 1
  | Inr b \<Rightarrow> (case b of Inl (q, s, p, v) \<Rightarrow> 2 * size v | Inr (q, s, p, v) \<Rightarrow> 2 * size v))", goal_cases)
  case (4 q s path v m a key x sub)
  then show ?case using size_member [of key x m] by (auto dest: sym)
next
  case (5 q s path v xs it a i x)
  then have "x \<in> set xs" by (auto simp: in_set_enumerate_eq)
  then show ?case using 5 size_element [of x xs] by simp
qed simp_all

declare validate.simps [simp del] validate_object.simps [simp del] validate_array.simps [simp del]

text \<open>\<open>Validate\<close> sorts what it found.\<close>

definition schema_validate :: "(bytes \<Rightarrow> bytes) \<Rightarrow> schema \<Rightarrow> goval \<Rightarrow> bytes list" where
  "schema_validate q s v = sort (validate q s [] v)"

text \<open>The data block is a \<open>map[string]any\<close>: a nil map is an object without members, but one that
  \<open>DeepEqual\<close> finds different from every decoded value.\<close>

definition validate_data :: "(bytes \<Rightarrow> bytes) \<Rightarrow> schema \<Rightarrow> goval smap option \<Rightarrow> bytes list" where
  "validate_data q s data =
     (case data of
        Some m \<Rightarrow> schema_validate q s (GObj m)
      | None \<Rightarrow>
          sort ((case s_const s of None \<Rightarrow> [] | Some c \<Rightarrow> [''must equal const '' @ fmt_value c]) @
                (if s_enum s = None then [] else [enum_message]) @
                (if s_type s = ''object'' then validate_object q s [] (GObj [])
                 else if s_type s = ''array'' then validate_array q s [] (GObj [])
                 else check_scalar s [] (GObj []))))"

subsection \<open>Providers\<close>

text \<open>A lookup gives an error, no schema (\<open>found\<close> is false), or the schema.\<close>

type_synonym 'w provider = "bytes \<Rightarrow> 'w \<Rightarrow> (go_error + schema option) \<times> 'w"

text \<open>The raw schemas come in the order the loop over the Go map takes them.\<close>

fun new_map_provider ::
  "(bytes \<Rightarrow> bytes) \<Rightarrow> (bytes \<Rightarrow> bytes) \<Rightarrow> (bytes \<times> bytes) list \<Rightarrow> schema smap \<Rightarrow> go_error + schema smap" where
  "new_map_provider stx q [] m = Inr m"
| "new_map_provider stx q ((u, body) # raw) m =
     (case parse_schema stx body of
        Inl e \<Rightarrow> Inl (wrap_error (''schema: '' @ q u @ '': '') e [])
      | Inr s \<Rightarrow> new_map_provider stx q raw (smap_put u s m))"

definition map_provider :: "schema smap \<Rightarrow> 'w provider" where
  "map_provider schemas u w = (Inr (smap_get schemas u), w)"

subsection \<open>The guards\<close>

definition invalid_payload :: "(bytes \<Rightarrow> bytes) \<Rightarrow> bytes \<Rightarrow> bytes list \<Rightarrow> go_error" where
  "invalid_payload q u violations =
     wrap_error [] (plain_error ErrInvalidPayload) ('' for '' @ q u @ '': '' @ intersperse ''; '' violations)"

definition schema_check ::
  "(bytes \<Rightarrow> bytes) \<Rightarrow> 'w provider \<Rightarrow> bytes \<Rightarrow> goval smap option \<Rightarrow> 'w effect" where
  "schema_check q provider u data w =
     (case provider u w of
        (Inl e, w') \<Rightarrow> (Some (wrap_error (''schema: lookup '' @ q u @ '': '') e []), w')
      | (Inr None, w') \<Rightarrow> (None, w')
      | (Inr (Some s), w') \<Rightarrow>
          (let violations = validate_data q s data
           in (if violations = [] then None else Some (invalid_payload q u violations), w')))"

definition validate_envelope :: "(bytes \<Rightarrow> bytes) \<Rightarrow> 'w provider \<Rightarrow> envelope \<Rightarrow> 'w effect" where
  "validate_envelope q provider env w = schema_check q provider (urn env) (env_data env) w"

definition schema_wrap :: "(bytes \<Rightarrow> bytes) \<Rightarrow> 'w provider \<Rightarrow> 'w handler \<Rightarrow> 'w handler" where
  "schema_wrap q provider h ctx env w =
     (case validate_envelope q provider env w of
        (Some e, w') \<Rightarrow> (Some e, w')
      | (None, w') \<Rightarrow> h ctx env w')"

end
