(* ===== verification/SchemaLaws.thy ===== *)
theory SchemaLaws
  imports Schema
begin

section \<open>What the validator decides\<close>

text \<open>
  The declarative reading of a schema (\<open>conforms\<close>), the proof that the validator finds a violation
  exactly when a value does not conform, and that the sensitivity marks do not take part in it.
\<close>

definition kind_ok :: "bytes \<Rightarrow> goval \<Rightarrow> bool" where
  "kind_ok t v \<longleftrightarrow>
     (t = ''object'' \<longrightarrow> (\<exists>m. v = GObj m)) \<and> (t = ''array'' \<longrightarrow> (\<exists>xs. v = GArr xs)) \<and>
     (t = ''string'' \<longrightarrow> (\<exists>s. v = GStr s)) \<and> (t = ''boolean'' \<longrightarrow> (\<exists>b. v = GBool b)) \<and>
     (t = ''null'' \<longrightarrow> v = GNull) \<and> (t = ''number'' \<longrightarrow> (\<exists>l. v = GNum l)) \<and>
     (t = ''integer'' \<longrightarrow> (\<exists>l. v = GNum l \<and> num_units l mod 2 ^ 1074 = 0))"

function conforms :: "schema \<Rightarrow> goval \<Rightarrow> bool" where
  "conforms s v \<longleftrightarrow>
     (\<forall>c. s_const s = Some c \<longrightarrow> deep_equal v c) \<and>
     (\<forall>vs. s_enum s = Some vs \<longrightarrow> (\<exists>e \<in> set vs. deep_equal v e)) \<and>
     kind_ok (s_type s) v \<and>
     (case v of
        GObj m \<Rightarrow> s_type s = ''object'' \<longrightarrow>
          set (s_required s) \<subseteq> fst ` set m \<and>
          (\<forall>(k, x) \<in> set m. case smap_get (s_properties s) k of
             Some sub \<Rightarrow> conforms sub x | None \<Rightarrow> s_additional s \<noteq> Some False)
      | GArr xs \<Rightarrow> s_type s = ''array'' \<longrightarrow>
          (case s_items s of None \<Rightarrow> True | Some it \<Rightarrow> \<forall>x \<in> set xs. conforms it x)
      | GStr t \<Rightarrow> s_type s = ''string'' \<longrightarrow> (\<forall>n. s_min_length s = Some n \<longrightarrow> n \<le> int (length (runes t)))
      | GNum l \<Rightarrow> s_type s \<in> {''integer'', ''number''} \<longrightarrow>
          (\<forall>b. s_minimum s = Some b \<longrightarrow> num_units b \<le> num_units l)
      | _ \<Rightarrow> True)"
  by auto
termination
proof (relation "measure (\<lambda>(s, v). size v)")
  fix s :: schema and v x and xs :: "goval list" and it
  assume "v = GArr xs" "x \<in> set xs"
  then show "((it, x), (s, v)) \<in> measure (\<lambda>(s, v). size v)" using size_element [of x xs] by simp
qed (auto dest: size_member)

declare conforms.simps [simp del]

definition data_conforms :: "schema \<Rightarrow> goval smap option \<Rightarrow> bool" where
  "data_conforms s data \<longleftrightarrow>
     (case data of
        Some m \<Rightarrow> conforms s (GObj m)
      | None \<Rightarrow> s_const s = None \<and> s_enum s = None \<and> conforms s (GObj []))"

lemma check_const_Nil: "check_const s path v = [] \<longleftrightarrow> (\<forall>c. s_const s = Some c \<longrightarrow> deep_equal v c)"
  by (auto simp: check_const_def split: option.split)

lemma check_enum_Nil: "check_enum s path v = [] \<longleftrightarrow> (\<forall>vs. s_enum s = Some vs \<longrightarrow> (\<exists>e \<in> set vs. deep_equal v e))"
  by (auto simp: check_enum_def in_enum_def split: option.split)

lemma check_minimum_Nil:
  "check_minimum s path (GNum l) = [] \<longleftrightarrow> (\<forall>b. s_minimum s = Some b \<longrightarrow> num_units b \<le> num_units l)"
  by (auto simp: check_minimum_def to_float_def split: option.split)

lemma check_scalar_Nil:
  assumes "s_type s \<noteq> ''object''" and "s_type s \<noteq> ''array''"
  shows "check_scalar s path v = [] \<longleftrightarrow> kind_ok (s_type s) v \<and>
     (case v of
        GStr t \<Rightarrow> s_type s = ''string'' \<longrightarrow> (\<forall>n. s_min_length s = Some n \<longrightarrow> n \<le> int (length (runes t)))
      | GNum l \<Rightarrow> s_type s \<in> {''integer'', ''number''} \<longrightarrow>
          (\<forall>b. s_minimum s = Some b \<longrightarrow> num_units b \<le> num_units l)
      | _ \<Rightarrow> True)"
  using assms
  by (cases v)
    (auto simp: check_scalar_def kind_ok_def is_integer_def is_number_def to_float_def check_minimum_Nil
      split: option.split)

lemma missing_required_Nil: "missing_required q s path m = [] \<longleftrightarrow> set (s_required s) \<subseteq> fst ` set m"
  by (auto simp: missing_required_def map_of_eq_None_iff split: if_splits)

lemma at_path_ne: "additional_message q path k \<noteq> []" for k
  by (simp add: additional_message_def at_path_def)

lemma validate_Nil:
  "validate q s path v = [] \<longleftrightarrow> conforms s v"
  "validate_object q s path v = [] \<longleftrightarrow>
     (\<exists>m. v = GObj m \<and> set (s_required s) \<subseteq> fst ` set m \<and>
       (\<forall>(k, x) \<in> set m. case smap_get (s_properties s) k of
          Some sub \<Rightarrow> conforms sub x | None \<Rightarrow> s_additional s \<noteq> Some False))"
  "validate_array q s path v = [] \<longleftrightarrow>
     (\<exists>xs. v = GArr xs \<and> (case s_items s of None \<Rightarrow> True | Some it \<Rightarrow> \<forall>x \<in> set xs. conforms it x))"
proof (induction q s path v and q s path v and q s path v
    rule: validate_validate_object_validate_array.induct)
  case (1 q s path v)
  consider "s_type s = ''object''" | "s_type s = ''array''" | "s_type s \<noteq> ''object''" "s_type s \<noteq> ''array''"
    by blast
  then show ?case
  proof cases
    case 3
    then show ?thesis
      unfolding validate.simps [of q s path v] conforms.simps [of s v]
      by (cases v) (auto simp: check_const_Nil check_enum_Nil check_scalar_Nil)
  next
    case 1
    then show ?thesis using "1.IH"(1)
      unfolding validate.simps [of q s path v] conforms.simps [of s v]
      by (cases v) (auto simp: check_const_Nil check_enum_Nil kind_ok_def)
  next
    case 2
    then show ?thesis using "1.IH"(2)
      unfolding validate.simps [of q s path v] conforms.simps [of s v]
      by (cases v) (auto simp: check_const_Nil check_enum_Nil kind_ok_def)
  qed
next
  case (2 q s path v)
  show ?case
  proof (cases v)
    case (GObj m)
    have "(case smap_get (s_properties s) k of
         Some sub \<Rightarrow> validate q sub (join_path path k) x
       | None \<Rightarrow> if s_additional s = Some False then [additional_message q path k] else []) = [] \<longleftrightarrow>
      (case smap_get (s_properties s) k of Some sub \<Rightarrow> conforms sub x | None \<Rightarrow> s_additional s \<noteq> Some False)"
      if "(k, x) \<in> set m" for k x
      using 2 GObj that by (auto split: option.split)
    then show ?thesis unfolding GObj validate_object.simps
      by (fastforce simp: missing_required_Nil)
  qed (auto simp: validate_object.simps at_path_def)
next
  case (3 q s path v)
  show ?case
  proof (cases v)
    case (GArr xs)
    show ?thesis
    proof (cases "s_items s")
      case (Some it)
      have "validate q it (item_path path i) x = [] \<longleftrightarrow> conforms it x" if "(i, x) \<in> set (enumerate 0 xs)" for i x
        using 3 GArr Some that by auto
      then have "(\<forall>(i, x) \<in> set (enumerate 0 xs). validate q it (item_path path i) x = []) \<longleftrightarrow>
        (\<forall>(i, x) \<in> set (enumerate 0 xs). conforms it x)" by auto
      also have "\<dots> \<longleftrightarrow> (\<forall>x \<in> snd ` set (enumerate 0 xs). conforms it x)" by auto
      also have "snd ` set (enumerate 0 xs) = set xs" by (metis list.set_map map_snd_enumerate)
      finally show ?thesis unfolding GArr validate_array.simps Some by (simp add: case_prod_beta)
    qed (simp add: GArr validate_array.simps)
  qed (auto simp: validate_array.simps at_path_def)
qed

lemma validate_data_Nil: "validate_data q s data = [] \<longleftrightarrow> data_conforms s data"
proof (cases data)
  case None
  have sort_Nil: "sort xs = [] \<longleftrightarrow> xs = []" for xs :: "bytes list"
    by (metis length_0_conv length_sort)
  have "check_const s [] (GObj []) @ check_enum s [] (GObj []) = []" if "s_const s = None" "s_enum s = None"
    using that by (simp add: check_const_def check_enum_def)
  then have "s_const s = None \<Longrightarrow> s_enum s = None \<Longrightarrow> validate q s [] (GObj []) =
    (if s_type s = ''object'' then validate_object q s [] (GObj [])
     else if s_type s = ''array'' then validate_array q s [] (GObj []) else check_scalar s [] (GObj []))"
    unfolding validate.simps [of q s "[]" "GObj []"] by simp
  then show ?thesis using validate_Nil(1) [of q s "[]" "GObj []"] None
    by (auto simp: validate_data_def data_conforms_def sort_Nil split: option.splits)
next
  case (Some m)
  have "sort xs = [] \<longleftrightarrow> xs = []" for xs :: "bytes list"
    by (metis length_0_conv length_sort)
  then show ?thesis using Some
    by (simp add: validate_data_def data_conforms_def schema_validate_def validate_Nil)
qed

text \<open>C18. A guarded handler only ever sees data that conforms to the schema of its URN. When the
  provider fails its error is returned; without a schema the handler runs unchanged; with one it runs
  exactly when the data conforms, and otherwise the violations are returned under
  \<open>ErrInvalidPayload\<close> and the handler does not run.\<close>

theorem schema_guard:
  "schema_wrap q provider h ctx env w =
     (case provider (urn env) w of
        (Inl e, w') \<Rightarrow> (Some (wrap_error (''schema: lookup '' @ q (urn env) @ '': '') e []), w')
      | (Inr None, w') \<Rightarrow> h ctx env w'
      | (Inr (Some s), w') \<Rightarrow>
          if data_conforms s (env_data env) then h ctx env w'
          else (Some (invalid_payload q (urn env) (validate_data q s (env_data env))), w'))"
proof -
  obtain r w' where p: "provider (urn env) w = (r, w')" by (cases "provider (urn env) w")
  show ?thesis
  proof (cases r)
    case (Inl e)
    then show ?thesis using p by (simp add: schema_wrap_def validate_envelope_def schema_check_def)
  next
    case (Inr o')
    then show ?thesis using p validate_data_Nil [of q _ "env_data env"]
      by (cases o') (simp_all add: schema_wrap_def validate_envelope_def schema_check_def Let_def)
  qed
qed

subsection \<open>Sensitivity marks\<close>

text \<open>A schema document without its \<open>x-gdpr-sensitive\<close> members, in every node the parser reads, and a
  parsed schema without its marks.\<close>

function unmark :: "goval smap \<Rightarrow> goval smap" where
  "unmark m =
     map (\<lambda>(k, v). (k,
       case v of
         GObj o' \<Rightarrow>
           if k = ''items'' then GObj (unmark o')
           else if k = ''properties''
                then GObj (map (\<lambda>(n, p). (n, case p of GObj pm \<Rightarrow> GObj (unmark pm) | _ \<Rightarrow> p)) o')
           else v
       | _ \<Rightarrow> v)) (filter (\<lambda>(k, v). k \<noteq> ''x-gdpr-sensitive'') m)"
  by auto
termination
proof (relation "measure (\<lambda>m. size (GObj m))", goal_cases)
  case (2 m x k v o')
  then show ?case using size_member [of k v m] by auto
next
  case (3 m x k v o' y n p pm)
  then show ?case using size_member [of k v m] size_member [of n p o'] by auto
qed simp

declare unmark.simps [simp del]

fun strip_marks :: "schema \<Rightarrow> schema" where
  "strip_marks (Schema ty req props ap items en co ml mi sens cat) =
     Schema ty req (map (\<lambda>(n, s). (n, strip_marks s)) props) ap
       (case items of None \<Rightarrow> None | Some it \<Rightarrow> Some (strip_marks it)) en co ml mi False []"

lemma smap_get_map_filter:
  "smap_get (map (\<lambda>(k, v). (k, f k v)) (filter (\<lambda>(k, v). k \<noteq> d) m)) k =
     (if k = d then None else map_option (f k) (smap_get m k))"
  by (induction m) auto

lemma smap_get_unmark:
  "smap_get (unmark m) k =
     (if k = ''x-gdpr-sensitive'' then None
      else map_option (\<lambda>v.
        case v of
          GObj o' \<Rightarrow>
            if k = ''items'' then GObj (unmark o')
            else if k = ''properties''
                 then GObj (map (\<lambda>(n, p). (n, case p of GObj pm \<Rightarrow> GObj (unmark pm) | _ \<Rightarrow> p)) o')
            else v
        | _ \<Rightarrow> v) (smap_get m k))"
  by (subst unmark.simps) (rule smap_get_map_filter)

lemma unmark_other:
  "k \<noteq> ''x-gdpr-sensitive'' \<Longrightarrow> k \<noteq> ''items'' \<Longrightarrow> k \<noteq> ''properties'' \<Longrightarrow> smap_get (unmark m) k = smap_get m k"
  by (cases "smap_get m k") (auto simp: smap_get_unmark split: goval.split)

lemma unmark_properties:
  assumes "\<And>g ps n pm. smap_get m ''properties'' = Some (GObj ps) \<Longrightarrow> (n, GObj pm) \<in> set ps \<Longrightarrow> f (unmark pm) = h (f pm)"
  shows "(case smap_get (unmark m) ''properties'' of
        Some (GObj ps) \<Rightarrow> concat (map (\<lambda>(n, p). case p of GObj pm \<Rightarrow> [(n, f pm)] | _ \<Rightarrow> []) ps) | _ \<Rightarrow> [])
    = map (\<lambda>(n, s). (n, h s)) (case smap_get m ''properties'' of
        Some (GObj ps) \<Rightarrow> concat (map (\<lambda>(n, p). case p of GObj pm \<Rightarrow> [(n, f pm)] | _ \<Rightarrow> []) ps) | _ \<Rightarrow> [])"
proof (cases "\<exists>ps. smap_get m ''properties'' = Some (GObj ps)")
  case True
  then obtain ps where ps: "smap_get m ''properties'' = Some (GObj ps)" by blast
  have *: "concat (map (\<lambda>(n, p). case p of GObj pm \<Rightarrow> [(n, f pm)] | _ \<Rightarrow> [])
      (map (\<lambda>(n, p). (n, case p of GObj pm \<Rightarrow> GObj (unmark pm) | _ \<Rightarrow> p)) qs)) =
    map (\<lambda>(n, s). (n, h s)) (concat (map (\<lambda>(n, p). case p of GObj pm \<Rightarrow> [(n, f pm)] | _ \<Rightarrow> []) qs))"
    if "set qs \<subseteq> set ps" for qs
    using that
  proof (induction qs)
    case (Cons x qs)
    obtain n p where x: "x = (n, p)" by (cases x)
    have "f (unmark pm) = h (f pm)" if "p = GObj pm" for pm
      using assms [OF ps, of n pm] that Cons.prems x by auto
    then show ?case using Cons x by (cases p) auto
  qed simp
  show ?thesis using * [of ps] ps by (simp add: smap_get_unmark)
next
  case False
  then show ?thesis
    by (cases "smap_get m ''properties''") (auto simp: smap_get_unmark split: goval.split)
qed

lemma from_map_unmark: "from_map (unmark m) = strip_marks (from_map m)"
proof (induction m rule: from_map.induct)
  case (1 m)
  have "(case smap_get (unmark m) ''items'' of Some (GObj im) \<Rightarrow> Some (from_map im) | _ \<Rightarrow> None) =
    (case (case smap_get m ''items'' of Some (GObj im) \<Rightarrow> Some (from_map im) | _ \<Rightarrow> None) of
       None \<Rightarrow> None | Some it \<Rightarrow> Some (strip_marks it))"
    using 1(2) by (auto simp: smap_get_unmark split: option.split goval.split)
  moreover have p: "from_map (unmark pm) = strip_marks (from_map pm)"
    if "smap_get m ''properties'' = Some (GObj ps)" "(n, GObj pm) \<in> set ps" for ps n pm
    using 1(1) [OF that(1) refl that(2) refl refl] .
  ultimately show ?case
    unfolding from_map.simps [of "unmark m"] from_map.simps [of m] strip_marks.simps
    using unmark_properties [where f = from_map and h = strip_marks, OF p]
    by (simp add: unmark_other smap_get_unmark [of m "''x-gdpr-sensitive''"])
qed

lemma strip_sel [simp]:
  "s_type (strip_marks s) = s_type s" "s_required (strip_marks s) = s_required s"
  "s_additional (strip_marks s) = s_additional s" "s_enum (strip_marks s) = s_enum s"
  "s_const (strip_marks s) = s_const s" "s_min_length (strip_marks s) = s_min_length s"
  "s_minimum (strip_marks s) = s_minimum s" "s_items (strip_marks s) = map_option strip_marks (s_items s)"
  "smap_get (s_properties (strip_marks s)) k = map_option strip_marks (smap_get (s_properties s) k)"
proof -
  have "smap_get (map (\<lambda>(n, s). (n, strip_marks s)) ps) k = map_option strip_marks (smap_get ps k)" for ps
    by (induction ps) auto
  then show "smap_get (s_properties (strip_marks s)) k = map_option strip_marks (smap_get (s_properties s) k)"
    by (cases s) simp
qed (cases s; simp add: option.case_eq_if map_option_case)+

lemma strip_checks [simp]:
  "check_const (strip_marks s) path v = check_const s path v"
  "check_enum (strip_marks s) path v = check_enum s path v"
  "check_scalar (strip_marks s) path v = check_scalar s path v"
  "missing_required q (strip_marks s) path m = missing_required q s path m"
  unfolding check_const_def check_enum_def check_scalar_def check_minimum_def missing_required_def strip_sel
  by (rule refl)+

lemma validate_strip:
  "validate q (strip_marks s) path v = validate q s path v"
  "validate_object q (strip_marks s) path v = validate_object q s path v"
  "validate_array q (strip_marks s) path v = validate_array q s path v"
proof (induction q s path v and q s path v and q s path v
    rule: validate_validate_object_validate_array.induct)
  case (1 q s path v)
  then show ?case by (simp add: validate.simps)
next
  case (2 q s path v)
  have "validate q (strip_marks sub) (join_path path k) x = validate q sub (join_path path k) x"
    if "v = GObj m" "(k, x) \<in> set m" "smap_get (s_properties s) k = Some sub" for m k x sub
    using 2 that by auto
  then show ?case
    by (cases v) (auto simp: validate_object.simps split: option.split intro!: arg_cong [of _ _ concat] map_cong)
next
  case (3 q s path v)
  then show ?case
    by (cases v) (auto simp: validate_array.simps split: option.split intro!: arg_cong [of _ _ concat] map_cong)
qed

lemma collect_strip: "collect_sensitive (strip_marks s) path = []"
  by (induction s path rule: collect_sensitive.induct) (auto split: option.split)

lemma validate_data_strip: "validate_data q (strip_marks s) d = validate_data q s d"
  unfolding validate_data_def schema_validate_def validate_strip strip_sel strip_checks by (rule refl)

text \<open>Marking data as sensitive never changes what is valid: a schema document and the same one
  without its \<open>x-gdpr-sensitive\<close> members, at every depth, give the same violations for every value,
  and only the marks make a path sensitive.\<close>

theorem marks_ignored:
  "schema_validate q (from_map (unmark m)) v = schema_validate q (from_map m) v
   \<and> validate_data q (from_map (unmark m)) d = validate_data q (from_map m) d
   \<and> sensitive_paths (Some (from_map (unmark m))) = []"
  by (simp add: from_map_unmark schema_validate_def validate_data_strip validate_strip sensitive_paths_def
      collect_strip)

end
