(* ===== verification/Gdpr.thy ===== *)
theory Gdpr
  imports SchemaLaws
begin

section \<open>Field encryption\<close>

text \<open>
  \<open>gdpr/gdpr.go\<close> and \<open>gdpr/cipher.go\<close>. \<open>Protect\<close> and \<open>Unprotect\<close> change the data block in place; here
  they return the changed block beside the error, so that what a failed run leaves behind is visible.
  The block is a tree, as decoding builds it: maps and slices a producer shares between two places of
  its data are not modelled. AES-GCM and the random source are parameters; the framing of the
  ciphertext and its base64 are the code's.
\<close>

subsection \<open>Ciphers\<close>

record 'w cipher =
  ci_encrypt :: "bytes \<Rightarrow> 'w \<Rightarrow> (go_error + bytes) \<times> 'w"
  ci_decrypt :: "bytes \<Rightarrow> 'w \<Rightarrow> (go_error + bytes) \<times> 'w"

text \<open>\<open>base64.StdEncoding\<close> reads groups of four, after dropping line ends; padding stands only at the
  end.\<close>

definition is_base64 :: "char \<Rightarrow> bool" where
  "is_base64 c \<longleftrightarrow> in_range 65 90 c \<or> in_range 97 122 c \<or> in_range 48 57 c \<or> c = CHR ''+'' \<or> c = CHR ''/''"

fun base64_groups :: "bytes \<Rightarrow> bytes option" where
  "base64_groups [] = Some []"
| "base64_groups (a # b # c # d # s) =
     (if \<not> is_base64 a \<or> \<not> is_base64 b then None
      else if c = CHR ''='' then (if d = CHR ''='' \<and> s = [] then Some (base64_decode [a, b, c, d]) else None)
      else if \<not> is_base64 c then None
      else if d = CHR ''='' then (if s = [] then Some (base64_decode [a, b, c, d]) else None)
      else if \<not> is_base64 d then None
      else map_option (\<lambda>r. base64_decode [a, b, c, d] @ r) (base64_groups s))"
| "base64_groups _ = None"

definition base64_read :: "bytes \<Rightarrow> bytes option" where
  "base64_read s = base64_groups (filter (\<lambda>c. c \<noteq> CHR 0x0D \<and> c \<noteq> CHR 0x0A) s)"

record aead =
  ae_nonce_size :: nat
  ae_seal :: "bytes \<Rightarrow> bytes \<Rightarrow> bytes"
  ae_open :: "bytes \<Rightarrow> bytes \<Rightarrow> go_error + bytes"

text \<open>\<open>gcm\<close> is \<open>aes.NewCipher\<close> followed by \<open>cipher.NewGCM\<close>, with the text of its own error.\<close>

definition new_aes_gcm :: "(bytes \<Rightarrow> go_error + aead) \<Rightarrow> bytes \<Rightarrow> go_error + aead" where
  "new_aes_gcm gcm key =
     (if length key \<in> {16, 24, 32}
      then (case gcm key of Inl e \<Rightarrow> Inl (wrap_error ''babelqueue/gdpr: new GCM: '' e []) | Inr a \<Rightarrow> Inr a)
      else Inl (wrap_error [] (plain_error ErrInvalidKeySize) ('' (got '' @ int_text (int (length key)) @ '')'')))"

definition aes_encrypt ::
  "aead \<Rightarrow> (nat \<Rightarrow> 'w \<Rightarrow> (go_error + bytes) \<times> 'w) \<Rightarrow> bytes \<Rightarrow> 'w \<Rightarrow> (go_error + bytes) \<times> 'w" where
  "aes_encrypt a random plaintext w =
     (case random (ae_nonce_size a) w of
        (Inl e, w') \<Rightarrow> (Inl (wrap_error ''babelqueue/gdpr: nonce: '' e []), w')
      | (Inr nonce, w') \<Rightarrow> (Inr (base64_encode (nonce @ ae_seal a nonce plaintext)), w'))"

text \<open>\<open>corrupt\<close> is the text of the base64 error.\<close>

definition aes_decrypt :: "aead \<Rightarrow> (bytes \<Rightarrow> bytes) \<Rightarrow> bytes \<Rightarrow> go_error + bytes" where
  "aes_decrypt a corrupt ciphertext =
     (case base64_read ciphertext of
        None \<Rightarrow> Inl (wrap_error [] (plain_error ErrMalformedCiphertext) ('': not base64: '' @ corrupt ciphertext))
      | Some raw \<Rightarrow>
          (let ns = ae_nonce_size a in
           if length raw < ns then Inl (wrap_error [] (plain_error ErrMalformedCiphertext) '': shorter than nonce'')
           else (case ae_open a (take ns raw) (drop ns raw) of
                   Inl e \<Rightarrow> Inl (wrap_error ''babelqueue/gdpr: decrypt: '' e [])
                 | Inr plaintext \<Rightarrow> Inr plaintext)))"

definition aes_gcm_cipher ::
  "aead \<Rightarrow> (nat \<Rightarrow> 'w \<Rightarrow> (go_error + bytes) \<times> 'w) \<Rightarrow> (bytes \<Rightarrow> bytes) \<Rightarrow> 'w cipher" where
  "aes_gcm_cipher a random corrupt =
     \<lparr>ci_encrypt = aes_encrypt a random, ci_decrypt = (\<lambda>s w. (aes_decrypt a corrupt s, w))\<rparr>"

subsection \<open>Leaves\<close>

text \<open>An operation on a leaf gives an error, no change (\<open>ok\<close> is false), or the new value. A decoded
  value always marshals.\<close>

type_synonym 'w leaf_op = "goval \<Rightarrow> 'w \<Rightarrow> (go_error + goval option) \<times> 'w"

definition encrypt_leaf :: "'w cipher \<Rightarrow> 'w leaf_op" where
  "encrypt_leaf c value w =
     (case ci_encrypt c (json_print (json_html value)) w of
        (Inl e, w') \<Rightarrow> (Inl (wrap_error ''babelqueue/gdpr: encrypt field: '' e []), w')
      | (Inr ct, w') \<Rightarrow> (Inr (Some (GStr ct)), w'))"

text \<open>\<open>json.Unmarshal\<close> into an \<open>any\<close>.\<close>

definition unmarshal_any :: "(bytes \<Rightarrow> bytes) \<Rightarrow> bytes \<Rightarrow> go_error + goval" where
  "unmarshal_any stx raw =
     (case json_parse raw of
        None \<Rightarrow> Inl (syntax_error stx raw)
      | Some doc \<Rightarrow>
          (case any_of_json doc of
             Some v \<Rightarrow> Inr v
           | None \<Rightarrow> Inl (type_error (''number '' @ case_option [] (\<lambda>l. l) (first_out_of_range doc)) ''float64'')))"

definition decrypt_leaf :: "(bytes \<Rightarrow> bytes) \<Rightarrow> 'w cipher \<Rightarrow> 'w leaf_op" where
  "decrypt_leaf stx c value w =
     (case value of
        GStr s \<Rightarrow>
          (case ci_decrypt c s w of
             (Inl e, w') \<Rightarrow> (Inl (wrap_error [] (plain_error ErrDecrypt) ('': '' @ err_text e)), w')
           | (Inr plaintext, w') \<Rightarrow>
               (case unmarshal_any stx plaintext of
                  Inl e \<Rightarrow> (Inl (wrap_error [] (plain_error ErrDecrypt)
                             ('': decoded plaintext is not JSON: '' @ err_text e)), w')
                | Inr v \<Rightarrow> (Inr (Some v), w')))
      | _ \<Rightarrow> (Inr None, w))"

subsection \<open>Paths\<close>

record segment =
  seg_key :: bytes
  seg_array :: bool

fun split_dots_from :: "bytes \<Rightarrow> bytes \<Rightarrow> bytes list" where
  "split_dots_from part [] = [part]"
| "split_dots_from part (c # s) =
     (if c = CHR ''.'' then part # split_dots_from [] s else split_dots_from (part @ [c]) s)"

definition split_dots :: "bytes \<Rightarrow> bytes list" where
  "split_dots path = split_dots_from [] path"

definition parse_segment :: "bytes \<Rightarrow> segment" where
  "parse_segment part =
     (let n = length part in
      if 2 \<le> n \<and> drop (n - 2) part = ''[]'' then \<lparr>seg_key = take (n - 2) part, seg_array = True\<rparr>
      else \<lparr>seg_key = part, seg_array = False\<rparr>)"

definition parse_path :: "bytes \<Rightarrow> segment list" where
  "parse_path path = (if path = [] then [] else map parse_segment (split_dots path))"

definition apply_leaf :: "'w leaf_op \<Rightarrow> goval \<Rightarrow> 'w \<Rightarrow> (goval \<times> go_error option) \<times> 'w" where
  "apply_leaf f v w =
     (case f v w of
        (Inl e, w') \<Rightarrow> ((v, Some e), w')
      | (Inr None, w') \<Rightarrow> ((v, None), w')
      | (Inr (Some v'), w') \<Rightarrow> ((v', None), w'))"

text \<open>The loop over an array stops at the first error.\<close>

fun over_elements ::
  "(goval \<Rightarrow> 'w \<Rightarrow> (goval \<times> go_error option) \<times> 'w) \<Rightarrow> goval list \<Rightarrow> 'w
   \<Rightarrow> (goval list \<times> go_error option) \<times> 'w" where
  "over_elements f [] w = (([], None), w)"
| "over_elements f (x # xs) w =
     (case f x w of
        ((y, Some e), w') \<Rightarrow> ((y # xs, Some e), w')
      | ((y, None), w') \<Rightarrow> apfst (apfst ((#) y)) (over_elements f xs w'))"

primrec apply_at_path ::
  "'w leaf_op \<Rightarrow> segment list \<Rightarrow> goval \<Rightarrow> 'w \<Rightarrow> (goval \<times> go_error option) \<times> 'w" where
  "apply_at_path f [] node w = ((node, None), w)"
| "apply_at_path f (seg # segs) node w =
     (case node of
        GObj m \<Rightarrow>
          (case smap_get m (seg_key seg) of
             None \<Rightarrow> ((node, None), w)
           | Some child \<Rightarrow>
               (let on_value = (if segs = [] then apply_leaf f else apply_at_path f segs);
                    put = (\<lambda>v. GObj (smap_put (seg_key seg) v m))
                in if seg_array seg
                   then (case child of
                           GArr xs \<Rightarrow> apfst (apfst (\<lambda>ys. put (GArr ys))) (over_elements on_value xs w)
                         | _ \<Rightarrow> ((node, None), w))
                   else apfst (apfst put) (on_value child w)))
      | _ \<Rightarrow> ((node, None), w))"

fun walk_paths ::
  "'w leaf_op \<Rightarrow> segment list list \<Rightarrow> goval \<Rightarrow> 'w \<Rightarrow> (goval \<times> go_error option) \<times> 'w" where
  "walk_paths f [] node w = ((node, None), w)"
| "walk_paths f (p # ps) node w =
     (case apply_at_path f p node w of
        ((node', Some e), w') \<Rightarrow> ((node', Some e), w')
      | ((node', None), w') \<Rightarrow> walk_paths f ps node' w')"

text \<open>Nil data, a nil schema or a nil cipher is a no-op.\<close>

definition marked_paths :: "schema option \<Rightarrow> segment list list" where
  "marked_paths sch = map (\<lambda>sp. parse_path (sp_path sp)) (sensitive_paths sch)"

definition data_of :: "goval \<Rightarrow> goval smap" where
  "data_of v = (case v of GObj m \<Rightarrow> m | _ \<Rightarrow> [])"

definition walk ::
  "'w leaf_op \<Rightarrow> schema option \<Rightarrow> goval smap option \<Rightarrow> 'w \<Rightarrow> (goval smap option \<times> go_error option) \<times> 'w" where
  "walk f sch data w =
     (case data of
        None \<Rightarrow> ((None, None), w)
      | Some m \<Rightarrow> apfst (apfst (\<lambda>v. Some (data_of v))) (walk_paths f (marked_paths sch) (GObj m) w))"

definition protect ::
  "'w cipher option \<Rightarrow> schema option \<Rightarrow> goval smap option \<Rightarrow> 'w \<Rightarrow> (goval smap option \<times> go_error option) \<times> 'w" where
  "protect c sch data w = (case c of None \<Rightarrow> ((data, None), w) | Some c' \<Rightarrow> walk (encrypt_leaf c') sch data w)"

definition unprotect ::
  "(bytes \<Rightarrow> bytes) \<Rightarrow> 'w cipher option \<Rightarrow> schema option \<Rightarrow> goval smap option \<Rightarrow> 'w
   \<Rightarrow> (goval smap option \<times> go_error option) \<times> 'w" where
  "unprotect stx c sch data w =
     (case c of None \<Rightarrow> ((data, None), w) | Some c' \<Rightarrow> walk (decrypt_leaf stx c') sch data w)"

end
