(* ===== verification/GdprLaws.thy ===== *)
theory GdprLaws
  imports Gdpr
begin

section \<open>What field encryption guarantees\<close>

text \<open>
  Encrypting a leaf and decrypting the result gives the leaf back (\<open>seals_sealed\<close>); two paths of
  which neither runs through the other touch different leaves, so their operations commute
  (\<open>at_leaves_commute\<close>); hence the round trip of a whole data block.
\<close>

subsection \<open>A leaf\<close>

definition value_ok :: "nat \<Rightarrow> goval \<Rightarrow> bool" where
  "value_ok n v \<longleftrightarrow> goval_ok v \<and> json_ok n (json_of_any v)"

text \<open>What the package asks of a cipher: the ciphertext is a JSON-safe string, and it decrypts to the
  bytes it was made of.\<close>

definition cipher_ok :: "'w cipher \<Rightarrow> bool" where
  "cipher_ok c \<longleftrightarrow>
     (\<forall>p w s w1 w2. ci_encrypt c p w = (Inr s, w1) \<longrightarrow> utf8_ok s \<and> fst (ci_decrypt c s w2) = Inr p)"

definition sealed :: "(bytes \<Rightarrow> bytes) \<Rightarrow> 'w cipher \<Rightarrow> goval \<Rightarrow> goval \<Rightarrow> bool" where
  "sealed stx c x y \<longleftrightarrow> (\<exists>s. y = GStr s \<and> utf8_ok s \<and> (\<forall>w. fst (decrypt_leaf stx c y w) = Inr (Some x)))"

lemma encrypt_leaf_sealed:
  assumes "cipher_ok c" and "value_ok n x" and "encrypt_leaf c x w = (r, w')"
  shows "(\<exists>e. r = Inl e) \<or> (\<exists>y. r = Inr (Some y) \<and> sealed stx c x y)"
proof (cases "ci_encrypt c (json_print (json_html x)) w")
  case (Pair res w1)
  show ?thesis
  proof (cases res)
    case (Inr s)
    have "json_ok 0 (json_html x)"
      using assms(2) json_ok_mono [of n _ 0] by (auto simp: value_ok_def json_ok_html)
    then have p: "unmarshal_any stx (json_print (json_html x)) = Inr x"
      using assms(2) by (simp add: unmarshal_any_def json_parse_print any_of_json_html value_ok_def)
    have d: "fst (ci_decrypt c s w2) = Inr (json_print (json_html x))" "utf8_ok s" for w2
      using assms(1) Pair Inr unfolding cipher_ok_def by blast+
    have "fst (decrypt_leaf stx c (GStr s) w2) = Inr (Some x)" for w2
      using d(1) [of w2] p by (cases "ci_decrypt c s w2") (simp add: decrypt_leaf_def)
    then show ?thesis using assms(3) Pair Inr d(2) by (auto simp: encrypt_leaf_def sealed_def)
  qed (use assms(3) Pair in \<open>auto simp: encrypt_leaf_def\<close>)
qed

lemma sealed_value_ok: "sealed stx c x y \<Longrightarrow> value_ok n y"
  by (auto simp: sealed_def value_ok_def body_ok_quote)

subsection \<open>The leaves at a path\<close>

text \<open>\<open>d'\<close> is \<open>d\<close> with the leaves at the path related to the former ones, all else the same.\<close>

primrec at_leaves :: "(goval \<Rightarrow> goval \<Rightarrow> bool) \<Rightarrow> segment list \<Rightarrow> goval \<Rightarrow> goval \<Rightarrow> bool" where
  "at_leaves E [] d d' = (d' = d)"
| "at_leaves E (seg # segs) d d' =
     (case d of
        GObj m \<Rightarrow>
          (case smap_get m (seg_key seg) of
             None \<Rightarrow> d' = d
           | Some ch \<Rightarrow>
               (\<exists>ch'. d' = GObj (smap_put (seg_key seg) ch' m) \<and>
                 (let R = (if segs = [] then E else at_leaves E segs)
                  in if seg_array seg
                     then (case ch of GArr xs \<Rightarrow> \<exists>ys. ch' = GArr ys \<and> list_all2 R xs ys | _ \<Rightarrow> ch' = ch)
                     else R ch ch')))
      | _ \<Rightarrow> d' = d)"

definition child_rel :: "(goval \<Rightarrow> goval \<Rightarrow> bool) \<Rightarrow> segment \<Rightarrow> segment list \<Rightarrow> goval \<Rightarrow> goval \<Rightarrow> bool" where
  "child_rel E seg segs ch ch' =
     (let R = (if segs = [] then E else at_leaves E segs)
      in if seg_array seg
         then (case ch of GArr xs \<Rightarrow> \<exists>ys. ch' = GArr ys \<and> list_all2 R xs ys | _ \<Rightarrow> ch' = ch)
         else R ch ch')"

lemma at_leaves_GObj:
  "at_leaves E (seg # segs) (GObj m) d' =
     (case smap_get m (seg_key seg) of
        None \<Rightarrow> d' = GObj m
      | Some ch \<Rightarrow> \<exists>ch'. d' = GObj (smap_put (seg_key seg) ch' m) \<and> child_rel E seg segs ch ch')"
  unfolding at_leaves.simps child_rel_def goval.case by (rule refl)

lemma at_leaves_other: "\<nexists>m. d = GObj m \<Longrightarrow> at_leaves E p d d' \<longleftrightarrow> d' = d"
  by (cases p; cases d) simp_all

declare at_leaves.simps(2) [simp del]

lemma smap_put_put [simp]: "smap_put k b (smap_put k a m) = smap_put k b m"
  by (induction m) auto

lemma smap_put_same: "smap_ok m \<Longrightarrow> smap_get m k = Some v \<Longrightarrow> smap_put k v m = m"
  by (intro smap_eqI) (auto simp: smap_get_put)

lemma smap_put_commute:
  "smap_ok m \<Longrightarrow> k \<noteq> j \<Longrightarrow> smap_put k a (smap_put j b m) = smap_put j b (smap_put k a m)"
  by (intro smap_eqI) (auto simp: smap_get_put)

lemma value_ok_GObj:
  "value_ok n (GObj m) \<longleftrightarrow> n < max_depth \<and> smap_ok m \<and> (\<forall>(k, v) \<in> set m. utf8_ok k \<and> value_ok (Suc n) v)"
  by (auto simp: value_ok_def body_ok_quote)

lemma value_ok_GArr: "value_ok n (GArr xs) \<longleftrightarrow> n < max_depth \<and> (\<forall>x \<in> set xs. value_ok (Suc n) x)"
  by (auto simp: value_ok_def)

lemma value_ok_child:
  "value_ok n (GObj m) \<Longrightarrow> smap_get m k = Some v \<Longrightarrow> value_ok (Suc n) v"
  by (auto simp: value_ok_GObj dest: map_of_SomeD)

lemma value_ok_put:
  assumes "value_ok n (GObj m)" and "smap_get m k = Some v" and "value_ok (Suc n) v'"
  shows "value_ok n (GObj (smap_put k v' m))"
proof -
  have "utf8_ok k" using assms(1,2) by (auto simp: value_ok_GObj dest: map_of_SomeD)
  then show ?thesis using assms(1,3) set_smap_put_subset [of k v' m] by (auto simp: value_ok_GObj)
qed

lemma at_leaves_value_ok:
  assumes E: "\<And>x y n. E x y \<Longrightarrow> value_ok n y"
  shows "at_leaves E p d d' \<Longrightarrow> value_ok n d \<Longrightarrow> value_ok n d'"
proof (induction p arbitrary: d d' n)
  case (Cons seg segs)
  let ?R = "if segs = [] then E else at_leaves E segs"
  have R: "?R x y \<Longrightarrow> value_ok n x \<Longrightarrow> value_ok n y" for x y n
    using E Cons.IH by (cases "segs = []") auto
  show ?case
  proof (cases "\<exists>m ch. d = GObj m \<and> smap_get m (seg_key seg) = Some ch")
    case True
    then obtain m ch where m: "d = GObj m" "smap_get m (seg_key seg) = Some ch" by blast
    then obtain ch' where ch': "d' = GObj (smap_put (seg_key seg) ch' m)" "child_rel E seg segs ch ch'"
      using Cons.prems(1) by (auto simp: at_leaves_GObj)
    have ok: "value_ok (Suc n) ch" using Cons.prems(2) m value_ok_child by blast
    have "value_ok (Suc n) ch'"
    proof (cases "seg_array seg")
      case True
      show ?thesis
      proof (cases "\<exists>xs. ch = GArr xs")
        case True
        then obtain xs ys where xy: "ch = GArr xs" "ch' = GArr ys" "list_all2 ?R xs ys"
          using ch'(2) \<open>seg_array seg\<close> by (auto simp: child_rel_def)
        then have "\<forall>y \<in> set ys. value_ok (Suc (Suc n)) y"
          using ok R by (fastforce simp: value_ok_GArr list_all2_conv_all_nth in_set_conv_nth)
        then show ?thesis using xy ok by (auto simp: value_ok_GArr)
      next
        case False
        then show ?thesis using ch'(2) True ok by (cases ch) (auto simp: child_rel_def)
      qed
    next
      case False
      then have "?R ch ch'" using ch'(2) by (simp add: child_rel_def)
      then show ?thesis using R ok by blast
    qed
    then show ?thesis using ch'(1) value_ok_put Cons.prems(2) m by blast
  next
    case False
    then have "d' = d" using Cons.prems(1)
      by (cases d) (auto simp: at_leaves.simps(2) split: option.splits)
    then show ?thesis using Cons.prems(2) by simp
  qed
qed simp

text \<open>Neither path runs through a leaf of the other. Where one takes a key for an array and the other
  does not, at most one of the two reads applies to a given value.\<close>

fun apart :: "segment list \<Rightarrow> segment list \<Rightarrow> bool" where
  "apart [] q = True"
| "apart p [] = True"
| "apart (s # p) (t # q) =
     (seg_key s \<noteq> seg_key t \<or>
      (if seg_array s = seg_array t then p \<noteq> [] \<and> q \<noteq> [] \<and> apart p q
       else if seg_array s then q \<noteq> [] else p \<noteq> []))"

lemma list_all2_commute:
  assumes "list_all2 P xs ys" and "list_all2 Q ys zs"
    and "\<And>x y z. x \<in> set xs \<Longrightarrow> P x y \<Longrightarrow> Q y z \<Longrightarrow> \<exists>y'. Q x y' \<and> P y' z"
  shows "\<exists>ys'. list_all2 Q xs ys' \<and> list_all2 P ys' zs"
  using assms
proof (induction xs ys arbitrary: zs rule: list_all2_induct)
  case Nil
  then show ?case by auto
next
  case (Cons x xs y ys)
  then obtain z zs' where z: "zs = z # zs'" "Q y z" "list_all2 Q ys zs'" by (auto simp: list_all2_Cons1)
  obtain y' where "Q x y'" "P y' z" using Cons.prems(2) [of x y z] Cons.hyps(1) z(2) by auto
  moreover obtain ys' where "list_all2 Q xs ys'" "list_all2 P ys' zs'"
    using Cons.IH [OF z(3)] Cons.prems(2) by (metis list.set_intros(2))
  ultimately show ?case using z(1) by blast
qed

lemma child_rel_commute:
  assumes IH: "\<And>q d d1 d2 n. value_ok n d \<Longrightarrow> at_leaves E p d d1 \<Longrightarrow> at_leaves E q d1 d2 \<Longrightarrow> apart p q \<Longrightarrow>
      \<exists>d'. at_leaves E q d d' \<and> at_leaves E p d' d2"
    and ok: "value_ok n ch" and r: "child_rel E s p ch a" "child_rel E t q a b"
    and "seg_key s = seg_key t" and "apart (s # p) (t # q)"
  shows "\<exists>a'. child_rel E t q ch a' \<and> child_rel E s p a' b"
proof (cases "seg_array s = seg_array t")
  case True
  then have ne: "p \<noteq> []" "q \<noteq> []" "apart p q" using assms(5,6) by auto
  show ?thesis
  proof (cases "seg_array s \<and> (\<exists>xs. ch = GArr xs)")
    case arr: True
    then obtain xs ys zs where "ch = GArr xs" "a = GArr ys" "b = GArr zs"
      "list_all2 (at_leaves E p) xs ys" "list_all2 (at_leaves E q) ys zs"
      using r ne True by (auto simp: child_rel_def)
    moreover have "\<exists>y'. at_leaves E q x y' \<and> at_leaves E p y' z"
      if "x \<in> set xs" "at_leaves E p x y" "at_leaves E q y z" for x y z
      using IH [of "Suc n" x y q z] ok that ne(3) calculation(1) by (auto simp: value_ok_GArr)
    ultimately show ?thesis using list_all2_commute [of "at_leaves E p" xs ys "at_leaves E q" zs] arr ne True
      by (auto simp: child_rel_def)
  next
    case False
    show ?thesis
    proof (cases "seg_array s")
      case arr: True
      then have "a = ch" "b = ch" using False r True by (cases ch; auto simp: child_rel_def)+
      then show ?thesis using r True arr by auto
    next
      case False
      then show ?thesis using IH [OF ok, of a q b] r ne True by (auto simp: child_rel_def)
    qed
  qed
next
  case False
  have np: "at_leaves E p' (GArr xs) y \<longleftrightarrow> y = GArr xs" for p' xs y by (rule at_leaves_other) simp
  have obj: "at_leaves E p' x y \<Longrightarrow> \<nexists>xs. x = GArr xs \<Longrightarrow> \<nexists>ys. y = GArr ys" for p' x y
    by (cases p'; cases x) (auto simp: at_leaves.simps(2) split: option.splits)
  show ?thesis
  proof (cases "seg_array s")
    case s: True
    then have q: "q \<noteq> []" "\<not> seg_array t" using False assms(5,6) by auto
    show ?thesis
    proof (cases "\<exists>xs. ch = GArr xs")
      case True
      then have "b = a" using r s q np by (auto simp: child_rel_def)
      then show ?thesis using True r(1) q np by (auto simp: child_rel_def)
    next
      case False
      then have a: "a = ch" using r(1) s by (cases ch) (auto simp: child_rel_def)
      have "\<nexists>ys. b = GArr ys" using obj [of q a b] False r(2) q a by (auto simp: child_rel_def)
      then have "child_rel E s p b b" using s by (cases b) (auto simp: child_rel_def)
      then show ?thesis using r(2) a by blast
    qed
  next
    case s: False
    then have p: "p \<noteq> []" "seg_array t" using False assms(5,6) by auto
    show ?thesis
    proof (cases "\<exists>xs. ch = GArr xs")
      case True
      then have a: "a = ch" using r(1) s p np by (auto simp: child_rel_def)
      have "\<exists>zs. b = GArr zs" using True r(2) p a by (auto simp: child_rel_def)
      then have "child_rel E s p b b" using s p np by (auto simp: child_rel_def)
      then show ?thesis using r(2) a by blast
    next
      case False
      then have "\<nexists>ys. a = GArr ys" using obj [of p ch a] r(1) s p by (auto simp: child_rel_def)
      then have "b = a" using r(2) p by (cases a) (auto simp: child_rel_def)
      then show ?thesis using r(1) False p by (cases ch) (auto simp: child_rel_def)
    qed
  qed
qed

lemma at_leaves_commute:
  "value_ok n d \<Longrightarrow> at_leaves E p d d1 \<Longrightarrow> at_leaves E q d1 d2 \<Longrightarrow> apart p q \<Longrightarrow>
   \<exists>d'. at_leaves E q d d' \<and> at_leaves E p d' d2"
proof (induction p arbitrary: q d d1 d2 n)
  case (Cons s p)
  show ?case
  proof (cases q)
    case (Cons t q')
    note q = this
    show ?thesis
    proof (cases "\<exists>m ch. d = GObj m \<and> smap_get m (seg_key s) = Some ch")
      case False
      then have d1: "d1 = d" using Cons.prems(2)
        by (cases d) (auto simp: at_leaves.simps(2) split: option.splits)
      have "at_leaves E (s # p) d2 d2"
      proof (cases d2)
        case (GObj m2)
        then obtain m where m: "d = GObj m"
          using Cons.prems(3) d1 q by (cases d) (auto simp: at_leaves.simps(2))
        then have "smap_get m2 (seg_key s) = None"
          using Cons.prems(3) d1 q False GObj
          by (auto simp: at_leaves_GObj smap_get_put split: option.splits if_splits)
        then show ?thesis using GObj by (simp add: at_leaves_GObj)
      qed (simp_all add: at_leaves.simps(2))
      then show ?thesis using d1 Cons.prems(3) by blast
    next
      case True
      then obtain m ch where m: "d = GObj m" "smap_get m (seg_key s) = Some ch" by blast
      then obtain a where a: "d1 = GObj (smap_put (seg_key s) a m)" "child_rel E s p ch a"
        using Cons.prems(2) by (auto simp: at_leaves_GObj)
      have ok: "smap_ok m" using Cons.prems(1) m by (simp add: value_ok_GObj)
      show ?thesis
      proof (cases "seg_key s = seg_key t")
        case True
        then obtain b where b: "d2 = GObj (smap_put (seg_key t) b m)" "child_rel E t q' a b"
          using Cons.prems(3) a q by (auto simp: at_leaves_GObj smap_get_put)
        have ap: "apart (s # p) (t # q')" using Cons.prems(4) q by simp
        have "\<exists>a'. child_rel E t q' ch a' \<and> child_rel E s p a' b"
          by (rule child_rel_commute [OF _ value_ok_child [OF Cons.prems(1) [unfolded m(1)] m(2)] a(2) b(2) True ap])
            (erule (3) Cons.IH)
        then obtain a' where "child_rel E t q' ch a'" "child_rel E s p a' b" by blast
        then show ?thesis using b m q True
          by (intro exI [of _ "GObj (smap_put (seg_key t) a' m)"]) (auto simp: at_leaves_GObj smap_get_put)
      next
        case False
        show ?thesis
        proof (cases "smap_get m (seg_key t)")
          case None
          then have "d2 = d1" using Cons.prems(3) a q False by (auto simp: at_leaves_GObj smap_get_put)
          then show ?thesis using Cons.prems(2) None m q by (intro exI [of _ d]) (simp add: at_leaves_GObj)
        next
          case (Some c)
          then obtain b where "d2 = GObj (smap_put (seg_key t) b (smap_put (seg_key s) a m))" "child_rel E t q' c b"
            using Cons.prems(3) a q False by (auto simp: at_leaves_GObj smap_get_put)
          then show ?thesis using Some m q a False ok
            by (intro exI [of _ "GObj (smap_put (seg_key t) b m)"])
              (auto simp: at_leaves_GObj smap_get_put smap_put_commute)
        qed
      qed
    qed
  qed (use Cons.prems in auto)
qed simp

subsection \<open>The whole block\<close>

fun chain :: "(goval \<Rightarrow> goval \<Rightarrow> bool) \<Rightarrow> segment list list \<Rightarrow> goval \<Rightarrow> goval \<Rightarrow> bool" where
  "chain E [] d d' = (d = d')"
| "chain E (p # ps) d d' = (\<exists>d1. at_leaves E p d d1 \<and> chain E ps d1 d')"

lemma chain_swap:
  assumes E: "\<And>x y n. E x y \<Longrightarrow> value_ok n y"
  shows "value_ok n d \<Longrightarrow> at_leaves E p d d1 \<Longrightarrow> chain E ps d1 d' \<Longrightarrow> list_all (apart p) ps \<Longrightarrow>
    \<exists>e. chain E ps d e \<and> at_leaves E p e d'"
proof (induction ps arbitrary: d d1)
  case (Cons q ps)
  then obtain d2 where d2: "at_leaves E q d1 d2" "chain E ps d2 d'" by auto
  obtain e where e: "at_leaves E q d e" "at_leaves E p e d2"
    using at_leaves_commute [OF Cons.prems(1,2) d2(1)] Cons.prems(4) by auto
  have "value_ok n e" using at_leaves_value_ok [OF E e(1) Cons.prems(1)] .
  then show ?case using Cons.IH [OF _ e(2) d2(2)] Cons.prems(4) e(1) by auto
qed auto

lemma over_elements_inverse:
  assumes "list_all2 R xs ys" and "\<And>x y w. x \<in> set xs \<Longrightarrow> R x y \<Longrightarrow> fst (f y w) = (x, None)"
  shows "fst (over_elements f ys w) = (xs, None)"
  using assms
proof (induction xs ys arbitrary: w rule: list_all2_induct)
  case (Cons x xs y ys)
  obtain w' where "f y w = ((x, None), w')" using Cons.prems [of x y w] Cons.hyps(1) by (metis list.set_intros(1) prod.collapse)
  then show ?case using Cons.IH [of w'] Cons.prems by (auto simp: apfst_def map_prod_def split: prod.splits)
qed simp

lemma decrypt_inverse:
  "value_ok n d \<Longrightarrow> at_leaves (sealed stx c) p d d' \<Longrightarrow> fst (apply_at_path (decrypt_leaf stx c) p d' w) = (d, None)"
proof (induction p arbitrary: d d' w n)
  case (Cons seg segs)
  let ?k = "seg_key seg" and ?D = "decrypt_leaf stx c"
  let ?f = "if segs = [] then apply_leaf ?D else apply_at_path ?D segs"
  let ?R = "if segs = [] then sealed stx c else at_leaves (sealed stx c) segs"
  have f: "fst (?f y w) = (x, None)" if "?R x y" "value_ok n x" for x y w n
  proof (cases "segs = []")
    case True
    then have "fst (?D y w) = Inr (Some x)" using that(1) by (auto simp: sealed_def)
    then show ?thesis using True by (cases "?D y w") (simp add: apply_leaf_def)
  next
    case False
    then show ?thesis using Cons.IH that by simp
  qed
  show ?case
  proof (cases "\<exists>m ch. d = GObj m \<and> smap_get m ?k = Some ch")
    case True
    then obtain m ch where m: "d = GObj m" "smap_get m ?k = Some ch" by blast
    then obtain ch' where ch': "d' = GObj (smap_put ?k ch' m)" "child_rel (sealed stx c) seg segs ch ch'"
      using Cons.prems(2) by (auto simp: at_leaves_GObj)
    have ok: "value_ok (Suc n) ch" using Cons.prems(1) m value_ok_child by blast
    have undo: "smap_put ?k ch (smap_put ?k ch' m) = m"
      using m Cons.prems(1) by (simp add: smap_put_same value_ok_GObj)
    have get: "smap_get (smap_put ?k ch' m) ?k = Some ch'" by (simp add: smap_get_put)
    show ?thesis
    proof (cases "seg_array seg")
      case arr: True
      show ?thesis
      proof (cases "\<exists>xs. ch = GArr xs")
        case True
        then obtain xs ys where xy: "ch = GArr xs" "ch' = GArr ys" "list_all2 ?R xs ys"
          using ch'(2) arr by (auto simp: child_rel_def)
        have "fst (over_elements ?f ys w) = (xs, None)"
          by (rule over_elements_inverse [OF xy(3)]) (use f ok xy(1) in \<open>auto simp: value_ok_GArr\<close>)
        then show ?thesis using get undo arr m ch'(1) xy
          by (cases "over_elements ?f ys w") (simp add: Let_def)
      next
        case False
        then have "ch' = ch" using ch'(2) arr by (cases ch) (auto simp: child_rel_def)
        then show ?thesis using False get undo arr m ch'(1) by (cases ch) simp_all
      qed
    next
      case False
      then have "fst (?f ch' w) = (ch, None)" using f ok ch'(2) by (simp add: child_rel_def)
      then show ?thesis using get undo False m ch'(1) by (cases "?f ch' w") (simp add: Let_def)
    qed
  next
    case False
    then have "d' = d" using Cons.prems(2) by (cases d) (auto simp: at_leaves.simps(2) split: option.splits)
    then show ?thesis using False by (cases d) (auto split: option.split)
  qed
qed simp

lemma sealed_leaves_ok: "at_leaves (sealed stx c) p d d' \<Longrightarrow> value_ok n d \<Longrightarrow> value_ok n d'"
  by (rule at_leaves_value_ok [of "sealed stx c"]) (rule sealed_value_ok)

lemma sealed_chain_ok: "chain (sealed stx c) ps d d' \<Longrightarrow> value_ok n d \<Longrightarrow> value_ok n d'"
proof (induction ps arbitrary: d)
  case (Cons p ps)
  then show ?case using sealed_leaves_ok by (metis chain.simps(2))
qed simp

lemma unprotect_chain:
  "sorted_wrt apart ps \<Longrightarrow> value_ok n d \<Longrightarrow> chain (sealed stx c) ps d d' \<Longrightarrow>
   fst (walk_paths (decrypt_leaf stx c) ps d' w) = (d, None)"
proof (induction ps arbitrary: d d' w)
  case (Cons p ps)
  then obtain d1 where d1: "at_leaves (sealed stx c) p d d1" "chain (sealed stx c) ps d1 d'" by auto
  have "\<exists>e. chain (sealed stx c) ps d e \<and> at_leaves (sealed stx c) p e d'"
    by (rule chain_swap [OF _ Cons.prems(2) d1])
      (use Cons.prems(1) in \<open>auto simp: list_all_iff intro: sealed_value_ok\<close>)
  then obtain e where e: "chain (sealed stx c) ps d e" "at_leaves (sealed stx c) p e d'" by blast
  have "value_ok n e" using sealed_chain_ok e(1) Cons.prems(2) by blast
  then have "fst (apply_at_path (decrypt_leaf stx c) p d' w) = (e, None)" by (rule decrypt_inverse [OF _ e(2)])
  then obtain w' where "apply_at_path (decrypt_leaf stx c) p d' w = ((e, None), w')" by (metis prod.collapse)
  then show ?case using Cons.IH [of d e w'] Cons.prems e(1) by simp
qed simp

lemma over_elements_rel:
  assumes "over_elements f xs w = ((ys, None), w')"
    and "\<And>x y w w'. x \<in> set xs \<Longrightarrow> f x w = ((y, None), w') \<Longrightarrow> R x y"
  shows "list_all2 R xs ys"
  using assms
proof (induction f xs w arbitrary: ys rule: over_elements.induct)
  case (2 f x xs w)
  obtain y r w1 where f: "f x w = ((y, r), w1)" by (metis prod.collapse)
  then have r: "r = None" using "2.prems"(1) by (cases r) auto
  obtain ys' r' w2 where o: "over_elements f xs w1 = ((ys', r'), w2)" by (metis prod.collapse)
  then have y: "ys = y # ys'" "r' = None" using "2.prems"(1) f r by auto
  then have "over_elements f xs w1 = ((ys', None), w')" using "2.prems"(1) f r o by auto
  moreover have "R x y" using "2.prems"(2) f r by auto
  ultimately show ?case using "2.IH" [OF f [symmetric] refl r] "2.prems"(2) y by auto
qed simp

lemma encrypt_at_path:
  assumes "cipher_ok c"
  shows "value_ok n d \<Longrightarrow> apply_at_path (encrypt_leaf c) p d w = ((d', None), w') \<Longrightarrow> at_leaves (sealed stx c) p d d'"
proof (induction p arbitrary: d d' w w' n)
  case (Cons seg segs)
  let ?k = "seg_key seg" and ?D = "encrypt_leaf c"
  let ?f = "if segs = [] then apply_leaf ?D else apply_at_path ?D segs"
  let ?R = "if segs = [] then sealed stx c else at_leaves (sealed stx c) segs"
  have f: "?R x y" if "?f x w = ((y, None), w')" "value_ok n x" for x y w w' n
  proof (cases "segs = []")
    case True
    obtain r w1 where "?D x w = (r, w1)" by (cases "?D x w")
    then show ?thesis using encrypt_leaf_sealed [OF assms that(2), of w r w1 stx] that(1) True by (auto simp: apply_leaf_def)
  next
    case False
    then show ?thesis using Cons.IH that by simp
  qed
  show ?case
  proof (cases "\<exists>m ch. d = GObj m \<and> smap_get m ?k = Some ch")
    case True
    then obtain m ch where m: "d = GObj m" "smap_get m ?k = Some ch" by blast
    have ok: "value_ok (Suc n) ch" "smap_ok m" using Cons.prems(1) m value_ok_child by (auto simp: value_ok_GObj)
    show ?thesis
    proof (cases "seg_array seg")
      case arr: True
      show ?thesis
      proof (cases "\<exists>xs. ch = GArr xs")
        case True
        then obtain xs where xs: "ch = GArr xs" by blast
        then obtain ys where ys: "over_elements ?f xs w = ((ys, None), w')" "d' = GObj (smap_put ?k (GArr ys) m)"
          using Cons.prems(2) m arr by (cases "over_elements ?f xs w") (auto simp: Let_def)
        have "list_all2 ?R xs ys"
          by (rule over_elements_rel [OF ys(1)]) (use f ok(1) xs in \<open>auto simp: value_ok_GArr\<close>)
        then have "child_rel (sealed stx c) seg segs ch (GArr ys)" using arr xs by (simp add: child_rel_def)
        then show ?thesis using m ys(2) by (auto simp: at_leaves_GObj)
      next
        case False
        then have "d' = d" using Cons.prems(2) m arr by (cases ch) (auto simp: Let_def)
        moreover have "child_rel (sealed stx c) seg segs ch ch" using False arr by (cases ch) (auto simp: child_rel_def)
        ultimately show ?thesis using m ok(2) by (auto simp: at_leaves_GObj smap_put_same intro!: exI [of _ ch])
      qed
    next
      case False
      then obtain v where v: "?f ch w = ((v, None), w')" "d' = GObj (smap_put ?k v m)"
        using Cons.prems(2) m by (cases "?f ch w") (auto simp: Let_def)
      then have "child_rel (sealed stx c) seg segs ch v" using f ok(1) False by (simp add: child_rel_def)
      then show ?thesis using m v(2) by (auto simp: at_leaves_GObj)
    qed
  next
    case False
    then show ?thesis using Cons.prems(2) by (cases d) (auto simp: at_leaves.simps(2) split: option.splits)
  qed
qed simp

lemma protect_chain:
  "cipher_ok c \<Longrightarrow> value_ok n d \<Longrightarrow> walk_paths (encrypt_leaf c) ps d w = ((d', None), w') \<Longrightarrow>
   chain (sealed stx c) ps d d'"
proof (induction ps arbitrary: d w)
  case (Cons p ps)
  obtain d1 r w1 where a: "apply_at_path (encrypt_leaf c) p d w = ((d1, r), w1)" by (metis prod.collapse)
  then have r: "r = None" using Cons.prems(3) by (cases r) auto
  then have l: "at_leaves (sealed stx c) p d d1" using encrypt_at_path [OF Cons.prems(1,2)] a by simp
  then have "chain (sealed stx c) ps d1 d'"
    using Cons.IH [OF Cons.prems(1) sealed_leaves_ok [OF l Cons.prems(2)], of w1] Cons.prems(3) a r by simp
  then show ?case using l by auto
qed simp

text \<open>The AES-GCM cipher meets the contract whenever opening undoes sealing and the random source
  gives the nonce its length.\<close>

lemma base64_char_ok: "n < 64 \<Longrightarrow> is_base64 (base64_char n) \<and> base64_char n \<noteq> CHR 0x0D \<and> base64_char n \<noteq> CHR 0x0A"
proof -
  assume n: "n < 64"
  consider "n < 26" | "26 \<le> n" "n < 52" | "52 \<le> n" "n < 62" | "n = 62" | "n = 63" using n by linarith
  then show ?thesis
  proof cases
    case 1
    then have "byte (base64_char n) = 65 + n" by (simp add: base64_char_def)
    then show ?thesis using 1 by (auto simp: is_base64_def in_range_def)
  next
    case 2
    then have "byte (base64_char n) = 71 + n" by (simp add: base64_char_def)
    then show ?thesis using 2 by (auto simp: is_base64_def in_range_def)
  next
    case 3
    then have "byte (base64_char n) = n - 4" by (simp add: base64_char_def)
    then show ?thesis using 3 by (auto simp: is_base64_def in_range_def)
  qed (simp_all add: is_base64_def base64_char_def)
qed

lemma base64_groups_encode: "base64_groups (base64_encode s) = Some s"
proof (induction s rule: base64_encode.induct)
  case (2 a)
  then show ?case using base64_bound [OF byte_less [of a] byte_less [of a] byte_less [of a]] base64_roundtrip [of "[a]"]
    by (simp add: base64_char_ok base64_val_char)
next
  case (3 a b)
  then show ?case using base64_bound [OF byte_less [of a] byte_less [of b] byte_less [of b]] base64_roundtrip [of "[a, b]"]
    by (simp add: base64_char_ok base64_val_char)
next
  case (4 a b c s)
  then show ?case using base64_bound [OF byte_less [of a] byte_less [of b] byte_less [of c]] base64_roundtrip [of "[a, b, c]"]
    by (simp add: base64_char_ok base64_val_char)
qed simp

lemma base64_read_encode: "base64_read (base64_encode s) = Some s"
proof -
  have "\<forall>c \<in> set (base64_encode s). c \<noteq> CHR 0x0D \<and> c \<noteq> CHR 0x0A"
  proof (induction s rule: base64_encode.induct)
    case (2 a)
    then show ?case using base64_bound [OF byte_less [of a] byte_less [of a] byte_less [of a]]
      by (simp add: base64_char_ok)
  next
    case (3 a b)
    then show ?case using base64_bound [OF byte_less [of a] byte_less [of b] byte_less [of b]]
      by (simp add: base64_char_ok)
  next
    case (4 a b c s)
    then show ?case using base64_bound [OF byte_less [of a] byte_less [of b] byte_less [of c]]
      by (simp add: base64_char_ok)
  qed simp
  then have "filter (\<lambda>c. c \<noteq> CHR 0x0D \<and> c \<noteq> CHR 0x0A) (base64_encode s) = base64_encode s"
    by (simp add: filter_id_conv)
  then show ?thesis by (simp add: base64_read_def base64_groups_encode)
qed

lemma aes_gcm_ok:
  assumes "\<And>nonce p. ae_open a nonce (ae_seal a nonce p) = Inr p"
    and "\<And>w nonce w'. random (ae_nonce_size a) w = (Inr nonce, w') \<Longrightarrow> length nonce = ae_nonce_size a"
  shows "cipher_ok (aes_gcm_cipher a random corrupt)"
  unfolding cipher_ok_def
proof (intro allI impI)
  fix p w s w1 w2
  assume e: "ci_encrypt (aes_gcm_cipher a random corrupt) p w = (Inr s, w1)"
  obtain r w0 where n: "random (ae_nonce_size a) w = (r, w0)" by (cases "random (ae_nonce_size a) w")
  then obtain nonce where r: "r = Inr nonce" and s: "s = base64_encode (nonce @ ae_seal a nonce p)"
    using e by (cases r) (auto simp: aes_gcm_cipher_def aes_encrypt_def)
  have "length nonce = ae_nonce_size a" using assms(2) n r by blast
  then show "utf8_ok s \<and> fst (ci_decrypt (aes_gcm_cipher a random corrupt) s w2) = Inr p"
    using s assms(1) utf8_ok_all_ascii [OF base64_ascii]
    by (simp add: aes_gcm_cipher_def aes_decrypt_def base64_read_encode)
qed

subsection \<open>The properties\<close>

lemma protect_inverse:
  assumes "cipher_ok c" and "value_ok 0 (GObj m)" and "sorted_wrt apart (marked_paths sch)"
    and "protect (Some c) sch (Some m) w = ((Some m', None), w1)"
  shows "chain (sealed stx c) (marked_paths sch) (GObj m) (GObj m')
    \<and> fst (unprotect stx (Some c) sch (Some m') w2) = (Some m, None)"
proof -
  obtain v r where v: "walk_paths (encrypt_leaf c) (marked_paths sch) (GObj m) w = ((v, r), w1)" "r = None" "m' = data_of v"
    using assms(4) by (cases "walk_paths (encrypt_leaf c) (marked_paths sch) (GObj m) w")
      (auto simp: protect_def walk_def)
  then have ch: "chain (sealed stx c) (marked_paths sch) (GObj m) v"
    using protect_chain [OF assms(1,2)] by blast
  have obj: "\<exists>o'. v = GObj o'" if "chain (sealed stx c) ps d v" "\<exists>o'. d = GObj o'" for ps d
    using that
  proof (induction ps arbitrary: d)
    case (Cons p ps)
    then obtain d1 where "at_leaves (sealed stx c) p d d1" "chain (sealed stx c) ps d1 v" by auto
    moreover from this(1) have "\<exists>o'. d1 = GObj o'"
      using Cons.prems(2) by (cases p) (auto simp: at_leaves.simps(2) split: option.splits)
    ultimately show ?case using Cons.IH by blast
  qed simp
  obtain o' where "v = GObj o'" using obj [OF ch] by blast
  then have m': "v = GObj m'" using v(3) by (simp add: data_of_def)
  have "fst (walk_paths (decrypt_leaf stx c) (marked_paths sch) (GObj m') w2) = (GObj m, None)"
    by (rule unprotect_chain [OF assms(3,2)]) (use ch m' in simp)
  then have "fst (unprotect stx (Some c) sch (Some m') w2) = (Some m, None)"
    by (cases "walk_paths (decrypt_leaf stx c) (marked_paths sch) (GObj m') w2")
      (simp add: unprotect_def walk_def data_of_def)
  then show ?thesis using ch m' by simp
qed

text \<open>C17. Encryption and decryption of a data block are inverse. When no marked path runs through
  another, a block that was protected without an error differs from the original exactly in the
  leaves at the marked paths, each a ciphertext of the former value, and \<open>Unprotect\<close> gives back the
  original block. (The cipher keeps its contract; the block is one that decoding produces.)\<close>

theorem protect_unprotect:
  assumes "cipher_ok c" and "value_ok 0 (GObj m)" and "sorted_wrt apart (marked_paths sch)"
    and "protect (Some c) sch (Some m) w = ((Some m', None), w1)"
  shows "chain (sealed stx c) (marked_paths sch) (GObj m) (GObj m')
    \<and> fst (unprotect stx (Some c) sch (Some m') w2) = (Some m, None)"
  by (rule protect_inverse [OF assms])

text \<open>A schema document with the email marked, an AES-GCM whose sealing is the identity, and a block.\<close>

definition email_schema :: schema where
  "email_schema =
     from_map [(''properties'', GObj [(''email'', GObj [(''type'', GStr ''string''), (''x-gdpr-sensitive'', GBool True)])]),
               (''type'', GStr ''object'')]"

definition sample_aead :: aead where
  "sample_aead = \<lparr>ae_nonce_size = 1, ae_seal = (\<lambda>n p. p), ae_open = (\<lambda>n s. Inr s)\<rparr>"

definition sample_cipher :: "nat cipher" where
  "sample_cipher = aes_gcm_cipher sample_aead (\<lambda>n w. (Inr (replicate n (CHR ''n'')), Suc w)) (\<lambda>s. s)"

lemma sample_cipher_ok: "cipher_ok sample_cipher"
  unfolding sample_cipher_def by (rule aes_gcm_ok) (auto simp: sample_aead_def)

lemma email_paths: "marked_paths (Some email_schema) = [[\<lparr>seg_key = ''email'', seg_array = False\<rparr>]]"
  by (simp add: marked_paths_def sensitive_paths_def email_schema_def from_map.simps join_path_def parse_path_def
      split_dots_def parse_segment_def)

lemma protect_unprotect_witness:
  "fst (unprotect (\<lambda>s. s) (Some sample_cipher) (Some email_schema)
      (Some [(''email'', GStr ''biJhIg=='')]) 0) = (Some [(''email'', GStr ''a'')], None)"
proof -
  have "value_ok 0 (GObj [(''email'', GStr ''a'')])"
    by (simp add: value_ok_def max_depth_def body_ok_quote)
  moreover have "protect (Some sample_cipher) (Some email_schema) (Some [(''email'', GStr ''a'')]) 0 =
    ((Some [(''email'', GStr ''biJhIg=='')], None), 1)"
    unfolding protect_def walk_def option.case email_paths by code_simp
  ultimately show ?thesis
    using protect_unprotect [OF sample_cipher_ok, of "[(''email'', GStr ''a'')]" "Some email_schema" 0 _ 1 "\<lambda>s. s" 0]
    by (simp add: email_paths)
qed

text \<open>C40. A mark below a marked object makes a message unreadable. When an object and one of its string
  members are both marked, \<open>Protect\<close> encrypts the object and succeeds, but \<open>Unprotect\<close> restores the
  object and then takes its cleartext member for a ciphertext: it fails with \<open>ErrDecrypt\<close>, for every
  such block and cipher (whose decryption refuses that cleartext).\<close>

theorem nested_mark_unreadable:
  assumes "cipher_ok c" and "value_ok 0 (GObj m)"
    and paths: "marked_paths sch =
      [[\<lparr>seg_key = k, seg_array = False\<rparr>], [\<lparr>seg_key = k, seg_array = False\<rparr>, \<lparr>seg_key = j, seg_array = False\<rparr>]]"
    and "smap_get m k = Some (GObj ob)" and "smap_get ob j = Some (GStr t)"
    and "ci_decrypt c t = (\<lambda>w. (Inl e, w))"
    and "ci_encrypt c (json_print (json_html (GObj ob))) w = (Inr s, w1)"
  shows "\<exists>m'. protect (Some c) sch (Some m) w = ((Some m', None), w1) \<and>
    (\<exists>left e'. fst (unprotect stx (Some c) sch (Some m') w2) = (left, Some e') \<and> errors_is e' ErrDecrypt)"
proof -
  let ?m' = "smap_put k (GStr s) m"
  have p: "protect (Some c) sch (Some m) w = ((Some ?m', None), w1)"
    using assms(4,7) by (simp add: protect_def walk_def paths apply_leaf_def encrypt_leaf_def smap_get_put data_of_def)
  have "value_ok 1 (GObj ob)" using value_ok_child [OF assms(2,4)] by simp
  then obtain y where "sealed stx c (GObj ob) (GStr s)"
    using encrypt_leaf_sealed [OF assms(1), of 1 "GObj ob" w "Inr (Some (GStr s))" w1 stx] assms(7)
    by (auto simp: encrypt_leaf_def)
  then have "fst (decrypt_leaf stx c (GStr s) w2) = Inr (Some (GObj ob))" by (simp add: sealed_def)
  then obtain w3 where d: "decrypt_leaf stx c (GStr s) w2 = (Inr (Some (GObj ob)), w3)"
    by (cases "decrypt_leaf stx c (GStr s) w2") auto
  have "fst (unprotect stx (Some c) sch (Some ?m') w2) =
    (Some (smap_put k (GObj (smap_put j (GStr t) ob)) (smap_put k (GObj ob) m)),
     Some (wrap_error [] (plain_error ErrDecrypt) ('': '' @ err_text e)))"
    using assms(5,6) d
    by (simp add: unprotect_def walk_def paths apply_leaf_def smap_get_put data_of_def decrypt_leaf_def)
  then show ?thesis using p by auto
qed

text \<open>The profile object and its name marked; the name is no base64 text.\<close>

definition profile_schema :: schema where
  "profile_schema =
     from_map [(''properties'', GObj [(''profile'', GObj
       [(''properties'', GObj [(''name'', GObj [(''x-gdpr-sensitive'', GBool True)])]),
        (''x-gdpr-sensitive'', GBool True)])])]"

lemma profile_paths:
  "marked_paths (Some profile_schema) =
    [[\<lparr>seg_key = ''profile'', seg_array = False\<rparr>],
     [\<lparr>seg_key = ''profile'', seg_array = False\<rparr>, \<lparr>seg_key = ''name'', seg_array = False\<rparr>]]"
proof -
  have "sort_key sp_path [\<lparr>sp_path = ''profile'', sp_category = []\<rparr>, \<lparr>sp_path = ''profile.name'', sp_category = []\<rparr>]
    = [\<lparr>sp_path = ''profile'', sp_category = []\<rparr>, \<lparr>sp_path = ''profile.name'', sp_category = []\<rparr>]"
    by code_simp
  then show ?thesis
    by (simp add: marked_paths_def sensitive_paths_def profile_schema_def from_map.simps join_path_def parse_path_def
        split_dots_def parse_segment_def)
qed

lemma nested_mark_unreadable_witness:
  "\<exists>m'. protect (Some sample_cipher) (Some profile_schema) (Some [(''profile'', GObj [(''name'', GStr ''a-b'')])]) 0
      = ((Some m', None), 1) \<and>
    (\<exists>left e'. fst (unprotect (\<lambda>s. s) (Some sample_cipher) (Some profile_schema) (Some m') 0) = (left, Some e')
      \<and> errors_is e' ErrDecrypt)"
proof -
  have v: "value_ok 0 (GObj [(''profile'', GObj [(''name'', GStr ''a-b'')])])"
    by (simp add: value_ok_def max_depth_def body_ok_quote)
  have d: "ci_decrypt sample_cipher ''a-b'' =
    (\<lambda>w. (Inl (wrap_error [] (plain_error ErrMalformedCiphertext) ('': not base64: '' @ ''a-b'')), w))"
    by (simp add: sample_cipher_def aes_gcm_cipher_def aes_decrypt_def base64_read_def is_base64_def in_range_def)
  have e: "ci_encrypt sample_cipher (json_print (json_html (GObj [(''name'', GStr ''a-b'')]))) 0 =
    (Inr (base64_encode (''n'' @ json_print (json_html (GObj [(''name'', GStr ''a-b'')])))), 1)"
    by (simp add: sample_cipher_def aes_gcm_cipher_def aes_encrypt_def sample_aead_def)
  show ?thesis
    using nested_mark_unreadable [OF sample_cipher_ok v profile_paths _ _ d e] by simp
qed

definition rows_schema :: schema where
  "rows_schema =
     from_map [(''properties'', GObj [(''rows'', GObj
       [(''items'', GObj [(''items'', GObj [(''x-gdpr-sensitive'', GBool True)])])])])]"

text \<open>Some marks protect nothing. A mark on the items of an array of arrays is parsed into a path
  whose key keeps a pair of brackets; no ordinary data has that key, so \<open>Protect\<close> returns the block
  unchanged, without an error, and the marked values are published in the clear.\<close>

theorem nested_array_unprotected:
  "protect c (Some rows_schema) (Some ((''rows'', v) # [])) w = ((Some [(''rows'', v)], None), w)
   \<and> sensitive_paths (Some rows_schema) = [\<lparr>sp_path = ''rows[][]'', sp_category = []\<rparr>]"
proof -
  have s: "sensitive_paths (Some rows_schema) = [\<lparr>sp_path = ''rows[][]'', sp_category = []\<rparr>]"
    by (simp add: sensitive_paths_def rows_schema_def from_map.simps join_path_def)
  then show ?thesis
    by (cases c) (simp_all add: protect_def walk_def marked_paths_def parse_path_def split_dots_def parse_segment_def
        data_of_def)
qed

end
