(* ===== verification/Redis.thy ===== *)
theory Redis
  imports App JsonMarshal
begin

section \<open>The Redis transport\<close>

text \<open>
  \<open>redis/redis.go\<close>, both key layouts. The Redis server is a parameter: a record of the commands the
  scripts of the code call, over the world \<open>'w\<close>. A script runs as one step (Redis runs it on its
  command thread), so a script of the code is one function of the world; \<open>run_script\<close> adds what the
  network can do to a call: it does not reach the server, or its answer is lost after it ran.

  Commands are given keys of the type the transport created them with, so none of them raises. The
  cjson steps of the Laravel pop script (decode, the test of \<open>attempts\<close>, increment, encode, all under
  \<open>pcall\<close>) are one partial function. The clock \<open>nowFn\<close> is only ever used through its floor; a score is
  a whole number of seconds, or \<open>+inf\<close>. Warnings are not modelled.
\<close>

datatype score = At int | Never

datatype call_fate = Delivered | NotSent go_error | ReplyLost go_error

record 'w redis =
  rd_rpush :: "bytes \<Rightarrow> bytes \<Rightarrow> 'w \<Rightarrow> 'w"
  rd_lpop :: "bytes \<Rightarrow> 'w \<Rightarrow> bytes option \<times> 'w"
  rd_lmove :: "bytes \<Rightarrow> bytes \<Rightarrow> 'w \<Rightarrow> bytes option \<times> 'w"
  rd_lrem :: "bytes \<Rightarrow> bytes \<Rightarrow> 'w \<Rightarrow> nat \<times> 'w"
  rd_zadd :: "bytes \<Rightarrow> score \<Rightarrow> bytes \<Rightarrow> 'w \<Rightarrow> 'w"
  rd_zrem :: "bytes \<Rightarrow> bytes \<Rightarrow> 'w \<Rightarrow> nat \<times> 'w"
  rd_zrangebyscore :: "bytes \<Rightarrow> int \<Rightarrow> int \<Rightarrow> 'w \<Rightarrow> bytes list"
  rd_zremrangebyrank :: "bytes \<Rightarrow> nat \<Rightarrow> 'w \<Rightarrow> 'w"
  rd_blpop :: "bytes \<Rightarrow> int \<Rightarrow> 'w effect"
  rd_cjson :: "bytes \<Rightarrow> bytes option"
  rd_call :: "'w \<Rightarrow> call_fate \<times> 'w"
  rd_random :: "'w \<Rightarrow> (go_error + 8 word list) \<times> 'w"
  rd_sleep :: "int \<Rightarrow> 'w effect"
  rd_now :: "'w \<Rightarrow> int"
  rd_clock :: "'w \<Rightarrow> int"
  rd_syntax :: "bytes \<Rightarrow> bytes"

definition run_script :: "'w redis \<Rightarrow> ('w \<Rightarrow> 'a \<times> 'w) \<Rightarrow> 'w \<Rightarrow> (go_error + 'a) \<times> 'w" where
  "run_script r f w =
     (case rd_call r w of
        (Delivered, w1) \<Rightarrow> apfst Inr (f w1)
      | (NotSent e, w1) \<Rightarrow> (Inl e, w1)
      | (ReplyLost e, w1) \<Rightarrow> (Inl e, snd (f w1)))"

definition ran :: "(go_error + 'a) \<times> 'w \<Rightarrow> go_error option \<times> 'w" where
  "ran res = (case res of (Inl e, w) \<Rightarrow> (Some e, w) | (Inr _, w) \<Rightarrow> (None, w))"

subsection \<open>Configuration and keys\<close>

record redis_config =
  rc_processing_suffix :: bytes
  rc_laravel :: bool
  rc_key_prefix :: bytes
  rc_retry_after :: int
  rc_retry_after_null :: bool
  rc_batch :: int
  rc_cfg_err :: "go_error option"

record redis_keys =
  k_ready :: bytes
  k_delayed :: bytes
  k_reserved :: bytes
  k_notify :: bytes

definition default_key_prefix :: bytes where "default_key_prefix = ''queues:''"
definition default_retry_after :: int where "default_retry_after = seconds 90"
definition default_batch :: int where "default_batch = -1"

definition laravel_keys :: "bytes \<Rightarrow> bytes \<Rightarrow> redis_keys" where
  "laravel_keys prefix queue =
     (let ready = prefix @ queue
      in \<lparr>k_ready = ready, k_delayed = ready @ '':delayed'', k_reserved = ready @ '':reserved'',
          k_notify = ready @ '':notify''\<rparr>)"

definition with_processing_suffix :: "bytes \<Rightarrow> redis_config \<Rightarrow> redis_config" where
  "with_processing_suffix s c = c\<lparr>rc_processing_suffix := s\<rparr>"

definition with_laravel_layout :: "bytes \<Rightarrow> redis_config \<Rightarrow> redis_config" where
  "with_laravel_layout prefix c =
     c\<lparr>rc_laravel := True, rc_key_prefix := (if prefix = [] then default_key_prefix else prefix)\<rparr>"

definition with_retry_after :: "int \<Rightarrow> redis_config \<Rightarrow> redis_config" where
  "with_retry_after d c =
     (if d < 0 then c\<lparr>rc_cfg_err := Some (plain_error ErrInvalidRetryAfter)\<rparr>
      else c\<lparr>rc_retry_after := d, rc_retry_after_null := False\<rparr>)"

definition without_retry_after :: "redis_config \<Rightarrow> redis_config" where
  "without_retry_after c = c\<lparr>rc_retry_after_null := True\<rparr>"

definition with_migration_batch_size :: "int \<Rightarrow> redis_config \<Rightarrow> redis_config" where
  "with_migration_batch_size n c = (if n = -1 \<or> 0 < n then c\<lparr>rc_batch := n\<rparr> else c)"

definition new_with_client :: "(redis_config \<Rightarrow> redis_config) list \<Rightarrow> redis_config" where
  "new_with_client opts =
     fold (\<lambda>f c. f c) opts
       \<lparr>rc_processing_suffix = '':processing'', rc_laravel = False, rc_key_prefix = [],
        rc_retry_after = default_retry_after, rc_retry_after_null = False, rc_batch = default_batch,
        rc_cfg_err = None\<rparr>"

text \<open>The sum \<open>delay + time.Second - 1\<close> is a 64-bit one, and Go's division truncates towards zero.\<close>

definition trunc_div :: "int \<Rightarrow> int \<Rightarrow> int" where
  "trunc_div a b = (if a < 0 then - (- a div b) else a div b)"

definition delay_score :: "int \<Rightarrow> int \<Rightarrow> int" where
  "delay_score now_floor delay =
     (let d = (if delay < 0 then 0 else delay);
          secs = trunc_div (wrap64 (d + seconds 1 - 1)) (seconds 1)
      in wrap64 (now_floor + secs))"

definition processing_key :: "redis_config \<Rightarrow> bytes \<Rightarrow> bytes" where
  "processing_key c queue = queue @ rc_processing_suffix c"

definition deadlines_key :: "redis_config \<Rightarrow> bytes \<Rightarrow> bytes" where
  "deadlines_key c queue = processing_key c queue @ '':deadlines''"

definition deadline_arg :: "redis_config \<Rightarrow> int \<Rightarrow> score" where
  "deadline_arg c now_floor =
     (if rc_retry_after_null c then Never else At (delay_score now_floor (rc_retry_after c)))"

definition keys_of :: "redis_config \<Rightarrow> bytes \<Rightarrow> redis_keys" where
  "keys_of c queue =
     (if rc_laravel c then laravel_keys (rc_key_prefix c) queue
      else \<lparr>k_ready = queue, k_delayed = [], k_reserved = processing_key c queue, k_notify = []\<rparr>)"

subsection \<open>The scripts\<close>

definition push_script :: "'w redis \<Rightarrow> bytes \<Rightarrow> bytes \<Rightarrow> bytes \<Rightarrow> 'w \<Rightarrow> unit \<times> 'w" where
  "push_script r ready notify value w = ((), rd_rpush r notify ''1'' (rd_rpush r ready value w))"

text \<open>The moved members go to the ready list in chunks of a hundred, each followed by its tokens.\<close>

function push_moved :: "'w redis \<Rightarrow> bytes \<Rightarrow> bytes \<Rightarrow> bytes list \<Rightarrow> 'w \<Rightarrow> 'w" where
  "push_moved r ready notify vs w =
     (if vs = [] then w
      else push_moved r ready notify (drop 100 vs)
             (fold (\<lambda>_. rd_rpush r notify ''1'') (take 100 vs) (fold (rd_rpush r ready) (take 100 vs) w)))"
  by auto
termination by (relation "measure (\<lambda>(r, ready, notify, vs, w). length vs)") auto

declare push_moved.simps [simp del]

definition migrate_script ::
  "'w redis \<Rightarrow> bytes \<Rightarrow> bytes \<Rightarrow> bytes \<Rightarrow> int \<Rightarrow> int \<Rightarrow> 'w \<Rightarrow> nat \<times> 'w" where
  "migrate_script r src ready notify floor batch w =
     (let val = rd_zrangebyscore r src floor batch w
      in (length val,
          if val \<noteq> [] then push_moved r ready notify val (rd_zremrangebyrank r src (length val) w) else w))"

definition reserve_script ::
  "'w redis \<Rightarrow> bytes \<Rightarrow> bytes \<Rightarrow> bytes \<Rightarrow> score \<Rightarrow> 'w \<Rightarrow> (bytes \<times> bytes) option \<times> 'w" where
  "reserve_script r ready reserved notify deadline w =
     (case rd_lpop r ready w of
        (None, w1) \<Rightarrow> (None, w1)
      | (Some job, w1) \<Rightarrow>
          (case rd_cjson r job of
             Some member \<Rightarrow> (Some (job, member), snd (rd_lpop r notify (rd_zadd r reserved deadline member w1)))
           | None \<Rightarrow> (Some (job, job), rd_zadd r reserved deadline job w1)))"

definition release_script ::
  "'w redis \<Rightarrow> bytes \<Rightarrow> bytes \<Rightarrow> bytes \<Rightarrow> score \<Rightarrow> bytes \<Rightarrow> 'w \<Rightarrow> unit \<times> 'w" where
  "release_script r reserved delayed member at body w =
     ((), rd_zadd r delayed at body (snd (rd_zrem r reserved member w)))"

definition zset_dead_letter_script ::
  "'w redis \<Rightarrow> bytes \<Rightarrow> bytes \<Rightarrow> bytes \<Rightarrow> bytes \<Rightarrow> bytes \<Rightarrow> 'w \<Rightarrow> nat \<times> 'w" where
  "zset_dead_letter_script r reserved dlq dlq_notify member body w =
     (case rd_zrem r reserved member w of
        (n, w1) \<Rightarrow> if n = 1 then (1, rd_rpush r dlq_notify ''1'' (rd_rpush r dlq body w1)) else (0, w1))"

definition deadline_member :: "bytes \<Rightarrow> bytes \<Rightarrow> bytes" where
  "deadline_member token raw = token @ '':'' @ raw"

definition legacy_reserve_script ::
  "'w redis \<Rightarrow> bytes \<Rightarrow> bytes \<Rightarrow> bytes \<Rightarrow> score \<Rightarrow> bytes \<Rightarrow> 'w \<Rightarrow> bytes option \<times> 'w" where
  "legacy_reserve_script r ready processing deadlines at token w =
     (case rd_lmove r ready processing w of
        (None, w1) \<Rightarrow> (None, w1)
      | (Some raw, w1) \<Rightarrow> (Some raw, rd_zadd r deadlines at (deadline_member token raw) w1))"

fun sweep_members ::
  "'w redis \<Rightarrow> bytes \<Rightarrow> bytes \<Rightarrow> bytes \<Rightarrow> bytes list \<Rightarrow> nat \<Rightarrow> 'w \<Rightarrow> nat \<times> 'w" where
  "sweep_members r ready processing deadlines [] moved w = (moved, w)"
| "sweep_members r ready processing deadlines (m # ms) moved w =
     (let (moved', w1) =
        (if 34 \<le> length m \<and> m ! 32 = CHR '':''
         then (case rd_lrem r processing (drop 33 m) w of
                 (n, w') \<Rightarrow> if n = 1 then (moved + 1, rd_rpush r ready (drop 33 m) w') else (moved, w'))
         else (moved, w))
      in sweep_members r ready processing deadlines ms moved' (snd (rd_zrem r deadlines m w1)))"

definition legacy_sweep_script ::
  "'w redis \<Rightarrow> bytes \<Rightarrow> bytes \<Rightarrow> bytes \<Rightarrow> int \<Rightarrow> int \<Rightarrow> 'w \<Rightarrow> nat \<times> 'w" where
  "legacy_sweep_script r ready processing deadlines floor batch w =
     sweep_members r ready processing deadlines (rd_zrangebyscore r deadlines floor batch w) 0 w"

definition legacy_ack_script ::
  "'w redis \<Rightarrow> bytes \<Rightarrow> bytes \<Rightarrow> bytes \<Rightarrow> bytes \<Rightarrow> 'w \<Rightarrow> nat \<times> 'w" where
  "legacy_ack_script r processing deadlines token raw w =
     (case rd_zrem r deadlines (deadline_member token raw) w of
        (n, w1) \<Rightarrow> if n = 1 then (1, snd (rd_lrem r processing raw w1)) else (0, w1))"

definition legacy_move_script ::
  "'w redis \<Rightarrow> bytes \<Rightarrow> bytes \<Rightarrow> bytes \<Rightarrow> bytes \<Rightarrow> bytes \<Rightarrow> bytes \<Rightarrow> 'w \<Rightarrow> nat \<times> 'w" where
  "legacy_move_script r processing deadlines dest token raw body w =
     (case rd_zrem r deadlines (deadline_member token raw) w of
        (n, w1) \<Rightarrow> if n = 1 then (1, rd_rpush r dest body (snd (rd_lrem r processing raw w1))) else (0, w1))"

subsection \<open>Header frames\<close>

definition sanitize_headers :: "bytes smap \<Rightarrow> bytes smap" where
  "sanitize_headers headers = filter (\<lambda>(k, v). k \<noteq> [] \<and> v \<noteq> []) headers"

definition frame_version :: int where "frame_version = 1"

text \<open>\<open>headerFrame\<close>, as \<open>json.Marshal\<close> writes it; the headers are never empty here.\<close>

definition frame_json :: "bytes smap \<Rightarrow> bytes \<Rightarrow> json" where
  "frame_json headers body =
     JObj [(''__bq_frame'', JNum (int_text frame_version)),
           (''headers'', JObj (map (\<lambda>(k, v). (quote_html k, JStr (quote_html v))) headers)),
           (''body'', JStr (quote_html body))]"

definition frame_value :: "bytes \<Rightarrow> bytes smap \<Rightarrow> bytes" where
  "frame_value body headers =
     (let clean = sanitize_headers headers
      in if clean = [] then body else json_print (frame_json clean body))"

definition frame_sentinel :: bytes where
  "frame_sentinel = [dquote] @ ''__bq_frame'' @ [dquote]"

fun contains_sentinel :: "bytes \<Rightarrow> bool" where
  "contains_sentinel [] = False"
| "contains_sentinel (c # s) = (take (length frame_sentinel) (c # s) = frame_sentinel \<or> contains_sentinel s)"

text \<open>Decoding into the struct: a null leaves a number or a string as it was, and clears the map; a
  second \<open>headers\<close> member adds to the first one's map; any type error makes the value a bare one.\<close>

record header_frame =
  hf_version :: int
  hf_headers :: "bytes smap"
  hf_body :: bytes

fun frame_headers :: "(bytes \<times> json) list \<Rightarrow> bytes smap \<Rightarrow> bytes smap option" where
  "frame_headers [] m = Some m"
| "frame_headers ((k, v) # ms) m =
     (case v of
        JStr b \<Rightarrow> frame_headers ms (smap_put (unquote k) (unquote b) m)
      | JNull \<Rightarrow> frame_headers ms (smap_put (unquote k) [] m)
      | _ \<Rightarrow> None)"

definition frame_member :: "bytes \<Rightarrow> json \<Rightarrow> header_frame \<Rightarrow> header_frame option" where
  "frame_member key v f =
     (if is_field ''__bq_frame'' key then
        (case v of
           JNull \<Rightarrow> Some f
         | JNum l \<Rightarrow> map_option (\<lambda>n. f\<lparr>hf_version := n\<rparr>) (parse_int l)
         | _ \<Rightarrow> None)
      else if is_field ''headers'' key then
        (case v of
           JNull \<Rightarrow> Some (f\<lparr>hf_headers := []\<rparr>)
         | JObj ms \<Rightarrow> map_option (\<lambda>m. f\<lparr>hf_headers := m\<rparr>) (frame_headers ms (hf_headers f))
         | _ \<Rightarrow> None)
      else if is_field ''body'' key then
        (case v of
           JNull \<Rightarrow> Some f
         | JStr b \<Rightarrow> Some (f\<lparr>hf_body := unquote b\<rparr>)
         | _ \<Rightarrow> None)
      else Some f)"

fun frame_members :: "(bytes \<times> json) list \<Rightarrow> header_frame \<Rightarrow> header_frame option" where
  "frame_members [] f = Some f"
| "frame_members ((k, v) # ms) f =
     (case frame_member (unquote k) v f of None \<Rightarrow> None | Some f' \<Rightarrow> frame_members ms f')"

definition decode_frame :: "bytes \<Rightarrow> header_frame option" where
  "decode_frame value =
     (case json_parse value of
        Some (JObj ms) \<Rightarrow> frame_members ms \<lparr>hf_version = 0, hf_headers = [], hf_body = []\<rparr>
      | _ \<Rightarrow> None)"

definition unframe :: "bytes \<Rightarrow> bytes \<times> bytes smap" where
  "unframe value =
     (if value = [] \<or> hd value \<noteq> CHR ''{'' \<or> \<not> contains_sentinel value then (value, [])
      else case decode_frame value of
             None \<Rightarrow> (value, [])
           | Some f \<Rightarrow> if hf_version f = 0 then (value, []) else (hf_body f, sanitize_headers (hf_headers f)))"

subsection \<open>Deliveries\<close>

definition decodes_with_identity :: "(bytes \<Rightarrow> bytes) \<Rightarrow> bytes \<Rightarrow> bool" where
  "decodes_with_identity stx raw \<longleftrightarrow> snd (decode stx raw) = None"

definition is_poison_head :: "(bytes \<Rightarrow> bytes) \<Rightarrow> bytes \<Rightarrow> bytes \<Rightarrow> bool" where
  "is_poison_head stx job reserved \<longleftrightarrow>
     (job = reserved \<or> \<not> utf8_ok job \<or> \<not> utf8_ok reserved) \<or> \<not> decodes_with_identity stx job"

text \<open>The last \<open>attempts\<close> member that is a number; the result is \<open>None\<close> when decoding fails.\<close>

fun head_attempts :: "(bytes \<times> json) list \<Rightarrow> bytes \<Rightarrow> bytes option" where
  "head_attempts [] l = Some l"
| "head_attempts ((k, v) # ms) l =
     (if is_field ''attempts'' (unquote k) then
        (case v of
           JNull \<Rightarrow> head_attempts ms l
         | JNum l' \<Rightarrow> (case canon_num l' of None \<Rightarrow> None | Some c \<Rightarrow> head_attempts ms c)
         | _ \<Rightarrow> None)
      else head_attempts ms l)"

definition delivery_count :: "bytes \<Rightarrow> bytes \<Rightarrow> int" where
  "delivery_count job reserved =
     (if job = reserved then 1
      else case (case json_parse job of
                   Some (JObj ms) \<Rightarrow> head_attempts ms ''0''
                 | Some JNull \<Rightarrow> Some ''0''
                 | _ \<Rightarrow> None) of
             None \<Rightarrow> 1
           | Some l \<Rightarrow> if num_units l < 0 then 1 else wrap64 (int_of_num l + 1))"

definition zset_message :: "(bytes \<Rightarrow> bytes) \<Rightarrow> bytes \<Rightarrow> bytes \<Rightarrow> bytes \<Rightarrow> received_message" where
  "zset_message stx queue job reserved =
     \<lparr>msg_body = job, msg_queue = queue, msg_handle = ZsetHandle job reserved, msg_headers = [],
      msg_delivery_count = delivery_count job reserved, msg_route_urn = [],
      msg_poison = is_poison_head stx job reserved\<rparr>"

definition legacy_message :: "(bytes \<Rightarrow> bytes) \<Rightarrow> bytes \<Rightarrow> bytes \<Rightarrow> bytes \<Rightarrow> received_message" where
  "legacy_message stx queue raw token =
     (if \<not> utf8_ok raw then
        \<lparr>msg_body = raw, msg_queue = queue, msg_handle = LegacyHandle raw token, msg_headers = [],
         msg_delivery_count = 0, msg_route_urn = [], msg_poison = True\<rparr>
      else let (body, headers) = unframe raw in
        \<lparr>msg_body = body, msg_queue = queue, msg_handle = LegacyHandle raw token, msg_headers = headers,
         msg_delivery_count = 0, msg_route_urn = [], msg_poison = \<not> decodes_with_identity stx body\<rparr>)"

subsection \<open>Reserving\<close>

text \<open>The reservation token: sixteen random bytes in hexadecimal.\<close>

definition token_text :: "8 word list \<Rightarrow> bytes" where
  "token_text bs = concat (map (\<lambda>b. [hex_digit (unat b div 16), hex_digit (unat b mod 16)]) bs)"

definition new_token :: "'w redis \<Rightarrow> 'w \<Rightarrow> (go_error + bytes) \<times> 'w" where
  "new_token r w = (case rd_random r w of (Inl e, w') \<Rightarrow> (Inl e, w') | (Inr bs, w') \<Rightarrow> (Inr (token_text bs), w'))"

definition migrate :: "'w redis \<Rightarrow> redis_config \<Rightarrow> redis_keys \<Rightarrow> int \<Rightarrow> 'w effect" where
  "migrate r c k now w =
     (case ran (run_script r (migrate_script r (k_delayed k) (k_ready k) (k_notify k) now (rc_batch c)) w) of
        (Some e, w1) \<Rightarrow> (Some e, w1)
      | (None, w1) \<Rightarrow>
          if rc_retry_after_null c then (None, w1)
          else ran (run_script r (migrate_script r (k_reserved k) (k_ready k) (k_notify k) now (rc_batch c)) w1))"

definition sweep :: "'w redis \<Rightarrow> redis_config \<Rightarrow> bytes \<Rightarrow> int \<Rightarrow> 'w effect" where
  "sweep r c queue now w =
     ran (run_script r (legacy_sweep_script r queue (processing_key c queue) (deadlines_key c queue) now (rc_batch c)) w)"

definition reserve_zset ::
  "'w redis \<Rightarrow> redis_config \<Rightarrow> bytes \<Rightarrow> int \<Rightarrow> 'w \<Rightarrow> (go_error + received_message option) \<times> 'w" where
  "reserve_zset r c queue now w =
     (let k = keys_of c queue in
      case migrate r c k now w of
        (Some e, w1) \<Rightarrow> (Inl e, w1)
      | (None, w1) \<Rightarrow>
          (case run_script r (reserve_script r (k_ready k) (k_reserved k) (k_notify k) (deadline_arg c now)) w1 of
             (Inl e, w2) \<Rightarrow> (Inl e, w2)
           | (Inr None, w2) \<Rightarrow> (Inr None, w2)
           | (Inr (Some (job, reserved)), w2) \<Rightarrow> (Inr (Some (zset_message (rd_syntax r) queue job reserved)), w2)))"

definition reserve_legacy ::
  "'w redis \<Rightarrow> redis_config \<Rightarrow> bytes \<Rightarrow> int \<Rightarrow> 'w \<Rightarrow> (go_error + received_message option) \<times> 'w" where
  "reserve_legacy r c queue now w =
     (case sweep r c queue now w of
        (Some e, w1) \<Rightarrow> (Inl e, w1)
      | (None, w1) \<Rightarrow>
          (case new_token r w1 of
             (Inl e, w2) \<Rightarrow> (Inl e, w2)
           | (Inr token, w2) \<Rightarrow>
               (case run_script r (legacy_reserve_script r queue (processing_key c queue) (deadlines_key c queue)
                         (deadline_arg c now) token) w2 of
                  (Inl e, w3) \<Rightarrow> (Inl e, w3)
                | (Inr None, w3) \<Rightarrow> (Inr None, w3)
                | (Inr (Some raw), w3) \<Rightarrow> (Inr (Some (legacy_message (rd_syntax r) queue raw token)), w3))))"

definition reserve_once ::
  "'w redis \<Rightarrow> redis_config \<Rightarrow> bytes \<Rightarrow> int \<Rightarrow> 'w \<Rightarrow> (go_error + received_message option) \<times> 'w" where
  "reserve_once r c queue now w =
     (case rc_cfg_err c of
        Some e \<Rightarrow> (Inl e, w)
      | None \<Rightarrow> if rc_laravel c then reserve_zset r c queue now w else reserve_legacy r c queue now w)"

text \<open>The waiting loop runs until a message, an error or the timeout; \<open>None\<close> is a loop still waiting after
  the given number of rounds. Without a timeout (\<open>None\<close> as limit) it may wait for ever.\<close>

definition wait_slice :: int where "wait_slice = seconds 1"

fun pop_loop ::
  "nat \<Rightarrow> 'w redis \<Rightarrow> redis_config \<Rightarrow> bytes \<Rightarrow> int option \<Rightarrow> int \<Rightarrow> 'w
   \<Rightarrow> ((go_error + received_message option) \<times> 'w) option" where
  "pop_loop 0 r c queue limit backoff w = None"
| "pop_loop (Suc n) r c queue limit backoff w =
     (case reserve_once r c queue (rd_now r w) w of
        (Inl e, w1) \<Rightarrow> Some (Inl e, w1)
      | (Inr (Some m), w1) \<Rightarrow> Some (Inr (Some m), w1)
      | (Inr None, w1) \<Rightarrow>
          (let wait0 = (if rc_laravel c then wait_slice else backoff);
               backoff' = (if rc_laravel c then backoff else min (backoff * 2) (seconds 1));
               remaining = map_option (\<lambda>l. l - rd_clock r w1) limit
           in if (case remaining of Some x \<Rightarrow> x \<le> 0 | None \<Rightarrow> False) then Some (Inr None, w1)
              else let wait = (case remaining of Some x \<Rightarrow> min wait0 x | None \<Rightarrow> wait0) in
                (case (if rc_laravel c \<and> seconds 1 \<le> wait
                       then rd_blpop r (k_notify (keys_of c queue)) wait w1 else rd_sleep r wait w1) of
                   (Some e, w2) \<Rightarrow> Some (Inl e, w2)
                 | (None, w2) \<Rightarrow> pop_loop n r c queue limit backoff' w2)))"

definition redis_pop ::
  "nat \<Rightarrow> 'w redis \<Rightarrow> redis_config \<Rightarrow> bytes \<Rightarrow> int \<Rightarrow> 'w \<Rightarrow> ((go_error + received_message option) \<times> 'w) option" where
  "redis_pop n r c queue timeout w =
     (case rc_cfg_err c of
        Some e \<Rightarrow> Some (Inl e, w)
      | None \<Rightarrow> pop_loop n r c queue (if 0 < timeout then Some (rd_clock r w + timeout) else None) (seconds 1 div 10) w)"

subsection \<open>Publishing and settling\<close>

definition publish_value :: "'w redis \<Rightarrow> redis_config \<Rightarrow> bytes \<Rightarrow> bytes \<Rightarrow> 'w effect" where
  "publish_value r c queue value w =
     (case rc_cfg_err c of
        Some e \<Rightarrow> (Some e, w)
      | None \<Rightarrow>
          if \<not> rc_laravel c then ran (run_script r (\<lambda>w. ((), rd_rpush r queue value w)) w)
          else let k = keys_of c queue in ran (run_script r (push_script r (k_ready k) (k_notify k) value) w))"

definition redis_publish :: "'w redis \<Rightarrow> redis_config \<Rightarrow> bytes \<Rightarrow> bytes \<Rightarrow> 'w effect" where
  "redis_publish r c queue body w = publish_value r c queue body w"

definition redis_publish_with_headers ::
  "'w redis \<Rightarrow> redis_config \<Rightarrow> bytes \<Rightarrow> bytes \<Rightarrow> bytes smap \<Rightarrow> 'w effect" where
  "redis_publish_with_headers r c queue body headers w =
     (if rc_laravel c then publish_value r c queue body w
      else publish_value r c queue (frame_value body headers) w)"

definition publish_delayed_at :: "'w redis \<Rightarrow> redis_config \<Rightarrow> bytes \<Rightarrow> bytes \<Rightarrow> int \<Rightarrow> int \<Rightarrow> 'w effect" where
  "publish_delayed_at r c queue body delay now w =
     (case rc_cfg_err c of
        Some e \<Rightarrow> (Some e, w)
      | None \<Rightarrow>
          if \<not> rc_laravel c then (Some (plain_error ErrDelayedUnsupported), w)
          else ran (run_script r (\<lambda>w. ((), rd_zadd r (k_delayed (keys_of c queue)) (At (delay_score now delay)) body w)) w))"

definition publish_delayed :: "'w redis \<Rightarrow> redis_config \<Rightarrow> bytes \<Rightarrow> envelope \<Rightarrow> int \<Rightarrow> 'w effect" where
  "publish_delayed r c queue env delay w =
     (case encode (rd_syntax r) env of
        Inl e \<Rightarrow> (Some e, w)
      | Inr body \<Rightarrow> publish_delayed_at r c queue body delay (rd_now r w) w)"

definition body_for_release :: "(bytes \<Rightarrow> bytes) \<Rightarrow> bytes \<Rightarrow> bytes option" where
  "body_for_release stx raw =
     (case decode stx raw of
        (env, err) \<Rightarrow>
          if (case err of None \<Rightarrow> False | Some e \<Rightarrow> \<not> errors_is e ErrNoIdentity) then None
          else case encode stx (env\<lparr>env_attempts := wrap64 (env_attempts env + 1)\<rparr>) of
                 Inl e \<Rightarrow> None
               | Inr out \<Rightarrow> Some out)"

text \<open>A lost gate (the script answers 0) is only a warning.\<close>

definition gated_move ::
  "'w redis \<Rightarrow> redis_config \<Rightarrow> bytes \<Rightarrow> bytes \<Rightarrow> bytes \<Rightarrow> bytes \<Rightarrow> bytes \<Rightarrow> 'w effect" where
  "gated_move r c queue raw token dest body w =
     ran (run_script r (legacy_move_script r (processing_key c queue) (deadlines_key c queue) dest token raw body) w)"

definition release_at :: "'w redis \<Rightarrow> redis_config \<Rightarrow> received_message \<Rightarrow> int \<Rightarrow> int \<Rightarrow> 'w effect" where
  "release_at r c msg delay now w =
     (case rc_cfg_err c of
        Some e \<Rightarrow> (Some e, w)
      | None \<Rightarrow>
          (case msg_handle msg of
             ZsetHandle job reserved \<Rightarrow>
               (case body_for_release (rd_syntax r) job of
                  None \<Rightarrow> (Some (plain_error ErrReleaseUnsupported), w)
                | Some body \<Rightarrow>
                    let k = keys_of c (msg_queue msg) in
                    ran (run_script r (release_script r (k_reserved k) (k_delayed k) reserved
                           (At (delay_score now delay)) body) w))
           | LegacyHandle raw token \<Rightarrow>
               (case body_for_release (rd_syntax r) (msg_body msg) of
                  None \<Rightarrow> (Some (plain_error ErrReleaseUnsupported), w)
                | Some body \<Rightarrow>
                    gated_move r c (msg_queue msg) raw token (k_ready (keys_of c (msg_queue msg)))
                      (frame_value body (msg_headers msg)) w)
           | _ \<Rightarrow> (Some (plain_error ErrReleaseUnsupported), w)))"

definition redis_release :: "'w redis \<Rightarrow> redis_config \<Rightarrow> received_message \<Rightarrow> int \<Rightarrow> 'w effect" where
  "redis_release r c msg delay w = release_at r c msg delay (rd_now r w) w"

definition unrecognised_handle :: "bytes \<Rightarrow> go_error" where
  "unrecognised_handle kind =
     \<lparr>err_is = [], err_text = ''babelqueue/redis: unrecognised '' @ kind @ '' handle'', err_type = ''*errors.errorString''\<rparr>"

definition redis_dead_letter :: "'w redis \<Rightarrow> redis_config \<Rightarrow> received_message \<Rightarrow> bytes \<Rightarrow> bytes \<Rightarrow> 'w effect" where
  "redis_dead_letter r c msg dlq body w =
     (case rc_cfg_err c of
        Some e \<Rightarrow> (Some e, w)
      | None \<Rightarrow>
          (case msg_handle msg of
             ZsetHandle job reserved \<Rightarrow>
               let k = keys_of c (msg_queue msg); dk = keys_of c dlq in
               ran (run_script r (zset_dead_letter_script r (k_reserved k) (k_ready dk) (k_notify dk) reserved body) w)
           | LegacyHandle raw token \<Rightarrow> gated_move r c (msg_queue msg) raw token dlq body w
           | _ \<Rightarrow> (Some (unrecognised_handle ''reservation''), w)))"

definition redis_ack :: "'w redis \<Rightarrow> redis_config \<Rightarrow> received_message \<Rightarrow> 'w effect" where
  "redis_ack r c msg w =
     (case rc_cfg_err c of
        Some e \<Rightarrow> (Some e, w)
      | None \<Rightarrow>
          (case msg_handle msg of
             ZsetHandle job reserved \<Rightarrow>
               ran (run_script r (rd_zrem r (k_reserved (keys_of c (msg_queue msg))) reserved) w)
           | LegacyHandle raw token \<Rightarrow>
               ran (run_script r (legacy_ack_script r (processing_key c (msg_queue msg)) (deadlines_key c (msg_queue msg))
                      token raw) w)
           | _ \<Rightarrow> (Some (unrecognised_handle ''ack''), w)))"

text \<open>The transport the runtime sees. A pop that outlives its rounds counts as an empty one.\<close>

definition redis_transport :: "nat \<Rightarrow> 'w redis \<Rightarrow> redis_config \<Rightarrow> 'w transport" where
  "redis_transport n r c =
     \<lparr>tr_publish = redis_publish r c,
      tr_pop = (\<lambda>queue timeout w. case redis_pop n r c queue timeout w of Some res \<Rightarrow> res | None \<Rightarrow> (Inr None, w)),
      tr_ack = redis_ack r c,
      tr_publish_with_headers = Some (redis_publish_with_headers r c), tr_publish_routed = None,
      tr_publish_from = None, tr_publish_from_with_headers = None, tr_release = Some (redis_release r c),
      tr_dead_letter = Some (redis_dead_letter r c), tr_rewind = None, tr_settle_native = None,
      tr_settle_native_dead_letter = None, tr_dead_letter_queue_name = None\<rparr>"

end
