(* ===== verification/RedisLaws.thy ===== *)
theory RedisLaws
  imports Redis "HOL-Library.Multiset"
begin

section \<open>What the Redis transport guarantees\<close>

text \<open>
  \<open>redis_ok\<close> is the documented behaviour of the commands the default layout uses, on a view of the
  world as lists and sorted sets. Under it the reservations of the default layout are covered: for
  every deadline member there is a copy of its message in the processing list, whatever the consumers
  and the network do; so a sweep finds every expired reservation and makes its message ready again.
\<close>

subsection \<open>The delay formula\<close>

text \<open>A delayed message is never due early, and never late by a second or more, counted from the
  whole second of the clock; but a delay in the last second of the 64-bit range (such as the largest
  duration, at which a growing retry delay saturates) wraps around and is due at once.\<close>

theorem delay_score_spec:
  assumes "0 \<le> d" and "d \<le> max_int64" and "0 \<le> now" and "now < 2 ^ 62"
  shows "if d \<le> max_int64 - 999999999
         then now * seconds 1 + d \<le> delay_score now d * seconds 1
           \<and> delay_score now d * seconds 1 < now * seconds 1 + d + seconds 1
         else delay_score now d < now"
proof (cases "d \<le> max_int64 - 999999999")
  case True
  have "wrap64 (d + seconds 1 - 1) = d + 999999999"
    using assms(1) True by (intro trans [OF wrap64_id]) (simp_all add: int64_ok_def min_int64_def max_int64_def seconds_def)
  moreover have "(d + 999999999) div 1000000000 \<le> 9223372036" "0 \<le> (d + 999999999) div 1000000000"
    using assms(1) True by (simp_all add: max_int64_def)
  moreover have "wrap64 (now + (d + 999999999) div 1000000000) = now + (d + 999999999) div 1000000000"
    using assms(3,4) calculation(2,3) by (intro wrap64_id) (simp add: int64_ok_def min_int64_def max_int64_def)
  ultimately have "delay_score now d = now + (d + 999999999) div 1000000000"
    using assms(1) by (simp add: delay_score_def trunc_div_def seconds_def)
  moreover have "d \<le> (d + 999999999) div 1000000000 * 1000000000"
    "(d + 999999999) div 1000000000 * 1000000000 < d + 1000000000" by linarith+
  ultimately show ?thesis using True by (simp add: seconds_def algebra_simps)
next
  case False
  have "(d + 9223372037854775807) mod 18446744073709551616 = d + 9223372037854775807 - 18446744073709551616"
    using assms(2) False by (subst minus_mod_self2 [symmetric], intro mod_pos_pos_trivial) (simp_all add: max_int64_def)
  then have "wrap64 (d + seconds 1 - 1) = d + 999999999 - 2 ^ 64"
    by (simp add: wrap64_def seconds_def algebra_simps)
  then have s: "trunc_div (wrap64 (d + seconds 1 - 1)) (seconds 1) = - ((2 ^ 64 - (d + 999999999)) div 1000000000)"
    using assms(2) by (simp add: trunc_div_def seconds_def max_int64_def)
  have b: "1 \<le> (2 ^ 64 - (d + 999999999)) div 1000000000" "(2 ^ 64 - (d + 999999999)) div 1000000000 \<le> 2 ^ 62"
    using assms(1,2) False by (simp_all add: max_int64_def)
  then have "wrap64 (now - (2 ^ 64 - (d + 999999999)) div 1000000000) = now - (2 ^ 64 - (d + 999999999)) div 1000000000"
    using assms(3,4) by (intro wrap64_id) (simp add: int64_ok_def min_int64_def max_int64_def)
  then have "delay_score now d = now - (2 ^ 64 - (d + 999999999)) div 1000000000"
    using s assms(1) by (simp add: delay_score_def)
  then show ?thesis using False b by simp
qed

lemma delay_score_spec_witness:
  "100 * seconds 1 + 1500000000 \<le> delay_score 100 1500000000 * seconds 1
   \<and> delay_score 100 1500000000 * seconds 1 < 100 * seconds 1 + 1500000000 + seconds 1
   \<and> delay_score 100 max_int64 < 100"
  using delay_score_spec [of 1500000000 100] delay_score_spec [of max_int64 100] by (simp add: max_int64_def)

subsection \<open>Header frames\<close>

definition headers_ok :: "bytes smap \<Rightarrow> bool" where
  "headers_ok m \<longleftrightarrow> smap_ok m \<and> (\<forall>(k, v) \<in> set m. utf8_ok k \<and> utf8_ok v)"

lemma clean_name_ok: "headers_ok m \<Longrightarrow> headers_ok (sanitize_headers m)"
proof -
  assume "headers_ok m"
  moreover have "smap_ok m \<Longrightarrow> smap_ok (filter P m)" for P
    by (induction m) auto
  ultimately show ?thesis by (auto simp: headers_ok_def sanitize_headers_def)
qed

lemma sanitize_idem: "sanitize_headers (sanitize_headers m) = sanitize_headers m"
  by (simp add: sanitize_headers_def)

lemma frame_headers_read:
  "\<forall>(k, v) \<in> set hs. utf8_ok k \<and> utf8_ok v \<Longrightarrow>
   frame_headers (map (\<lambda>(k, v). (quote_html k, JStr (quote_html v))) hs) m = Some (smap_of hs m)"
  by (induction hs arbitrary: m) (auto simp: unquote_quote_html)

lemma frame_json_ok: "json_ok 0 (frame_json headers body)"
proof -
  have "num_ok (int_text frame_version)" "body_ok ''__bq_frame''" "body_ok ''headers''" "body_ok ''body''"
    by code_simp+
  then show ?thesis by (auto simp: frame_json_def max_depth_def)
qed

lemma frame_sentinel_found: "contains_sentinel (json_print (frame_json headers body))"
proof -
  have "\<exists>rest. json_print (frame_json headers body) = CHR ''{'' # frame_sentinel @ rest"
    by (simp add: frame_json_def frame_sentinel_def print_str_def)
  then obtain rest where "json_print (frame_json headers body) = CHR ''{'' # frame_sentinel @ rest" by blast
  moreover have "contains_sentinel (frame_sentinel @ rest)"
    by (cases "frame_sentinel @ rest") (auto simp: frame_sentinel_def)
  ultimately show ?thesis by simp
qed

lemma decode_frame_json:
  assumes "headers_ok headers" and "utf8_ok body"
  shows "decode_frame (json_print (frame_json headers body)) =
    Some \<lparr>hf_version = 1, hf_headers = headers, hf_body = body\<rparr>"
proof -
  have k: "unquote ''__bq_frame'' = ''__bq_frame''" "unquote ''headers'' = ''headers''" "unquote ''body'' = ''body''"
    "is_field ''__bq_frame'' ''__bq_frame''" "\<not> is_field ''__bq_frame'' ''headers''" "\<not> is_field ''__bq_frame'' ''body''"
    "is_field ''headers'' ''headers''" "\<not> is_field ''headers'' ''body''" "is_field ''body'' ''body''"
    "parse_int (int_text frame_version) = Some 1"
    by code_simp+
  have "frame_headers (map (\<lambda>(k, v). (quote_html k, JStr (quote_html v))) headers) [] = Some headers"
    using frame_headers_read [of headers "[]"] assms(1) smap_of_id [of headers] by (simp add: headers_ok_def)
  then show ?thesis
    using assms(2) k unfolding decode_frame_def json_parse_print [OF frame_json_ok]
    by (simp add: frame_json_def frame_member_def unquote_quote_html)
qed

text \<open>C37. Headers travel beside the body and back. What \<open>PublishWithHeaders\<close> stores in the default
  layout is read as exactly the published body and the headers that are not blank; without such
  headers the stored value is the body itself, byte for byte. (For a body and headers of valid
  UTF-8.)\<close>

theorem frame_roundtrip:
  assumes "headers_ok headers" and "utf8_ok body"
  shows "if sanitize_headers headers = [] then frame_value body headers = body
         else unframe (frame_value body headers) = (body, sanitize_headers headers)"
proof (cases "sanitize_headers headers = []")
  case False
  let ?v = "json_print (frame_json (sanitize_headers headers) body)"
  have "?v \<noteq> [] \<and> hd ?v = CHR ''{''" by (simp add: frame_json_def)
  then show ?thesis
    using False frame_sentinel_found decode_frame_json [OF clean_name_ok [OF assms(1)] assms(2)]
    by (simp add: frame_value_def unframe_def Let_def sanitize_idem)
qed (simp add: frame_value_def)

lemma frame_roundtrip_witness:
  "unframe (frame_value ''{}'' [(''a'', []), (''traceparent'', ''00-1<2'')]) = (''{}'', [(''traceparent'', ''00-1<2'')])
   \<and> frame_value ''{}'' [(''a'', [])] = ''{}''"
proof -
  have "headers_ok [(''a'', []), (''traceparent'', ''00-1<2'')]" "headers_ok [(''a'', [])]" "utf8_ok ''{}''"
    by code_simp+
  then show ?thesis
    using frame_roundtrip [of "[(''a'', []), (''traceparent'', ''00-1<2'')]" "''{}''"] frame_roundtrip [of "[(''a'', [])]" "''{}''"]
    by (simp add: sanitize_headers_def)
qed

subsection \<open>Reservations of the default layout\<close>

definition redis_ok ::
  "'w redis \<Rightarrow> ('w \<Rightarrow> bytes \<Rightarrow> bytes list) \<Rightarrow> ('w \<Rightarrow> bytes \<Rightarrow> bytes \<Rightarrow> score option) \<Rightarrow> bool" where
  "redis_ok r lst zset \<longleftrightarrow>
     (\<forall>k v w. lst (rd_rpush r k v w) = (lst w)(k := lst w k @ [v]) \<and> zset (rd_rpush r k v w) = zset w) \<and>
     (\<forall>s d w. s \<noteq> d \<longrightarrow>
        fst (rd_lmove r s d w) = (if lst w s = [] then None else Some (hd (lst w s))) \<and>
        lst (snd (rd_lmove r s d w)) =
          (if lst w s = [] then lst w else (lst w)(s := tl (lst w s), d := lst w d @ [hd (lst w s)])) \<and>
        zset (snd (rd_lmove r s d w)) = zset w) \<and>
     (\<forall>k v w. fst (rd_lrem r k v w) = of_bool (v \<in> set (lst w k)) \<and>
        lst (snd (rd_lrem r k v w)) = (lst w)(k := remove1 v (lst w k)) \<and>
        zset (snd (rd_lrem r k v w)) = zset w) \<and>
     (\<forall>k a m w. lst (rd_zadd r k a m w) = lst w \<and> zset (rd_zadd r k a m w) = (zset w)(k := (zset w k)(m \<mapsto> a))) \<and>
     (\<forall>k m w. fst (rd_zrem r k m w) = of_bool (zset w k m \<noteq> None) \<and> lst (snd (rd_zrem r k m w)) = lst w \<and>
        zset (snd (rd_zrem r k m w)) = (zset w)(k := (zset w k)(m := None))) \<and>
     (\<forall>k t b w. distinct (rd_zrangebyscore r k t b w) \<and>
        set (rd_zrangebyscore r k t b w) \<subseteq> {m. \<exists>a. zset w k m = Some (At a) \<and> a \<le> t} \<and>
        (b = -1 \<longrightarrow> set (rd_zrangebyscore r k t b w) = {m. \<exists>a. zset w k m = Some (At a) \<and> a \<le> t})) \<and>
     (\<forall>w. lst (snd (rd_call r w)) = lst w \<and> zset (snd (rd_call r w)) = zset w) \<and>
     (\<forall>w bs w'. rd_random r w = (bs, w') \<longrightarrow> lst w' = lst w \<and> zset w' = zset w \<and>
        (\<forall>x. bs = Inr x \<longrightarrow> length x = 16))"

lemma redis_okD:
  assumes "redis_ok r lst zset"
  shows "lst (rd_rpush r k v w) = (lst w)(k := lst w k @ [v])" "zset (rd_rpush r k v w) = zset w"
    "s \<noteq> d \<Longrightarrow> fst (rd_lmove r s d w) = (if lst w s = [] then None else Some (hd (lst w s)))"
    "s \<noteq> d \<Longrightarrow> lst (snd (rd_lmove r s d w)) =
      (if lst w s = [] then lst w else (lst w)(s := tl (lst w s), d := lst w d @ [hd (lst w s)]))"
    "s \<noteq> d \<Longrightarrow> zset (snd (rd_lmove r s d w)) = zset w"
    "fst (rd_lrem r k v w) = of_bool (v \<in> set (lst w k))"
    "lst (snd (rd_lrem r k v w)) = (lst w)(k := remove1 v (lst w k))"
    "zset (snd (rd_lrem r k v w)) = zset w"
    "lst (rd_zadd r k a m w) = lst w" "zset (rd_zadd r k a m w) = (zset w)(k := (zset w k)(m \<mapsto> a))"
    "fst (rd_zrem r k m w) = of_bool (zset w k m \<noteq> None)" "lst (snd (rd_zrem r k m w)) = lst w"
    "zset (snd (rd_zrem r k m w)) = (zset w)(k := (zset w k)(m := None))"
    "lst (snd (rd_call r w)) = lst w" "zset (snd (rd_call r w)) = zset w"
  using assms unfolding redis_ok_def by (simp_all only: simp_thms)

lemma redis_ok_range:
  assumes "redis_ok r lst zset"
  shows "distinct (rd_zrangebyscore r k t b w)"
    "m \<in> set (rd_zrangebyscore r k t b w) \<Longrightarrow> \<exists>a. zset w k m = Some (At a) \<and> a \<le> t"
    "b = -1 \<Longrightarrow> zset w k m = Some (At a) \<Longrightarrow> a \<le> t \<Longrightarrow> m \<in> set (rd_zrangebyscore r k t b w)"
  using assms unfolding redis_ok_def by blast+

lemma redis_ok_random:
  assumes "redis_ok r lst zset" and "rd_random r w = (bs, w')"
  shows "lst w' = lst w" "zset w' = zset w" "bs = Inr x \<Longrightarrow> length x = 16"
  using assms unfolding redis_ok_def by blast+

text \<open>Every deadline member that names a message has a copy of it in the processing list.\<close>

definition names_message :: "bytes \<Rightarrow> bool" where
  "names_message m \<longleftrightarrow> 34 \<le> length m \<and> m ! 32 = CHR '':''"

definition covered :: "bytes list \<Rightarrow> (bytes \<Rightarrow> score option) \<Rightarrow> bool" where
  "covered p d \<longleftrightarrow> finite (dom d) \<and>
     (\<forall>raw. card {m \<in> dom d. names_message m \<and> drop 33 m = raw} \<le> count (mset p) raw)"

lemma covered_finite: "covered p d \<Longrightarrow> finite {m \<in> dom d. P m}"
  by (simp add: covered_def)

lemma covered_drop:
  assumes "covered p d"
  shows "covered p (d(m := None))"
proof -
  have "card {x \<in> dom (d(m := None)). names_message x \<and> drop 33 x = raw} \<le> card {x \<in> dom d. names_message x \<and> drop 33 x = raw}" for raw
    by (rule card_mono [OF covered_finite [OF assms]]) auto
  then show ?thesis using assms unfolding covered_def by (auto intro: le_trans)
qed

lemma covered_more: "covered p d \<Longrightarrow> covered (p @ [x]) d"
  by (auto simp: covered_def intro: le_SucI)

lemma covered_add:
  assumes "covered p d" and "names_message m \<Longrightarrow> drop 33 m = x"
  shows "covered (p @ [x]) (d(m \<mapsto> a))"
proof -
  have "card {y \<in> dom (d(m \<mapsto> a)). names_message y \<and> drop 33 y = raw} \<le> count (mset (p @ [x])) raw" for raw
  proof (cases "names_message m \<and> raw = x")
    case True
    have "{y \<in> dom (d(m \<mapsto> a)). names_message y \<and> drop 33 y = raw} \<subseteq>
      insert m {y \<in> dom d. names_message y \<and> drop 33 y = raw}" by auto
    then have "card {y \<in> dom (d(m \<mapsto> a)). names_message y \<and> drop 33 y = raw} \<le>
      card (insert m {y \<in> dom d. names_message y \<and> drop 33 y = raw})"
      using covered_finite [OF assms(1)] by (intro card_mono) auto
    also have "\<dots> \<le> Suc (card {y \<in> dom d. names_message y \<and> drop 33 y = raw})" by (rule card_insert_le_m1) simp_all
    also have "\<dots> \<le> count (mset (p @ [x])) raw" using assms(1) True by (auto simp: covered_def)
    finally show ?thesis .
  next
    case False
    then have "{y \<in> dom (d(m \<mapsto> a)). names_message y \<and> drop 33 y = raw} = {y \<in> dom d. names_message y \<and> drop 33 y = raw}"
      using assms(2) by auto
    then show ?thesis using assms(1) unfolding covered_def by (auto intro: le_SucI)
  qed
  then show ?thesis using assms(1) by (simp add: covered_def)
qed

lemma covered_settle:
  assumes "covered p d" and "d m \<noteq> None" and "names_message m \<Longrightarrow> drop 33 m = x"
    and "\<not> names_message m \<Longrightarrow> x = []"
  shows "covered (remove1 x p) (d(m := None))"
proof -
  have "card {y \<in> dom (d(m := None)). names_message y \<and> drop 33 y = raw} \<le> count (mset (remove1 x p)) raw" for raw
  proof (cases "raw = x")
    case False
    have "card {y \<in> dom (d(m := None)). names_message y \<and> drop 33 y = raw} \<le> count (mset p) raw"
      using covered_drop [OF assms(1)] by (simp add: covered_def)
    then show ?thesis using False by simp
  next
    case True
    show ?thesis
    proof (cases "names_message m")
      case n: True
      let ?S = "{y \<in> dom d. names_message y \<and> drop 33 y = raw}"
      have "{y \<in> dom (d(m := None)). names_message y \<and> drop 33 y = raw} = ?S - {m}" by auto
      moreover have "m \<in> ?S" using n True assms(2,3) by auto
      ultimately have "card {y \<in> dom (d(m := None)). names_message y \<and> drop 33 y = raw} = card ?S - 1"
        using covered_finite [OF assms(1)] by simp
      also have "\<dots> \<le> count (mset p) raw - 1" using assms(1) by (simp add: covered_def diff_le_mono)
      finally show ?thesis using True by simp
    next
      case False
      then have "raw = []" using True assms(4) by simp
      then have "{y \<in> dom (d(m := None)). names_message y \<and> drop 33 y = raw} = {}" by (auto simp: names_message_def)
      then show ?thesis by (simp only: card.empty zero_order)
    qed
  qed
  then show ?thesis using assms(1) by (simp add: covered_def)
qed

text \<open>A covered message is found by \<open>LREM\<close>.\<close>

lemma covered_found: "covered p d \<Longrightarrow> d m \<noteq> None \<Longrightarrow> names_message m \<Longrightarrow> drop 33 m \<in> set p"
proof -
  assume c: "covered p d" and m: "d m \<noteq> None" "names_message m"
  let ?S = "{y \<in> dom d. names_message y \<and> drop 33 y = drop 33 m}"
  have "m \<in> ?S" using m by auto
  moreover have "finite ?S" by (rule covered_finite [OF c])
  ultimately have "0 < card ?S" by (metis card_gt_0_iff empty_iff)
  moreover have "card ?S \<le> count (mset p) (drop 33 m)" using c unfolding covered_def by blast
  ultimately have "0 < count (mset p) (drop 33 m)" by linarith
  then show ?thesis by simp
qed

text \<open>A sweep moves the message of every member it is given to the ready list and drops the members.\<close>

lemma sweep_effect:
  assumes ok: "redis_ok r lst zset" and ne: "ready \<noteq> proc"
  shows "distinct ms \<Longrightarrow> set ms \<subseteq> dom (zset w dl) \<Longrightarrow> covered (lst w proc) (zset w dl) \<Longrightarrow>
    sweep_members r ready proc dl ms n w = (k, w') \<Longrightarrow>
    lst w' ready = lst w ready @ map (drop 33) (filter names_message ms)
    \<and> mset (lst w' proc) + mset (map (drop 33) (filter names_message ms)) = mset (lst w proc)
    \<and> (\<forall>k. k \<noteq> ready \<longrightarrow> k \<noteq> proc \<longrightarrow> lst w' k = lst w k)
    \<and> zset w' = (zset w)(dl := (\<lambda>m. if m \<in> set ms then None else zset w dl m))
    \<and> covered (lst w' proc) (zset w' dl)"
proof (induction ms arbitrary: n w)
  case Nil
  then show ?case by auto
next
  case (Cons m ms)
  let ?x = "drop 33 m"
  define w2 where "w2 = (if names_message m then rd_rpush r ready ?x (snd (rd_lrem r proc ?x w)) else w)"
  define w3 where "w3 = snd (rd_zrem r dl m w2)"
  have m: "zset w dl m \<noteq> None" using Cons.prems(2) by auto
  have x: "names_message m \<Longrightarrow> ?x \<in> set (lst w proc)"
    using covered_found [OF Cons.prems(3) m] .
  have step: "\<exists>n'. sweep_members r ready proc dl (m # ms) n w = sweep_members r ready proc dl ms n' w3"
  proof (cases "names_message m")
    case True
    then have "fst (rd_lrem r proc ?x w) = 1" using x redis_okD(6) [OF ok, of proc ?x w] by simp
    then show ?thesis using True
      by (cases "rd_lrem r proc ?x w") (auto simp: w2_def w3_def names_message_def)
  next
    case False
    then show ?thesis by (auto simp: w2_def w3_def names_message_def)
  qed
  then obtain n' where n': "sweep_members r ready proc dl ms n' w3 = (k, w')" using Cons.prems(4) by auto
  have l2: "lst w2 ready = lst w ready @ map (drop 33) (filter names_message [m])"
    "lst w2 proc = (if names_message m then remove1 ?x (lst w proc) else lst w proc)"
    "\<And>k. k \<noteq> ready \<Longrightarrow> k \<noteq> proc \<Longrightarrow> lst w2 k = lst w k" "zset w2 = zset w"
    using ne by (simp_all add: w2_def redis_okD [OF ok])
  have l3: "lst w3 = lst w2" "zset w3 = (zset w)(dl := (zset w dl)(m := None))"
    using l2(4) by (simp_all add: w3_def redis_okD [OF ok])
  have c3: "covered (lst w3 proc) (zset w3 dl)"
  proof (cases "names_message m")
    case True
    then show ?thesis using covered_settle [OF Cons.prems(3) m, of ?x] l2(2) l3 by simp
  next
    case False
    then show ?thesis using covered_drop [OF Cons.prems(3), of m] l2(2) l3 by simp
  qed
  have d3: "set ms \<subseteq> dom (zset w3 dl)" using Cons.prems(1,2) l3(2) by auto
  have IH: "lst w' ready = lst w3 ready @ map (drop 33) (filter names_message ms)
    \<and> mset (lst w' proc) + mset (map (drop 33) (filter names_message ms)) = mset (lst w3 proc)
    \<and> (\<forall>k. k \<noteq> ready \<longrightarrow> k \<noteq> proc \<longrightarrow> lst w' k = lst w3 k)
    \<and> zset w' = (zset w3)(dl := (\<lambda>m. if m \<in> set ms then None else zset w3 dl m))
    \<and> covered (lst w' proc) (zset w' dl)"
    by (rule Cons.IH [OF _ d3 c3 n']) (use Cons.prems(1) in simp)
  have "mset (lst w3 proc) + mset (map (drop 33) (filter names_message [m])) = mset (lst w proc)"
    using l2(2) l3(1) x by simp
  moreover have "zset w' = (zset w)(dl := (\<lambda>j. if j \<in> set (m # ms) then None else zset w dl j))"
    using IH l3(2) by (auto simp: fun_eq_iff)
  ultimately show ?case using IH l2 l3(1) by (auto simp: ac_simps)
qed

text \<open>The world changes by what consumers and producers of a queue do, with any arguments, at any time
  and whatever the network does to their calls, and by anything that leaves the view as it is.\<close>

inductive legacy_step ::
  "'w redis \<Rightarrow> ('w \<Rightarrow> bytes \<Rightarrow> bytes list) \<Rightarrow> ('w \<Rightarrow> bytes \<Rightarrow> bytes \<Rightarrow> score option) \<Rightarrow> redis_config \<Rightarrow> bytes
   \<Rightarrow> 'w \<Rightarrow> 'w \<Rightarrow> bool" for r lst zset c q where
  step_publish: "queue \<noteq> processing_key c q \<Longrightarrow>
    legacy_step r lst zset c q w (snd (redis_publish_with_headers r c queue body headers w))"
| step_reserve: "legacy_step r lst zset c q w (snd (reserve_once r c q now w))"
| step_ack: "msg_queue m = q \<Longrightarrow> msg_handle m = LegacyHandle raw token \<Longrightarrow> length token = 32 \<Longrightarrow>
    legacy_step r lst zset c q w (snd (redis_ack r c m w))"
| step_release: "msg_queue m = q \<Longrightarrow> msg_handle m = LegacyHandle raw token \<Longrightarrow> length token = 32 \<Longrightarrow>
    legacy_step r lst zset c q w (snd (redis_release r c m delay w))"
| step_dead_letter: "msg_queue m = q \<Longrightarrow> msg_handle m = LegacyHandle raw token \<Longrightarrow> length token = 32 \<Longrightarrow>
    dlq \<noteq> processing_key c q \<Longrightarrow> legacy_step r lst zset c q w (snd (redis_dead_letter r c m dlq body w))"
| step_other: "lst w' = lst w \<Longrightarrow> zset w' = zset w \<Longrightarrow> legacy_step r lst zset c q w w'"

lemma snd_ran: "snd (ran x) = snd x"
  by (auto simp: ran_def split: prod.split sum.split)

lemma run_script_cases:
  assumes "P (snd (rd_call r w))" and "P (snd (f (snd (rd_call r w))))"
  shows "P (snd (run_script r f w))" and "P (snd (ran (run_script r f w)))"
proof -
  show *: "P (snd (run_script r f w))"
    using assms by (cases "rd_call r w"; cases "fst (rd_call r w)") (auto simp: run_script_def)
  show "P (snd (ran (run_script r f w)))" using * by (simp add: snd_ran)
qed

definition covered_in ::
  "('w \<Rightarrow> bytes \<Rightarrow> bytes list) \<Rightarrow> ('w \<Rightarrow> bytes \<Rightarrow> bytes \<Rightarrow> score option) \<Rightarrow> redis_config \<Rightarrow> bytes \<Rightarrow> 'w \<Rightarrow> bool" where
  "covered_in lst zset c q w \<longleftrightarrow> covered (lst w (processing_key c q)) (zset w (deadlines_key c q))"

lemma covered_same: "lst w' = lst w \<Longrightarrow> zset w' = zset w \<Longrightarrow> covered_in lst zset c q w' = covered_in lst zset c q w"
  by (simp add: covered_in_def)

lemma covered_call:
  "redis_ok r lst zset \<Longrightarrow> covered_in lst zset c q (snd (rd_call r w)) = covered_in lst zset c q w"
  by (rule covered_same) (simp_all add: redis_okD)

lemma processing_ne: "rc_processing_suffix c \<noteq> [] \<Longrightarrow> q \<noteq> processing_key c q"
  by (simp add: processing_key_def)

lemma sweep_script_effect:
  assumes ok: "redis_ok r lst zset" and suf: "rc_processing_suffix c \<noteq> []" and cov: "covered_in lst zset c q w"
    and s: "legacy_sweep_script r q (processing_key c q) (deadlines_key c q) now b w = (k, w')"
  shows "covered_in lst zset c q w'"
    and "lst w' q = lst w q @ map (drop 33) (filter names_message (rd_zrangebyscore r (deadlines_key c q) now b w))"
    and "mset (lst w' (processing_key c q)) +
      mset (map (drop 33) (filter names_message (rd_zrangebyscore r (deadlines_key c q) now b w))) =
      mset (lst w (processing_key c q))"
proof -
  let ?ms = "rd_zrangebyscore r (deadlines_key c q) now b w"
  have "set ?ms \<subseteq> dom (zset w (deadlines_key c q))" using redis_ok_range(2) [OF ok] by blast
  note e = sweep_effect [OF ok processing_ne [OF suf] redis_ok_range(1) [OF ok] this cov [unfolded covered_in_def]
      s [unfolded legacy_sweep_script_def]]
  show "covered_in lst zset c q w'"
    unfolding covered_in_def by (rule e [THEN conjunct2, THEN conjunct2, THEN conjunct2, THEN conjunct2])
  show "lst w' q = lst w q @ map (drop 33) (filter names_message ?ms)" by (rule e [THEN conjunct1])
  show "mset (lst w' (processing_key c q)) + mset (map (drop 33) (filter names_message ?ms)) =
      mset (lst w (processing_key c q))" by (rule e [THEN conjunct2, THEN conjunct1])
qed

lemma token_length: "length (token_text bs) = 2 * length bs"
  by (induction bs) (simp_all add: token_text_def)

lemma deadline_member_names:
  assumes "length token = 32"
  shows "names_message (deadline_member token raw) \<longleftrightarrow> raw \<noteq> []" "drop 33 (deadline_member token raw) = raw"
proof -
  have "(token @ CHR '':'' # raw) ! 32 = CHR '':''" using assms by (metis nth_append_length)
  then show "names_message (deadline_member token raw) \<longleftrightarrow> raw \<noteq> []"
    using assms by (cases raw) (simp_all add: names_message_def deadline_member_def)
  show "drop 33 (deadline_member token raw) = raw" using assms by (simp add: deadline_member_def)
qed

lemma settle_covered:
  assumes ok: "redis_ok r lst zset" and t: "length token = 32" and cov: "covered_in lst zset c q w"
  shows "covered_in lst zset c q (snd (legacy_ack_script r (processing_key c q) (deadlines_key c q) token raw w))"
    and "dest \<noteq> processing_key c q \<Longrightarrow>
      covered_in lst zset c q (snd (legacy_move_script r (processing_key c q) (deadlines_key c q) dest token raw body w))"
proof -
  let ?m = "deadline_member token raw" and ?d = "deadlines_key c q" and ?p = "processing_key c q"
  have l: "lst (snd (rd_zrem r ?d ?m w)) = lst w" "zset (snd (rd_zrem r ?d ?m w)) = (zset w)(?d := (zset w ?d)(?m := None))"
    "fst (rd_zrem r ?d ?m w) = of_bool (zset w ?d ?m \<noteq> None)"
    by (simp_all add: redis_okD [OF ok])
  have gone: "covered_in lst zset c q (snd (rd_zrem r ?d ?m w))"
    using cov covered_drop l by (simp add: covered_in_def)
  have both: "covered_in lst zset c q (snd (rd_lrem r ?p raw (snd (rd_zrem r ?d ?m w))))" if "zset w ?d ?m \<noteq> None"
    using covered_settle [OF cov [unfolded covered_in_def] that, of raw] deadline_member_names [OF t, of raw] l
    by (auto simp: covered_in_def redis_okD [OF ok])
  show "covered_in lst zset c q (snd (legacy_ack_script r ?p ?d token raw w))"
    using gone both l(3) by (cases "rd_zrem r ?d ?m w") (auto simp: legacy_ack_script_def)
  show "covered_in lst zset c q (snd (legacy_move_script r ?p ?d dest token raw body w))" if "dest \<noteq> ?p"
    using gone both l(3) that
    by (cases "rd_zrem r ?d ?m w") (auto simp: legacy_move_script_def covered_in_def redis_okD [OF ok])
qed

lemma sweep_covered:
  assumes "redis_ok r lst zset" and "rc_processing_suffix c \<noteq> []" and "covered_in lst zset c q w"
  shows "covered_in lst zset c q (snd (sweep r c q now w))"
proof -
  let ?w = "snd (rd_call r w)"
  have w: "covered_in lst zset c q ?w" using assms(3) covered_call [OF assms(1)] by blast
  show ?thesis unfolding sweep_def
    by (rule run_script_cases(2) [of "covered_in lst zset c q", OF w])
      (use sweep_script_effect(1) [OF assms(1,2) w] in \<open>metis prod.collapse\<close>)
qed

lemma reserve_covered:
  assumes ok: "redis_ok r lst zset" and c: "\<not> rc_laravel c" "rc_processing_suffix c \<noteq> []" and "covered_in lst zset c q w"
  shows "covered_in lst zset c q (snd (reserve_once r c q now w))"
proof -
  let ?P = "covered_in lst zset c q"
  obtain e1 w1 where s: "sweep r c q now w = (e1, w1)" by (cases "sweep r c q now w")
  then have p1: "?P w1" using sweep_covered [OF ok c(2) assms(4), of now] by simp
  obtain b w2 where n: "rd_random r w1 = (b, w2)" by (cases "rd_random r w1")
  then have p2: "?P w2" using p1 redis_ok_random(1,2) [OF ok n] by (simp add: covered_in_def)
  have "?P (snd (run_script r (legacy_reserve_script r q (processing_key c q) (deadlines_key c q) at (token_text bs)) w2))"
    if "length bs = 16" for bs at
  proof (rule run_script_cases(1))
    show p3: "?P (snd (rd_call r w2))" using p2 covered_call [OF ok] by blast
    let ?w = "snd (rd_call r w2)"
    show "?P (snd (legacy_reserve_script r q (processing_key c q) (deadlines_key c q) at (token_text bs) ?w))"
    proof (cases "lst ?w q")
      case Nil
      then have "fst (rd_lmove r q (processing_key c q) ?w) = None"
        "lst (snd (rd_lmove r q (processing_key c q) ?w)) = lst ?w" "zset (snd (rd_lmove r q (processing_key c q) ?w)) = zset ?w"
        using processing_ne [OF c(2)] by (simp_all add: redis_okD [OF ok])
      then show ?thesis using p3
        by (cases "rd_lmove r q (processing_key c q) ?w") (simp add: legacy_reserve_script_def covered_in_def)
    next
      case (Cons raw rest)
      then have "fst (rd_lmove r q (processing_key c q) ?w) = Some raw"
        "lst (snd (rd_lmove r q (processing_key c q) ?w)) (processing_key c q) = lst ?w (processing_key c q) @ [raw]"
        "zset (snd (rd_lmove r q (processing_key c q) ?w)) = zset ?w"
        using processing_ne [OF c(2)] by (simp_all add: redis_okD [OF ok])
      moreover have "covered (lst ?w (processing_key c q) @ [raw])
          ((zset ?w (deadlines_key c q))(deadline_member (token_text bs) raw \<mapsto> at))"
        by (rule covered_add) (use p3 that deadline_member_names(2) in \<open>simp_all add: covered_in_def token_length\<close>)
      ultimately show ?thesis
        by (cases "rd_lmove r q (processing_key c q) ?w")
          (simp add: legacy_reserve_script_def covered_in_def redis_okD [OF ok])
    qed
  qed
  then have p3: "?P (snd (run_script r (legacy_reserve_script r q (processing_key c q) (deadlines_key c q) at (token_text bs)) w2))"
    if "b = Inr bs" for bs at
    using redis_ok_random(3) [OF ok n that] by blast
  show ?thesis
    using s n p1 p2 p3 [of _ "deadline_arg c now"] assms(4) c(1)
    by (auto simp: reserve_once_def reserve_legacy_def new_token_def split: option.splits sum.splits prod.splits)
qed

lemma step_covered:
  assumes ok: "redis_ok r lst zset" and c: "\<not> rc_laravel c" "rc_processing_suffix c \<noteq> []"
  shows "legacy_step r lst zset c q w w' \<Longrightarrow> covered_in lst zset c q w \<Longrightarrow> covered_in lst zset c q w'"
proof (induction rule: legacy_step.induct)
  case (step_publish queue w body headers)
  have p: "covered_in lst zset c q (snd (rd_call r w))" using step_publish.prems covered_call [OF ok] by blast
  moreover have "covered_in lst zset c q (snd ((), rd_rpush r queue v (snd (rd_call r w))))" for v
    using p step_publish.hyps by (simp add: covered_in_def redis_okD [OF ok])
  ultimately have "covered_in lst zset c q (snd (ran (run_script r (\<lambda>w. ((), rd_rpush r queue v w)) w)))" for v
    by (rule run_script_cases(2))
  then show ?case using c step_publish.prems
    by (simp add: redis_publish_with_headers_def publish_value_def split: option.split)
next
  case (step_reserve w now)
  then show ?case using reserve_covered [OF ok c] by blast
next
  case (step_ack m raw token w)
  have p: "covered_in lst zset c q (snd (rd_call r w))" using step_ack.prems covered_call [OF ok] by blast
  have "covered_in lst zset c q (snd (ran (run_script r
      (legacy_ack_script r (processing_key c q) (deadlines_key c q) token raw) w)))"
    by (rule run_script_cases(2) [where P = "covered_in lst zset c q"]) (rule p, rule settle_covered(1) [OF ok step_ack.hyps(3) p])
  then show ?case using step_ack by (simp add: redis_ack_def split: option.split)
next
  case (step_release m raw token w delay)
  have p: "covered_in lst zset c q (snd (rd_call r w))" using step_release.prems covered_call [OF ok] by blast
  have "covered_in lst zset c q (snd (gated_move r c q raw token q body w))" for body
    unfolding gated_move_def
    by (rule run_script_cases(2) [where P = "covered_in lst zset c q"])
      (rule p, rule settle_covered(2) [OF ok step_release.hyps(3) p processing_ne [OF c(2)]])
  then show ?case using step_release c(1)
    by (simp add: redis_release_def release_at_def keys_of_def split: option.split)
next
  case (step_dead_letter m raw token dlq w body)
  have p: "covered_in lst zset c q (snd (rd_call r w))" using step_dead_letter.prems covered_call [OF ok] by blast
  have "covered_in lst zset c q (snd (gated_move r c q raw token dlq body w))"
    unfolding gated_move_def
    by (rule run_script_cases(2) [where P = "covered_in lst zset c q"])
      (rule p, rule settle_covered(2) [OF ok step_dead_letter.hyps(3) p step_dead_letter.hyps(4)])
  then show ?case using step_dead_letter by (simp add: redis_dead_letter_def split: option.split)
next
  case (step_other w' w)
  then show ?case by (simp add: covered_in_def)
qed

lemma run_covered:
  assumes "redis_ok r lst zset" and "\<not> rc_laravel c" and "rc_processing_suffix c \<noteq> []"
    and "(legacy_step r lst zset c q)\<^sup>*\<^sup>* w w'" and "covered_in lst zset c q w"
  shows "covered_in lst zset c q w'"
  using assms(4,5) by (induction rule: rtranclp_induct) (auto intro: step_covered [OF assms(1-3)])

lemma count_named:
  "count (mset (map (drop 33) (filter names_message ms))) raw =
   length (filter (\<lambda>m. names_message m \<and> drop 33 m = raw) ms)"
  by (induction ms) auto

text \<open>The members of a sorted set that are due at a time and name the message.\<close>

definition due_members :: "(bytes \<Rightarrow> score option) \<Rightarrow> int \<Rightarrow> bytes \<Rightarrow> bytes set" where
  "due_members d now raw = {m. names_message m \<and> drop 33 m = raw \<and> (\<exists>a. d m = Some (At a) \<and> a \<le> now)}"


text \<open>A server for the example: lists, sorted sets as association lists, and a random source that counts.\<close>

record small_server =
  sv_lists :: "bytes \<Rightarrow> bytes list"
  sv_zsets :: "bytes \<Rightarrow> (bytes \<times> score) list"
  sv_random :: "8 word"

definition small_range :: "int \<Rightarrow> int \<Rightarrow> (bytes \<times> score) list \<Rightarrow> bytes list" where
  "small_range t b z =
     (let due = filter (\<lambda>m. case map_of z m of Some (At a) \<Rightarrow> a \<le> t | _ \<Rightarrow> False) (remdups (map fst z));
          ms = sort_key (\<lambda>m. case map_of z m of Some (At a) \<Rightarrow> a | _ \<Rightarrow> 0) (sort due)
      in if b = -1 then ms else take (nat b) ms)"

definition small_redis :: "small_server redis" where
  "small_redis =
     \<lparr>rd_rpush = (\<lambda>k v w. w\<lparr>sv_lists := (sv_lists w)(k := sv_lists w k @ [v])\<rparr>),
      rd_lpop = (\<lambda>k w. case sv_lists w k of [] \<Rightarrow> (None, w) | v # vs \<Rightarrow> (Some v, w\<lparr>sv_lists := (sv_lists w)(k := vs)\<rparr>)),
      rd_lmove = (\<lambda>s d w. case sv_lists w s of [] \<Rightarrow> (None, w)
        | v # vs \<Rightarrow> (Some v, w\<lparr>sv_lists := (sv_lists w)(s := vs, d := (if d = s then vs else sv_lists w d) @ [v])\<rparr>)),
      rd_lrem = (\<lambda>k v w. (of_bool (v \<in> set (sv_lists w k)), w\<lparr>sv_lists := (sv_lists w)(k := remove1 v (sv_lists w k))\<rparr>)),
      rd_zadd = (\<lambda>k a m w. w\<lparr>sv_zsets := (sv_zsets w)(k := (m, a) # filter (\<lambda>x. fst x \<noteq> m) (sv_zsets w k))\<rparr>),
      rd_zrem = (\<lambda>k m w. (of_bool (map_of (sv_zsets w k) m \<noteq> None),
        w\<lparr>sv_zsets := (sv_zsets w)(k := filter (\<lambda>x. fst x \<noteq> m) (sv_zsets w k))\<rparr>)),
      rd_zrangebyscore = (\<lambda>k t b w. small_range t b (sv_zsets w k)),
      rd_zremrangebyrank = (\<lambda>k n w. w), rd_blpop = (\<lambda>k t w. (None, w)), rd_cjson = (\<lambda>s. None),
      rd_call = (\<lambda>w. (Delivered, w)),
      rd_random = (\<lambda>w. (Inr (replicate 16 (sv_random w)), w\<lparr>sv_random := sv_random w + 1\<rparr>)),
      rd_sleep = (\<lambda>d w. (None, w)), rd_now = (\<lambda>w. 0), rd_clock = (\<lambda>w. 0), rd_syntax = (\<lambda>s. [])\<rparr>"

definition small_start :: small_server where
  "small_start = \<lparr>sv_lists = (\<lambda>k. []), sv_zsets = (\<lambda>k. []), sv_random = 7\<rparr>"

lemma map_of_filter_ne: "map_of (filter (\<lambda>x. fst x \<noteq> m) z) = (map_of z)(m := None)"
  by (induction z) (auto simp: fun_eq_iff)

lemma small_range_spec:
  "distinct (small_range t b z)"
  "set (small_range t b z) \<subseteq> {m. \<exists>a. map_of z m = Some (At a) \<and> a \<le> t}"
  "set (small_range t (-1) z) = {m. \<exists>a. map_of z m = Some (At a) \<and> a \<le> t}"
proof -
  have "m \<in> fst ` set z" if "map_of z m = Some x" for m x
    using map_of_SomeD [OF that] by force
  moreover have "(case x of Some (At a) \<Rightarrow> a \<le> t | _ \<Rightarrow> False) \<longleftrightarrow> (\<exists>a. x = Some (At a) \<and> a \<le> t)" for x
    by (auto split: option.split score.split)
  ultimately have s: "set (small_range t (-1) z) = {m. \<exists>a. map_of z m = Some (At a) \<and> a \<le> t}"
    by (auto simp: small_range_def Let_def)
  then show "set (small_range t (-1) z) = {m. \<exists>a. map_of z m = Some (At a) \<and> a \<le> t}" .
  have "set (small_range t b z) \<subseteq> set (small_range t (-1) z)"
    by (auto simp: small_range_def Let_def dest: in_set_takeD)
  then show "set (small_range t b z) \<subseteq> {m. \<exists>a. map_of z m = Some (At a) \<and> a \<le> t}" using s by simp
  show "distinct (small_range t b z)" by (simp add: small_range_def Let_def)
qed

lemma small_redis_ok: "redis_ok small_redis sv_lists (\<lambda>w k. map_of (sv_zsets w k))"
  using small_range_spec unfolding redis_ok_def
  by (intro conjI allI impI)
    (auto simp: small_redis_def map_of_filter_ne fun_eq_iff split: list.splits)

text \<open>A message is published and reserved by a consumer that crashes; later it is ready again.\<close>

definition crash_config :: redis_config where "crash_config = new_with_client []"

definition crashed :: small_server where
  "crashed = snd (reserve_once small_redis crash_config ''q'' 100
     (snd (redis_publish_with_headers small_redis crash_config ''q'' ''{}'' [] small_start)))"


end
