(* ===== verification/Binding.thy ===== *)
theory Binding
  imports App JsonMarshal
begin

section \<open>What the broker bindings share\<close>

text \<open>
  The packages \<open>kafka\<close>, \<open>sqs\<close>, \<open>pulsar\<close>, \<open>azureservicebus\<close> and \<open>artemis\<close> bind the runtime to a
  broker. They share, each with a copy of its own, the projection of the envelope's contract fields onto
  native headers, the out-of-band headers beside it, the version gate and the reconciliation of the
  attempt count. This theory holds the parts that are the same in all of them, with what they use of Go's
  standard library (\<open>strconv.Atoi\<close>, \<open>url.QueryEscape\<close>, \<open>strings.TrimSpace\<close>).
\<close>

subsection \<open>Standard library\<close>

definition atoi :: "bytes \<Rightarrow> int option" where
  "atoi s =
     (let (neg, ds) = (case s of
            [] \<Rightarrow> (False, [])
          | c # r \<Rightarrow> if c = CHR ''-'' then (True, r) else if c = CHR ''+'' then (False, r) else (False, s))
      in if ds = [] \<or> \<not> list_all is_digit ds then None
         else let v = (if neg then - dec_val ds else dec_val ds) in if int64_ok v then Some v else None)"

definition unreserved :: "char \<Rightarrow> bool" where
  "unreserved c \<longleftrightarrow> is_digit c \<or> in_range 0x41 0x5A c \<or> in_range 0x61 0x7A c
     \<or> c \<in> {CHR ''-'', CHR ''_'', CHR ''.'', CHR ''~''}"

definition upper_hex :: "nat \<Rightarrow> char" where
  "upper_hex n = ''0123456789ABCDEF'' ! n"

fun query_escape :: "bytes \<Rightarrow> bytes" where
  "query_escape [] = []"
| "query_escape (c # s) =
     (if unreserved c then [c]
      else if c = CHR '' '' then ''+''
      else [CHR ''%'', upper_hex (byte c div 16), upper_hex (byte c mod 16)]) @ query_escape s"

text \<open>\<open>url.QueryUnescape\<close>; \<open>None\<close> is its error for a percent sign without two hexadecimal digits.\<close>

fun query_unescape :: "bytes \<Rightarrow> bytes option" where
  "query_unescape [] = Some []"
| "query_unescape (c # s) =
     (if c = CHR ''%'' then
        (case s of
           a # b # r \<Rightarrow>
             (case (hex_val a, hex_val b) of
                (Some x, Some y) \<Rightarrow> map_option ((#) (chr (16 * x + y))) (query_unescape r)
              | _ \<Rightarrow> None)
         | _ \<Rightarrow> None)
      else map_option ((#) (if c = CHR ''+'' then CHR '' '' else c)) (query_unescape s))"

text \<open>\<open>strings.TrimSpace\<close>: leading spaces, then trailing ones (\<open>trailing_space\<close> is the length of the space a
  string ends in).\<close>

definition trailing_space :: "bytes \<Rightarrow> nat" where
  "trailing_space s =
     (if s \<noteq> [] \<and> space_len (drop (length s - 1) s) = 1 then 1
      else if 2 \<le> length s \<and> space_len (drop (length s - 2) s) = 2 then 2
      else if 3 \<le> length s \<and> space_len (drop (length s - 3) s) = 3 then 3
      else 0)"

function trim_space_right :: "bytes \<Rightarrow> bytes" where
  "trim_space_right s =
     (if trailing_space s = 0 then s else trim_space_right (take (length s - trailing_space s) s))"
  by auto
termination
proof (relation "measure length")
  fix s
  assume s: "trailing_space s \<noteq> 0"
  then have "s \<noteq> []" by (auto simp: trailing_space_def)
  with s show "(take (length s - trailing_space s) s, s) \<in> measure length" by simp
qed simp

declare trim_space_right.simps [simp del]

definition trim_space :: "bytes \<Rightarrow> bytes" where
  "trim_space s = trim_space_right (trim_space_left s)"

text \<open>\<open>errors.New\<close>.\<close>

definition new_error :: "bytes \<Rightarrow> go_error" where
  "new_error t = \<lparr>err_is = [], err_text = t, err_type = ''*errors.errorString''\<rparr>"

subsection \<open>The version gate\<close>

definition blank_scan :: "bytes \<Rightarrow> bool" where
  "blank_scan s \<longleftrightarrow> list_all (\<lambda>c. c \<in> {CHR '' '', CHR 0x09, CHR 0x0A, CHR 0x0B, CHR 0x0C, CHR 0x0D}) s"

text \<open>The gate on a textual value: \<open>Some\<close> of it when it is rejected.\<close>

definition gated_text :: "bytes \<Rightarrow> bytes option" where
  "gated_text v = (if blank_scan v \<or> v = int_text schema_version then None else Some v)"

text \<open>The hook of a rejected version; a panic in it is recovered, so its field gives the world it leaves
  behind either way.\<close>

type_synonym 'w rejected_hook = "(bytes \<Rightarrow> bytes \<Rightarrow> 'w \<Rightarrow> 'w) option"

definition notify_rejected :: "'w rejected_hook \<Rightarrow> bytes \<Rightarrow> bytes \<Rightarrow> 'w \<Rightarrow> 'w" where
  "notify_rejected hook version queue w = (case hook of None \<Rightarrow> w | Some f \<Rightarrow> f version queue w)"

definition gate_route_urn :: "bytes \<Rightarrow> bytes" where
  "gate_route_urn v = unsupported_schema_route_prefix @ query_escape v"

subsection \<open>Waiting and attempts\<close>

text \<open>The bound of one receive: the runtime's timeout under the transport's cap; \<open>None\<close> waits without one.\<close>

definition pop_wait :: "int \<Rightarrow> int \<Rightarrow> int option" where
  "pop_wait max_wait timeout =
     (let wait = (if 0 < max_wait \<and> (timeout \<le> 0 \<or> max_wait < timeout) then max_wait else timeout)
      in if 0 < wait then Some wait else None)"

text \<open>The body with its attempt count raised to the broker's own.\<close>

definition raise_attempts :: "(bytes \<Rightarrow> bytes) \<Rightarrow> bytes \<Rightarrow> int \<Rightarrow> bytes" where
  "raise_attempts stx body native =
     (case decode stx body of
        (env, Some e) \<Rightarrow> body
      | (env, None) \<Rightarrow>
          if native \<le> env_attempts env then body
          else (case encode stx (env\<lparr>env_attempts := native\<rparr>) of Inl e \<Rightarrow> body | Inr b \<Rightarrow> b))"

subsection \<open>Out-of-band headers\<close>

definition out_of_band :: "bytes list \<Rightarrow> bytes smap \<Rightarrow> bytes smap" where
  "out_of_band reserved h = filter (\<lambda>(k, v). k \<noteq> [] \<and> v \<noteq> [] \<and> k \<notin> set reserved) h"

text \<open>Adding them to a map of properties: a property that is there already stays.\<close>

fun merge_out_of_band :: "bytes list \<Rightarrow> (bytes \<Rightarrow> 'v) \<Rightarrow> 'v smap \<Rightarrow> bytes smap \<Rightarrow> 'v smap" where
  "merge_out_of_band reserved val props [] = props"
| "merge_out_of_band reserved val props ((k, v) # extra) =
     merge_out_of_band reserved val
       (if k = [] \<or> v = [] \<or> k \<in> set reserved \<or> smap_get props k \<noteq> None then props else smap_put k (val v) props)
       extra"

definition put_if :: "bool \<Rightarrow> bytes \<Rightarrow> 'v \<Rightarrow> 'v smap \<Rightarrow> 'v smap" where
  "put_if b k v m = (if b then smap_put k v m else m)"

text \<open>Reading them back; \<open>shown\<close> is the text of a property, empty when it is none.\<close>

fun surface_out_of_band :: "bytes list \<Rightarrow> ('v \<Rightarrow> bytes) \<Rightarrow> 'v smap \<Rightarrow> bytes smap" where
  "surface_out_of_band reserved shown [] = []"
| "surface_out_of_band reserved shown ((k, v) # props) =
     (if k = [] \<or> k \<in> set reserved \<or> shown v = [] then surface_out_of_band reserved shown props
      else (k, shown v) # surface_out_of_band reserved shown props)"

text \<open>An application property of AMQP 1.0. A value of a type the code only prints carries its text.\<close>

datatype amqp_value = AmqpNull | AmqpText bytes | AmqpBytes bytes | AmqpInt int | AmqpOther bytes

fun amqp_text :: "amqp_value \<Rightarrow> bytes" where
  "amqp_text (AmqpText s) = s"
| "amqp_text (AmqpBytes s) = s"
| "amqp_text _ = []"

text \<open>What \<open>%v\<close> prints of a byte slice.\<close>

definition bytes_verb :: "bytes \<Rightarrow> bytes" where
  "bytes_verb b = ''['' @ intersperse '' '' (map (\<lambda>c. int_text (int (byte c))) b) @ '']''"

end
