(* ===== verification/Kafka.thy ===== *)
theory Kafka
  imports Binding
begin

section \<open>The Kafka transport\<close>

text \<open>
  \<open>kafka/kafka.go\<close> and \<open>kafka/retry.go\<close>. The kafka-go client is a parameter: a writer, readers (named
  by numbers) and their operations over the world \<open>'w\<close>. The transport's own state, the cache of readers
  and the closed flag, is part of the state its operations thread. A fetch under a deadline that passes
  returns an error in whose chain \<open>context.DeadlineExceeded\<close> is found. The header constants of
  \<open>reinject.go\<close> stand here because the projection uses them.
\<close>

record 'w kafka_client =
  kc_write :: "kafka_record \<Rightarrow> 'w effect"
  kc_new_reader :: "bytes \<Rightarrow> 'w \<Rightarrow> nat \<times> 'w"
  kc_fetch :: "nat \<Rightarrow> int option \<Rightarrow> 'w \<Rightarrow> (go_error + kafka_record) \<times> 'w"
  kc_commit :: "nat \<Rightarrow> kafka_record \<Rightarrow> 'w effect"
  kc_close :: "(nat \<Rightarrow> 'w effect) option"
  kc_close_writer :: "('w effect) option"
  kc_now :: "'w \<Rightarrow> int"
  kc_syntax :: "bytes \<Rightarrow> bytes"
  kc_duration :: "int \<Rightarrow> bytes"

record 'w kafka_config =
  kf_max_wait :: int
  kf_on_rejected :: "'w rejected_hook"
  kf_retry_tiers :: "int list"

record 'w kafka_state =
  ks_readers :: "nat smap"
  ks_closed :: bool
  ks_world :: 'w

definition with_max_wait_time :: "int \<Rightarrow> 'w kafka_config \<Rightarrow> 'w kafka_config" where
  "with_max_wait_time d c = c\<lparr>kf_max_wait := d\<rparr>"
definition with_on_schema_version_rejected :: "'w rejected_hook \<Rightarrow> 'w kafka_config \<Rightarrow> 'w kafka_config" where
  "with_on_schema_version_rejected f c = c\<lparr>kf_on_rejected := f\<rparr>"

text \<open>\<open>New\<close>, without the clients it builds: what it is given, and which of the writer and the reader
  factory it makes itself.\<close>

definition kafka_new :: "bool \<Rightarrow> bool \<Rightarrow> bytes list \<Rightarrow> bytes \<Rightarrow> go_error + bool \<times> bool" where
  "kafka_new writer new_reader brokers group_id =
     (if writer \<and> new_reader then Inr (False, False)
      else if brokers = [] then
        Inl (new_error ''kafka: provide WithBrokers (+ WithGroupID), or WithWriter + WithReaderFactory'')
      else if \<not> new_reader \<and> group_id = [] then Inl (new_error ''kafka: WithGroupID is required to consume'')
      else Inr (\<not> writer, \<not> new_reader))"

definition kafka_init :: "'w \<Rightarrow> 'w kafka_state" where
  "kafka_init w = \<lparr>ks_readers = [], ks_closed = False, ks_world = w\<rparr>"

subsection \<open>The client under the state\<close>

definition on_client :: "('w \<Rightarrow> 'a \<times> 'w) \<Rightarrow> 'w kafka_state \<Rightarrow> 'a \<times> 'w kafka_state" where
  "on_client f s = (case f (ks_world s) of (x, w) \<Rightarrow> (x, s\<lparr>ks_world := w\<rparr>))"

definition reader :: "'w kafka_client \<Rightarrow> bytes \<Rightarrow> 'w kafka_state \<Rightarrow> (go_error + nat) \<times> 'w kafka_state" where
  "reader k queue s =
     (if ks_closed s then (Inl (plain_error ErrClosed), s)
      else (case smap_get (ks_readers s) queue of
              Some r \<Rightarrow> (Inr r, s)
            | None \<Rightarrow>
                (case kc_new_reader k queue (ks_world s) of
                   (r, w) \<Rightarrow> (Inr r, s\<lparr>ks_readers := smap_put queue r (ks_readers s), ks_world := w\<rparr>))))"

fun close_readers :: "(nat \<Rightarrow> 'w effect) \<Rightarrow> nat list \<Rightarrow> go_error option \<Rightarrow> 'w \<Rightarrow> go_error option \<times> 'w" where
  "close_readers cl [] first w = (first, w)"
| "close_readers cl (r # rs) first w =
     (case cl r w of (err, w') \<Rightarrow> close_readers cl rs (if first = None then err else first) w')"

text \<open>The readers are closed in the order of their topics; the code takes the order of its map.\<close>

definition kafka_close :: "'w kafka_client \<Rightarrow> 'w kafka_state \<Rightarrow> go_error option \<times> 'w kafka_state" where
  "kafka_close k s =
     (if ks_closed s then (None, s)
      else let (first, w1) =
             (case kc_close k of
                None \<Rightarrow> (None, ks_world s)
              | Some cl \<Rightarrow> close_readers cl (map snd (ks_readers s)) None (ks_world s));
               (first', w2) =
             (case kc_close_writer k of
                None \<Rightarrow> (first, w1)
              | Some cw \<Rightarrow> (case cw w1 of (err, w') \<Rightarrow> (if first = None then err else first, w')))
           in (first', s\<lparr>ks_readers := [], ks_closed := True, ks_world := w2\<rparr>))"

subsection \<open>Records\<close>

definition header_traceparent :: bytes where "header_traceparent = ''traceparent''"
definition header_tracestate :: bytes where "header_tracestate = ''tracestate''"
definition header_delay :: bytes where "header_delay = ''bq-delay''"
definition header_original_topic :: bytes where "header_original_topic = ''bq-original-topic''"

definition contract_headers :: "bytes list" where
  "contract_headers =
     [''bq-job'', ''bq-trace-id'', ''bq-message-id'', ''bq-schema-version'', ''bq-source-lang'', ''bq-attempts'',
      header_delay, header_original_topic]"

text \<open>The projection of the contract fields; an empty value is left out.\<close>

definition record_headers :: "envelope \<Rightarrow> (bytes \<times> bytes) list" where
  "record_headers env =
     filter (\<lambda>(k, v). v \<noteq> [])
       ([(''bq-job'', env_job env), (''bq-trace-id'', env_trace_id env), (''bq-message-id'', meta_id (env_meta env))]
        @ (if meta_schema_version (env_meta env) \<noteq> 0
           then [(''bq-schema-version'', int_text (meta_schema_version (env_meta env)))] else [])
        @ [(''bq-source-lang'', meta_lang (env_meta env)), (''bq-attempts'', int_text (env_attempts env))])"

definition kafka_message :: "(bytes \<Rightarrow> bytes) \<Rightarrow> bytes \<Rightarrow> bytes \<Rightarrow> kafka_record" where
  "kafka_message stx topic body =
     (let m = \<lparr>kr_topic = topic, kr_partition = 0, kr_offset = 0, kr_key = None, kr_value = Some body,
               kr_headers = [], kr_time = None\<rparr> in
      case decode stx body of
        (env, Some e) \<Rightarrow> m
      | (env, None) \<Rightarrow>
          m\<lparr>kr_headers := record_headers env,
            kr_time := (if meta_created_at (env_meta env) \<noteq> 0 then Some (meta_created_at (env_meta env) * 1000000) else None)\<rparr>)"

fun append_new :: "(bytes \<times> bytes) list \<Rightarrow> bytes smap \<Rightarrow> (bytes \<times> bytes) list" where
  "append_new dst [] = dst"
| "append_new dst ((k, v) # extra) = append_new (if k \<in> fst ` set dst then dst else dst @ [(k, v)]) extra"

definition append_out_of_band :: "(bytes \<times> bytes) list \<Rightarrow> bytes smap \<Rightarrow> (bytes \<times> bytes) list" where
  "append_out_of_band dst extra = append_new dst (out_of_band contract_headers extra)"

fun forward_trace_headers :: "(bytes \<times> bytes) list \<Rightarrow> (bytes \<times> bytes) list \<Rightarrow> (bytes \<times> bytes) list" where
  "forward_trace_headers dst [] = dst"
| "forward_trace_headers dst ((k, v) # from') =
     forward_trace_headers
       (if k \<noteq> header_traceparent \<and> k \<noteq> header_tracestate then dst
        else if k \<in> fst ` set dst then dst else dst @ [(k, v)]) from'"

fun out_of_band_from_record :: "(bytes \<times> bytes) list \<Rightarrow> bytes smap \<Rightarrow> bytes smap" where
  "out_of_band_from_record [] out = out"
| "out_of_band_from_record ((k, v) # hdrs) out =
     out_of_band_from_record hdrs
       (if k = [] \<or> v = [] \<or> k \<in> set contract_headers \<or> smap_get out k \<noteq> None then out else smap_put k v out)"

definition republish_record :: "(bytes \<Rightarrow> bytes) \<Rightarrow> bytes \<Rightarrow> bytes \<Rightarrow> kafka_record \<Rightarrow> bytes smap \<Rightarrow> kafka_record" where
  "republish_record stx queue body km extra =
     (let m = kafka_message stx queue body;
          hdrs = append_out_of_band (kr_headers m) extra
      in m\<lparr>kr_key := kr_key km,
           kr_headers := (if queue = kr_topic km then forward_trace_headers hdrs (kr_headers km) else hdrs)\<rparr>)"

subsection \<open>Producing\<close>

definition kafka_write :: "'w kafka_client \<Rightarrow> kafka_record \<Rightarrow> 'w kafka_state effect" where
  "kafka_write k m s = on_client (kc_write k m) s"

definition kafka_publish :: "'w kafka_client \<Rightarrow> bytes \<Rightarrow> bytes \<Rightarrow> 'w kafka_state effect" where
  "kafka_publish k queue body s = kafka_write k (kafka_message (kc_syntax k) queue body) s"

definition kafka_publish_with_headers :: "'w kafka_client \<Rightarrow> bytes \<Rightarrow> bytes \<Rightarrow> bytes smap \<Rightarrow> 'w kafka_state effect" where
  "kafka_publish_with_headers k queue body headers s =
     (let m = kafka_message (kc_syntax k) queue body
      in kafka_write k (m\<lparr>kr_headers := append_out_of_band (kr_headers m) headers\<rparr>) s)"

definition kafka_publish_from :: "'w kafka_client \<Rightarrow> bytes \<Rightarrow> bytes \<Rightarrow> received_message \<Rightarrow> 'w kafka_state effect" where
  "kafka_publish_from k queue body from' s =
     (case msg_handle from' of
        RecordHandle km \<Rightarrow>
          if queue = kr_topic km \<and> body = msg_body from' then
            kafka_write k \<lparr>kr_topic = kr_topic km, kr_partition = 0, kr_offset = 0, kr_key = kr_key km,
              kr_value = kr_value km, kr_headers = kr_headers km, kr_time = Some (kc_now k (ks_world s))\<rparr> s
          else kafka_write k (republish_record (kc_syntax k) queue body km []) s
      | _ \<Rightarrow> kafka_publish k queue body s)"

definition kafka_publish_from_with_headers ::
  "'w kafka_client \<Rightarrow> bytes \<Rightarrow> bytes \<Rightarrow> received_message \<Rightarrow> bytes smap \<Rightarrow> 'w kafka_state effect" where
  "kafka_publish_from_with_headers k queue body from' headers s =
     (case msg_handle from' of
        RecordHandle km \<Rightarrow> kafka_write k (republish_record (kc_syntax k) queue body km headers) s
      | _ \<Rightarrow> kafka_publish_with_headers k queue body headers s)"

subsection \<open>Consuming\<close>

definition reconcile_record_attempts :: "(bytes \<Rightarrow> bytes) \<Rightarrow> bytes \<Rightarrow> (bytes \<times> bytes) list \<Rightarrow> bytes" where
  "reconcile_record_attempts stx body hdrs =
     (case decode stx body of
        (env, Some e) \<Rightarrow> body
      | (env, None) \<Rightarrow>
          let attempts = (case map_of hdrs ''bq-attempts'' of
                None \<Rightarrow> env_attempts env
              | Some v \<Rightarrow> (case atoi v of None \<Rightarrow> env_attempts env | Some n \<Rightarrow> n))
          in if attempts = env_attempts env then body
             else (case encode stx (env\<lparr>env_attempts := attempts\<rparr>) of Inl e \<Rightarrow> body | Inr b \<Rightarrow> b))"

definition header_attempts :: "(bytes \<times> bytes) list \<Rightarrow> int" where
  "header_attempts hdrs =
     (case map_of hdrs ''bq-attempts'' of
        None \<Rightarrow> 0
      | Some v \<Rightarrow> (case atoi v of Some n \<Rightarrow> if 0 < n then n else 0 | None \<Rightarrow> 0))"

definition kafka_gate :: "(bytes \<times> bytes) list \<Rightarrow> bytes option" where
  "kafka_gate hdrs = (case map_of hdrs ''bq-schema-version'' of None \<Rightarrow> None | Some v \<Rightarrow> gated_text v)"

definition value_text :: "kafka_record \<Rightarrow> bytes" where
  "value_text m = (case kr_value m of None \<Rightarrow> [] | Some v \<Rightarrow> v)"

definition kafka_received :: "(bytes \<Rightarrow> bytes) \<Rightarrow> bytes \<Rightarrow> kafka_record \<Rightarrow> received_message" where
  "kafka_received stx queue m =
     (case kafka_gate (kr_headers m) of
        Some v \<Rightarrow>
          \<lparr>msg_body = value_text m, msg_queue = queue, msg_handle = RecordHandle m,
           msg_headers = out_of_band_from_record (kr_headers m) [],
           msg_delivery_count = wrap64 (header_attempts (kr_headers m) + 1),
           msg_route_urn = gate_route_urn (truncate_declared_version v), msg_poison = False\<rparr>
      | None \<Rightarrow>
          \<lparr>msg_body = reconcile_record_attempts stx (value_text m) (kr_headers m), msg_queue = queue,
           msg_handle = RecordHandle m, msg_headers = out_of_band_from_record (kr_headers m) [],
           msg_delivery_count = 0, msg_route_urn = [], msg_poison = False\<rparr>)"

definition kafka_pop ::
  "'w kafka_client \<Rightarrow> 'w kafka_config \<Rightarrow> bytes \<Rightarrow> int \<Rightarrow> 'w kafka_state
   \<Rightarrow> (go_error + received_message option) \<times> 'w kafka_state" where
  "kafka_pop k c queue timeout s =
     (case reader k queue s of
        (Inl e, s1) \<Rightarrow> (Inl e, s1)
      | (Inr r, s1) \<Rightarrow>
          (case on_client (kc_fetch k r (pop_wait (kf_max_wait c) timeout)) s1 of
             (Inl e, s2) \<Rightarrow>
               if errors_is e DeadlineExceeded \<or> errors_is e Canceled then (Inr None, s2) else (Inl e, s2)
           | (Inr m, s2) \<Rightarrow>
               (Inr (Some (kafka_received (kc_syntax k) queue m)),
                case kafka_gate (kr_headers m) of
                  None \<Rightarrow> s2
                | Some v \<Rightarrow>
                    s2\<lparr>ks_world := notify_rejected (kf_on_rejected c) (truncate_declared_version v) queue (ks_world s2)\<rparr>)))"

definition kafka_ack :: "'w kafka_client \<Rightarrow> received_message \<Rightarrow> 'w kafka_state effect" where
  "kafka_ack k msg s =
     (case msg_handle msg of
        RecordHandle km \<Rightarrow>
          (case reader k (msg_queue msg) s of
             (Inl e, s1) \<Rightarrow> (Some e, s1)
           | (Inr r, s1) \<Rightarrow> on_client (kc_commit k r km) s1)
      | _ \<Rightarrow> (None, s))"

definition kafka_rewind :: "'w kafka_client \<Rightarrow> received_message \<Rightarrow> 'w kafka_state effect" where
  "kafka_rewind k msg s =
     (let s' = s\<lparr>ks_readers := smap_del (msg_queue msg) (ks_readers s)\<rparr> in
      case smap_get (ks_readers s) (msg_queue msg) of
        None \<Rightarrow> (None, s')
      | Some r \<Rightarrow> (case kc_close k of None \<Rightarrow> (None, s') | Some cl \<Rightarrow> on_client (cl r) s'))"

definition kafka_transport :: "'w kafka_client \<Rightarrow> 'w kafka_config \<Rightarrow> 'w kafka_state transport" where
  "kafka_transport k c =
     \<lparr>tr_publish = kafka_publish k, tr_pop = kafka_pop k c, tr_ack = kafka_ack k,
      tr_publish_with_headers = Some (kafka_publish_with_headers k), tr_publish_routed = None,
      tr_publish_from = Some (kafka_publish_from k),
      tr_publish_from_with_headers = Some (kafka_publish_from_with_headers k), tr_release = None,
      tr_dead_letter = None, tr_rewind = Some (kafka_rewind k), tr_settle_native = None,
      tr_settle_native_dead_letter = None, tr_dead_letter_queue_name = None\<rparr>"

end
