(* ===== verification/KafkaRetry.thy ===== *)
theory KafkaRetry
  imports Kafka
begin

section \<open>Kafka retry topics\<close>

text \<open>
  \<open>kafka/retry.go\<close> and \<open>kafka/reinject.go\<close>. Kafka has no delayed delivery: a delayed or retried record is
  written to a tier topic \<open><topic>.retry.<n>\<close> and the reinjector carries it back to its work topic once the
  tier has elapsed. Times and delays are nanoseconds; \<open>time.Time\<close> reaches far beyond 64 bits of them, so
  time arithmetic does not wrap.

  The reinjector runs one goroutine per topic and one per partition. A step relation over its state
  interleaves them (\<open>relay_step\<close>): the fetch loop hands a record to the buffer of its partition, a worker takes
  the next one, waits, writes it until a write succeeds, commits it until a commit succeeds. A write that
  reports an error may have reached the broker. The context can end at any moment; then nothing moves any
  more, so every prefix of a run is covered by the relation itself.
\<close>

subsection \<open>Tiers\<close>

definition default_retry_tiers :: "int list" where
  "default_retry_tiers = [seconds 5, seconds 30, seconds 300, seconds 1800]"

definition default_retry_tiers_ms :: "int list" where
  "default_retry_tiers_ms = [5000, 30000, 300000, 1800000]"

definition with_retry_tiers :: "int list \<Rightarrow> 'w kafka_config \<Rightarrow> 'w kafka_config" where
  "with_retry_tiers tiers c = c\<lparr>kf_retry_tiers := sort tiers\<rparr>"

definition retry_topic :: "bytes \<Rightarrow> int \<Rightarrow> bytes" where
  "retry_topic topic n = topic @ ''.retry.'' @ int_text n"

definition no_tiers :: go_error where
  "no_tiers = wrap_error [] (plain_error ErrDelayUnsupported) '': no retry tiers configured''"

fun find_tier :: "int list \<Rightarrow> int \<Rightarrow> int \<Rightarrow> int option" where
  "find_tier [] i delay = None"
| "find_tier (tier # tiers) i delay = (if delay \<le> tier then Some i else find_tier tiers (i + 1) delay)"

definition retry_topic_for ::
  "'w kafka_client \<Rightarrow> 'w kafka_config \<Rightarrow> bytes \<Rightarrow> int \<Rightarrow> go_error + bytes" where
  "retry_topic_for k c topic delay =
     (if kf_retry_tiers c = [] then Inl no_tiers
      else (case find_tier (kf_retry_tiers c) 1 delay of
              Some n \<Rightarrow> Inr (retry_topic topic n)
            | None \<Rightarrow>
                Inl (wrap_error [] (plain_error ErrDelayUnsupported)
                  ('': '' @ kc_duration k delay @ '' exceeds the largest tier '' @ kc_duration k (last (kf_retry_tiers c))))))"

definition retry_tier_for_attempt :: "'w kafka_config \<Rightarrow> int \<Rightarrow> go_error + int \<times> int" where
  "retry_tier_for_attempt c attempts_before =
     (if kf_retry_tiers c = [] then Inl no_tiers
      else let before = (if attempts_before < 0 then 0 else attempts_before);
               last' = int (length (kf_retry_tiers c)) - 1;
               idx = (if last' < before then last' else before)
           in Inr (idx + 1, kf_retry_tiers c ! nat idx))"

subsection \<open>Publishing to a tier\<close>

text \<open>\<open>time.Duration.Milliseconds\<close> truncates towards zero.\<close>

definition milliseconds :: "int \<Rightarrow> int" where
  "milliseconds d = (if d < 0 then - ((- d) div 1000000) else d div 1000000)"

definition retry_record :: "(bytes \<Rightarrow> bytes) \<Rightarrow> int \<Rightarrow> bytes \<Rightarrow> bytes \<Rightarrow> bytes \<Rightarrow> int \<Rightarrow> kafka_record" where
  "retry_record stx now topic original body delay =
     (let m = kafka_message stx topic body
      in m\<lparr>kr_time := Some now,
           kr_headers := kr_headers m @ [(header_delay, int_text (milliseconds delay)), (header_original_topic, original)]\<rparr>)"

definition carry_over :: "received_message \<Rightarrow> kafka_record \<Rightarrow> kafka_record" where
  "carry_over from' m =
     (case msg_handle from' of
        RecordHandle km \<Rightarrow> m\<lparr>kr_key := kr_key km, kr_headers := forward_trace_headers (kr_headers m) (kr_headers km)\<rparr>
      | _ \<Rightarrow> m)"

definition publish_delayed_record ::
  "'w kafka_client \<Rightarrow> 'w kafka_config \<Rightarrow> bytes \<Rightarrow> bytes \<Rightarrow> int \<Rightarrow> 'w kafka_state effect" where
  "publish_delayed_record k c queue body delay s =
     (case retry_topic_for k c queue delay of
        Inl e \<Rightarrow> (Some e, s)
      | Inr topic \<Rightarrow> kafka_write k (retry_record (kc_syntax k) (kc_now k (ks_world s)) topic queue body delay) s)"

definition undecodable :: "go_error \<Rightarrow> go_error" where
  "undecodable e = wrap_error ''kafka: retry needs a decodable envelope: '' e []"

definition publish_retry ::
  "'w kafka_client \<Rightarrow> 'w kafka_config \<Rightarrow> received_message \<Rightarrow> int \<Rightarrow> 'w kafka_state effect" where
  "publish_retry k c from' delay s =
     (case retry_topic_for k c (msg_queue from') delay of
        Inl e \<Rightarrow> (Some e, s)
      | Inr topic \<Rightarrow>
          (case decode (kc_syntax k) (msg_body from') of
             (env, Some e) \<Rightarrow> (Some (undecodable e), s)
           | (env, None) \<Rightarrow>
               (case encode (kc_syntax k) (env\<lparr>env_attempts := wrap64 (env_attempts env + 1)\<rparr>) of
                  Inl e \<Rightarrow> (Some e, s)
                | Inr body \<Rightarrow>
                    kafka_write k (carry_over from'
                      (retry_record (kc_syntax k) (kc_now k (ks_world s)) topic (msg_queue from') body delay)) s)))"

definition publish_retry_for_attempt ::
  "'w kafka_client \<Rightarrow> 'w kafka_config \<Rightarrow> received_message \<Rightarrow> int \<Rightarrow> 'w kafka_state effect" where
  "publish_retry_for_attempt k c from' attempts_before s =
     (case retry_tier_for_attempt c attempts_before of
        Inl e \<Rightarrow> (Some e, s)
      | Inr (n, tier) \<Rightarrow>
          (case decode (kc_syntax k) (msg_body from') of
             (env, Some e) \<Rightarrow> (Some (undecodable e), s)
           | (env, None) \<Rightarrow>
               let before = (if attempts_before < 0 then 0 else attempts_before) in
               (case encode (kc_syntax k) (env\<lparr>env_attempts := wrap64 (before + 1)\<rparr>) of
                  Inl e \<Rightarrow> (Some e, s)
                | Inr body \<Rightarrow>
                    kafka_write k (carry_over from'
                      (retry_record (kc_syntax k) (kc_now k (ks_world s)) (retry_topic (msg_queue from') n)
                         (msg_queue from') body tier)) s)))"

subsection \<open>Carrying a record back\<close>

text \<open>The longest suffix \<open>.retry.<digits>\<close>, as the regular expression of the code finds it.\<close>

definition retry_infix :: bytes where "retry_infix = ''.retry.''"

definition is_retry_suffix :: "bytes \<Rightarrow> bool" where
  "is_retry_suffix s \<longleftrightarrow>
     has_prefix s retry_infix \<and> drop (length retry_infix) s \<noteq> [] \<and> list_all is_digit (drop (length retry_infix) s)"

fun strip_retry_suffix :: "bytes \<Rightarrow> bytes" where
  "strip_retry_suffix [] = []"
| "strip_retry_suffix (c # s) = (if is_retry_suffix (c # s) then [] else c # strip_retry_suffix s)"

fun last_header :: "bytes \<Rightarrow> (bytes \<times> bytes) list \<Rightarrow> bytes \<Rightarrow> bytes" where
  "last_header key [] v = v"
| "last_header key ((k, v') # hdrs) v = last_header key hdrs (if k = key then v' else v)"

definition reinject_record :: "kafka_record \<Rightarrow> kafka_record" where
  "reinject_record m =
     (let target = last_header header_original_topic (kr_headers m) []
      in \<lparr>kr_topic = (if target = [] then strip_retry_suffix (kr_topic m) else target), kr_partition = 0, kr_offset = 0,
          kr_key = kr_key m, kr_value = kr_value m,
          kr_headers = filter (\<lambda>(k, v). k \<noteq> header_original_topic \<and> k \<noteq> header_delay) (kr_headers m),
          kr_time = None\<rparr>)"

definition zero_time :: int where "zero_time = - 62135596800000000000"

definition record_time :: "kafka_record \<Rightarrow> int" where
  "record_time m = (case kr_time m of None \<Rightarrow> zero_time | Some t \<Rightarrow> t)"

definition wait_for :: "int \<Rightarrow> kafka_record \<Rightarrow> int \<Rightarrow> int" where
  "wait_for now m tier =
     (let target = record_time m + tier;
          target1 = (if target < now then now else target);
          limit = now + tier;
          target2 = (if limit < target1 then limit else target1)
      in target2 - now)"

definition next_pause :: "int \<Rightarrow> int" where
  "next_pause pause = (if seconds 5 < pause * 2 then seconds 5 else pause * 2)"

text \<open>\<open>retryUntilDone\<close>; \<open>None\<close> is a loop still trying after the given number of rounds. \<open>ctx_done\<close> and
  \<open>sleep\<close> are what the loop sees of the context and the clock.\<close>

fun retry_until_done ::
  "nat \<Rightarrow> ('w \<Rightarrow> bool) \<Rightarrow> (int \<Rightarrow> 'w \<Rightarrow> bool \<times> 'w) \<Rightarrow> 'w effect \<Rightarrow> int \<Rightarrow> 'w \<Rightarrow> (bool \<times> 'w) option" where
  "retry_until_done 0 ctx_done sleep op pause w = None"
| "retry_until_done (Suc n) ctx_done sleep op pause w =
     (if ctx_done w then Some (False, w)
      else (case op w of
              (None, w1) \<Rightarrow> Some (True, w1)
            | (Some e, w1) \<Rightarrow>
                (case sleep pause w1 of
                   (False, w2) \<Rightarrow> Some (False, w2)
                 | (True, w2) \<Rightarrow> retry_until_done n ctx_done sleep op (next_pause pause) w2)))"

subsection \<open>The reinjector\<close>

definition new_reinjector :: "'w kafka_config \<Rightarrow> bytes list \<Rightarrow> go_error + (bytes \<times> int) list" where
  "new_reinjector c work_topics =
     (if kf_retry_tiers c = [] then Inl no_tiers
      else if work_topics = [] then Inl (new_error ''kafka: NewReinjector needs at least one work topic'')
      else Inr (concat (map (\<lambda>topic. map (\<lambda>i. (retry_topic topic (int i + 1), kf_retry_tiers c ! i))
                                        [0..<length (kf_retry_tiers c)]) work_topics)))"

definition reinject_queue_depth :: nat where "reinject_queue_depth = 64"

text \<open>The worker of one partition: nothing in hand, or one record that waits, is to be written, or is to be
  committed.\<close>

datatype worker = Idle | Waiting kafka_record | Writing kafka_record | Committing kafka_record

text \<open>\<open>rl_written\<close> holds the writes the broker may have seen, \<open>rl_commits\<close> the commits it may have seen, each
  with its partition; \<open>rl_done\<close> is what a partition has finished. A record the fetch loop holds while a full
  buffer blocks it counts as still in the source.\<close>

record relay_state =
  rl_source :: "int \<Rightarrow> kafka_record list"
  rl_buffer :: "int \<Rightarrow> kafka_record list"
  rl_worker :: "int \<Rightarrow> worker"
  rl_written :: "(int \<times> kafka_record) list"
  rl_commits :: "(int \<times> kafka_record) list"
  rl_done :: "int \<Rightarrow> kafka_record list"

inductive relay_step :: "relay_state \<Rightarrow> relay_state \<Rightarrow> bool" where
  fetch: "rl_source s p = m # ms \<Longrightarrow> length (rl_buffer s p) < reinject_queue_depth \<Longrightarrow>
    relay_step s (s\<lparr>rl_source := (rl_source s)(p := ms), rl_buffer := (rl_buffer s)(p := rl_buffer s p @ [m])\<rparr>)"
| take_next: "rl_worker s p = Idle \<Longrightarrow> rl_buffer s p = m # ms \<Longrightarrow>
    relay_step s (s\<lparr>rl_buffer := (rl_buffer s)(p := ms), rl_worker := (rl_worker s)(p := Waiting m)\<rparr>)"
| elapsed: "rl_worker s p = Waiting m \<Longrightarrow>
    relay_step s (s\<lparr>rl_worker := (rl_worker s)(p := Writing m)\<rparr>)"
| write_ok: "rl_worker s p = Writing m \<Longrightarrow>
    relay_step s (s\<lparr>rl_written := rl_written s @ [(p, reinject_record m)],
                    rl_worker := (rl_worker s)(p := Committing m)\<rparr>)"
| write_unsure: "rl_worker s p = Writing m \<Longrightarrow>
    relay_step s (s\<lparr>rl_written := rl_written s @ [(p, reinject_record m)]\<rparr>)"
| write_failed: "rl_worker s p = Writing m \<Longrightarrow> relay_step s s"
| commit_ok: "rl_worker s p = Committing m \<Longrightarrow>
    relay_step s (s\<lparr>rl_commits := rl_commits s @ [(p, m)], rl_done := (rl_done s)(p := rl_done s p @ [m]),
                    rl_worker := (rl_worker s)(p := Idle)\<rparr>)"
| commit_unsure: "rl_worker s p = Committing m \<Longrightarrow>
    relay_step s (s\<lparr>rl_commits := rl_commits s @ [(p, m)]\<rparr>)"
| commit_failed: "rl_worker s p = Committing m \<Longrightarrow> relay_step s s"

inductive_cases relay_stepE: "relay_step s s'"

definition relay_init :: "(int \<Rightarrow> kafka_record list) \<Rightarrow> relay_state" where
  "relay_init src =
     \<lparr>rl_source = src, rl_buffer = (\<lambda>_. []), rl_worker = (\<lambda>_. Idle), rl_written = [], rl_commits = [],
      rl_done = (\<lambda>_. [])\<rparr>"

end
