(* ===== verification/BindingLaws.thy ===== *)
theory BindingLaws
  imports Binding AppLaws
begin

section \<open>Laws of the shared parts of the bindings\<close>

text \<open>
  The texts of numbers and of escaped versions are read back, raising the attempts of a body changes nothing
  else of its envelope, and what is carried beside a body is what the other side is shown. The locale
  \<open>header_carrier\<close> states the last as a contract; Kafka, Pulsar, Service Bus and Artemis interpret it.
\<close>

subsection \<open>Text\<close>

lemma dec_no_sign: "0 \<le> n \<Longrightarrow> hd (dec n) \<noteq> CHR ''-'' \<and> hd (dec n) \<noteq> CHR ''+''"
  using dec_digits [of n] by (cases "dec n") (auto simp: is_digit_def in_range_def)

lemma atoi_text: "int64_ok n \<Longrightarrow> atoi (int_text n) = Some n"
proof (cases "n < 0")
  case True
  moreover assume "int64_ok n"
  ultimately show ?thesis using dec_digits [of "- n"] by (simp add: atoi_def int_text_def)
next
  case False
  moreover assume "int64_ok n"
  moreover have "dec n \<noteq> []" by simp
  moreover obtain c r where "dec n = c # r" using dec_nonempty by (metis list.exhaust)
  ultimately show ?thesis using dec_digits [of n] dec_no_sign [of n] dec_val_dec [of n]
    by (simp add: atoi_def int_text_def)
qed

lemma int_text_nonempty [simp]: "int_text n \<noteq> []"
  by (simp add: int_text_def)

lemma blank_scan_iff: "blank_scan s \<longleftrightarrow> is_blank_ascii s"
  by (auto simp: blank_scan_def is_blank_ascii_iff ascii_whitespace_def list_all_iff)

lemma gated_text_None: "gated_text v = None \<longleftrightarrow> is_blank_ascii v \<or> v = int_text schema_version"
  by (simp add: gated_text_def blank_scan_iff)

lemma gated_text_same: "gated_text v = Some u \<Longrightarrow> u = v \<and> \<not> is_blank_ascii v \<and> v \<noteq> int_text schema_version"
  by (auto simp: gated_text_def blank_scan_iff split: if_splits)

lemma hex_val_upper_all: "list_all (\<lambda>n. hex_val (upper_hex n) = Some n) [0..<16]"
  by code_simp

lemma hex_val_upper: "n < 16 \<Longrightarrow> hex_val (upper_hex n) = Some n"
  using hex_val_upper_all by (simp add: list_all_iff del: upt_rec_numeral)

lemma byte_halves: "byte c div 16 < 16" "byte c mod 16 < 16"
  using byte_less [of c] by (simp_all add: less_mult_imp_div_less)

lemma chr_byte: "chr (byte c) = c"
  by (simp add: of_char_of)

lemma unreserved_not: "unreserved c \<Longrightarrow> c \<noteq> CHR ''%'' \<and> c \<noteq> CHR ''+'' \<and> c \<noteq> CHR ''?''"
  by (auto simp: unreserved_def is_digit_def in_range_def)

theorem query_unescape_escape: "query_unescape (query_escape s) = Some s"
proof (induction s)
  case (Cons c s)
  have "byte c div 16 < 16" "byte c mod 16 < 16" by (rule byte_halves)+
  moreover have "16 * (byte c div 16) + byte c mod 16 = byte c" by presburger
  ultimately show ?case using Cons unreserved_not [of c] by (auto simp: hex_val_upper chr_byte)
qed simp

lemma query_escape_no_mark: "CHR ''?'' \<notin> set (query_escape s)"
proof (induction s)
  case (Cons c s)
  have "hex_val (CHR ''?'') = None" by (simp add: hex_val_def in_range_def)
  then have "CHR ''?'' \<noteq> upper_hex n" if "n < 16" for n
    using hex_val_upper [OF that] by (metis option.distinct(1))
  then show ?case using Cons unreserved_not [of c] byte_halves [of c] by auto
qed simp

subsection \<open>Attempts\<close>

lemma decoded_attempts:
  assumes "decode stx body = (env, None)" and "int64_ok n"
  shows "encode stx (env\<lparr>env_attempts := n\<rparr>) = Inr (json_print (envelope_json (env\<lparr>env_attempts := n\<rparr>)))
    \<and> decode stx (json_print (envelope_json (env\<lparr>env_attempts := n\<rparr>))) = (env\<lparr>env_attempts := n, env_warnings := []\<rparr>, None)"
proof -
  have "envelope_ok env" "\<not> is_blank_ascii (env_job env)" using decoded_ok [OF assms(1)] by simp_all
  then show ?thesis using encode_ok [OF envelope_ok_attempts] decode_written [OF envelope_ok_attempts] assms(2) by simp
qed

text \<open>Raising the attempts of a body leaves everything else of the envelope alone.\<close>

lemma raise_attempts_spec:
  assumes "decode stx body = (env, None)" and "int64_ok native"
  shows "\<exists>ws. decode stx (raise_attempts stx body native) = (env\<lparr>env_attempts := max (env_attempts env) native, env_warnings := ws\<rparr>, None)"
proof (cases "native \<le> env_attempts env")
  case True
  then show ?thesis using assms(1) by (intro exI [of _ "env_warnings env"]) (simp add: raise_attempts_def max_def)
next
  case False
  then show ?thesis using decoded_attempts [OF assms] assms(1)
    by (intro exI [of _ "[]"]) (simp add: raise_attempts_def max_def)
qed

lemma raise_attempts_undecodable: "snd (decode stx body) \<noteq> None \<Longrightarrow> raise_attempts stx body native = body"
  by (auto simp: raise_attempts_def split: prod.splits option.splits)

text \<open>A body for the concrete instances below.\<close>

definition work_envelope :: envelope where
  "work_envelope = zero_envelope\<lparr>env_job := ''u:x'', env_trace_id := ''t'', env_attempts := 2,
     env_meta := zero_meta\<lparr>meta_schema_version := 1\<rparr>\<rparr>"

definition work_body :: bytes where
  "work_body = json_print (envelope_json work_envelope)"

lemma work_body_decoded: "decode stx work_body = (work_envelope, None)"
proof -
  have "envelope_ok work_envelope" by code_simp
  moreover have "\<not> is_blank_ascii (env_job work_envelope)" by code_simp
  ultimately show ?thesis using decode_written [of work_envelope stx]
    by (simp add: work_body_def) (simp add: work_envelope_def zero_envelope_def)
qed

subsection \<open>Out-of-band headers\<close>

lemma map_of_filter_key:
  "distinct (map fst m) \<Longrightarrow>
   map_of (filter (\<lambda>(k, v). P k v) m) k = (case map_of m k of Some v \<Rightarrow> if P k v then Some v else None | None \<Rightarrow> None)"
proof (induction m)
  case (Cons kv m)
  obtain k' v' where kv: "kv = (k', v')" by (cases kv)
  show ?case
  proof (cases "k = k'")
    case True
    then have "map_of m k = None" using Cons.prems kv by (simp add: map_of_eq_None_iff)
    then show ?thesis using Cons kv True by auto
  qed (use Cons kv in auto)
qed simp

lemma smap_ok_filter: "smap_ok m \<Longrightarrow> smap_ok (filter P m)"
  by (induction m) auto

lemma smap_get_out_of_band:
  "smap_ok h \<Longrightarrow> smap_get (out_of_band reserved h) k =
     (if k = [] \<or> k \<in> set reserved then None else case smap_get h k of Some v \<Rightarrow> if v = [] then None else Some v | None \<Rightarrow> None)"
  by (simp add: out_of_band_def map_of_filter_key smap_ok_distinct split: option.split)

lemma smap_ok_out_of_band [simp]: "smap_ok h \<Longrightarrow> smap_ok (out_of_band reserved h)"
  unfolding out_of_band_def by (rule smap_ok_filter)

lemma smap_ok_merge [simp]: "smap_ok p \<Longrightarrow> smap_ok (merge_out_of_band reserved val p h)"
  by (induction reserved val p h rule: merge_out_of_band.induct) auto

lemma smap_get_merge:
  "smap_ok h \<Longrightarrow> smap_get (merge_out_of_band reserved val p h) k =
     (case smap_get p k of Some v \<Rightarrow> Some v | None \<Rightarrow> map_option val (smap_get (out_of_band reserved h) k))"
proof (induction reserved val p h rule: merge_out_of_band.induct)
  case (2 reserved val p k' v h)
  have h: "smap_ok h" "smap_get h k' = None"
    using "2.prems" by (force simp: map_of_eq_None_iff)+
  show ?case
    using "2.IH" h "2.prems" by (auto simp: smap_get_out_of_band smap_get_put split: option.splits)
qed (simp add: out_of_band_def split: option.splits)

lemma fst_surface: "fst ` set (surface_out_of_band reserved shown p) \<subseteq> fst ` set p"
  by (induction reserved shown p rule: surface_out_of_band.induct) auto

lemma smap_ok_surface [simp]: "smap_ok p \<Longrightarrow> smap_ok (surface_out_of_band reserved shown p)"
proof (induction reserved shown p rule: surface_out_of_band.induct)
  case (2 reserved shown k v p)
  then have "\<forall>k' \<in> fst ` set (surface_out_of_band reserved shown p). k < k'"
    using fst_surface [of reserved shown p] "2.prems" unfolding smap_ok_Cons by (meson subsetD)
  then show ?case using 2 by simp
qed simp

lemma smap_get_surface:
  "smap_ok p \<Longrightarrow> smap_get (surface_out_of_band reserved shown p) k =
     (if k = [] \<or> k \<in> set reserved then None
      else case smap_get p k of Some v \<Rightarrow> if shown v = [] then None else Some (shown v) | None \<Rightarrow> None)"
proof (induction reserved shown p rule: surface_out_of_band.induct)
  case (2 reserved shown k' v p)
  then have "smap_get p k' = None" by (force simp: map_of_eq_None_iff)
  then show ?case using 2 by auto
qed simp

lemma surface_merge:
  assumes "smap_ok h" "smap_ok p" and "fst ` set p \<subseteq> set reserved" and "\<And>v. shown (val v) = v"
  shows "surface_out_of_band reserved shown (merge_out_of_band reserved val p h) = out_of_band reserved h"
proof (rule smap_eqI)
  have "smap_get p k = None" if "k \<notin> set reserved" for k
    using that assms(3) by (auto simp: map_of_eq_None_iff)
  then show "smap_get (surface_out_of_band reserved shown (merge_out_of_band reserved val p h)) = smap_get (out_of_band reserved h)"
    using assms by (auto simp: fun_eq_iff smap_get_surface smap_get_merge smap_get_out_of_band split: option.splits)
qed (use assms in simp_all)

subsection \<open>A carrier of headers\<close>

lemma replay_context:
  assumes "smap_get (msg_headers m) header_replay_bypass = Some v" and "v \<noteq> []"
  shows "is_replay (delivery_context m)"
  using assms by (simp add: delivery_context_def Let_def is_replay_def with_replay_def)

text \<open>
  What a binding that carries out-of-band headers promises: \<open>carry\<close> adds them to the native properties of a
  body, \<open>surface\<close> is what the consumer's delivery shows of them, and what is shown is exactly what was
  given, without the blank ones and without the names the binding owns. The marker of a replay is not such
  a name, so a redriven delivery is recognised on every transport that interprets the locale.
\<close>

locale header_carrier =
  fixes carry :: "bytes \<Rightarrow> bytes smap \<Rightarrow> 'p"
    and surface :: "'p \<Rightarrow> bytes smap"
    and owned :: "bytes list"
  assumes surface_carry: "smap_ok h \<Longrightarrow> surface (carry body h) = out_of_band owned h"
    and marker_not_owned: "header_replay_bypass \<notin> set owned"
begin

lemma plain_delivery: "surface (carry body []) = []"
  using surface_carry [of "[]"] by (simp add: out_of_band_def)

lemma surfaced_header:
  assumes "smap_ok h" and "k \<notin> set owned" and "k \<noteq> []"
  shows "smap_get (surface (carry body h)) k = (case smap_get h k of Some v \<Rightarrow> if v = [] then None else Some v | None \<Rightarrow> None)"
  using assms by (simp add: surface_carry smap_get_out_of_band)

lemma owned_not_surfaced: "smap_ok h \<Longrightarrow> k \<in> set owned \<Longrightarrow> smap_get (surface (carry body h)) k = None"
  by (simp add: surface_carry smap_get_out_of_band)

lemma replay_recognised:
  assumes "smap_ok h" and "smap_get h header_replay_bypass = Some v" and "v \<noteq> []"
    and "msg_headers m = surface (carry body h)"
  shows "is_replay (delivery_context m)"
proof (rule replay_context)
  show "smap_get (msg_headers m) header_replay_bypass = Some v"
    using assms surfaced_header [of h header_replay_bypass body] marker_not_owned
    by (simp add: header_replay_bypass_def)
qed (rule assms(3))

lemma not_replayed:
  assumes "smap_ok h" and "smap_get h header_replay_bypass = None" and "msg_headers m = surface (carry body h)"
  shows "\<not> is_replay (delivery_context m)"
proof -
  have "smap_get (msg_headers m) header_replay_bypass = None"
    using assms surfaced_header [of h header_replay_bypass body] marker_not_owned
    by (simp add: header_replay_bypass_def)
  then show ?thesis by (simp add: delivery_context_def Let_def is_replay_def with_headers_def background_def)
qed

end

end
