(* ===== verification/KafkaLaws.thy ===== *)
theory KafkaLaws
  imports KafkaRetry BindingLaws
begin

section \<open>Properties of the Kafka transport\<close>

text \<open>
  First the reinjector: an abstract relay that owns, per partition, the records still to be carried and
  whether the first of them has been carried, and the simulation that the concurrent worker of the code
  implements it.
\<close>

subsection \<open>The reinjector refines a relay\<close>

record line_state =
  ln_pending :: "int \<Rightarrow> kafka_record list"
  ln_carried :: "int \<Rightarrow> bool"
  ln_out :: "(int \<times> kafka_record) list"
  ln_settled :: "int \<Rightarrow> kafka_record list"

text \<open>A relay carries the first pending record of a partition, as often as it likes, and may drop it only
  afterwards.\<close>

inductive line_step :: "line_state \<Rightarrow> line_state \<Rightarrow> bool" where
  carry: "ln_pending a p = m # ms \<Longrightarrow>
    line_step a (a\<lparr>ln_out := ln_out a @ [(p, reinject_record m)], ln_carried := (ln_carried a)(p := True)\<rparr>)"
| settle_head: "ln_pending a p = m # ms \<Longrightarrow> ln_carried a p \<Longrightarrow>
    line_step a (a\<lparr>ln_pending := (ln_pending a)(p := ms), ln_carried := (ln_carried a)(p := False),
                   ln_settled := (ln_settled a)(p := ln_settled a p @ [m])\<rparr>)"

definition line_init :: "(int \<Rightarrow> kafka_record list) \<Rightarrow> line_state" where
  "line_init src = \<lparr>ln_pending = src, ln_carried = (\<lambda>_. False), ln_out = [], ln_settled = (\<lambda>_. [])\<rparr>"

fun in_hand :: "worker \<Rightarrow> kafka_record list" where
  "in_hand Idle = []"
| "in_hand (Waiting m) = [m]"
| "in_hand (Writing m) = [m]"
| "in_hand (Committing m) = [m]"

definition implements :: "relay_state \<Rightarrow> line_state \<Rightarrow> bool" where
  "implements s a \<longleftrightarrow>
     (\<forall>p. ln_pending a p = in_hand (rl_worker s p) @ rl_buffer s p @ rl_source s p) \<and>
     (\<forall>p m. rl_worker s p = Committing m \<longrightarrow> ln_carried a p) \<and>
     ln_out a = rl_written s \<and> ln_settled a = rl_done s"

lemma implements_init: "implements (relay_init src) (line_init src)"
  by (simp add: implements_def relay_init_def line_init_def)

lemma simulation:
  assumes "relay_step s s'" and "implements s a"
  shows "\<exists>a'. line_step\<^sup>*\<^sup>* a a' \<and> implements s' a'"
  using assms
proof cases
  case (write_ok p m)
  let ?a = "a\<lparr>ln_out := ln_out a @ [(p, reinject_record m)], ln_carried := (ln_carried a)(p := True)\<rparr>"
  have "line_step a ?a" using write_ok assms(2) by (intro line_step.carry) (simp add: implements_def)
  moreover have "implements s' ?a" using write_ok assms(2) by (auto simp: implements_def)
  ultimately show ?thesis by blast
next
  case (write_unsure p m)
  let ?a = "a\<lparr>ln_out := ln_out a @ [(p, reinject_record m)], ln_carried := (ln_carried a)(p := True)\<rparr>"
  have "line_step a ?a" using write_unsure assms(2) by (intro line_step.carry) (simp add: implements_def)
  moreover have "implements s' ?a" using write_unsure assms(2) by (auto simp: implements_def)
  ultimately show ?thesis by blast
next
  case (commit_ok p m)
  let ?a = "a\<lparr>ln_pending := (ln_pending a)(p := rl_buffer s p @ rl_source s p), ln_carried := (ln_carried a)(p := False),
              ln_settled := (ln_settled a)(p := ln_settled a p @ [m])\<rparr>"
  have "line_step a ?a" using commit_ok assms(2) by (intro line_step.settle_head) (simp_all add: implements_def)
  moreover have "implements s' ?a" using commit_ok assms(2) by (auto simp: implements_def)
  ultimately show ?thesis by blast
qed (use assms(2) in \<open>auto simp: implements_def intro!: exI [of _ a]\<close>)

lemma relay_simulated: "relay_step\<^sup>*\<^sup>* (relay_init src) s \<Longrightarrow> \<exists>a. line_step\<^sup>*\<^sup>* (line_init src) a \<and> implements s a"
proof (induction rule: rtranclp_induct)
  case base
  then show ?case using implements_init by blast
next
  case (step s s')
  then show ?case by (meson rtranclp_trans simulation)
qed

text \<open>A run on one record whose first write reports an error after it reached the broker.\<close>

definition sample_record :: kafka_record where
  "sample_record =
     \<lparr>kr_topic = ''q.retry.1'', kr_partition = 0, kr_offset = 7, kr_key = Some ''k'', kr_value = Some ''v'',
      kr_headers = [(''bq-delay'', ''5000''), (''bq-original-topic'', ''q'')], kr_time = Some 0\<rparr>"

definition sample_source :: "int \<Rightarrow> kafka_record list" where
  "sample_source p = (if p = 0 then [sample_record] else [])"

definition sample_final :: relay_state where
  "sample_final =
     (relay_init (\<lambda>_. []))\<lparr>rl_written := [(0, reinject_record sample_record), (0, reinject_record sample_record)],
       rl_commits := [(0, sample_record)], rl_done := (\<lambda>p. if p = 0 then [sample_record] else [])\<rparr>"

lemma sample_run: "relay_step\<^sup>*\<^sup>* (relay_init sample_source) sample_final"
proof -
  let ?s0 = "relay_init sample_source"
  let ?s1 = "?s0\<lparr>rl_source := (rl_source ?s0)(0 := []), rl_buffer := (rl_buffer ?s0)(0 := rl_buffer ?s0 0 @ [sample_record])\<rparr>"
  let ?s2 = "?s1\<lparr>rl_buffer := (rl_buffer ?s1)(0 := []), rl_worker := (rl_worker ?s1)(0 := Waiting sample_record)\<rparr>"
  let ?s3 = "?s2\<lparr>rl_worker := (rl_worker ?s2)(0 := Writing sample_record)\<rparr>"
  let ?s4 = "?s3\<lparr>rl_written := rl_written ?s3 @ [(0, reinject_record sample_record)]\<rparr>"
  let ?s5 = "?s4\<lparr>rl_written := rl_written ?s4 @ [(0, reinject_record sample_record)],
                 rl_worker := (rl_worker ?s4)(0 := Committing sample_record)\<rparr>"
  let ?s6 = "?s5\<lparr>rl_commits := rl_commits ?s5 @ [(0, sample_record)], rl_done := (rl_done ?s5)(0 := rl_done ?s5 0 @ [sample_record]),
                 rl_worker := (rl_worker ?s5)(0 := Idle)\<rparr>"
  have 1: "relay_step ?s0 ?s1" by (rule relay_step.fetch) (simp_all add: relay_init_def sample_source_def reinject_queue_depth_def)
  have 2: "relay_step ?s1 ?s2" by (rule relay_step.take_next) (simp_all add: relay_init_def)
  have 3: "relay_step ?s2 ?s3" by (rule relay_step.elapsed) (simp add: relay_init_def)
  have 4: "relay_step ?s3 ?s4" by (rule relay_step.write_unsure) (simp add: relay_init_def)
  have 5: "relay_step ?s4 ?s5" by (rule relay_step.write_ok) (simp add: relay_init_def)
  have 6: "relay_step ?s5 ?s6" by (rule relay_step.commit_ok) (simp add: relay_init_def)
  have "relay_step\<^sup>*\<^sup>* ?s0 ?s6"
    by (rule converse_rtranclp_into_rtranclp, rule 1, rule converse_rtranclp_into_rtranclp, rule 2,
        rule converse_rtranclp_into_rtranclp, rule 3, rule converse_rtranclp_into_rtranclp, rule 4,
        rule converse_rtranclp_into_rtranclp, rule 5, rule r_into_rtranclp, rule 6)
  moreover have "?s6 = sample_final" by (simp add: sample_final_def relay_init_def sample_source_def fun_eq_iff)
  ultimately show ?thesis by (rule subst [rotated])
qed

text \<open>C9. The concurrent reinjector (a fetch loop and a worker per partition, writes and commits that fail, succeed or are unsure)
  refines the abstract line of records: every state it reaches corresponds to a state the line reaches, with the
  same writes in the same order and the same records finished.\<close>

theorem reinjector_refines:
  assumes "relay_step\<^sup>*\<^sup>* (relay_init src) s"
  shows "\<exists>a. line_step\<^sup>*\<^sup>* (line_init src) a \<and> implements s a"
  using assms by (rule relay_simulated)

theorem reinjector_refines_witness: "\<exists>a. line_step\<^sup>*\<^sup>* (line_init sample_source) a \<and> implements sample_final a"
  by (rule reinjector_refines [OF sample_run])

subsection \<open>What the reinjector guarantees\<close>

lemma committing_written:
  assumes "relay_step\<^sup>*\<^sup>* (relay_init src) s"
  shows "(\<forall>p m. rl_worker s p = Committing m \<longrightarrow> (p, reinject_record m) \<in> set (rl_written s))
    \<and> (\<forall>(p, m) \<in> set (rl_commits s). (p, reinject_record m) \<in> set (rl_written s))
    \<and> (\<forall>p. length (rl_buffer s p) \<le> reinject_queue_depth)"
  using assms
proof (induction rule: rtranclp_induct)
  case (step s s')
  from step.hyps(2) show ?case
  proof cases
    case (take_next p m ms)
    then have "length ms \<le> reinject_queue_depth" using step.IH by (metis Suc_leD length_Cons)
    then show ?thesis using take_next step.IH by (auto split: if_splits)
  qed (use step.IH in \<open>auto split: if_splits\<close>)
qed (simp add: relay_init_def)

text \<open>The writes of one partition: every settled record at least once, in order, then possibly the first
  pending one.\<close>

fun writes_of :: "nat list \<Rightarrow> kafka_record list \<Rightarrow> kafka_record list" where
  "writes_of (n # ns) (m # ms) = replicate n (reinject_record m) @ writes_of ns ms"
| "writes_of _ _ = []"

definition of_partition :: "int \<Rightarrow> (int \<times> 'a) list \<Rightarrow> 'a list" where
  "of_partition p xs = map snd (filter (\<lambda>x. fst x = p) xs)"

lemma of_partition_simps [simp]:
  "of_partition p [] = []" "of_partition p (xs @ ys) = of_partition p xs @ of_partition p ys"
  "of_partition p [(q, x)] = (if p = q then [x] else [])"
  by (auto simp: of_partition_def)

definition line_ok :: "(int \<Rightarrow> kafka_record list) \<Rightarrow> line_state \<Rightarrow> bool" where
  "line_ok src a \<longleftrightarrow> (\<forall>p. src p = ln_settled a p @ ln_pending a p \<and>
     (\<exists>ns n. length ns = length (ln_settled a p) \<and> 0 \<notin> set ns \<and>
        of_partition p (ln_out a) = writes_of ns (ln_settled a p) @ replicate n (reinject_record (hd (ln_pending a p))) \<and>
        (ln_carried a p \<longleftrightarrow> 0 < n) \<and> (ln_pending a p = [] \<longrightarrow> n = 0)))"

lemma writes_of_snoc: "length ns = length ms \<Longrightarrow> writes_of (ns @ [n]) (ms @ [m]) = writes_of ns ms @ replicate n (reinject_record m)"
  by (induction ns ms rule: writes_of.induct) auto

lemma line_ok_step:
  assumes "line_step a a'" and "line_ok src a"
  shows "line_ok src a'"
  unfolding line_ok_def
proof
  fix q
  obtain ns n where q: "src q = ln_settled a q @ ln_pending a q" "length ns = length (ln_settled a q)" "0 \<notin> set ns"
    "of_partition q (ln_out a) = writes_of ns (ln_settled a q) @ replicate n (reinject_record (hd (ln_pending a q)))"
    "ln_carried a q \<longleftrightarrow> 0 < n" "ln_pending a q = [] \<longrightarrow> n = 0"
    using assms(2) unfolding line_ok_def by blast
  from assms(1) show "src q = ln_settled a' q @ ln_pending a' q \<and>
     (\<exists>ns n. length ns = length (ln_settled a' q) \<and> 0 \<notin> set ns \<and>
        of_partition q (ln_out a') = writes_of ns (ln_settled a' q) @ replicate n (reinject_record (hd (ln_pending a' q))) \<and>
        (ln_carried a' q \<longleftrightarrow> 0 < n) \<and> (ln_pending a' q = [] \<longrightarrow> n = 0))"
  proof cases
    case (carry p m ms)
    then show ?thesis using q
      by (intro conjI exI [of _ ns] exI [of _ "if q = p then Suc n else n"])
         (auto simp: replicate_append_same [symmetric])
  next
    case (settle_head p m ms)
    show ?thesis
    proof (cases "q = p")
      case True
      then show ?thesis using q settle_head
        by (intro conjI exI [of _ "ns @ [n]"] exI [of _ 0]) (auto simp: writes_of_snoc)
    qed (use q settle_head in \<open>auto intro!: exI [of _ ns] exI [of _ n]\<close>)
  qed
qed

lemma line_reach_ok: "line_step\<^sup>*\<^sup>* (line_init src) a \<Longrightarrow> line_ok src a"
proof (induction rule: rtranclp_induct)
  case base
  then show ?case by (simp add: line_ok_def line_init_def)
next
  case (step a a')
  then show ?case by (blast intro: line_ok_step)
qed

text \<open>C4. What the reinjector promises, however its goroutines interleave and whatever writes and commits fail. The
  records of a partition leave in order; a finished record was written at least once, and what was written of
  the partition is exactly the finished records, each one or more times, and then possibly the next one; a commit
  is only ever sent for a record whose write the broker has; and a buffer never holds more than its depth.\<close>

theorem reinjector_at_least_once:
  assumes "relay_step\<^sup>*\<^sup>* (relay_init src) s"
  shows "(\<exists>rest ns n. src p = rl_done s p @ rest \<and> length ns = length (rl_done s p) \<and> 0 \<notin> set ns
      \<and> of_partition p (rl_written s) = writes_of ns (rl_done s p) @ replicate n (reinject_record (hd rest)) \<and> (rest = [] \<longrightarrow> n = 0))
    \<and> (\<forall>(p, m) \<in> set (rl_commits s). (p, reinject_record m) \<in> set (rl_written s))
    \<and> length (rl_buffer s p) \<le> reinject_queue_depth"
proof -
  obtain a where a: "line_step\<^sup>*\<^sup>* (line_init src) a" "implements s a" using relay_simulated [OF assms] by blast
  then show ?thesis using line_reach_ok [OF a(1)] committing_written [OF assms]
    unfolding line_ok_def implements_def by metis
qed

theorem reinjector_at_least_once_witness:
  "(\<exists>rest. sample_source 0 = rl_done sample_final 0 @ rest)
    \<and> length (rl_buffer sample_final 0) \<le> reinject_queue_depth"
  using reinjector_at_least_once [OF sample_run, of 0] by (elim exE conjE) (intro conjI exI, assumption+)

subsection \<open>Waiting and tiers\<close>

text \<open>How long the reinjector holds a record of a tier: until its timestamp plus the tier, but never less than
  nothing and never more than the tier, whatever clock set the timestamp. Once nothing reaches the work topic
  before its time: a record looked at at its own timestamp waits the whole tier.\<close>

theorem wait_for_bounds:
  assumes "0 \<le> tier"
  shows "wait_for now m tier = max 0 (min tier (record_time m + tier - now)) \<and> 0 \<le> wait_for now m tier
    \<and> wait_for now m tier \<le> tier \<and> (record_time m = now \<longrightarrow> wait_for now m tier = tier)"
  using assms by (auto simp: wait_for_def Let_def max_def min_def)

theorem wait_for_bounds_witness:
  "wait_for 3 sample_record 5 = max 0 (min 5 (record_time sample_record + 5 - 3)) \<and> 0 \<le> wait_for 3 sample_record 5
    \<and> wait_for 3 sample_record 5 \<le> 5 \<and> (if record_time sample_record = 3 then wait_for 3 sample_record 5 = 5 else True)"
  using wait_for_bounds [of 5 3 sample_record] by simp

lemma find_tier_spec:
  "sorted tiers \<Longrightarrow> find_tier tiers i delay =
     (if \<exists>t \<in> set tiers. delay \<le> t then Some (i + int (length (filter (\<lambda>t. t < delay) tiers))) else None)"
proof (induction tiers arbitrary: i)
  case (Cons t tiers)
  have "filter (\<lambda>t. t < delay) tiers = []" if "delay \<le> t"
    using that Cons.prems by (auto simp: filter_empty_conv)
  then show ?case using Cons by auto
qed simp

text \<open>A delayed publish goes to the tier whose number is one more than how many configured tiers are shorter than
  the delay, in whatever order they were configured: the shortest tier that covers it. A delay no tier covers is
  refused with \<open>ErrDelayUnsupported\<close>, never shortened.\<close>

theorem delay_tier:
  "retry_topic_for k (with_retry_tiers tiers c) topic delay =
     (if \<exists>t \<in> set tiers. delay \<le> t then Inr (retry_topic topic (1 + int (length (filter (\<lambda>t. t < delay) tiers))))
      else Inl (if tiers = [] then no_tiers
                else wrap_error [] (plain_error ErrDelayUnsupported)
                  ('': '' @ kc_duration k delay @ '' exceeds the largest tier '' @ kc_duration k (last (sort tiers)))))"
proof -
  have "length (filter P (sort tiers)) = length (filter P tiers)" for P
    by (metis mset_filter mset_sort size_mset)
  moreover have "sort tiers = [] \<longleftrightarrow> tiers = []" by (metis set_sort set_empty)
  ultimately show ?thesis
    using find_tier_spec [of "sort tiers" 1 delay] by (auto simp: retry_topic_for_def with_retry_tiers_def)
qed

subsection \<open>Headers\<close>

lemma owned_names: "fst ` set (record_headers env) \<subseteq> set contract_headers"
  by (auto simp: record_headers_def contract_headers_def)

lemma distinct_record_headers: "distinct (map fst (record_headers env))"
  unfolding record_headers_def by (rule distinct_map_filter) simp

lemma append_new_all:
  "distinct (map fst extra) \<Longrightarrow> fst ` set dst \<inter> fst ` set extra = {} \<Longrightarrow> append_new dst extra = dst @ extra"
proof (induction dst extra rule: append_new.induct)
  case (2 dst k v extra)
  then show ?case by auto
qed simp

lemma append_out_of_band_all:
  assumes "smap_ok h" and "fst ` set dst \<subseteq> set contract_headers"
  shows "append_out_of_band dst h = dst @ out_of_band contract_headers h"
  unfolding append_out_of_band_def
proof (rule append_new_all)
  show "distinct (map fst (out_of_band contract_headers h))"
    using assms(1) by (simp add: smap_ok_distinct)
  show "fst ` set dst \<inter> fst ` set (out_of_band contract_headers h) = {}"
    using assms(2) by (auto simp: out_of_band_def)
qed

lemma oob_from_record_skip:
  "fst ` set dst \<subseteq> set contract_headers \<Longrightarrow> out_of_band_from_record (dst @ extra) out = out_of_band_from_record extra out"
  by (induction dst out rule: out_of_band_from_record.induct) auto

lemma oob_from_record_put:
  "smap_ok extra \<Longrightarrow> fst ` set extra \<inter> fst ` set out = {} \<Longrightarrow>
     \<forall>(k, v) \<in> set extra. k \<noteq> [] \<and> v \<noteq> [] \<and> k \<notin> set contract_headers \<Longrightarrow>
     out_of_band_from_record extra out = smap_of extra out"
proof (induction extra out rule: out_of_band_from_record.induct)
  case (2 k v hdrs out)
  have "smap_get out k = None" using "2.prems"(2) by (simp add: map_of_eq_None_iff)
  moreover have "k \<notin> fst ` set hdrs" using "2.prems"(1) by force
  ultimately show ?case using 2 by (simp add: set_smap_keys_put)
qed simp

lemma kafka_surface:
  assumes "smap_ok h" and "fst ` set dst \<subseteq> set contract_headers"
  shows "out_of_band_from_record (append_out_of_band dst h) [] = out_of_band contract_headers h"
proof -
  have "out_of_band_from_record (out_of_band contract_headers h) [] = smap_of (out_of_band contract_headers h) []"
    by (rule oob_from_record_put) (use assms(1) in simp, simp, auto simp: out_of_band_def)
  then show ?thesis
    using assms by (simp add: append_out_of_band_all oob_from_record_skip smap_of_id)
qed

lemma projected_names: "fst ` set (kr_headers (kafka_message stx topic body)) \<subseteq> set contract_headers"
  using owned_names by (auto simp: kafka_message_def Let_def split: prod.splits option.splits)

definition kafka_carry :: "(bytes \<Rightarrow> bytes) \<Rightarrow> bytes \<Rightarrow> bytes smap \<Rightarrow> (bytes \<times> bytes) list" where
  "kafka_carry stx body h = append_out_of_band (kr_headers (kafka_message stx [] body)) h"

definition kafka_surfaced :: "(bytes \<times> bytes) list \<Rightarrow> bytes smap" where
  "kafka_surfaced hdrs = out_of_band_from_record hdrs []"

interpretation kafka_headers: header_carrier "kafka_carry stx" kafka_surfaced contract_headers
proof
  show "smap_ok h \<Longrightarrow> kafka_surfaced (kafka_carry stx body h) = out_of_band contract_headers h" for h body
    by (simp add: kafka_carry_def kafka_surfaced_def kafka_surface projected_names)
  show "header_replay_bypass \<notin> set contract_headers"
    by (simp add: header_replay_bypass_def contract_headers_def header_delay_def header_original_topic_def)
qed

subsection \<open>A retry comes back\<close>

lemma map_of_forward:
  "map_of (forward_trace_headers dst fs) k =
     (case map_of dst k of Some v \<Rightarrow> Some v
      | None \<Rightarrow> if k = header_traceparent \<or> k = header_tracestate then map_of fs k else None)"
proof (induction dst fs rule: forward_trace_headers.induct)
  case (2 dst k' v fs)
  let ?dst = "if k' \<noteq> header_traceparent \<and> k' \<noteq> header_tracestate then dst
              else if k' \<in> fst ` set dst then dst else dst @ [(k', v)]"
  have IH: "map_of (forward_trace_headers dst ((k', v) # fs)) k =
      (case map_of ?dst k of Some v \<Rightarrow> Some v
       | None \<Rightarrow> if k = header_traceparent \<or> k = header_tracestate then map_of fs k else None)"
    using "2.IH" by simp
  show ?case
  proof (cases "?dst = dst")
    case True
    then have "k \<noteq> k' \<or> k' \<noteq> header_traceparent \<and> k' \<noteq> header_tracestate \<or> map_of dst k \<noteq> None"
      by (auto simp: map_of_eq_None_iff split: if_splits)
    then show ?thesis unfolding IH True by (auto split: option.split)
  next
    case False
    then have d: "?dst = dst @ [(k', v)]" and t: "k' = header_traceparent \<or> k' = header_tracestate" by (auto split: if_splits)
    show ?thesis unfolding IH d using t by (cases "map_of dst k") (auto simp: map_add_def)
  qed
qed (simp split: option.splits)

lemma distinct_forward: "distinct (map fst dst) \<Longrightarrow> distinct (map fst (forward_trace_headers dst fs))"
  by (induction dst fs rule: forward_trace_headers.induct) auto

lemma map_of_last_header: "distinct (map fst hdrs) \<Longrightarrow> last_header k hdrs v = (case map_of hdrs k of Some x \<Rightarrow> x | None \<Rightarrow> v)"
proof (induction k hdrs v rule: last_header.induct)
  case (2 key k v' hdrs v)
  have "map_of hdrs k = None" using "2.prems" by (simp add: map_of_eq_None_iff)
  then show ?case using 2 by (cases "k = key") (auto split: option.split)
qed simp

lemma oob_from_record_get:
  assumes "distinct (map fst hdrs)" and "k \<noteq> []" and "k \<notin> set contract_headers" and "smap_get out k = None"
  shows "smap_get (out_of_band_from_record hdrs out) k =
    (case map_of hdrs k of Some v \<Rightarrow> if v = [] then None else Some v | None \<Rightarrow> None)"
  using assms
proof (induction hdrs out rule: out_of_band_from_record.induct)
  case (2 k' v hdrs out)
  have keep: "smap_get (out_of_band_from_record hs o') k = Some x" if "smap_get o' k = Some x" for hs o' x
    using that
  proof (induction hs o' rule: out_of_band_from_record.induct)
    case (2 a b hs o')
    then show ?case by (cases "a = k") (auto simp: smap_get_put)
  qed simp
  show ?case
  proof (cases "k' = k")
    case True
    then have "map_of hdrs k = None" using "2.prems"(1) by (simp add: map_of_eq_None_iff)
    then show ?thesis using True 2 keep by (auto simp: smap_get_put)
  qed (use 2 in \<open>auto simp: smap_get_put\<close>)
qed simp

lemma record_headers_map:
  "map_of (record_headers env) k =
     (case map_of ([(''bq-job'', env_job env), (''bq-trace-id'', env_trace_id env), (''bq-message-id'', meta_id (env_meta env))]
        @ (if meta_schema_version (env_meta env) \<noteq> 0
           then [(''bq-schema-version'', int_text (meta_schema_version (env_meta env)))] else [])
        @ [(''bq-source-lang'', meta_lang (env_meta env)), (''bq-attempts'', int_text (env_attempts env))]) k of
        Some v \<Rightarrow> if v \<noteq> [] then Some v else None | None \<Rightarrow> None)"
  unfolding record_headers_def by (rule map_of_filter_key) simp

lemma record_headers_get:
  "map_of (record_headers env) ''bq-attempts'' = Some (int_text (env_attempts env))"
  "meta_schema_version (env_meta env) \<noteq> 0 \<Longrightarrow>
     map_of (record_headers env) ''bq-schema-version'' = Some (int_text (meta_schema_version (env_meta env)))"
  "map_of (record_headers env) header_delay = None" "map_of (record_headers env) header_original_topic = None"
  "map_of (record_headers env) header_traceparent = None" "map_of (record_headers env) header_tracestate = None"
  by (simp_all add: record_headers_map header_delay_def header_original_topic_def header_traceparent_def header_tracestate_def)

lemmas header_names =
  header_delay_def header_original_topic_def header_traceparent_def header_tracestate_def

text \<open>The record written for a retry, and what becomes of it on the way back.\<close>

definition attempt_record ::
  "int \<Rightarrow> kafka_record \<Rightarrow> envelope \<Rightarrow> bytes \<Rightarrow> bytes \<Rightarrow> int \<Rightarrow> kafka_record" where
  "attempt_record now km env topic queue tier =
     \<lparr>kr_topic = topic, kr_partition = 0, kr_offset = 0, kr_key = kr_key km, kr_value = Some (json_print (envelope_json env)),
      kr_headers = forward_trace_headers
        (record_headers (env\<lparr>env_warnings := []\<rparr>) @ [(header_delay, int_text (milliseconds tier)), (header_original_topic, queue)])
        (kr_headers km), kr_time = Some now\<rparr>"

lemma attempt_written:
  assumes "envelope_ok env" and "\<not> is_blank_ascii (env_job env)" and "msg_handle from' = RecordHandle km"
  shows "carry_over from' (retry_record stx now topic queue (json_print (envelope_json env)) tier)
    = attempt_record now km env topic queue tier"
  using decode_written [OF assms(1), of stx] assms(2,3)
  by (simp add: carry_over_def retry_record_def kafka_message_def attempt_record_def)

lemma attempt_headers:
  assumes hdrs_def: "hdrs = kr_headers (attempt_record now km env topic queue tier)"
  shows "distinct (map fst hdrs)"
    and "map_of hdrs ''bq-attempts'' = Some (int_text (env_attempts env))"
    and "meta_schema_version (env_meta env) \<noteq> 0 \<Longrightarrow>
      map_of hdrs ''bq-schema-version'' = Some (int_text (meta_schema_version (env_meta env)))"
    and "map_of hdrs header_original_topic = Some queue"
    and "k \<in> {header_traceparent, header_tracestate} \<Longrightarrow> map_of hdrs k = map_of (kr_headers km) k"
proof -
  let ?r = "record_headers (env\<lparr>env_warnings := []\<rparr>)"
  have none: "map_of ?r header_delay = None" "map_of ?r header_original_topic = None" by (simp_all add: record_headers_get)
  then have "distinct (map fst (?r @ [(header_delay, int_text (milliseconds tier)), (header_original_topic, queue)]))"
    using distinct_record_headers [of "env\<lparr>env_warnings := []\<rparr>"]
    by (auto simp: map_of_eq_None_iff header_names)
  then show "distinct (map fst hdrs)" unfolding hdrs_def by (simp add: attempt_record_def distinct_forward)
  show "map_of hdrs ''bq-attempts'' = Some (int_text (env_attempts env))"
    unfolding hdrs_def by (simp add: attempt_record_def map_of_forward record_headers_get map_add_Some_iff header_names)
  show "meta_schema_version (env_meta env) \<noteq> 0 \<Longrightarrow>
      map_of hdrs ''bq-schema-version'' = Some (int_text (meta_schema_version (env_meta env)))"
    unfolding hdrs_def by (simp add: attempt_record_def map_of_forward record_headers_get map_add_def header_names)
  show "map_of hdrs header_original_topic = Some queue"
    unfolding hdrs_def using none by (simp add: attempt_record_def map_of_forward map_add_def header_names)
  show "map_of hdrs k = map_of (kr_headers km) k" if "k \<in> {header_traceparent, header_tracestate}"
    using that record_headers_get(5,6) [of "env\<lparr>env_warnings := []\<rparr>"]
    unfolding hdrs_def by (auto simp: attempt_record_def map_of_forward map_add_def header_names)
qed

lemma attempt_reinjected:
  assumes "queue \<noteq> []" and back'_def: "back' = reinject_record (attempt_record now km env topic queue tier)"
  shows "kr_topic back' = queue" "kr_key back' = kr_key km" "value_text back' = json_print (envelope_json env)"
    and "distinct (map fst (kr_headers back'))"
    and "k \<noteq> header_delay \<Longrightarrow> k \<noteq> header_original_topic \<Longrightarrow>
      map_of (kr_headers back') k = map_of (kr_headers (attempt_record now km env topic queue tier)) k"
proof -
  note h = attempt_headers [where now = now and km = km and env = env and topic = topic and queue = queue and tier = tier, OF refl]
  show "kr_topic back' = queue" "kr_key back' = kr_key km" "value_text back' = json_print (envelope_json env)"
    using assms(1) map_of_last_header [OF h(1), of header_original_topic "[]"] h(4)
    unfolding back'_def by (simp_all add: reinject_record_def Let_def value_text_def) (simp_all add: attempt_record_def)
  show "distinct (map fst (kr_headers back'))"
    using h(1) unfolding back'_def by (simp add: reinject_record_def Let_def distinct_map_filter)
  show "k \<noteq> header_delay \<Longrightarrow> k \<noteq> header_original_topic \<Longrightarrow>
      map_of (kr_headers back') k = map_of (kr_headers (attempt_record now km env topic queue tier)) k"
    using map_of_filter_key [OF h(1), of "\<lambda>k v. k \<noteq> header_original_topic \<and> k \<noteq> header_delay" k]
    unfolding back'_def by (simp add: reinject_record_def Let_def split: option.split)
qed

text \<open>C26. A retry comes back. The record \<open>PublishRetryForAttempt\<close> writes for a delivery of this transport sits in the
  tier of the attempt (the last one once they run out); carried back by the reinjector it is a record of the work
  topic with the key of the original, and popping it gives the envelope of the original delivery with the next
  attempt count and nothing else changed, in the same trace, not gated.\<close>

theorem retry_comes_back:
  assumes "kf_retry_tiers c \<noteq> []" and "msg_handle d = RecordHandle km" and "msg_queue d \<noteq> []"
    and "decode (kc_syntax k) (msg_body d) = (env, None)" and "meta_schema_version (env_meta env) = schema_version"
    and "0 \<le> before" and "before < max_int64"
  shows "\<exists>m. publish_retry_for_attempt k c d before s = kafka_write k m s
    \<and> kr_topic m = retry_topic (msg_queue d) (min before (int (length (kf_retry_tiers c)) - 1) + 1)
    \<and> kr_topic (reinject_record m) = msg_queue d \<and> kr_key (reinject_record m) = kr_key km
    \<and> (let d' = kafka_received (kc_syntax k) (msg_queue d) (reinject_record m) in
         decode (kc_syntax k) (msg_body d') = (env\<lparr>env_attempts := before + 1, env_warnings := []\<rparr>, None)
         \<and> msg_route_urn d' = []
         \<and> (\<forall>t \<in> {header_traceparent, header_tracestate}. smap_get (msg_headers d') t =
              (case map_of (kr_headers km) t of Some v \<Rightarrow> if v = [] then None else Some v | None \<Rightarrow> None)))"
proof -
  define env' where "env' = env\<lparr>env_attempts := before + 1\<rparr>"
  obtain n tier where tier: "retry_tier_for_attempt c before = Inr (n, tier)"
      "n = min before (int (length (kf_retry_tiers c)) - 1) + 1"
    using assms(1,6) by (simp add: retry_tier_for_attempt_def Let_def min_def)
  have n64: "int64_ok (before + 1)" using assms(6,7) by (simp add: int64_ok_def min_int64_def max_int64_def)
  have ok: "envelope_ok env'" "\<not> is_blank_ascii (env_job env')"
    using decoded_ok [OF assms(4)] envelope_ok_attempts n64 by (simp_all add: env'_def)
  let ?m = "attempt_record (kc_now k (ks_world s)) km env' (retry_topic (msg_queue d) n) (msg_queue d) tier"
  have written: "publish_retry_for_attempt k c d before s = kafka_write k ?m s"
    using assms(4,6) tier(1) encode_ok [OF ok(1)] wrap64_id [OF n64] attempt_written [OF ok assms(2)]
    by (simp add: publish_retry_for_attempt_def env'_def [symmetric])
  note h = attempt_headers [where now = "kc_now k (ks_world s)" and km = km and env = env' and
    topic = "retry_topic (msg_queue d) n" and queue = "msg_queue d" and tier = tier, OF refl]
  note b = attempt_reinjected [where now = "kc_now k (ks_world s)" and km = km and env = env' and
    topic = "retry_topic (msg_queue d) n" and tier = tier, OF assms(3) refl]
  let ?h = "kr_headers (reinject_record ?m)"
  have v: "meta_schema_version (env_meta env') = schema_version" "env_attempts env' = before + 1"
    using assms(5) by (simp_all add: env'_def)
  have att: "map_of ?h ''bq-attempts'' = Some (int_text (before + 1))"
    and gate: "map_of ?h ''bq-schema-version'' = Some (int_text schema_version)"
    using h(2,3) v by (simp_all add: b(5) header_names schema_version_def)
  have dec: "decode (kc_syntax k) (json_print (envelope_json env')) = (env'\<lparr>env_warnings := []\<rparr>, None)"
    using decode_written [OF ok(1)] ok(2) by simp
  have "map_of ?h t = map_of (kr_headers km) t" if "t \<in> {header_traceparent, header_tracestate}" for t
    using h(5) [OF that] that by (auto simp: b(5) header_names)
  then have trace: "\<forall>t \<in> {header_traceparent, header_tracestate}. smap_get (out_of_band_from_record ?h []) t =
      (case map_of (kr_headers km) t of Some v \<Rightarrow> if v = [] then None else Some v | None \<Rightarrow> None)"
    by (intro ballI, subst oob_from_record_get [OF b(4)]) (auto simp: contract_headers_def header_names)
  have "kafka_gate ?h = None" by (simp add: kafka_gate_def gate gated_text_None)
  moreover have "reconcile_record_attempts (kc_syntax k) (value_text (reinject_record ?m)) ?h = json_print (envelope_json env')"
    using n64 by (simp add: reconcile_record_attempts_def b(3) att dec atoi_text v)
  ultimately have "kafka_received (kc_syntax k) (msg_queue d) (reinject_record ?m) =
      \<lparr>msg_body = json_print (envelope_json env'), msg_queue = msg_queue d, msg_handle = RecordHandle (reinject_record ?m),
       msg_headers = out_of_band_from_record ?h [], msg_delivery_count = 0, msg_route_urn = [], msg_poison = False\<rparr>"
    by (simp add: kafka_received_def)
  moreover have "kr_topic ?m = retry_topic (msg_queue d) (min before (int (length (kf_retry_tiers c)) - 1) + 1)"
    by (simp add: attempt_record_def tier(2))
  ultimately show ?thesis using written trace dec b(1,2)
    unfolding Let_def by (intro exI [of _ ?m]) (simp add: env'_def)
qed

definition sample_kafka :: "kafka_record list kafka_client" where
  "sample_kafka =
     \<lparr>kc_write = (\<lambda>m w. (None, w @ [m])), kc_new_reader = (\<lambda>q w. (0, w)),
      kc_fetch = (\<lambda>r d w. case w of [] \<Rightarrow> (Inl (plain_error DeadlineExceeded), w) | m # w' \<Rightarrow> (Inr m, w')),
      kc_commit = (\<lambda>r m w. (None, w)), kc_close = None, kc_close_writer = None, kc_now = (\<lambda>_. 0), kc_syntax = (\<lambda>_. []),
      kc_duration = (\<lambda>_. [])\<rparr>"

definition sample_tiers :: "kafka_record list kafka_config" where
  "sample_tiers = with_retry_tiers default_retry_tiers \<lparr>kf_max_wait = 0, kf_on_rejected = None, kf_retry_tiers = []\<rparr>"

definition sample_fetched :: received_message where
  "sample_fetched = kafka_received (\<lambda>_. []) ''q''
     \<lparr>kr_topic = ''q'', kr_partition = 0, kr_offset = 3, kr_key = Some ''k'', kr_value = Some work_body,
      kr_headers = [(''traceparent'', ''00-1'')], kr_time = Some 0\<rparr>"

lemma sample_fetched_fields:
  "msg_handle sample_fetched = RecordHandle (rh_record (msg_handle sample_fetched))"
  "msg_queue sample_fetched = ''q''" "msg_body sample_fetched = work_body"
  by (simp_all add: sample_fetched_def kafka_received_def kafka_gate_def reconcile_record_attempts_def value_text_def work_body_decoded)

theorem retry_comes_back_witness:
  "\<exists>m. publish_retry_for_attempt sample_kafka sample_tiers sample_fetched 2 (kafka_init []) = kafka_write sample_kafka m (kafka_init [])
    \<and> kr_topic m = retry_topic (msg_queue sample_fetched) (min 2 (int (length (kf_retry_tiers sample_tiers)) - 1) + 1)
    \<and> kr_topic (reinject_record m) = msg_queue sample_fetched \<and> kr_key (reinject_record m) = kr_key (rh_record (msg_handle sample_fetched))
    \<and> (let d' = kafka_received (kc_syntax sample_kafka) (msg_queue sample_fetched) (reinject_record m) in
         decode (kc_syntax sample_kafka) (msg_body d') = (work_envelope\<lparr>env_attempts := 2 + 1, env_warnings := []\<rparr>, None)
         \<and> msg_route_urn d' = []
         \<and> (\<forall>t \<in> {header_traceparent, header_tracestate}. smap_get (msg_headers d') t =
              (case map_of (kr_headers (rh_record (msg_handle sample_fetched))) t of
                 Some v \<Rightarrow> if v = [] then None else Some v | None \<Rightarrow> None)))"
proof (rule retry_comes_back)
  show "kf_retry_tiers sample_tiers \<noteq> []"
    by (simp add: sample_tiers_def with_retry_tiers_def default_retry_tiers_def)
  show "msg_handle sample_fetched = RecordHandle (rh_record (msg_handle sample_fetched))"
    by (rule sample_fetched_fields(1))
  show "decode (kc_syntax sample_kafka) (msg_body sample_fetched) = (work_envelope, None)"
    by (simp add: sample_fetched_fields(3) work_body_decoded)
qed (simp_all add: sample_fetched_fields(2) work_envelope_def schema_version_def max_int64_def)

end
