(* ===== verification/KafkaLiveness.thy ===== *)
theory KafkaLiveness
  imports KafkaLaws
begin

section \<open>The reinjector always gets there\<close>

text \<open>
  From every state the reinjector can be in, however many writes and commits failed before, the steps of one partition
  alone finish that partition once the broker answers: no record blocks another partition and no state is a trap.
\<close>

text \<open>What the steps of a partition leave of the others.\<close>

definition same_others :: "int \<Rightarrow> relay_state \<Rightarrow> relay_state \<Rightarrow> bool" where
  "same_others p s s' \<longleftrightarrow> (\<forall>q. q \<noteq> p \<longrightarrow> rl_source s' q = rl_source s q \<and> rl_buffer s' q = rl_buffer s q
     \<and> rl_worker s' q = rl_worker s q \<and> rl_done s' q = rl_done s q)"

lemma same_others_trans: "same_others p s s1 \<Longrightarrow> same_others p s1 s2 \<Longrightarrow> same_others p s s2"
  by (simp add: same_others_def)

text \<open>The worker brings the record in its hand to the end.\<close>

definition finishes :: "int \<Rightarrow> relay_state \<Rightarrow> relay_state \<Rightarrow> bool" where
  "finishes p s s' \<longleftrightarrow> relay_step\<^sup>*\<^sup>* s s' \<and> same_others p s s' \<and> rl_worker s' p = Idle
     \<and> rl_buffer s' p = rl_buffer s p \<and> rl_source s' p = rl_source s p \<and> rl_done s' p = rl_done s p @ in_hand (rl_worker s p)"

lemma finishes_step:
  assumes "relay_step s s1" and "same_others p s s1" and "finishes p s1 s'" and "rl_buffer s1 p = rl_buffer s p"
    and "rl_source s1 p = rl_source s p" and "rl_done s1 p @ in_hand (rl_worker s1 p) = rl_done s p @ in_hand (rl_worker s p)"
  shows "finishes p s s'"
  using assms converse_rtranclp_into_rtranclp [of relay_step s s1 s'] same_others_trans
  unfolding finishes_def by metis

lemma finish_committing: "rl_worker s p = Committing m \<Longrightarrow> \<exists>s'. finishes p s s'"
  by (rule exI, unfold finishes_def, rule conjI, rule r_into_rtranclp, rule relay_step.commit_ok)
     (auto simp: same_others_def)

lemma finish_writing: "rl_worker s p = Writing m \<Longrightarrow> \<exists>s'. finishes p s s'"
proof -
  assume w: "rl_worker s p = Writing m"
  let ?s = "s\<lparr>rl_written := rl_written s @ [(p, reinject_record m)], rl_worker := (rl_worker s)(p := Committing m)\<rparr>"
  obtain s' where "finishes p ?s s'" using finish_committing [of ?s p m] by auto
  then show ?thesis using finishes_step [OF relay_step.write_ok [OF w], of p s'] w by (auto simp: same_others_def)
qed

lemma finish_in_hand: "\<exists>s'. finishes p s s'"
proof (cases "rl_worker s p")
  case Idle
  then show ?thesis by (intro exI [of _ s]) (simp add: finishes_def same_others_def)
next
  case (Waiting m)
  let ?s = "s\<lparr>rl_worker := (rl_worker s)(p := Writing m)\<rparr>"
  obtain s' where "finishes p ?s s'" using finish_writing [of ?s p m] by auto
  then show ?thesis using finishes_step [OF relay_step.elapsed [OF Waiting], of p s'] Waiting by (auto simp: same_others_def)
qed (use finish_writing finish_committing in blast)+

text \<open>Then it takes the next one, from the buffer or, when that is empty, from the topic.\<close>

definition clears :: "int \<Rightarrow> relay_state \<Rightarrow> relay_state \<Rightarrow> bool" where
  "clears p s s' \<longleftrightarrow> relay_step\<^sup>*\<^sup>* s s' \<and> same_others p s s' \<and> rl_worker s' p = Idle
     \<and> rl_done s' p = rl_done s p @ in_hand (rl_worker s p) @ rl_buffer s p @ rl_source s p"

lemma clears_after:
  assumes "relay_step\<^sup>*\<^sup>* s s1" and "same_others p s s1" and "clears p s1 s'"
    and "rl_done s1 p @ in_hand (rl_worker s1 p) @ rl_buffer s1 p @ rl_source s1 p =
      rl_done s p @ in_hand (rl_worker s p) @ rl_buffer s p @ rl_source s p"
  shows "clears p s s'"
  using assms rtranclp_trans [of relay_step s s1 s'] same_others_trans unfolding clears_def by metis

lemma clear_partition: "\<exists>s'. clears p s s'"
proof (induction "length (rl_buffer s p) + length (rl_source s p) + length (rl_source s p)" arbitrary: s rule: less_induct)
  case less
  obtain s1 where s1: "finishes p s s1" using finish_in_hand by blast
  have same: "rl_done s1 p @ in_hand (rl_worker s1 p) @ rl_buffer s1 p @ rl_source s1 p =
      rl_done s p @ in_hand (rl_worker s p) @ rl_buffer s p @ rl_source s p"
    using s1 by (simp add: finishes_def)
  show ?case
  proof (cases "rl_buffer s1 p")
    case (Cons m ms)
    let ?s = "s1\<lparr>rl_buffer := (rl_buffer s1)(p := ms), rl_worker := (rl_worker s1)(p := Waiting m)\<rparr>"
    have st: "relay_step s1 ?s" using s1 Cons by (intro relay_step.take_next) (simp_all add: finishes_def)
    have "length ms + length (rl_source s p) + length (rl_source s p)
        < length (rl_buffer s p) + length (rl_source s p) + length (rl_source s p)"
      using s1 Cons unfolding finishes_def by (metis add_less_cancel_right length_Cons lessI)
    then obtain s' where "clears p ?s s'" using less.hyps [of ?s] s1 by (auto simp: finishes_def)
    then have "clears p s1 s'"
      by (rule clears_after [OF r_into_rtranclp [of relay_step, OF st], rotated]) (use s1 Cons in \<open>simp_all add: same_others_def finishes_def\<close>)
    then show ?thesis using clears_after [OF _ _ _ same] s1 unfolding finishes_def by blast
  next
    case Nil
    show ?thesis
    proof (cases "rl_source s1 p")
      case (Cons m ms)
      let ?s = "s1\<lparr>rl_source := (rl_source s1)(p := ms), rl_buffer := (rl_buffer s1)(p := rl_buffer s1 p @ [m])\<rparr>"
      have st: "relay_step s1 ?s" using Nil Cons by (intro relay_step.fetch) (simp_all add: reinject_queue_depth_def)
      have "length [m] + length ms + length ms < length (rl_buffer s p) + length (rl_source s p) + length (rl_source s p)"
        using s1 Nil Cons unfolding finishes_def by (auto dest!: arg_cong [where f = length])
      then obtain s' where "clears p ?s s'" using less.hyps [of ?s] Nil by auto
      then have "clears p s1 s'"
        by (rule clears_after [OF r_into_rtranclp [of relay_step, OF st], rotated]) (use Nil Cons in \<open>simp_all add: same_others_def\<close>)
      then show ?thesis using clears_after [OF _ _ _ same] s1 unfolding finishes_def by blast
    next
      case Nil
      then have "clears p s1 s1" using s1 \<open>rl_buffer s1 p = []\<close> by (simp add: clears_def same_others_def finishes_def)
      then show ?thesis using clears_after [OF _ _ _ same] s1 unfolding finishes_def by blast
    qed
  qed
qed



end
