(* ===== verification/KafkaRun.thy ===== *)
theory KafkaRun
  imports KafkaLaws
begin

section \<open>A whole run of the re-injector\<close>

text \<open>
  \<open>Run\<close> and \<open>consumeTier\<close> of \<open>kafka/reinject.go\<close>: one fetch loop for each retry topic, all under one context that
  \<open>Run\<close> derives from the caller's and cancels when the first of them returns an error. A fetch loop that ends, by a
  permanent error of its reader or because the context ended, returns only after the workers of its partitions have
  returned: each of them at the end of the context, or when its buffer is closed and empty. The records of one
  retry topic are a \<open>relay_state\<close> of their own; what \<open>Run\<close> adds is when the loops stop and what it returns.
\<close>

datatype tier_phase = Fetching | Draining "go_error option" | Returned "go_error option"

text \<open>The loops are numbered as their retry topics; \<open>rn_stopped\<close> is the caller's context, \<open>rn_cancelled\<close> the derived one.\<close>

record run_state =
  rn_phase :: "nat \<Rightarrow> tier_phase"
  rn_relay :: "nat \<Rightarrow> relay_state"
  rn_stopped :: bool
  rn_cancelled :: bool
  rn_err :: "go_error option"

definition fetch_error :: "bytes \<Rightarrow> go_error \<Rightarrow> go_error" where
  "fetch_error topic e = wrap_error (''kafka: re-inject fetch from '' @ topic @ '': '') e []"

definition workers_done :: "relay_state \<Rightarrow> bool" where
  "workers_done s \<longleftrightarrow> (\<forall>p. rl_worker s p = Idle \<and> rl_buffer s p = [])"

definition may_return :: "run_state \<Rightarrow> nat \<Rightarrow> bool" where
  "may_return S i \<longleftrightarrow> rn_cancelled S \<or> workers_done (rn_relay S i)"

text \<open>\<open>fail\<close>: the first error is kept, and the context cancelled.\<close>

definition run_fail :: "go_error \<Rightarrow> run_state \<Rightarrow> run_state" where
  "run_fail e S = S\<lparr>rn_err := (if rn_err S = None then Some e else rn_err S), rn_cancelled := True\<rparr>"

definition set_phase :: "nat \<Rightarrow> tier_phase \<Rightarrow> run_state \<Rightarrow> run_state" where
  "set_phase i f S = S\<lparr>rn_phase := (rn_phase S)(i := f)\<rparr>"

inductive run_step :: "bytes list \<Rightarrow> run_state \<Rightarrow> run_state \<Rightarrow> bool" for topics :: "bytes list" where
  carries: "i < length topics \<Longrightarrow> rn_phase S i = Fetching \<or> rn_phase S i = Draining r \<and> rl_source s' = rl_source (rn_relay S i) \<Longrightarrow>
    relay_step (rn_relay S i) s' \<Longrightarrow> run_step topics S (S\<lparr>rn_relay := (rn_relay S)(i := s')\<rparr>)"
| fetch_fails: "i < length topics \<Longrightarrow> rn_phase S i = Fetching \<Longrightarrow> \<not> rn_cancelled S \<Longrightarrow>
    run_step topics S (set_phase i (Draining (Some (fetch_error (topics ! i) e))) S)"
| fetch_ends: "i < length topics \<Longrightarrow> rn_phase S i = Fetching \<Longrightarrow> rn_cancelled S \<Longrightarrow>
    run_step topics S (set_phase i (Draining None) S)"
| tier_ends: "i < length topics \<Longrightarrow> rn_phase S i = Draining None \<Longrightarrow> may_return S i \<Longrightarrow>
    run_step topics S (set_phase i (Returned None) S)"
| tier_fails: "i < length topics \<Longrightarrow> rn_phase S i = Draining (Some e) \<Longrightarrow> may_return S i \<Longrightarrow>
    run_step topics S (run_fail e (set_phase i (Returned (Some e)) S))"
| caller_stops: "run_step topics S (S\<lparr>rn_stopped := True, rn_cancelled := True\<rparr>)"

inductive_cases run_stepE: "run_step topics S S'"

definition run_init :: "(nat \<Rightarrow> int \<Rightarrow> kafka_record list) \<Rightarrow> run_state" where
  "run_init src =
     \<lparr>rn_phase = (\<lambda>_. Fetching), rn_relay = (\<lambda>i. relay_init (src i)), rn_stopped = False, rn_cancelled = False, rn_err = None\<rparr>"

text \<open>\<open>wg.Wait\<close> is over.\<close>

definition run_returned :: "bytes list \<Rightarrow> run_state \<Rightarrow> bool" where
  "run_returned topics S \<longleftrightarrow> (\<forall>i < length topics. \<exists>r. rn_phase S i = Returned r)"

subsection \<open>What a run returns\<close>

text \<open>The invariant of a run: its records are carried as those of a single retry topic are, an error in hand is that of
  a reader, the context ended only with a reason, and a loop ends without an error only after that.\<close>

definition run_inv :: "bytes list \<Rightarrow> (nat \<Rightarrow> int \<Rightarrow> kafka_record list) \<Rightarrow> run_state \<Rightarrow> bool" where
  "run_inv topics src S \<longleftrightarrow>
     (\<forall>i. relay_step\<^sup>*\<^sup>* (relay_init (src i)) (rn_relay S i))
     \<and> (\<forall>i e. rn_phase S i = Draining (Some e) \<or> rn_phase S i = Returned (Some e) \<longrightarrow> (\<exists>c. e = fetch_error (topics ! i) c))
     \<and> (\<forall>i. rn_phase S i = Draining None \<or> rn_phase S i = Returned None \<longrightarrow> rn_cancelled S)
     \<and> (\<forall>i e. rn_phase S i = Returned (Some e) \<longrightarrow> rn_err S \<noteq> None)
     \<and> (\<forall>e. rn_err S = Some e \<longrightarrow> (\<exists>i < length topics. rn_phase S i = Returned (Some e)))
     \<and> (rn_cancelled S \<longrightarrow> rn_stopped S \<or> rn_err S \<noteq> None)"

lemma run_inv_init: "run_inv topics src (run_init src)"
  by (simp add: run_inv_def run_init_def)

lemma error_survives:
  assumes "run_inv topics src S" "\<forall>r. rn_phase S i \<noteq> Returned r"
  shows "\<forall>e. rn_err S = Some e \<longrightarrow> (\<exists>j < length topics. rn_phase (set_phase i f S) j = Returned (Some e))"
proof (intro allI impI)
  fix e assume "rn_err S = Some e"
  then obtain j where "j < length topics" "rn_phase S j = Returned (Some e)" using assms(1) unfolding run_inv_def by blast
  then show "\<exists>j < length topics. rn_phase (set_phase i f S) j = Returned (Some e)"
    using assms(2) by (intro exI [of _ j]) (auto simp: set_phase_def)
qed

lemma run_inv_set_phase:
  assumes inv: "run_inv topics src S" and fresh: "\<forall>r. rn_phase S i \<noteq> Returned r"
    and err: "\<And>e. f = Draining (Some e) \<Longrightarrow> \<exists>c. e = fetch_error (topics ! i) c"
    and nil: "f = Draining None \<or> f = Returned None \<Longrightarrow> rn_cancelled S" and "\<And>e. f \<noteq> Returned (Some e)"
  shows "run_inv topics src (set_phase i f S)"
proof -
  have "rn_err (set_phase i f S) = rn_err S" "rn_relay (set_phase i f S) = rn_relay S"
    "rn_cancelled (set_phase i f S) = rn_cancelled S" "rn_stopped (set_phase i f S) = rn_stopped S"
    by (simp_all add: set_phase_def)
  moreover have "rn_phase (set_phase i f S) = (rn_phase S)(i := f)" by (simp add: set_phase_def)
  ultimately show ?thesis using error_survives [OF inv fresh, of f] assms unfolding run_inv_def
    by (intro conjI; simp) metis+
qed

lemma run_inv_step:
  assumes "run_inv topics src S" "run_step topics S S'"
  shows "run_inv topics src S'"
  using assms(2)
proof (cases rule: run_step.cases)
  case (carries i r s')
  have "relay_step\<^sup>*\<^sup>* (relay_init (src i)) s'"
    using assms(1) carries(4) unfolding run_inv_def by (meson rtranclp.rtrancl_into_rtrancl)
  then show ?thesis using assms(1) carries(1) by (simp add: run_inv_def)
next
  case (fetch_fails i e)
  then show ?thesis using assms(1) by (auto intro!: run_inv_set_phase)
next
  case (fetch_ends i)
  then show ?thesis using assms(1) by (auto intro!: run_inv_set_phase)
next
  case (tier_ends i)
  moreover have "rn_cancelled S" using tier_ends(3) assms(1) by (simp add: run_inv_def)
  ultimately show ?thesis using assms(1) by (auto intro!: run_inv_set_phase)
next
  case (tier_fails i e)
  have "\<exists>c. e = fetch_error (topics ! i) c" using tier_fails(3) assms(1) by (simp add: run_inv_def)
  then show ?thesis using assms(1) error_survives [OF assms(1), of i "Returned (Some e)"] tier_fails
    by (auto simp: run_inv_def set_phase_def run_fail_def)
next
  case caller_stops
  then show ?thesis using assms(1) by (auto simp: run_inv_def)
qed

lemma run_inv_run: "(run_step topics)\<^sup>*\<^sup>* S S' \<Longrightarrow> run_inv topics src S \<Longrightarrow> run_inv topics src S'"
  by (induction rule: rtranclp_induct) (auto intro: run_inv_step)

text \<open>C30. What a run of the Kafka re-injector returns, and that it carries. However the loops, the workers and the caller
  interleave: in every state of a run each retry topic has been served as a single one is (so nothing is lost,
  skipped or committed before it was written, per partition); and when the run has returned, it returned nil only
  because the caller's context ended, and an error only if it is the fetch error, with the name of its retry topic,
  of a reader that failed.\<close>

theorem run_outcome:
  assumes "(run_step topics)\<^sup>*\<^sup>* (run_init src) S" and "topics \<noteq> []"
  shows "relay_step\<^sup>*\<^sup>* (relay_init (src i)) (rn_relay S i)
    \<and> (run_returned topics S \<longrightarrow>
         (case rn_err S of
            None \<Rightarrow> rn_stopped S
          | Some e \<Rightarrow> \<exists>j c. j < length topics \<and> rn_phase S j = Returned (Some e) \<and> e = fetch_error (topics ! j) c))"
proof -
  have inv: "run_inv topics src S" using run_inv_run [OF assms(1) run_inv_init] .
  have "case rn_err S of None \<Rightarrow> rn_stopped S
      | Some e \<Rightarrow> \<exists>j c. j < length topics \<and> rn_phase S j = Returned (Some e) \<and> e = fetch_error (topics ! j) c"
    if ret: "run_returned topics S"
  proof (cases "rn_err S")
    case None
    obtain r where "rn_phase S 0 = Returned r" using ret assms(2) by (auto simp: run_returned_def)
    then have "rn_cancelled S" using inv None by (cases r) (auto simp: run_inv_def)
    then show ?thesis using inv None by (simp add: run_inv_def)
  next
    case (Some e)
    then show ?thesis using inv unfolding run_inv_def by fastforce
  qed
  then show ?thesis using inv by (simp add: run_inv_def)
qed

theorem run_outcome_witness:
  "\<exists>S. (run_step [''t.retry.1''])\<^sup>*\<^sup>* (run_init (\<lambda>_ _. [])) S \<and> run_returned [''t.retry.1''] S
    \<and> (\<exists>c. rn_err S = Some (fetch_error ''t.retry.1'' c))"
proof -
  let ?T = "[''t.retry.1'']" and ?e = "plain_error ErrNoIdentity"
  define S0 where "S0 = run_init (\<lambda>_ _. [])"
  define S1 where "S1 = set_phase 0 (Draining (Some (fetch_error (?T ! 0) ?e))) S0"
  define S2 where "S2 = run_fail (fetch_error (?T ! 0) ?e) (set_phase 0 (Returned (Some (fetch_error (?T ! 0) ?e))) S1)"
  have "run_step ?T S0 S1" unfolding S1_def by (rule fetch_fails) (simp_all add: S0_def run_init_def)
  moreover have "run_step ?T S1 S2" unfolding S2_def
    by (rule tier_fails) (simp_all add: S1_def S0_def run_init_def set_phase_def may_return_def workers_done_def relay_init_def)
  ultimately have r: "(run_step ?T)\<^sup>*\<^sup>* (run_init (\<lambda>_ _. [])) S2" unfolding S0_def by (meson r_into_rtranclp rtranclp.rtrancl_into_rtrancl)
  have ret: "run_returned ?T S2" by (simp add: run_returned_def S2_def run_fail_def set_phase_def)
  have err: "rn_err S2 = Some (fetch_error ''t.retry.1'' ?e)"
    by (simp add: S2_def S1_def S0_def run_fail_def set_phase_def run_init_def)
  show ?thesis using run_outcome [OF r] r ret err by (intro exI [of _ S2]) auto
qed

subsection \<open>An error that is withheld\<close>

text \<open>A step while the work topics take no write and the caller does not give up.\<close>

definition outage_step :: "bytes list \<Rightarrow> run_state \<Rightarrow> run_state \<Rightarrow> bool" where
  "outage_step topics S S' \<longleftrightarrow> run_step topics S S' \<and> \<not> rn_stopped S'
     \<and> (\<forall>j. rl_written (rn_relay S' j) = rl_written (rn_relay S j))"

definition writing :: "relay_state \<Rightarrow> bool" where
  "writing s \<longleftrightarrow> (\<exists>p m. rl_worker s p = Writing m)"

lemma writing_stays:
  assumes "relay_step s s'" "writing s" "rl_written s' = rl_written s"
  shows "writing s'"
proof -
  obtain p m where w: "rl_worker s p = Writing m" using assms(2) by (auto simp: writing_def)
  have "rl_worker s' p = Writing m" using assms(1) w assms(3) by cases auto
  then show ?thesis by (auto simp: writing_def)
qed

definition withheld :: "bytes list \<Rightarrow> nat \<Rightarrow> go_error \<Rightarrow> run_state \<Rightarrow> bool" where
  "withheld topics i e S \<longleftrightarrow>
     rn_phase S i = Draining (Some e) \<and> \<not> rn_stopped S \<and> \<not> rn_cancelled S \<and> rn_err S = None
     \<and> (\<forall>j < length topics. writing (rn_relay S j))"

lemma withheld_step:
  assumes "withheld topics i e S" "outage_step topics S S'"
  shows "withheld topics i e S'"
proof -
  have st: "run_step topics S S'" "\<not> rn_stopped S'" "\<And>j. rl_written (rn_relay S' j) = rl_written (rn_relay S j)"
    using assms(2) by (auto simp: outage_step_def)
  have none: "\<not> may_return S j" if "j < length topics" for j
  proof -
    obtain p m where "rl_worker (rn_relay S j) p = Writing m" using assms(1) \<open>j < length topics\<close>
      unfolding withheld_def writing_def by blast
    then have "\<not> workers_done (rn_relay S j)" unfolding workers_done_def by (metis worker.distinct(3))
    then show ?thesis using assms(1) by (simp add: withheld_def may_return_def)
  qed
  show ?thesis using st(1)
  proof (cases rule: run_step.cases)
    case (carries j r s')
    have "rl_written s' = rl_written (rn_relay S j)" using st(3) [of j] carries(1) by simp
    then have "writing s'" using writing_stays [OF carries(4)] assms(1) carries(2) by (simp add: withheld_def)
    then show ?thesis using assms(1) carries(1) by (simp add: withheld_def)
  next
    case (fetch_fails j c)
    then show ?thesis using assms(1) by (auto simp: withheld_def set_phase_def)
  next
    case (fetch_ends j)
    then show ?thesis using assms(1) by (simp add: withheld_def)
  next
    case (tier_ends j)
    then show ?thesis using none by blast
  next
    case (tier_fails j c)
    then show ?thesis using none by blast
  next
    case caller_stops
    then show ?thesis using st(2) by simp
  qed
qed

text \<open>A reader's permanent error does not end the run while the broker takes no writes. The failed fetch loop waits for
  its workers under a context that only its own return would cancel, and a worker retries its write until the
  context ends: so when a reader has failed and every loop has a record to write, then through every number of steps
  in which no write is acknowledged and the caller does not cancel, the run has not returned, holds no error and has
  stopped nothing. (Its documentation promises that \<open>Run\<close> returns the error of a reader that fails permanently.)\<close>

theorem reader_error_withheld:
  assumes "(outage_step topics)\<^sup>*\<^sup>* S S'" and "i < length topics" and "withheld topics i e S"
  shows "rn_phase S' i = Draining (Some e) \<and> rn_err S' = None \<and> \<not> rn_cancelled S' \<and> \<not> run_returned topics S'"
proof -
  have "withheld topics i e S'" using assms(1)
  proof (induction rule: rtranclp_induct)
    case (step y z)
    then show ?case using withheld_step by blast
  qed (rule assms(3))
  then show ?thesis using assms(2) by (force simp: withheld_def run_returned_def)
qed

definition one_tier :: "relay_state \<Rightarrow> run_state" where
  "one_tier s = (run_init (\<lambda>_. sample_source))\<lparr>rn_relay := (\<lambda>_. relay_init sample_source)(0 := s)\<rparr>"

lemma one_tier_carries: "relay_step\<^sup>*\<^sup>* s s' \<Longrightarrow> (run_step [t])\<^sup>*\<^sup>* (one_tier s) (one_tier s')"
proof (induction rule: rtranclp_induct)
  case (step y z)
  have "run_step [t] (one_tier y) (one_tier z)"
    using carries [of 0 "[t]" "one_tier y" None z] step(2) by (simp add: one_tier_def run_init_def)
  then show ?case using step(3) by simp
qed simp

lemma sample_written_next: "\<exists>s. relay_step\<^sup>*\<^sup>* (relay_init sample_source) s \<and> rl_worker s 0 = Writing sample_record"
proof -
  let ?s0 = "relay_init sample_source"
  define s1 where "s1 = ?s0\<lparr>rl_source := (rl_source ?s0)(0 := []), rl_buffer := (rl_buffer ?s0)(0 := rl_buffer ?s0 0 @ [sample_record])\<rparr>"
  define s2 where "s2 = s1\<lparr>rl_buffer := (rl_buffer s1)(0 := []), rl_worker := (rl_worker s1)(0 := Waiting sample_record)\<rparr>"
  define s3 where "s3 = s2\<lparr>rl_worker := (rl_worker s2)(0 := Writing sample_record)\<rparr>"
  have "relay_step ?s0 s1" unfolding s1_def
    by (rule relay_step.fetch) (simp_all add: relay_init_def sample_source_def reinject_queue_depth_def)
  moreover have "relay_step s1 s2" unfolding s2_def by (rule relay_step.take_next) (simp_all add: s1_def relay_init_def)
  moreover have "relay_step s2 s3" unfolding s3_def by (rule relay_step.elapsed) (simp add: s2_def)
  ultimately have "relay_step\<^sup>*\<^sup>* ?s0 s3" by (meson rtranclp.rtrancl_into_rtrancl rtranclp.rtrancl_refl)
  then show ?thesis by (intro exI [of _ s3]) (simp add: s3_def)
qed

theorem reader_error_withheld_witness:
  "\<exists>S c. (run_step [''t.retry.1''])\<^sup>*\<^sup>* (run_init (\<lambda>_. sample_source)) S \<and> withheld [''t.retry.1''] 0 c S
    \<and> outage_step [''t.retry.1''] S S \<and> rn_err S = None \<and> \<not> run_returned [''t.retry.1''] S"
proof -
  let ?T = "[''t.retry.1'']" and ?e = "fetch_error ''t.retry.1'' (plain_error ErrNoIdentity)"
  obtain s where s: "relay_step\<^sup>*\<^sup>* (relay_init sample_source) s" "rl_worker s 0 = Writing sample_record"
    using sample_written_next by blast
  define S where "S = set_phase 0 (Draining (Some ?e)) (one_tier s)"
  have "run_step ?T (one_tier s) S" unfolding S_def
    using fetch_fails [of 0 ?T "one_tier s" "plain_error ErrNoIdentity"] by (simp add: one_tier_def run_init_def)
  moreover have "one_tier (relay_init sample_source) = run_init (\<lambda>_. sample_source)"
    by (simp add: one_tier_def run_init_def fun_eq_iff)
  ultimately have r: "(run_step ?T)\<^sup>*\<^sup>* (run_init (\<lambda>_. sample_source)) S"
    using one_tier_carries [OF s(1), of "''t.retry.1''"] by simp
  have w: "withheld ?T 0 ?e S" using s(2) by (auto simp: withheld_def S_def one_tier_def run_init_def set_phase_def writing_def)
  have "relay_step s s" by (rule relay_step.write_failed [OF s(2)])
  then have "run_step ?T S S" using carries [of 0 ?T S "Some ?e" s]
    by (simp add: S_def set_phase_def one_tier_def run_init_def)
  then have o: "outage_step ?T S S" using w by (simp add: outage_step_def withheld_def)
  show ?thesis using reader_error_withheld [OF r_into_rtranclp [of "outage_step ?T", OF o] _ w] r w o
    by (intro exI [of _ S] exI [of _ ?e]) simp
qed

end
