(* ===== verification/Pulsar.thy ===== *)
theory Pulsar
  imports Binding
begin

section \<open>The Apache Pulsar transport\<close>

text \<open>
  \<open>pulsar/pulsar.go\<close>. The Pulsar client is a parameter: producers and consumers, named by numbers, and
  their operations over the world \<open>'w\<close>. The two caches are part of the state the operations thread. A
  received message is what the code reads of it; its name is the handle.

  A delivery the version gate rejects travels under a route that also carries the original \<open>bq-job\<close>
  (\<open>gate_route\<close>), so that whatever the runtime writes back for it keeps the original properties.
\<close>

record pulsar_message =
  pm_id :: nat
  pm_payload :: bytes
  pm_properties :: "bytes smap"
  pm_redelivery :: nat

record pulsar_producer_message =
  pp_payload :: bytes
  pp_properties :: "bytes smap"

record 'w pulsar_client =
  pc_create_producer :: "bytes \<Rightarrow> 'w \<Rightarrow> (go_error + nat) \<times> 'w"
  pc_subscribe :: "bytes \<Rightarrow> 'w \<Rightarrow> (go_error + nat) \<times> 'w"
  pc_send :: "nat \<Rightarrow> pulsar_producer_message \<Rightarrow> 'w effect"
  pc_receive :: "nat \<Rightarrow> int option \<Rightarrow> 'w \<Rightarrow> (go_error + pulsar_message) \<times> 'w"
  pc_ack :: "nat \<Rightarrow> nat \<Rightarrow> 'w effect"
  pc_nack :: "nat \<Rightarrow> nat \<Rightarrow> 'w \<Rightarrow> 'w"
  pc_syntax :: "bytes \<Rightarrow> bytes"

type_synonym 'w mismatch_hook = "(bytes \<Rightarrow> bytes \<Rightarrow> envelope \<Rightarrow> 'w \<Rightarrow> 'w) option"

record 'w pulsar_config =
  pl_topic_prefix :: bytes
  pl_max_wait :: int
  pl_on_mismatch :: "'w mismatch_hook"
  pl_on_rejected :: "'w rejected_hook"

record 'w pulsar_state =
  ps_producers :: "nat smap"
  ps_consumers :: "nat smap"
  ps_world :: 'w

text \<open>\<open>New\<close>: an injected client, or one over a Pulsar client that was given or is opened from the URL (\<open>'r\<close>).\<close>

definition pulsar_new ::
  "'c option \<Rightarrow> 'r option \<Rightarrow> bytes \<Rightarrow> (bytes \<Rightarrow> go_error + 'r) \<Rightarrow> ('r \<Rightarrow> 'c) \<Rightarrow> go_error + 'c" where
  "pulsar_new client raw url open_url over =
     (case client of
        Some c \<Rightarrow> Inr c
      | None \<Rightarrow>
          (case (if raw = None \<and> url \<noteq> [] then map_sum id Some (open_url url) else Inr raw) of
             Inl e \<Rightarrow> Inl e
           | Inr (Some r) \<Rightarrow> Inr (over r)
           | Inr None \<Rightarrow> Inl (new_error ''pulsar: provide WithURL, WithPulsarClient, or WithClient'')))"

definition pulsar_with_topic_prefix :: "bytes \<Rightarrow> 'w pulsar_config \<Rightarrow> 'w pulsar_config" where
  "pulsar_with_topic_prefix p c = c\<lparr>pl_topic_prefix := p\<rparr>"
definition pulsar_with_max_wait_time :: "int \<Rightarrow> 'w pulsar_config \<Rightarrow> 'w pulsar_config" where
  "pulsar_with_max_wait_time d c = c\<lparr>pl_max_wait := d\<rparr>"
definition pulsar_with_on_routing_mismatch :: "'w mismatch_hook \<Rightarrow> 'w pulsar_config \<Rightarrow> 'w pulsar_config" where
  "pulsar_with_on_routing_mismatch f c = c\<lparr>pl_on_mismatch := f\<rparr>"
definition pulsar_with_on_schema_version_rejected :: "'w rejected_hook \<Rightarrow> 'w pulsar_config \<Rightarrow> 'w pulsar_config" where
  "pulsar_with_on_schema_version_rejected f c = c\<lparr>pl_on_rejected := f\<rparr>"

definition new_pulsar_config :: "('w pulsar_config \<Rightarrow> 'w pulsar_config) list \<Rightarrow> 'w pulsar_config" where
  "new_pulsar_config opts = fold (\<lambda>f c. f c) opts
     \<lparr>pl_topic_prefix = [], pl_max_wait = 0, pl_on_mismatch = None, pl_on_rejected = None\<rparr>"

definition new_pulsar_state :: "'w \<Rightarrow> 'w pulsar_state" where
  "new_pulsar_state w = \<lparr>ps_producers = [], ps_consumers = [], ps_world = w\<rparr>"

definition pulsar_topic :: "'w pulsar_config \<Rightarrow> bytes \<Rightarrow> bytes" where
  "pulsar_topic c queue = pl_topic_prefix c @ queue"

definition pulsar_on_client :: "('w \<Rightarrow> 'a \<times> 'w) \<Rightarrow> 'w pulsar_state \<Rightarrow> 'a \<times> 'w pulsar_state" where
  "pulsar_on_client f s = (case f (ps_world s) of (x, w) \<Rightarrow> (x, s\<lparr>ps_world := w\<rparr>))"

definition pulsar_producer ::
  "'w pulsar_client \<Rightarrow> bytes \<Rightarrow> 'w pulsar_state \<Rightarrow> (go_error + nat) \<times> 'w pulsar_state" where
  "pulsar_producer k queue s =
     (case smap_get (ps_producers s) queue of
        Some p \<Rightarrow> (Inr p, s)
      | None \<Rightarrow>
          (case pulsar_on_client (pc_create_producer k queue) s of
             (Inl e, s1) \<Rightarrow> (Inl e, s1)
           | (Inr p, s1) \<Rightarrow> (Inr p, s1\<lparr>ps_producers := smap_put queue p (ps_producers s1)\<rparr>)))"

definition pulsar_consumer ::
  "'w pulsar_client \<Rightarrow> bytes \<Rightarrow> 'w pulsar_state \<Rightarrow> (go_error + nat) \<times> 'w pulsar_state" where
  "pulsar_consumer k queue s =
     (case smap_get (ps_consumers s) queue of
        Some c \<Rightarrow> (Inr c, s)
      | None \<Rightarrow>
          (case pulsar_on_client (pc_subscribe k queue) s of
             (Inl e, s1) \<Rightarrow> (Inl e, s1)
           | (Inr c, s1) \<Rightarrow> (Inr c, s1\<lparr>ps_consumers := smap_put queue c (ps_consumers s1)\<rparr>)))"

subsection \<open>Gate routes\<close>

definition gate_job_param :: bytes where "gate_job_param = ''?bq-job=''"

definition gate_route :: "bytes \<Rightarrow> bytes smap \<Rightarrow> bytes" where
  "gate_route version props =
     unsupported_schema_route_prefix @ query_escape version @
       (case smap_get props ''bq-job'' of None \<Rightarrow> [] | Some job \<Rightarrow> gate_job_param @ query_escape job)"

text \<open>\<open>strings.Cut\<close>: the parts around the first occurrence of the separator.\<close>

fun cut_at :: "bytes \<Rightarrow> bytes \<Rightarrow> bytes \<times> bytes option" where
  "cut_at sep [] = ([], None)"
| "cut_at sep (c # s) =
     (if has_prefix (c # s) sep then ([], Some (drop (length sep) (c # s)))
      else apfst ((#) c) (cut_at sep s))"

definition unescape_or :: "bytes \<Rightarrow> bytes" where
  "unescape_or raw = (case query_unescape raw of None \<Rightarrow> raw | Some s \<Rightarrow> s)"

text \<open>The version, and the original \<open>bq-job\<close> if there was one; \<open>None\<close> for any other route.\<close>

definition parse_gate_route :: "bytes \<Rightarrow> (bytes \<times> bytes option) option" where
  "parse_gate_route route =
     (if \<not> has_prefix route unsupported_schema_route_prefix then None
      else (case cut_at gate_job_param (drop (length unsupported_schema_route_prefix) route) of
              (raw_version, raw_job) \<Rightarrow> Some (unescape_or raw_version, map_option unescape_or raw_job)))"

subsection \<open>Messages\<close>

definition pulsar_contract :: "bytes list" where
  "pulsar_contract =
     [''bq-job'', ''bq-trace-id'', ''bq-message-id'', ''bq-schema-version'', ''bq-source-lang'', ''bq-attempts'', ''bq-delay'']"

definition put_text :: "bytes \<Rightarrow> bytes \<Rightarrow> bytes smap \<Rightarrow> bytes smap" where
  "put_text k v m = (if v \<noteq> [] then smap_put k v m else m)"

definition pulsar_properties :: "envelope \<Rightarrow> bytes smap" where
  "pulsar_properties env =
     smap_put ''bq-attempts'' (int_text (env_attempts env))
     (put_text ''bq-source-lang'' (meta_lang (env_meta env))
     (put_text ''bq-schema-version''
        (if meta_schema_version (env_meta env) \<noteq> 0 then int_text (meta_schema_version (env_meta env)) else [])
     (put_text ''bq-message-id'' (meta_id (env_meta env))
     (put_text ''bq-trace-id'' (env_trace_id env)
     (put_text ''bq-job'' (env_job env) [])))))"

definition pulsar_out :: "(bytes \<Rightarrow> bytes) \<Rightarrow> bytes \<Rightarrow> bytes \<Rightarrow> pulsar_producer_message" where
  "pulsar_out stx body route_urn =
     (let gated = parse_gate_route route_urn;
          base = (case decode stx body of (env, None) \<Rightarrow> pulsar_properties env | (env, Some e) \<Rightarrow> [])
      in if snd (decode stx body) \<noteq> None \<and> gated = None then \<lparr>pp_payload = body, pp_properties = []\<rparr>
         else (case gated of
                 Some (version, job) \<Rightarrow>
                   let p = smap_put ''bq-schema-version'' version base
                   in \<lparr>pp_payload = body, pp_properties = (case job of None \<Rightarrow> p | Some j \<Rightarrow> smap_put ''bq-job'' j p)\<rparr>
               | None \<Rightarrow>
                   \<lparr>pp_payload = body, pp_properties = put_text ''bq-job'' route_urn base\<rparr>))"

definition pulsar_merge :: "bytes smap \<Rightarrow> bytes smap \<Rightarrow> bytes smap" where
  "pulsar_merge props extra = merge_out_of_band pulsar_contract (\<lambda>v. v) props extra"

definition pulsar_surface :: "bytes smap \<Rightarrow> bytes smap" where
  "pulsar_surface props = surface_out_of_band pulsar_contract (\<lambda>v. v) props"

definition pulsar_gate :: "bytes smap \<Rightarrow> bytes option" where
  "pulsar_gate props = (case smap_get props ''bq-schema-version'' of None \<Rightarrow> None | Some raw \<Rightarrow> gated_text raw)"

definition max_attempts :: int where "max_attempts = 2147483647"

definition parse_attempts :: "bytes \<Rightarrow> int option" where
  "parse_attempts raw =
     (if raw = [] \<or> \<not> list_all is_digit raw then None
      else if max_attempts < dec_val raw then None else Some (dec_val raw))"

definition prop_of :: "bytes smap \<Rightarrow> bytes \<Rightarrow> bytes" where
  "prop_of props k = (case smap_get props k of None \<Rightarrow> [] | Some v \<Rightarrow> v)"

text \<open>The body, the routing URN, and what the mismatch hook is told.\<close>

definition reconcile ::
  "(bytes \<Rightarrow> bytes) \<Rightarrow> bytes \<Rightarrow> bytes smap \<Rightarrow> int \<Rightarrow> (bytes \<times> bytes) \<times> (bytes \<times> envelope) option" where
  "reconcile stx body props redelivery =
     (case decode stx body of
        (env, Some e) \<Rightarrow> ((body, []), None)
      | (env, None) \<Rightarrow>
          let routed = trim_space (prop_of props ''bq-job'');
              route = (if routed \<noteq> [] \<and> env_job env \<noteq> [] then routed else []);
              a0 = (case parse_attempts (prop_of props ''bq-attempts'') of Some n \<Rightarrow> n | None \<Rightarrow> env_attempts env);
              attempts = (if a0 < redelivery then redelivery else a0);
              env' = (if attempts \<noteq> env_attempts env then env\<lparr>env_attempts := attempts\<rparr> else env);
              out = (if attempts \<noteq> env_attempts env
                     then (case encode stx env' of Inl e \<Rightarrow> body | Inr b \<Rightarrow> b) else body)
          in ((out, route),
              if route \<noteq> [] \<and> route \<noteq> env_job env' \<and> accepts env' then Some (route, env') else None))"

definition delivery_floor :: "pulsar_message \<Rightarrow> int" where
  "delivery_floor m =
     (case parse_attempts (prop_of (pm_properties m) ''bq-attempts'') of
        Some n \<Rightarrow> if int (pm_redelivery m) < n then n else int (pm_redelivery m)
      | None \<Rightarrow> int (pm_redelivery m))"

definition pulsar_received :: "(bytes \<Rightarrow> bytes) \<Rightarrow> bytes \<Rightarrow> pulsar_message \<Rightarrow> received_message" where
  "pulsar_received stx queue m =
     (case pulsar_gate (pm_properties m) of
        Some v \<Rightarrow>
          \<lparr>msg_body = pm_payload m, msg_queue = queue, msg_handle = ClientMessage (pm_id m),
           msg_headers = pulsar_surface (pm_properties m), msg_delivery_count = 0,
           msg_route_urn = gate_route v (pm_properties m), msg_poison = False\<rparr>
      | None \<Rightarrow>
          (case reconcile stx (pm_payload m) (pm_properties m) (int (pm_redelivery m)) of
             ((body, route), _) \<Rightarrow>
               \<lparr>msg_body = body, msg_queue = queue, msg_handle = ClientMessage (pm_id m),
                msg_headers = pulsar_surface (pm_properties m), msg_delivery_count = delivery_floor m + 1,
                msg_route_urn = route, msg_poison = False\<rparr>))"

definition notify_mismatch :: "'w mismatch_hook \<Rightarrow> (bytes \<times> envelope) option \<Rightarrow> 'w \<Rightarrow> 'w" where
  "notify_mismatch hook x w =
     (case (hook, x) of (Some f, Some (route, env)) \<Rightarrow> f route (env_job env) env w | _ \<Rightarrow> w)"

definition pulsar_hooks :: "(bytes \<Rightarrow> bytes) \<Rightarrow> 'w pulsar_config \<Rightarrow> bytes \<Rightarrow> pulsar_message \<Rightarrow> 'w \<Rightarrow> 'w" where
  "pulsar_hooks stx c queue m w =
     (case pulsar_gate (pm_properties m) of
        Some v \<Rightarrow> notify_rejected (pl_on_rejected c) v queue w
      | None \<Rightarrow>
          notify_mismatch (pl_on_mismatch c)
            (snd (reconcile stx (pm_payload m) (pm_properties m) (int (pm_redelivery m)))) w)"

subsection \<open>Operations\<close>

definition pulsar_send :: "'w pulsar_client \<Rightarrow> bytes \<Rightarrow> pulsar_producer_message \<Rightarrow> 'w pulsar_state effect" where
  "pulsar_send k queue m s =
     (case pulsar_producer k queue s of
        (Inl e, s1) \<Rightarrow> (Some e, s1)
      | (Inr p, s1) \<Rightarrow> pulsar_on_client (pc_send k p m) s1)"

definition pulsar_publish_routed :: "'w pulsar_client \<Rightarrow> bytes \<Rightarrow> bytes \<Rightarrow> bytes \<Rightarrow> 'w pulsar_state effect" where
  "pulsar_publish_routed k queue body route_urn s = pulsar_send k queue (pulsar_out (pc_syntax k) body route_urn) s"

definition pulsar_publish :: "'w pulsar_client \<Rightarrow> bytes \<Rightarrow> bytes \<Rightarrow> 'w pulsar_state effect" where
  "pulsar_publish k queue body s = pulsar_publish_routed k queue body [] s"

definition pulsar_publish_with_headers :: "'w pulsar_client \<Rightarrow> bytes \<Rightarrow> bytes \<Rightarrow> bytes smap \<Rightarrow> 'w pulsar_state effect" where
  "pulsar_publish_with_headers k queue body headers s =
     (let m = pulsar_out (pc_syntax k) body []
      in pulsar_send k queue (m\<lparr>pp_properties := pulsar_merge (pp_properties m) headers\<rparr>) s)"

definition pulsar_publish_from_with_headers ::
  "'w pulsar_client \<Rightarrow> bytes \<Rightarrow> bytes \<Rightarrow> received_message \<Rightarrow> bytes smap \<Rightarrow> 'w pulsar_state effect" where
  "pulsar_publish_from_with_headers k queue body from' headers s =
     (let m = pulsar_out (pc_syntax k) body (msg_route_urn from')
      in pulsar_send k queue (m\<lparr>pp_properties := pulsar_merge (pp_properties m) headers\<rparr>) s)"

definition pulsar_pop ::
  "'w pulsar_client \<Rightarrow> 'w pulsar_config \<Rightarrow> bytes \<Rightarrow> int \<Rightarrow> 'w pulsar_state
   \<Rightarrow> (go_error + received_message option) \<times> 'w pulsar_state" where
  "pulsar_pop k c queue timeout s =
     (case pulsar_consumer k queue s of
        (Inl e, s1) \<Rightarrow> (Inl e, s1)
      | (Inr r, s1) \<Rightarrow>
          (case pulsar_on_client (pc_receive k r (pop_wait (pl_max_wait c) timeout)) s1 of
             (Inl e, s2) \<Rightarrow>
               if errors_is e DeadlineExceeded \<or> errors_is e Canceled then (Inr None, s2) else (Inl e, s2)
           | (Inr m, s2) \<Rightarrow>
               (Inr (Some (pulsar_received (pc_syntax k) queue m)),
                s2\<lparr>ps_world := pulsar_hooks (pc_syntax k) c queue m (ps_world s2)\<rparr>)))"

definition pulsar_rewind :: "'w pulsar_client \<Rightarrow> received_message \<Rightarrow> 'w pulsar_state effect" where
  "pulsar_rewind k msg s =
     (case msg_handle msg of
        ClientMessage m \<Rightarrow>
          (case pulsar_consumer k (msg_queue msg) s of
             (Inl e, s1) \<Rightarrow> (Some e, s1)
           | (Inr c, s1) \<Rightarrow> (None, s1\<lparr>ps_world := pc_nack k c m (ps_world s1)\<rparr>))
      | _ \<Rightarrow> (None, s))"

definition pulsar_ack :: "'w pulsar_client \<Rightarrow> received_message \<Rightarrow> 'w pulsar_state effect" where
  "pulsar_ack k msg s =
     (case msg_handle msg of
        ClientMessage m \<Rightarrow>
          (case pulsar_consumer k (msg_queue msg) s of
             (Inl e, s1) \<Rightarrow> (Some e, s1)
           | (Inr c, s1) \<Rightarrow> pulsar_on_client (pc_ack k c m) s1)
      | _ \<Rightarrow> (None, s))"

definition pulsar_transport :: "'w pulsar_client \<Rightarrow> 'w pulsar_config \<Rightarrow> 'w pulsar_state transport" where
  "pulsar_transport k c =
     \<lparr>tr_publish = pulsar_publish k, tr_pop = pulsar_pop k c, tr_ack = pulsar_ack k,
      tr_publish_with_headers = Some (pulsar_publish_with_headers k),
      tr_publish_routed = Some (pulsar_publish_routed k), tr_publish_from = None,
      tr_publish_from_with_headers = Some (pulsar_publish_from_with_headers k), tr_release = None,
      tr_dead_letter = None, tr_rewind = Some (pulsar_rewind k), tr_settle_native = None,
      tr_settle_native_dead_letter = None, tr_dead_letter_queue_name = None\<rparr>"

end
