(* ===== verification/PulsarLaws.thy ===== *)
theory PulsarLaws
  imports Pulsar BindingLaws
begin

section \<open>Laws of the Pulsar transport\<close>

text \<open>
  What the properties of a message carry across the broker: the out-of-band headers
  (\<open>pulsar_headers\<close> interprets \<open>header_carrier\<close>), the verdict of the version gate and the route the runtime
  dispatches on, also when the runtime writes the body of a delivery back.
\<close>

subsection \<open>Gate routes\<close>

lemma cut_at_none: "CHR ''?'' \<notin> set a \<Longrightarrow> cut_at gate_job_param a = (a, None)"
  by (induction a) (auto simp: has_prefix_def gate_job_param_def)

lemma cut_at_found: "CHR ''?'' \<notin> set a \<Longrightarrow> cut_at gate_job_param (a @ gate_job_param @ b) = (a, Some b)"
proof (induction a)
  case Nil
  show ?case by (simp add: has_prefix_def gate_job_param_def)
next
  case (Cons c a)
  then show ?case by (auto simp: has_prefix_def gate_job_param_def)
qed

lemma unescape_or_escape [simp]: "unescape_or (query_escape s) = s"
  by (simp add: unescape_or_def query_unescape_escape)

lemma has_prefix_append [simp]: "has_prefix (p @ s) p"
  by (simp add: has_prefix_def)

lemma parse_gate_route: "parse_gate_route (gate_route v props) = Some (v, smap_get props ''bq-job'')"
  by (cases "smap_get props ''bq-job''")
     (simp_all add: parse_gate_route_def gate_route_def has_prefix_def cut_at_none cut_at_found query_escape_no_mark)

lemma parse_gate_route_none: "\<not> has_prefix r unsupported_schema_route_prefix \<Longrightarrow> parse_gate_route r = None"
  by (simp add: parse_gate_route_def)

subsection \<open>Headers\<close>

lemma put_text_ok [simp]: "smap_ok m \<Longrightarrow> smap_ok (put_text k v m)"
  by (simp add: put_text_def)

lemma put_text_keys: "fst ` set (put_text k v m) = (if v = [] then fst ` set m else insert k (fst ` set m))"
  by (simp add: put_text_def set_smap_keys_put)

lemma put_text_get: "smap_get (put_text k v m) j = (if v \<noteq> [] \<and> j = k then Some v else smap_get m j)"
  by (simp add: put_text_def smap_get_put)

lemma pulsar_properties_ok [simp]: "smap_ok (pulsar_properties env)"
  by (simp add: pulsar_properties_def)

lemma pulsar_properties_keys: "fst ` set (pulsar_properties env) \<subseteq> set pulsar_contract"
  by (simp add: pulsar_properties_def put_text_keys set_smap_keys_put pulsar_contract_def)

text \<open>The properties of an outgoing message: the projection of the body, and what the route overrides.\<close>

definition pulsar_base :: "(bytes \<Rightarrow> bytes) \<Rightarrow> bytes \<Rightarrow> bytes smap" where
  "pulsar_base stx body = (case decode stx body of (env, None) \<Rightarrow> pulsar_properties env | (env, Some e) \<Rightarrow> [])"

lemma pulsar_base_ok [simp]: "smap_ok (pulsar_base stx body)"
  by (simp add: pulsar_base_def split: prod.split option.split)

lemma pulsar_base_keys: "fst ` set (pulsar_base stx body) \<subseteq> set pulsar_contract"
  using pulsar_properties_keys by (auto simp: pulsar_base_def split: prod.split option.split)

lemma pulsar_out_gated:
  "parse_gate_route r = Some (v, job) \<Longrightarrow>
   pp_properties (pulsar_out stx body r) =
     (let p = smap_put ''bq-schema-version'' v (pulsar_base stx body)
      in case job of None \<Rightarrow> p | Some j \<Rightarrow> smap_put ''bq-job'' j p)"
  by (simp add: pulsar_out_def pulsar_base_def Let_def split: option.split)

lemma pulsar_out_plain:
  "parse_gate_route r = None \<Longrightarrow>
   pp_properties (pulsar_out stx body r) =
     (if snd (decode stx body) = None then put_text ''bq-job'' r (pulsar_base stx body) else [])"
  by (simp add: pulsar_out_def pulsar_base_def Let_def)

lemma pulsar_out_payload [simp]: "pp_payload (pulsar_out stx body r) = body"
  by (simp add: pulsar_out_def Let_def split: option.split)

lemma pulsar_out_ok [simp]: "smap_ok (pp_properties (pulsar_out stx body r))"
  by (cases "parse_gate_route r")
     (auto simp: pulsar_out_gated pulsar_out_plain Let_def smap_ok_put split: option.split)

lemma pulsar_out_keys: "fst ` set (pp_properties (pulsar_out stx body r)) \<subseteq> set pulsar_contract"
proof -
  have "''bq-job'' \<in> set pulsar_contract" "''bq-schema-version'' \<in> set pulsar_contract" by (simp_all add: pulsar_contract_def)
  note keys = this pulsar_base_keys [of stx body]
  show ?thesis
  proof (cases "parse_gate_route r")
    case None
    then show ?thesis using keys by (cases "snd (decode stx body)") (simp_all add: pulsar_out_plain put_text_keys)
  next
    case (Some vj)
    obtain v job where "vj = (v, job)" by (cases vj)
    then show ?thesis using keys Some by (cases job) (simp_all add: pulsar_out_gated Let_def set_smap_keys_put)
  qed
qed

definition pulsar_carry :: "(bytes \<Rightarrow> bytes) \<Rightarrow> bytes \<Rightarrow> bytes \<Rightarrow> bytes smap \<Rightarrow> bytes smap" where
  "pulsar_carry stx r body h = pulsar_merge (pp_properties (pulsar_out stx body r)) h"

interpretation pulsar_headers: header_carrier "pulsar_carry stx r" pulsar_surface pulsar_contract
proof
  show "smap_ok h \<Longrightarrow> pulsar_surface (pulsar_carry stx r body h) = out_of_band pulsar_contract h" for h body
    unfolding pulsar_surface_def pulsar_carry_def pulsar_merge_def
    by (rule surface_merge) (simp_all add: pulsar_out_keys)
  show "header_replay_bypass \<notin> set pulsar_contract"
    by (simp add: header_replay_bypass_def pulsar_contract_def)
qed

subsection \<open>Trimming\<close>

lemma space_len_append: "space_len t \<noteq> 0 \<Longrightarrow> space_len (t @ x) \<noteq> 0"
proof -
  assume t: "space_len t \<noteq> 0"
  consider "t = []" | a where "t = [a]" | a b where "t = [a, b]" | a b c r where "t = a # b # c # r"
    by (metis list.exhaust)
  then show ?thesis
  proof cases
    case 1
    then show ?thesis using t by (simp add: space_len_def)
  next
    case (2 a)
    then have "a \<in> set ascii_whitespace" using t by (simp add: space_len_def split: if_split_asm)
    then show ?thesis using 2 by (simp add: space_len_def)
  next
    case (3 a b)
    then have "a \<in> set ascii_whitespace \<or> byte a = 0xC2 \<and> byte b \<in> {0x85, 0xA0}"
      using t by (simp add: space_len_def split: if_split_asm)
    then show ?thesis using 3 by (auto simp: space_len_def)
  next
    case (4 a b c r)
    have "space_len (a # b # c # r) = space_len (a # b # c # r @ x)" by (simp add: space_len_def)
    then show ?thesis using t 4 by simp
  qed
qed

lemma space_len_prefix: "space_len (take n u) \<noteq> 0 \<Longrightarrow> space_len u \<noteq> 0"
  using space_len_append [of "take n u" "drop n u"] by simp

lemma space_len_trimmed [simp]: "space_len (trim_space_left s) = 0"
  by (induction s rule: trim_space_left.induct) (subst trim_space_left.simps, simp)

lemma trailing_trimmed [simp]: "trailing_space (trim_space_right s) = 0"
  by (induction s rule: trim_space_right.induct) (subst trim_space_right.simps, simp)

lemma trim_right_take: "\<exists>n. trim_space_right s = take n s"
proof (induction s rule: trim_space_right.induct)
  case (1 s)
  show ?case
  proof (cases "trailing_space s = 0")
    case True
    then show ?thesis by (intro exI [of _ "length s"]) (subst trim_space_right.simps, simp)
  next
    case False
    obtain n where "trim_space_right (take (length s - trailing_space s) s) = take n (take (length s - trailing_space s) s)"
      using 1 [OF False] by blast
    then have "trim_space_right s = take (min n (length s - trailing_space s)) s"
      using False by (subst trim_space_right.simps) simp
    then show ?thesis by blast
  qed
qed

lemma trim_space_idem [simp]: "trim_space (trim_space s) = trim_space s"
proof -
  obtain n where n: "trim_space s = take n (trim_space_left s)" using trim_right_take by (metis trim_space_def)
  have "space_len (trim_space s) = 0" unfolding n using space_len_prefix space_len_trimmed by blast
  then have "trim_space_left (trim_space s) = trim_space s" by (subst trim_space_left.simps) simp
  moreover have "trim_space_right (trim_space s) = trim_space s"
    unfolding trim_space_def by (subst trim_space_right.simps) simp
  ultimately show ?thesis by (simp add: trim_space_def [of "trim_space s"])
qed

lemma trim_space_Nil [simp]: "trim_space [] = []"
  by (simp add: trim_space_def trim_space_left.simps [of "[]"] trim_space_right.simps [of "[]"] space_len_def trailing_space_def)

lemma reconcile_route: "trim_space (snd (fst (reconcile stx body props n))) = snd (fst (reconcile stx body props n))"
  by (simp add: reconcile_def Let_def split: prod.split option.split)

subsection \<open>Writing a delivery back\<close>

lemma carry_get:
  assumes "smap_ok h"
  shows "smap_get (pulsar_carry stx r body h) k =
    (case smap_get (pp_properties (pulsar_out stx body r)) k of Some v \<Rightarrow> Some v
     | None \<Rightarrow> smap_get (out_of_band pulsar_contract h) k)"
  by (simp add: pulsar_carry_def pulsar_merge_def smap_get_merge [OF assms] option.map_ident split: option.split)

lemma carry_contract:
  assumes "smap_ok h" and "k \<in> set pulsar_contract"
  shows "smap_get (pulsar_carry stx r body h) k = smap_get (pp_properties (pulsar_out stx body r)) k"
  using assms by (simp add: carry_get smap_get_out_of_band split: option.split)

lemma publish_from_carries:
  "pulsar_publish_from_with_headers k queue body d h s =
     pulsar_send k queue \<lparr>pp_payload = body, pp_properties = pulsar_carry (pc_syntax k) (msg_route_urn d) body h\<rparr> s"
proof -
  let ?m = "pulsar_out (pc_syntax k) body (msg_route_urn d)"
  have "?m\<lparr>pp_properties := pulsar_merge (pp_properties ?m) h\<rparr> =
      \<lparr>pp_payload = body, pp_properties = pulsar_carry (pc_syntax k) (msg_route_urn d) body h\<rparr>"
    unfolding pulsar_carry_def by (rule pulsar_producer_message.equality) simp_all
  then show ?thesis by (simp add: pulsar_publish_from_with_headers_def Let_def)
qed

text \<open>C29. A delivery the version gate rejected stays rejected when the runtime or a redrive writes it back, to any
  queue, with any body and whatever headers: the message sent carries the rejected version and the original
  \<open>bq-job\<close>, so whoever receives it gets the body untouched, on a reserved route of the same version, and never a
  handler's route.\<close>

theorem gated_stays_gated:
  assumes "pulsar_gate (pm_properties m) = Some v" and "smap_ok h" and "msg = pulsar_received stx q m"
  shows "\<exists>out. pulsar_publish_from_with_headers k q' body msg h s = pulsar_send k q' out s
    \<and> smap_get (pp_properties out) ''bq-schema-version'' = Some v
    \<and> (smap_get (pm_properties m) ''bq-job'' \<noteq> None \<longrightarrow>
         smap_get (pp_properties out) ''bq-job'' = smap_get (pm_properties m) ''bq-job'')
    \<and> (\<forall>m'. pm_payload m' = pp_payload out \<and> pm_properties m' = pp_properties out \<longrightarrow>
         msg_body (pulsar_received stx q' m') = body
         \<and> parse_gate_route (msg_route_urn (pulsar_received stx q' m')) = Some (v, smap_get (pp_properties out) ''bq-job''))"
proof -
  have r: "msg_route_urn msg = gate_route v (pm_properties m)"
    using assms(1,3) by (simp add: pulsar_received_def)
  let ?p = "pulsar_carry (pc_syntax k) (gate_route v (pm_properties m)) body h"
  let ?out = "\<lparr>pp_payload = body, pp_properties = ?p\<rparr>"
  have g: "smap_get ?p ''bq-schema-version'' = Some v"
    using carry_contract [OF assms(2)]
    by (simp add: pulsar_contract_def pulsar_out_gated [OF parse_gate_route] Let_def smap_get_put split: option.split)
  have j: "smap_get ?p ''bq-job'' = smap_get (pm_properties m) ''bq-job''" if "smap_get (pm_properties m) ''bq-job'' \<noteq> None"
    using that carry_contract [OF assms(2)]
    by (auto simp: pulsar_contract_def pulsar_out_gated [OF parse_gate_route] Let_def smap_get_put)
  have "gated_text v = Some v"
    using assms(1) gated_text_same by (fastforce simp: pulsar_gate_def split: option.splits)
  then have "pulsar_gate ?p = Some v" using g by (simp add: pulsar_gate_def)
  then have "msg_body (pulsar_received stx q' m') = body \<and>
      parse_gate_route (msg_route_urn (pulsar_received stx q' m')) = Some (v, smap_get ?p ''bq-job'')"
    if "pm_payload m' = body" "pm_properties m' = ?p" for m'
    using that by (simp add: pulsar_received_def parse_gate_route)
  then show ?thesis using g j by (intro exI [of _ ?out]) (simp add: publish_from_carries r)
qed

definition sample_pulsar :: "pulsar_producer_message list pulsar_client" where
  "sample_pulsar =
     \<lparr>pc_create_producer = (\<lambda>q w. (Inr 0, w)), pc_subscribe = (\<lambda>q w. (Inr 0, w)), pc_send = (\<lambda>p m w. (None, w @ [m])),
      pc_receive = (\<lambda>c d w. (Inl (plain_error DeadlineExceeded), w)), pc_ack = (\<lambda>c m w. (None, w)), pc_nack = (\<lambda>c m w. w),
      pc_syntax = (\<lambda>_. [])\<rparr>"

definition sample_pulsar_state :: "pulsar_producer_message list pulsar_state" where
  "sample_pulsar_state = \<lparr>ps_producers = [], ps_consumers = [], ps_world = []\<rparr>"

definition gated_message :: pulsar_message where
  "gated_message = \<lparr>pm_id = 1, pm_payload = ''x'', pm_properties = [(''bq-job'', ''u:x''), (''bq-schema-version'', ''2'')],
     pm_redelivery = 0\<rparr>"

lemma gated_message_gate: "pulsar_gate (pm_properties gated_message) = Some ''2''"
  by code_simp

theorem gated_stays_gated_witness:
  "\<exists>out. pulsar_publish_from_with_headers sample_pulsar ''q-dlq'' ''y'' (pulsar_received (\<lambda>_. []) ''q'' gated_message)
        [(header_replay_bypass, ''1'')] sample_pulsar_state = pulsar_send sample_pulsar ''q-dlq'' out sample_pulsar_state
    \<and> smap_get (pp_properties out) ''bq-schema-version'' = Some ''2''
    \<and> smap_get (pp_properties out) ''bq-job'' = Some ''u:x''"
proof -
  have "smap_ok [(header_replay_bypass, ''1'')]" by simp
  from gated_stays_gated [where stx = "\<lambda>_. []" and q = "''q''" and k = sample_pulsar and s = sample_pulsar_state and q' = "''q-dlq''" and body = "''y''",
      OF gated_message_gate this refl]
  show ?thesis by (auto simp: gated_message_def)
qed

text \<open>The route of a delivery survives a retry. When the runtime publishes the body of the next attempt with
  the route of the delivery, the message received has that body, the attempt count included, and the same
  route; a delivery without a route comes back under the job of its body. No header of the producer can change it.\<close>

theorem route_survives_retry:
  assumes "pulsar_gate (pm_properties m) = None" and "msg = pulsar_received stx q m"
    and "decode (pc_syntax k) body = (env, None)" and "0 \<le> env_attempts env"
    and "meta_schema_version (env_meta env) \<in> {0, schema_version}"
    and "\<not> has_prefix (msg_route_urn msg) unsupported_schema_route_prefix" and "smap_ok h"
  shows "\<exists>out. pulsar_publish_from_with_headers k q' body msg h s = pulsar_send k q' out s
    \<and> (\<forall>m'. pm_payload m' = pp_payload out \<and> pm_properties m' = pp_properties out \<and> pm_redelivery m' = 0 \<longrightarrow>
         msg_body (pulsar_received (pc_syntax k) q' m') = body
         \<and> msg_route_urn (pulsar_received (pc_syntax k) q' m') =
             (if msg_route_urn msg = [] then trim_space (env_job env) else msg_route_urn msg)
         \<and> msg_headers (pulsar_received (pc_syntax k) q' m') = out_of_band pulsar_contract h)"
proof -
  let ?r = "msg_route_urn msg"
  let ?p = "pulsar_carry (pc_syntax k) ?r body h"
  have job: "env_job env \<noteq> []" using decoded_ok [OF assms(3)] by auto
  have out: "pp_properties (pulsar_out (pc_syntax k) body ?r) = put_text ''bq-job'' ?r (pulsar_properties env)"
    using pulsar_out_plain [OF parse_gate_route_none [OF assms(6)], of "pc_syntax k" body] assms(3) by (simp add: pulsar_base_def)
  have c: "smap_get ?p n = smap_get (put_text ''bq-job'' ?r (pulsar_properties env)) n" if "n \<in> set pulsar_contract" for n
    using carry_contract [OF assms(7) that] out by simp
  have "smap_get ?p ''bq-job'' = Some (if ?r = [] then env_job env else ?r)"
    using job by (subst c) (simp_all add: pulsar_contract_def put_text_get pulsar_properties_def smap_get_put)
  moreover have "trim_space ?r = ?r"
    using assms(1) reconcile_route [of stx "pm_payload m" "pm_properties m" "int (pm_redelivery m)"]
    unfolding assms(2) by (auto simp: pulsar_received_def split: prod.split)
  ultimately have j: "trim_space (prop_of ?p ''bq-job'') = (if ?r = [] then trim_space (env_job env) else ?r)"
    by (simp add: prop_of_def)
  have a: "prop_of ?p ''bq-attempts'' = int_text (env_attempts env)"
    unfolding prop_of_def by (subst c) (simp_all add: pulsar_contract_def put_text_get pulsar_properties_def smap_get_put)
  have sv: "smap_get ?p ''bq-schema-version'' =
      (if meta_schema_version (env_meta env) = 0 then None else Some (int_text (meta_schema_version (env_meta env))))"
    by (subst c) (simp_all add: pulsar_contract_def put_text_get pulsar_properties_def smap_get_put)
  have "meta_schema_version (env_meta env) = 0 \<or> meta_schema_version (env_meta env) = schema_version"
    using assms(5) by blast
  then have "pulsar_gate ?p = None" unfolding pulsar_gate_def sv by (elim disjE) (simp_all add: gated_text_None)
  moreover have "parse_attempts (int_text (env_attempts env)) \<in> {None, Some (env_attempts env)}"
    using assms(4) by (simp add: parse_attempts_def int_text_def dec_val_dec)
  ultimately have "pulsar_received (pc_syntax k) q' m' =
      \<lparr>msg_body = body, msg_queue = q', msg_handle = ClientMessage (pm_id m'), msg_headers = pulsar_surface ?p,
       msg_delivery_count = delivery_floor m' + 1, msg_route_urn = (if ?r = [] then trim_space (env_job env) else ?r),
       msg_poison = False\<rparr>"
    if "pm_payload m' = body" "pm_properties m' = ?p" "pm_redelivery m' = 0" for m'
    using that assms(3,4) j a job by (auto simp: pulsar_received_def reconcile_def Let_def)
  then show ?thesis
    using pulsar_headers.surface_carry [OF assms(7)]
    by (intro exI [of _ "\<lparr>pp_payload = body, pp_properties = ?p\<rparr>"]) (simp add: publish_from_carries)
qed

definition routed_message :: pulsar_message where
  "routed_message = \<lparr>pm_id = 2, pm_payload = work_body, pm_properties = [(''bq-job'', ''u:y'')], pm_redelivery = 0\<rparr>"

lemma routed_message_received:
  "pulsar_gate (pm_properties routed_message) = None" "msg_route_urn (pulsar_received stx q routed_message) = ''u:y''"
proof -
  have "trim_space ''u:y'' = ''u:y''" by code_simp
  moreover have "env_job work_envelope \<noteq> []" by (simp add: work_envelope_def)
  ultimately show "pulsar_gate (pm_properties routed_message) = None"
      "msg_route_urn (pulsar_received stx q routed_message) = ''u:y''"
    by (auto simp: routed_message_def pulsar_gate_def pulsar_received_def reconcile_def Let_def work_body_decoded prop_of_def)
qed

theorem route_survives_retry_witness:
  "\<exists>out. pulsar_publish_from_with_headers sample_pulsar ''q'' work_body (pulsar_received (\<lambda>_. []) ''q'' routed_message) []
        sample_pulsar_state = pulsar_send sample_pulsar ''q'' out sample_pulsar_state
    \<and> (\<exists>m'. pm_properties m' = pp_properties out \<and> msg_route_urn (pulsar_received (\<lambda>_. []) ''q'' m') = ''u:y'')"
proof -
  have d: "decode (pc_syntax sample_pulsar) work_body = (work_envelope, None)" by (rule work_body_decoded)
  have a: "0 \<le> env_attempts work_envelope" "meta_schema_version (env_meta work_envelope) \<in> {0, schema_version}"
    by (simp_all add: work_envelope_def schema_version_def)
  have p: "\<not> has_prefix (msg_route_urn (pulsar_received (\<lambda>_. []) ''q'' routed_message)) unsupported_schema_route_prefix"
    by (simp add: routed_message_received has_prefix_def unsupported_schema_route_prefix_def)
  have h: "smap_ok []" by simp
  obtain out where out: "pulsar_publish_from_with_headers sample_pulsar ''q'' work_body
        (pulsar_received (\<lambda>_. []) ''q'' routed_message) [] sample_pulsar_state = pulsar_send sample_pulsar ''q'' out sample_pulsar_state"
      "pm_payload m' = pp_payload out \<and> pm_properties m' = pp_properties out \<and> pm_redelivery m' = 0 \<Longrightarrow>
       msg_route_urn (pulsar_received (\<lambda>_. []) ''q'' m') = ''u:y''" for m'
    using route_survives_retry [where q' = "''q''" and s = sample_pulsar_state, OF routed_message_received(1) refl d a p h]
    by (auto simp: routed_message_received sample_pulsar_def)
  show ?thesis
    using out(1) out(2) [of "\<lparr>pm_id = 3, pm_payload = pp_payload out, pm_properties = pp_properties out, pm_redelivery = 0\<rparr>"]
    by (intro exI [of _ out] conjI exI [of _ "\<lparr>pm_id = 3, pm_payload = pp_payload out, pm_properties = pp_properties out, pm_redelivery = 0\<rparr>"])
       simp_all
qed

end
