(* ===== verification/Sqs.thy ===== *)
theory Sqs
  imports Binding
begin

section \<open>The Amazon SQS transport\<close>

text \<open>
  \<open>sqs/sqs.go\<close>. The AWS client is a parameter: its four calls over the world \<open>'w\<close>, and the optional
  \<open>ChangeMessageVisibility\<close>. The cache of queue URLs is part of the state the operations thread; two
  calls that resolve a name at the same time may both ask the service, which the state does not show. A
  Go \<open>int32\<close> made from a duration wraps (\<open>wrap32\<close>).
\<close>

definition wrap32 :: "int \<Rightarrow> int" where
  "wrap32 x = (x + 2147483648) mod 4294967296 - 2147483648"

text \<open>Go's integer division, which truncates towards zero.\<close>

definition quot_seconds :: "int \<Rightarrow> int" where
  "quot_seconds d = (if d < 0 then - ((- d) div seconds 1) else d div seconds 1)"

record sqs_attribute =
  sa_type :: bytes
  sa_value :: "bytes option"

record sqs_send_input =
  si_url :: bytes
  si_body :: bytes
  si_attributes :: "sqs_attribute smap"
  si_delay :: int
  si_group :: "bytes option"
  si_dedup :: "bytes option"

record sqs_message =
  sm_body :: "bytes option"
  sm_receipt :: "bytes option"
  sm_attributes :: "sqs_attribute smap"
  sm_receive_count :: "bytes option"

record 'w sqs_client =
  sc_send :: "sqs_send_input \<Rightarrow> 'w effect"
  sc_receive :: "bytes \<Rightarrow> int \<Rightarrow> int \<Rightarrow> 'w \<Rightarrow> (go_error + sqs_message list) \<times> 'w"
  sc_delete :: "bytes \<Rightarrow> bytes \<Rightarrow> 'w effect"
  sc_get_url :: "bytes \<Rightarrow> 'w \<Rightarrow> (go_error + bytes) \<times> 'w"
  sc_change_visibility :: "(bytes \<Rightarrow> bytes \<Rightarrow> int \<Rightarrow> 'w effect) option"
  sc_syntax :: "bytes \<Rightarrow> bytes"
  sc_duration :: "int \<Rightarrow> bytes"

record 'w sqs_config =
  sq_url_prefix :: bytes
  sq_wait_time :: int
  sq_visibility :: int
  sq_fifo :: bool
  sq_group_id :: bytes
  sq_content_dedup :: bool
  sq_on_rejected :: "'w rejected_hook"

record 'w sqs_state =
  ss_urls :: "bytes smap"
  ss_world :: 'w

definition sqs_new :: "('w sqs_config \<Rightarrow> 'w sqs_config) list \<Rightarrow> 'w sqs_config" where
  "sqs_new opts = fold (\<lambda>o' c. o' c) opts
     \<lparr>sq_url_prefix = [], sq_wait_time = 0, sq_visibility = 0, sq_fifo = False, sq_group_id = [],
      sq_content_dedup = False, sq_on_rejected = None\<rparr>"

definition sqs_with_queue_url_prefix :: "bytes \<Rightarrow> 'w sqs_config \<Rightarrow> 'w sqs_config" where
  "sqs_with_queue_url_prefix p c = c\<lparr>sq_url_prefix := p\<rparr>"
definition sqs_with_wait_time_seconds :: "int \<Rightarrow> 'w sqs_config \<Rightarrow> 'w sqs_config" where
  "sqs_with_wait_time_seconds n c = c\<lparr>sq_wait_time := n\<rparr>"
definition sqs_with_visibility_timeout :: "int \<Rightarrow> 'w sqs_config \<Rightarrow> 'w sqs_config" where
  "sqs_with_visibility_timeout n c = c\<lparr>sq_visibility := n\<rparr>"
definition sqs_with_fifo :: "bool \<Rightarrow> 'w sqs_config \<Rightarrow> 'w sqs_config" where
  "sqs_with_fifo b c = c\<lparr>sq_fifo := b\<rparr>"
definition sqs_with_message_group_id :: "bytes \<Rightarrow> 'w sqs_config \<Rightarrow> 'w sqs_config" where
  "sqs_with_message_group_id g c = c\<lparr>sq_group_id := g\<rparr>"
definition sqs_with_content_dedup :: "bool \<Rightarrow> 'w sqs_config \<Rightarrow> 'w sqs_config" where
  "sqs_with_content_dedup b c = c\<lparr>sq_content_dedup := b\<rparr>"

definition sqs_with_on_schema_version_rejected :: "'w rejected_hook \<Rightarrow> 'w sqs_config \<Rightarrow> 'w sqs_config" where
  "sqs_with_on_schema_version_rejected f c = c\<lparr>sq_on_rejected := f\<rparr>"

definition sqs_on_client :: "('w \<Rightarrow> 'a \<times> 'w) \<Rightarrow> 'w sqs_state \<Rightarrow> 'a \<times> 'w sqs_state" where
  "sqs_on_client f s = (case f (ss_world s) of (x, w) \<Rightarrow> (x, s\<lparr>ss_world := w\<rparr>))"

subsection \<open>Queue URLs\<close>

definition resolve_url ::
  "'w sqs_client \<Rightarrow> 'w sqs_config \<Rightarrow> bytes \<Rightarrow> 'w sqs_state \<Rightarrow> (go_error + bytes) \<times> 'w sqs_state" where
  "resolve_url k c name s =
     (case smap_get (ss_urls s) name of
        Some u \<Rightarrow> (Inr u, s)
      | None \<Rightarrow>
          if sq_url_prefix c \<noteq> [] then
            let url = rev (dropWhile (\<lambda>x. x = CHR ''/'') (rev (sq_url_prefix c))) @ ''/'' @ name
            in (Inr url, s\<lparr>ss_urls := smap_put name url (ss_urls s)\<rparr>)
          else (case sqs_on_client (sc_get_url k name) s of
                  (Inl e, s1) \<Rightarrow> (Inl e, s1)
                | (Inr url, s1) \<Rightarrow> (Inr url, s1\<lparr>ss_urls := smap_put name url (ss_urls s1)\<rparr>)))"

definition dead_letter_queue_name :: "bytes \<Rightarrow> bytes \<Rightarrow> bytes" where
  "dead_letter_queue_name queue suffix =
     (let suffix = (if suffix = [] then ''-dlq'' else suffix) in
      if 5 \<le> length queue \<and> drop (length queue - 5) queue = ''.fifo''
      then take (length queue - 5) queue @ suffix @ ''.fifo'' else queue @ suffix)"

subsection \<open>Attributes\<close>

definition max_message_attributes :: nat where "max_message_attributes = 10"

definition string_attribute :: "bytes \<Rightarrow> sqs_attribute" where
  "string_attribute v = \<lparr>sa_type = ''String'', sa_value = Some v\<rparr>"

definition number_attribute :: "bytes \<Rightarrow> sqs_attribute" where
  "number_attribute v = \<lparr>sa_type = ''Number'', sa_value = Some v\<rparr>"

definition sqs_attributes :: "(bytes \<Rightarrow> bytes) \<Rightarrow> bytes \<Rightarrow> sqs_attribute smap" where
  "sqs_attributes stx body =
     (case decode stx body of
        (env, Some e) \<Rightarrow> []
      | (env, None) \<Rightarrow>
          put_if (meta_created_at (env_meta env) \<noteq> 0) ''bq-created-at'' (number_attribute (int_text (meta_created_at (env_meta env))))
          (put_if (meta_lang (env_meta env) \<noteq> []) ''bq-source-lang'' (string_attribute (meta_lang (env_meta env)))
          (put_if (meta_schema_version (env_meta env) \<noteq> 0) ''bq-schema-version''
             (number_attribute (int_text (meta_schema_version (env_meta env))))
          (put_if (meta_id (env_meta env) \<noteq> []) ''bq-message-id'' (string_attribute (meta_id (env_meta env)))
          (put_if (env_trace_id env \<noteq> []) ''bq-trace-id'' (string_attribute (env_trace_id env))
          (put_if (env_job env \<noteq> []) ''bq-job'' (string_attribute (env_job env)) []))))))"

text \<open>The headers are taken in the order of their keys until the message has ten attributes.\<close>

fun merge_attributes :: "sqs_attribute smap \<Rightarrow> bytes smap \<Rightarrow> sqs_attribute smap" where
  "merge_attributes base [] = base"
| "merge_attributes base ((k, v) # headers) =
     (if k = [] \<or> v = [] then merge_attributes base headers
      else if smap_get base k \<noteq> None then merge_attributes base headers
      else if max_message_attributes \<le> length base then base
      else merge_attributes (smap_put k (string_attribute v) base) headers)"

definition attribute_text :: "sqs_attribute \<Rightarrow> bytes" where
  "attribute_text a = (case sa_value a of None \<Rightarrow> [] | Some v \<Rightarrow> v)"

definition headers_from_attributes :: "sqs_attribute smap \<Rightarrow> bytes smap" where
  "headers_from_attributes attrs =
     filter (\<lambda>(k, v). v \<noteq> []) (map (\<lambda>(k, a). (k, attribute_text a)) attrs)"

definition sqs_gate :: "sqs_attribute smap \<Rightarrow> bytes option" where
  "sqs_gate attrs = (case smap_get attrs ''bq-schema-version'' of None \<Rightarrow> None | Some a \<Rightarrow> gated_text (attribute_text a))"

definition reconcile_receive_count :: "(bytes \<Rightarrow> bytes) \<Rightarrow> bytes \<Rightarrow> bytes \<Rightarrow> bytes" where
  "reconcile_receive_count stx body receive_count =
     (case atoi receive_count of
        None \<Rightarrow> body
      | Some rc \<Rightarrow> if rc \<le> 1 then body else raise_attempts stx body (rc - 1))"

subsection \<open>Producing\<close>

definition sqs_send ::
  "'w sqs_client \<Rightarrow> 'w sqs_config \<Rightarrow> bytes \<Rightarrow> bytes \<Rightarrow> bytes smap \<Rightarrow> int \<Rightarrow> 'w sqs_state effect" where
  "sqs_send k c queue body headers delay_seconds s =
     (case resolve_url k c queue s of
        (Inl e, s1) \<Rightarrow> (Some e, s1)
      | (Inr url, s1) \<Rightarrow>
          sqs_on_client (sc_send k
            \<lparr>si_url = url, si_body = body, si_attributes = merge_attributes (sqs_attributes (sc_syntax k) body) headers,
             si_delay = (if 0 < delay_seconds then delay_seconds else 0),
             si_group = (if sq_fifo c then Some (if sq_group_id c = [] then queue else sq_group_id c) else None),
             si_dedup = (if sq_fifo c \<and> \<not> sq_content_dedup c then
                           (case decode (sc_syntax k) body of
                              (env, None) \<Rightarrow> if meta_id (env_meta env) \<noteq> [] then Some (meta_id (env_meta env)) else None
                            | (env, Some e) \<Rightarrow> None)
                         else None)\<rparr>) s1)"

definition sqs_publish :: "'w sqs_client \<Rightarrow> 'w sqs_config \<Rightarrow> bytes \<Rightarrow> bytes \<Rightarrow> 'w sqs_state effect" where
  "sqs_publish k c queue body s = sqs_send k c queue body [] 0 s"

definition sqs_publish_with_headers ::
  "'w sqs_client \<Rightarrow> 'w sqs_config \<Rightarrow> bytes \<Rightarrow> bytes \<Rightarrow> bytes smap \<Rightarrow> 'w sqs_state effect" where
  "sqs_publish_with_headers k c queue body headers s = sqs_send k c queue body headers 0 s"

definition max_delay_seconds :: int where "max_delay_seconds = 900"

definition sqs_publish_delayed ::
  "'w sqs_client \<Rightarrow> 'w sqs_config \<Rightarrow> bytes \<Rightarrow> bytes \<Rightarrow> int \<Rightarrow> 'w sqs_state effect" where
  "sqs_publish_delayed k c queue body delay s =
     (if delay \<le> 0 then sqs_publish k c queue body s
      else if sq_fifo c then
        (Some (wrap_error [] (plain_error ErrInvalidDelay) '': FIFO queues take no per-message delay''), s)
      else if seconds max_delay_seconds < delay then
        (Some (wrap_error [] (plain_error ErrInvalidDelay)
           ('': '' @ sc_duration k delay @ '' exceeds the '' @ int_text max_delay_seconds @ '' s cap'')), s)
      else sqs_send k c queue body [] (wrap32 (quot_seconds (delay + seconds 1 - 1))) s)"

subsection \<open>Consuming\<close>

definition sqs_wait :: "'w sqs_config \<Rightarrow> int \<Rightarrow> int" where
  "sqs_wait c timeout =
     (let wait = wrap32 (quot_seconds timeout);
          wait1 = (if wait < 0 then 0 else wait);
          wait2 = (if 20 < wait1 then 20 else wait1)
      in if 0 < sq_wait_time c \<and> sq_wait_time c < wait2 then sq_wait_time c else wait2)"

definition receive_deliveries :: "bytes option \<Rightarrow> int" where
  "receive_deliveries rc =
     (case rc of None \<Rightarrow> 0 | Some t \<Rightarrow> (case atoi t of Some n \<Rightarrow> if 0 < n then n else 0 | None \<Rightarrow> 0))"

definition opt_text :: "bytes option \<Rightarrow> bytes" where
  "opt_text o' = (case o' of None \<Rightarrow> [] | Some v \<Rightarrow> v)"

definition sqs_received :: "(bytes \<Rightarrow> bytes) \<Rightarrow> bytes \<Rightarrow> sqs_message \<Rightarrow> received_message" where
  "sqs_received stx queue m =
     (case sqs_gate (sm_attributes m) of
        Some v \<Rightarrow>
          \<lparr>msg_body = opt_text (sm_body m), msg_queue = queue, msg_handle = Receipt (opt_text (sm_receipt m)),
           msg_headers = headers_from_attributes (sm_attributes m),
           msg_delivery_count = receive_deliveries (sm_receive_count m),
           msg_route_urn = gate_route_urn (truncate_declared_version v), msg_poison = False\<rparr>
      | None \<Rightarrow>
          \<lparr>msg_body = (case sm_receive_count m of
                          None \<Rightarrow> opt_text (sm_body m)
                        | Some rc \<Rightarrow> reconcile_receive_count stx (opt_text (sm_body m)) rc),
           msg_queue = queue, msg_handle = Receipt (opt_text (sm_receipt m)),
           msg_headers = headers_from_attributes (sm_attributes m),
           msg_delivery_count = receive_deliveries (sm_receive_count m), msg_route_urn = [], msg_poison = False\<rparr>)"

definition sqs_pop ::
  "'w sqs_client \<Rightarrow> 'w sqs_config \<Rightarrow> bytes \<Rightarrow> int \<Rightarrow> 'w sqs_state
   \<Rightarrow> (go_error + received_message option) \<times> 'w sqs_state" where
  "sqs_pop k c queue timeout s =
     (case resolve_url k c queue s of
        (Inl e, s1) \<Rightarrow> (Inl e, s1)
      | (Inr url, s1) \<Rightarrow>
          (case sqs_on_client (sc_receive k url (sqs_wait c timeout) (if 0 < sq_visibility c then sq_visibility c else 0)) s1 of
             (Inl e, s2) \<Rightarrow> (Inl e, s2)
           | (Inr [], s2) \<Rightarrow> (Inr None, s2)
           | (Inr (m # _), s2) \<Rightarrow>
               (Inr (Some (sqs_received (sc_syntax k) queue m)),
                case sqs_gate (sm_attributes m) of
                  None \<Rightarrow> s2
                | Some v \<Rightarrow>
                    s2\<lparr>ss_world := notify_rejected (sq_on_rejected c) (truncate_declared_version v) queue (ss_world s2)\<rparr>)))"

definition max_visibility_timeout_seconds :: int where "max_visibility_timeout_seconds = 43200"

definition visibility_seconds :: "int \<Rightarrow> int" where
  "visibility_seconds delay =
     (if delay \<le> 0 then 0
      else if seconds max_visibility_timeout_seconds \<le> delay then max_visibility_timeout_seconds
      else let secs = quot_seconds (delay + seconds 1 - 1) in
           if max_visibility_timeout_seconds < secs then max_visibility_timeout_seconds else wrap32 secs)"

definition release_unsupported :: go_error where
  "release_unsupported =
     wrap_error ''babelqueue/sqs: release needs ChangeMessageVisibility and a receipt handle: ''
       (plain_error ErrReleaseUnsupported) []"

definition receipt_of :: "received_message \<Rightarrow> bytes" where
  "receipt_of msg = (case msg_handle msg of Receipt h \<Rightarrow> h | _ \<Rightarrow> [])"

definition sqs_release ::
  "'w sqs_client \<Rightarrow> 'w sqs_config \<Rightarrow> received_message \<Rightarrow> int \<Rightarrow> 'w sqs_state effect" where
  "sqs_release k c msg delay s =
     (case (if receipt_of msg = [] then None else sc_change_visibility k) of
        None \<Rightarrow> (Some release_unsupported, s)
      | Some change \<Rightarrow>
          (case resolve_url k c (msg_queue msg) s of
             (Inl e, s1) \<Rightarrow> (Some e, s1)
           | (Inr url, s1) \<Rightarrow> sqs_on_client (change url (receipt_of msg) (visibility_seconds delay)) s1))"

definition sqs_ack :: "'w sqs_client \<Rightarrow> 'w sqs_config \<Rightarrow> received_message \<Rightarrow> 'w sqs_state effect" where
  "sqs_ack k c msg s =
     (if receipt_of msg = [] then (None, s)
      else (case resolve_url k c (msg_queue msg) s of
              (Inl e, s1) \<Rightarrow> (Some e, s1)
            | (Inr url, s1) \<Rightarrow> sqs_on_client (sc_delete k url (receipt_of msg)) s1))"

text \<open>A native settle leaves the message to the visibility timeout and the queue's redrive policy.\<close>

definition sqs_settle_native :: "received_message \<Rightarrow> bytes \<Rightarrow> bytes \<Rightarrow> 'w sqs_state effect" where
  "sqs_settle_native msg reason description s = (None, s)"

definition sqs_transport :: "'w sqs_client \<Rightarrow> 'w sqs_config \<Rightarrow> 'w sqs_state transport" where
  "sqs_transport k c =
     \<lparr>tr_publish = sqs_publish k c, tr_pop = sqs_pop k c, tr_ack = sqs_ack k c,
      tr_publish_with_headers = Some (sqs_publish_with_headers k c), tr_publish_routed = None,
      tr_publish_from = None, tr_publish_from_with_headers = None, tr_release = Some (sqs_release k c),
      tr_dead_letter = None, tr_rewind = None, tr_settle_native = Some sqs_settle_native,
      tr_settle_native_dead_letter = None, tr_dead_letter_queue_name = Some dead_letter_queue_name\<rparr>"

end
