(* ===== verification/ServiceBus.thy ===== *)
theory ServiceBus
  imports Binding
begin

section \<open>The Azure Service Bus transport\<close>

text \<open>
  \<open>azureservicebus/azureservicebus.go\<close>. The Azure client is a parameter: senders and receivers, named by
  numbers, and their operations over the world \<open>'w\<close>; abandoning and dead-lettering are optional, as the
  code finds them by type assertion. The two caches are part of the state the operations thread.
\<close>

record asb_message =
  am_body :: bytes
  am_content_type :: bytes
  am_subject :: "bytes option"
  am_correlation_id :: "bytes option"
  am_message_id :: "bytes option"
  am_properties :: "amqp_value smap"

record asb_received =
  ar_id :: nat
  ar_body :: bytes
  ar_properties :: "amqp_value smap"
  ar_delivery_count :: nat

record 'w asb_client =
  bc_new_sender :: "bytes \<Rightarrow> 'w \<Rightarrow> (go_error + nat) \<times> 'w"
  bc_new_receiver :: "bytes \<Rightarrow> 'w \<Rightarrow> (go_error + nat) \<times> 'w"
  bc_send :: "nat \<Rightarrow> asb_message \<Rightarrow> 'w effect"
  bc_receive :: "nat \<Rightarrow> int option \<Rightarrow> 'w \<Rightarrow> (go_error + asb_received list) \<times> 'w"
  bc_complete :: "nat \<Rightarrow> nat \<Rightarrow> 'w effect"
  bc_abandon :: "(nat \<Rightarrow> nat \<Rightarrow> 'w effect) option"
  bc_dead_letter :: "(nat \<Rightarrow> nat \<Rightarrow> bytes \<Rightarrow> bytes \<Rightarrow> 'w effect) option"
  bc_syntax :: "bytes \<Rightarrow> bytes"

record 'w asb_config =
  ac_max_wait :: int
  ac_on_rejected :: "'w rejected_hook"

record 'w asb_state =
  as_senders :: "nat smap"
  as_receivers :: "nat smap"
  as_world :: 'w

text \<open>\<open>New\<close>: an injected client, or one opened from the connection string.\<close>

definition asb_new :: "'c option \<Rightarrow> bytes \<Rightarrow> (bytes \<Rightarrow> go_error + 'c) \<Rightarrow> go_error + 'c" where
  "asb_new client conn_str from_string =
     (case client of
        Some c \<Rightarrow> Inr c
      | None \<Rightarrow>
          if conn_str \<noteq> [] then from_string conn_str
          else Inl (new_error ''azureservicebus: provide WithConnectionString, WithAzureClient, or WithClient''))"

definition asb_with_max_wait_time :: "int \<Rightarrow> 'w asb_config \<Rightarrow> 'w asb_config" where
  "asb_with_max_wait_time d c = c\<lparr>ac_max_wait := d\<rparr>"
definition asb_with_on_schema_version_rejected :: "'w rejected_hook \<Rightarrow> 'w asb_config \<Rightarrow> 'w asb_config" where
  "asb_with_on_schema_version_rejected f c = c\<lparr>ac_on_rejected := f\<rparr>"

definition new_asb_config :: "('w asb_config \<Rightarrow> 'w asb_config) list \<Rightarrow> 'w asb_config" where
  "new_asb_config opts = fold (\<lambda>f c. f c) opts \<lparr>ac_max_wait = 0, ac_on_rejected = None\<rparr>"

definition asb_on_client :: "('w \<Rightarrow> 'a \<times> 'w) \<Rightarrow> 'w asb_state \<Rightarrow> 'a \<times> 'w asb_state" where
  "asb_on_client f s = (case f (as_world s) of (x, w) \<Rightarrow> (x, s\<lparr>as_world := w\<rparr>))"

definition asb_sender :: "'w asb_client \<Rightarrow> bytes \<Rightarrow> 'w asb_state \<Rightarrow> (go_error + nat) \<times> 'w asb_state" where
  "asb_sender k queue s =
     (case smap_get (as_senders s) queue of
        Some x \<Rightarrow> (Inr x, s)
      | None \<Rightarrow>
          (case asb_on_client (bc_new_sender k queue) s of
             (Inl e, s1) \<Rightarrow> (Inl e, s1)
           | (Inr x, s1) \<Rightarrow> (Inr x, s1\<lparr>as_senders := smap_put queue x (as_senders s1)\<rparr>)))"

definition asb_receiver :: "'w asb_client \<Rightarrow> bytes \<Rightarrow> 'w asb_state \<Rightarrow> (go_error + nat) \<times> 'w asb_state" where
  "asb_receiver k queue s =
     (case smap_get (as_receivers s) queue of
        Some x \<Rightarrow> (Inr x, s)
      | None \<Rightarrow>
          (case asb_on_client (bc_new_receiver k queue) s of
             (Inl e, s1) \<Rightarrow> (Inl e, s1)
           | (Inr x, s1) \<Rightarrow> (Inr x, s1\<lparr>as_receivers := smap_put queue x (as_receivers s1)\<rparr>)))"

subsection \<open>Messages\<close>

definition nonempty :: "bytes \<Rightarrow> bytes option" where
  "nonempty s = (if s = [] then None else Some s)"

definition asb_message_of :: "(bytes \<Rightarrow> bytes) \<Rightarrow> bytes \<Rightarrow> asb_message" where
  "asb_message_of stx body =
     (case decode stx body of
        (env, Some e) \<Rightarrow>
          \<lparr>am_body = body, am_content_type = ''application/json'', am_subject = None, am_correlation_id = None,
           am_message_id = None, am_properties = []\<rparr>
      | (env, None) \<Rightarrow>
          \<lparr>am_body = body, am_content_type = ''application/json'', am_subject = nonempty (env_job env),
           am_correlation_id = nonempty (env_trace_id env), am_message_id = nonempty (meta_id (env_meta env)),
           am_properties =
             put_if (meta_created_at (env_meta env) \<noteq> 0) ''bq-created-at'' (AmqpInt (meta_created_at (env_meta env)))
             (put_if (meta_lang (env_meta env) \<noteq> []) ''bq-source-lang'' (AmqpText (meta_lang (env_meta env)))
             (put_if (meta_schema_version (env_meta env) \<noteq> 0) ''bq-schema-version''
                (AmqpInt (meta_schema_version (env_meta env))) []))\<rparr>)"

definition asb_contract :: "bytes list" where
  "asb_contract = [''bq-schema-version'', ''bq-source-lang'', ''bq-created-at'', ''bq-attempts'', ''bq-delay'']"

definition asb_merge :: "amqp_value smap \<Rightarrow> bytes smap \<Rightarrow> amqp_value smap" where
  "asb_merge props extra = merge_out_of_band asb_contract AmqpText props extra"

definition asb_surface :: "amqp_value smap \<Rightarrow> bytes smap" where
  "asb_surface props = surface_out_of_band asb_contract amqp_text props"

text \<open>The gate on a typed value: the supported version as a string, or as an integer of any width.\<close>

definition asb_gate :: "amqp_value smap \<Rightarrow> bytes option" where
  "asb_gate props =
     (case smap_get props ''bq-schema-version'' of
        None \<Rightarrow> None
      | Some AmqpNull \<Rightarrow> None
      | Some (AmqpText v) \<Rightarrow> gated_text v
      | Some (AmqpInt n) \<Rightarrow> if n = schema_version then None else Some (int_text n)
      | Some (AmqpBytes b) \<Rightarrow> Some (bytes_verb b)
      | Some (AmqpOther t) \<Rightarrow> Some t)"

definition asb_reconcile_attempts :: "(bytes \<Rightarrow> bytes) \<Rightarrow> bytes \<Rightarrow> nat \<Rightarrow> bytes" where
  "asb_reconcile_attempts stx body n = (if n \<le> 1 then body else raise_attempts stx body (int n - 1))"

definition asb_delivery :: "(bytes \<Rightarrow> bytes) \<Rightarrow> bytes \<Rightarrow> asb_received \<Rightarrow> received_message" where
  "asb_delivery stx queue m =
     (case asb_gate (ar_properties m) of
        Some v \<Rightarrow>
          \<lparr>msg_body = ar_body m, msg_queue = queue, msg_handle = ClientMessage (ar_id m),
           msg_headers = asb_surface (ar_properties m), msg_delivery_count = int (ar_delivery_count m),
           msg_route_urn = gate_route_urn (truncate_declared_version v), msg_poison = False\<rparr>
      | None \<Rightarrow>
          \<lparr>msg_body = asb_reconcile_attempts stx (ar_body m) (ar_delivery_count m), msg_queue = queue,
           msg_handle = ClientMessage (ar_id m), msg_headers = asb_surface (ar_properties m),
           msg_delivery_count = 0, msg_route_urn = [], msg_poison = False\<rparr>)"

subsection \<open>Operations\<close>

definition asb_send :: "'w asb_client \<Rightarrow> bytes \<Rightarrow> asb_message \<Rightarrow> 'w asb_state effect" where
  "asb_send k queue m s =
     (case asb_sender k queue s of
        (Inl e, s1) \<Rightarrow> (Some e, s1)
      | (Inr x, s1) \<Rightarrow> asb_on_client (bc_send k x m) s1)"

definition asb_publish :: "'w asb_client \<Rightarrow> bytes \<Rightarrow> bytes \<Rightarrow> 'w asb_state effect" where
  "asb_publish k queue body s = asb_send k queue (asb_message_of (bc_syntax k) body) s"

definition asb_publish_with_headers :: "'w asb_client \<Rightarrow> bytes \<Rightarrow> bytes \<Rightarrow> bytes smap \<Rightarrow> 'w asb_state effect" where
  "asb_publish_with_headers k queue body headers s =
     (let m = asb_message_of (bc_syntax k) body
      in asb_send k queue (m\<lparr>am_properties := asb_merge (am_properties m) headers\<rparr>) s)"

definition asb_pop ::
  "'w asb_client \<Rightarrow> 'w asb_config \<Rightarrow> bytes \<Rightarrow> int \<Rightarrow> 'w asb_state
   \<Rightarrow> (go_error + received_message option) \<times> 'w asb_state" where
  "asb_pop k c queue timeout s =
     (case asb_receiver k queue s of
        (Inl e, s1) \<Rightarrow> (Inl e, s1)
      | (Inr r, s1) \<Rightarrow>
          (case asb_on_client (bc_receive k r (pop_wait (ac_max_wait c) timeout)) s1 of
             (Inl e, s2) \<Rightarrow> if errors_is e DeadlineExceeded then (Inr None, s2) else (Inl e, s2)
           | (Inr [], s2) \<Rightarrow> (Inr None, s2)
           | (Inr (m # _), s2) \<Rightarrow>
               (Inr (Some (asb_delivery (bc_syntax k) queue m)),
                case asb_gate (ar_properties m) of
                  None \<Rightarrow> s2
                | Some v \<Rightarrow>
                    s2\<lparr>as_world := notify_rejected (ac_on_rejected c) (truncate_declared_version v) queue (as_world s2)\<rparr>)))"

definition with_asb_receiver ::
  "'w asb_client \<Rightarrow> received_message \<Rightarrow> 'a \<Rightarrow> (go_error \<Rightarrow> 'a) \<Rightarrow> (nat \<Rightarrow> nat \<Rightarrow> 'w asb_state \<Rightarrow> 'a \<times> 'w asb_state)
   \<Rightarrow> 'w asb_state \<Rightarrow> 'a \<times> 'w asb_state" where
  "with_asb_receiver k msg skip failed act s =
     (case msg_handle msg of
        ClientMessage m \<Rightarrow>
          (case asb_receiver k (msg_queue msg) s of
             (Inl e, s1) \<Rightarrow> (failed e, s1)
           | (Inr r, s1) \<Rightarrow> act r m s1)
      | _ \<Rightarrow> (skip, s))"

definition asb_ack :: "'w asb_client \<Rightarrow> received_message \<Rightarrow> 'w asb_state effect" where
  "asb_ack k msg s = with_asb_receiver k msg None Some (\<lambda>r m. asb_on_client (bc_complete k r m)) s"

definition asb_rewind :: "'w asb_client \<Rightarrow> received_message \<Rightarrow> 'w asb_state effect" where
  "asb_rewind k msg s =
     with_asb_receiver k msg None Some
       (\<lambda>r m s1. case bc_abandon k of None \<Rightarrow> (None, s1) | Some f \<Rightarrow> asb_on_client (f r m) s1) s"

text \<open>The flag says that the service itself dead-lettered the message on our demand.\<close>

definition asb_settle_native_dead_letter ::
  "'w asb_client \<Rightarrow> received_message \<Rightarrow> bytes \<Rightarrow> bytes \<Rightarrow> 'w asb_state \<Rightarrow> (bool \<times> go_error option) \<times> 'w asb_state" where
  "asb_settle_native_dead_letter k msg reason description s =
     with_asb_receiver k msg (False, None) (\<lambda>e. (False, Some e))
       (\<lambda>r m s1. case bc_dead_letter k of
          Some f \<Rightarrow>
            (case asb_on_client (f r m reason description) s1 of
               (Some e, s2) \<Rightarrow> ((False, Some e), s2)
             | (None, s2) \<Rightarrow> ((True, None), s2))
        | None \<Rightarrow> apfst (Pair False) (asb_rewind k msg s1)) s"

definition asb_settle_native ::
  "'w asb_client \<Rightarrow> received_message \<Rightarrow> bytes \<Rightarrow> bytes \<Rightarrow> 'w asb_state effect" where
  "asb_settle_native k msg reason description s = apfst snd (asb_settle_native_dead_letter k msg reason description s)"

definition asb_transport :: "'w asb_client \<Rightarrow> 'w asb_config \<Rightarrow> 'w asb_state transport" where
  "asb_transport k c =
     \<lparr>tr_publish = asb_publish k, tr_pop = asb_pop k c, tr_ack = asb_ack k,
      tr_publish_with_headers = Some (asb_publish_with_headers k), tr_publish_routed = None,
      tr_publish_from = None, tr_publish_from_with_headers = None, tr_release = None,
      tr_dead_letter = None, tr_rewind = Some (asb_rewind k), tr_settle_native = Some (asb_settle_native k),
      tr_settle_native_dead_letter = Some (asb_settle_native_dead_letter k), tr_dead_letter_queue_name = None\<rparr>"

end
