(* ===== verification/Artemis.thy ===== *)
theory Artemis
  imports Binding
begin

section \<open>The ActiveMQ Artemis transport\<close>

text \<open>
  \<open>artemis/artemis.go\<close>. The AMQP 1.0 client is a parameter: senders and receivers, named by numbers, and
  their operations over the world \<open>'w\<close>; releasing a message is optional. The two caches are part of the
  state the operations thread. A message body is an AMQP value or data section: the value, if any, and the
  data are what the code reads.
\<close>

record artemis_message =
  tm_value :: bytes
  tm_correlation_id :: "bytes option"
  tm_creation_time :: "int option"
  tm_properties :: "amqp_value smap"
  tm_jms_type :: "bytes option"

record artemis_received =
  tv_id :: nat
  tv_value :: "amqp_value option"
  tv_data :: "bytes option"
  tv_properties :: "amqp_value smap"
  tv_delivery_count :: "nat option"

record 'w artemis_client =
  tc_sender :: "bytes \<Rightarrow> 'w \<Rightarrow> (go_error + nat) \<times> 'w"
  tc_receiver :: "bytes \<Rightarrow> 'w \<Rightarrow> (go_error + nat) \<times> 'w"
  tc_send :: "nat \<Rightarrow> artemis_message \<Rightarrow> 'w effect"
  tc_receive :: "nat \<Rightarrow> int option \<Rightarrow> 'w \<Rightarrow> (go_error + artemis_received) \<times> 'w"
  tc_accept :: "nat \<Rightarrow> nat \<Rightarrow> 'w effect"
  tc_release :: "(nat \<Rightarrow> nat \<Rightarrow> 'w effect) option"
  tc_close :: "('w effect) option"
  tc_syntax :: "bytes \<Rightarrow> bytes"

record 'w artemis_config =
  tf_max_wait :: int
  tf_on_rejected :: "'w rejected_hook"

record 'w artemis_state =
  ts_senders :: "nat smap"
  ts_receivers :: "nat smap"
  ts_world :: 'w

text \<open>\<open>New\<close>: an injected client, or a session (\<open>'c\<close>) of a connection (\<open>'n\<close>) dialled from the URL; a connection
  without a session is closed again.\<close>

definition artemis_new ::
  "'c option \<Rightarrow> bytes \<Rightarrow> (bytes \<Rightarrow> 'w \<Rightarrow> (go_error + 'n) \<times> 'w) \<Rightarrow> ('n \<Rightarrow> 'w \<Rightarrow> (go_error + 'c) \<times> 'w)
   \<Rightarrow> ('n \<Rightarrow> 'w effect) \<Rightarrow> 'w \<Rightarrow> (go_error + 'n option \<times> 'c) \<times> 'w" where
  "artemis_new client url dial session close w =
     (case client of
        Some c \<Rightarrow> (Inr (None, c), w)
      | None \<Rightarrow>
          if url = [] then (Inl (new_error ''artemis: provide WithURL or WithClient''), w)
          else (case dial url w of
                  (Inl e, w1) \<Rightarrow> (Inl e, w1)
                | (Inr conn, w1) \<Rightarrow>
                    (case session conn w1 of
                       (Inl e, w2) \<Rightarrow> (Inl e, snd (close conn w2))
                     | (Inr c, w2) \<Rightarrow> (Inr (Some conn, c), w2))))"

definition artemis_with_max_wait_time :: "int \<Rightarrow> 'w artemis_config \<Rightarrow> 'w artemis_config" where
  "artemis_with_max_wait_time d c = c\<lparr>tf_max_wait := d\<rparr>"
definition artemis_with_on_schema_version_rejected :: "'w rejected_hook \<Rightarrow> 'w artemis_config \<Rightarrow> 'w artemis_config" where
  "artemis_with_on_schema_version_rejected f c = c\<lparr>tf_on_rejected := f\<rparr>"

definition artemis_on_client :: "('w \<Rightarrow> 'a \<times> 'w) \<Rightarrow> 'w artemis_state \<Rightarrow> 'a \<times> 'w artemis_state" where
  "artemis_on_client f s = (case f (ts_world s) of (x, w) \<Rightarrow> (x, s\<lparr>ts_world := w\<rparr>))"

definition artemis_sender ::
  "'w artemis_client \<Rightarrow> bytes \<Rightarrow> 'w artemis_state \<Rightarrow> (go_error + nat) \<times> 'w artemis_state" where
  "artemis_sender k queue s =
     (case smap_get (ts_senders s) queue of
        Some x \<Rightarrow> (Inr x, s)
      | None \<Rightarrow>
          (case artemis_on_client (tc_sender k queue) s of
             (Inl e, s1) \<Rightarrow> (Inl e, s1)
           | (Inr x, s1) \<Rightarrow> (Inr x, s1\<lparr>ts_senders := smap_put queue x (ts_senders s1)\<rparr>)))"

definition artemis_receiver ::
  "'w artemis_client \<Rightarrow> bytes \<Rightarrow> 'w artemis_state \<Rightarrow> (go_error + nat) \<times> 'w artemis_state" where
  "artemis_receiver k queue s =
     (case smap_get (ts_receivers s) queue of
        Some x \<Rightarrow> (Inr x, s)
      | None \<Rightarrow>
          (case artemis_on_client (tc_receiver k queue) s of
             (Inl e, s1) \<Rightarrow> (Inl e, s1)
           | (Inr x, s1) \<Rightarrow> (Inr x, s1\<lparr>ts_receivers := smap_put queue x (ts_receivers s1)\<rparr>)))"

subsection \<open>Messages\<close>

definition artemis_properties :: "envelope \<Rightarrow> amqp_value smap" where
  "artemis_properties env =
     (let m = smap_of
        [(''bq_schema_version'', AmqpText (int_text (meta_schema_version (env_meta env)))),
         (''bq_attempts'', AmqpText (int_text (env_attempts env))), (''bq_app_id'', AmqpText ''babelqueue'')] []
      in if meta_lang (env_meta env) \<noteq> [] then smap_put ''bq_source_lang'' (AmqpText (meta_lang (env_meta env))) m else m)"

definition artemis_message_of :: "(bytes \<Rightarrow> bytes) \<Rightarrow> bytes \<Rightarrow> artemis_message" where
  "artemis_message_of stx body =
     (case decode stx body of
        (env, Some e) \<Rightarrow>
          \<lparr>tm_value = body, tm_correlation_id = None, tm_creation_time = None, tm_properties = [], tm_jms_type = None\<rparr>
      | (env, None) \<Rightarrow>
          \<lparr>tm_value = body,
           tm_correlation_id = (if env_trace_id env \<noteq> [] then Some (env_trace_id env) else None),
           tm_creation_time =
             (if meta_created_at (env_meta env) \<noteq> 0 then Some (meta_created_at (env_meta env) * 1000000) else None),
           tm_properties = artemis_properties env,
           tm_jms_type = (if env_job env \<noteq> [] then Some (env_job env) else None)\<rparr>)"

definition artemis_contract :: "bytes list" where
  "artemis_contract = [''bq_schema_version'', ''bq_attempts'', ''bq_app_id'', ''bq_source_lang'', ''bq_delay'']"

definition artemis_merge :: "amqp_value smap \<Rightarrow> bytes smap \<Rightarrow> amqp_value smap" where
  "artemis_merge props extra = merge_out_of_band artemis_contract AmqpText props extra"

definition artemis_surface :: "amqp_value smap \<Rightarrow> bytes smap" where
  "artemis_surface props = surface_out_of_band artemis_contract amqp_text props"

text \<open>The gate on a typed value: the supported version as a string, nothing else.\<close>

definition artemis_gate :: "amqp_value smap \<Rightarrow> bytes option" where
  "artemis_gate props =
     (case smap_get props ''bq_schema_version'' of
        None \<Rightarrow> None
      | Some AmqpNull \<Rightarrow> None
      | Some (AmqpText v) \<Rightarrow> gated_text v
      | Some (AmqpInt n) \<Rightarrow> Some (int_text n)
      | Some (AmqpBytes b) \<Rightarrow> Some (bytes_verb b)
      | Some (AmqpOther t) \<Rightarrow> Some t)"

definition message_body :: "artemis_received \<Rightarrow> bytes" where
  "message_body m =
     (case tv_value m of
        Some (AmqpText v) \<Rightarrow> v
      | Some (AmqpBytes v) \<Rightarrow> v
      | _ \<Rightarrow> (case tv_data m of Some d \<Rightarrow> d | None \<Rightarrow> []))"

definition amqp_delivery_count :: "artemis_received \<Rightarrow> nat" where
  "amqp_delivery_count m = (case tv_delivery_count m of Some n \<Rightarrow> n | None \<Rightarrow> 0)"

definition artemis_reconcile_attempts :: "(bytes \<Rightarrow> bytes) \<Rightarrow> bytes \<Rightarrow> nat \<Rightarrow> bytes" where
  "artemis_reconcile_attempts stx body n = (if n = 0 then body else raise_attempts stx body (int n))"

definition artemis_delivery :: "(bytes \<Rightarrow> bytes) \<Rightarrow> bytes \<Rightarrow> artemis_received \<Rightarrow> received_message" where
  "artemis_delivery stx queue m =
     (case artemis_gate (tv_properties m) of
        Some v \<Rightarrow>
          \<lparr>msg_body = message_body m, msg_queue = queue, msg_handle = ClientMessage (tv_id m),
           msg_headers = artemis_surface (tv_properties m), msg_delivery_count = int (amqp_delivery_count m) + 1,
           msg_route_urn = gate_route_urn (truncate_declared_version v), msg_poison = False\<rparr>
      | None \<Rightarrow>
          \<lparr>msg_body = artemis_reconcile_attempts stx (message_body m) (amqp_delivery_count m), msg_queue = queue,
           msg_handle = ClientMessage (tv_id m), msg_headers = artemis_surface (tv_properties m),
           msg_delivery_count = 0, msg_route_urn = [], msg_poison = False\<rparr>)"

subsection \<open>Operations\<close>

definition artemis_send :: "'w artemis_client \<Rightarrow> bytes \<Rightarrow> artemis_message \<Rightarrow> 'w artemis_state effect" where
  "artemis_send k queue m s =
     (case artemis_sender k queue s of
        (Inl e, s1) \<Rightarrow> (Some e, s1)
      | (Inr x, s1) \<Rightarrow> artemis_on_client (tc_send k x m) s1)"

definition artemis_publish :: "'w artemis_client \<Rightarrow> bytes \<Rightarrow> bytes \<Rightarrow> 'w artemis_state effect" where
  "artemis_publish k queue body s = artemis_send k queue (artemis_message_of (tc_syntax k) body) s"

definition artemis_publish_with_headers ::
  "'w artemis_client \<Rightarrow> bytes \<Rightarrow> bytes \<Rightarrow> bytes smap \<Rightarrow> 'w artemis_state effect" where
  "artemis_publish_with_headers k queue body headers s =
     (let m = artemis_message_of (tc_syntax k) body
      in artemis_send k queue (m\<lparr>tm_properties := artemis_merge (tm_properties m) headers\<rparr>) s)"

definition artemis_pop ::
  "'w artemis_client \<Rightarrow> 'w artemis_config \<Rightarrow> bytes \<Rightarrow> int \<Rightarrow> 'w artemis_state
   \<Rightarrow> (go_error + received_message option) \<times> 'w artemis_state" where
  "artemis_pop k c queue timeout s =
     (case artemis_receiver k queue s of
        (Inl e, s1) \<Rightarrow> (Inl e, s1)
      | (Inr r, s1) \<Rightarrow>
          (case artemis_on_client (tc_receive k r (pop_wait (tf_max_wait c) timeout)) s1 of
             (Inl e, s2) \<Rightarrow>
               if errors_is e DeadlineExceeded \<or> errors_is e Canceled then (Inr None, s2) else (Inl e, s2)
           | (Inr m, s2) \<Rightarrow>
               (Inr (Some (artemis_delivery (tc_syntax k) queue m)),
                case artemis_gate (tv_properties m) of
                  None \<Rightarrow> s2
                | Some v \<Rightarrow>
                    s2\<lparr>ts_world := notify_rejected (tf_on_rejected c) (truncate_declared_version v) queue (ts_world s2)\<rparr>)))"

definition artemis_ack :: "'w artemis_client \<Rightarrow> received_message \<Rightarrow> 'w artemis_state effect" where
  "artemis_ack k msg s =
     (case msg_handle msg of
        ClientMessage m \<Rightarrow>
          (case artemis_receiver k (msg_queue msg) s of
             (Inl e, s1) \<Rightarrow> (Some e, s1)
           | (Inr r, s1) \<Rightarrow> artemis_on_client (tc_accept k r m) s1)
      | _ \<Rightarrow> (None, s))"

definition artemis_rewind :: "'w artemis_client \<Rightarrow> received_message \<Rightarrow> 'w artemis_state effect" where
  "artemis_rewind k msg s =
     (case msg_handle msg of
        ClientMessage m \<Rightarrow>
          (case artemis_receiver k (msg_queue msg) s of
             (Inl e, s1) \<Rightarrow> (Some e, s1)
           | (Inr r, s1) \<Rightarrow>
               (case tc_release k of None \<Rightarrow> (None, s1) | Some f \<Rightarrow> artemis_on_client (f r m) s1))
      | _ \<Rightarrow> (None, s))"

definition artemis_close :: "'w artemis_client \<Rightarrow> 'w artemis_state effect" where
  "artemis_close k s = (case tc_close k of None \<Rightarrow> (None, s) | Some f \<Rightarrow> artemis_on_client f s)"

definition artemis_transport :: "'w artemis_client \<Rightarrow> 'w artemis_config \<Rightarrow> 'w artemis_state transport" where
  "artemis_transport k c =
     \<lparr>tr_publish = artemis_publish k, tr_pop = artemis_pop k c, tr_ack = artemis_ack k,
      tr_publish_with_headers = Some (artemis_publish_with_headers k), tr_publish_routed = None,
      tr_publish_from = None, tr_publish_from_with_headers = None, tr_release = None,
      tr_dead_letter = None, tr_rewind = Some (artemis_rewind k), tr_settle_native = None,
      tr_settle_native_dead_letter = None, tr_dead_letter_queue_name = None\<rparr>"

end
