(* ===== verification/Amqp.thy ===== *)
theory Amqp
  imports Binding
begin

section \<open>The RabbitMQ transport\<close>

text \<open>
  \<open>amqp/amqp.go\<close>. The AMQP 0-9-1 client is a parameter: connections, channels and deliveries, named by
  numbers, and their operations over the world \<open>'w\<close>. The connection, the channel and the set of declared
  queues are part of the state the operations thread; a dropped connection is dialled again on the next use
  and then nothing counts as declared any more.
\<close>

record amqp_publishing =
  mp_content_type :: bytes
  mp_content_encoding :: bytes
  mp_persistent :: bool
  mp_app_id :: bytes
  mp_type :: bytes
  mp_correlation_id :: bytes
  mp_message_id :: bytes
  mp_headers :: "amqp_value smap"
  mp_body :: bytes

record amqp_delivery =
  md_tag :: nat
  md_body :: bytes
  md_headers :: "amqp_value smap"

record 'w amqp_client =
  mc_dial :: "'w \<Rightarrow> (go_error + nat) \<times> 'w"
  mc_conn_closed :: "nat \<Rightarrow> 'w \<Rightarrow> bool"
  mc_channel :: "nat \<Rightarrow> 'w \<Rightarrow> (go_error + nat) \<times> 'w"
  mc_channel_closed :: "nat \<Rightarrow> 'w \<Rightarrow> bool"
  mc_declare :: "nat \<Rightarrow> bytes \<Rightarrow> 'w effect"
  mc_publish :: "nat \<Rightarrow> bytes \<Rightarrow> amqp_publishing \<Rightarrow> 'w effect"
  mc_get :: "nat \<Rightarrow> bytes \<Rightarrow> 'w \<Rightarrow> (go_error + amqp_delivery option) \<times> 'w"
  mc_wait :: "int \<Rightarrow> 'w effect"
  mc_ack :: "nat \<Rightarrow> 'w effect"
  mc_close_channel :: "nat \<Rightarrow> 'w \<Rightarrow> 'w"
  mc_close_conn :: "nat \<Rightarrow> 'w effect"
  mc_syntax :: "bytes \<Rightarrow> bytes"

record 'w amqp_state =
  ms_conn :: "nat option"
  ms_channel :: "nat option"
  ms_declared :: "unit smap"
  ms_world :: 'w

definition amqp_new :: "'w \<Rightarrow> 'w amqp_state" where
  "amqp_new w = \<lparr>ms_conn = None, ms_channel = None, ms_declared = [], ms_world = w\<rparr>"

definition amqp_on_client :: "('w \<Rightarrow> 'a \<times> 'w) \<Rightarrow> 'w amqp_state \<Rightarrow> 'a \<times> 'w amqp_state" where
  "amqp_on_client f s = (case f (ms_world s) of (x, w) \<Rightarrow> (x, s\<lparr>ms_world := w\<rparr>))"

subsection \<open>Connecting\<close>

definition ensure_conn :: "'w amqp_client \<Rightarrow> 'w amqp_state \<Rightarrow> (go_error + nat) \<times> 'w amqp_state" where
  "ensure_conn k s =
     (case (case ms_conn s of Some c \<Rightarrow> if mc_conn_closed k c (ms_world s) then None else Some c | None \<Rightarrow> None) of
        Some c \<Rightarrow> (Inr c, s)
      | None \<Rightarrow>
          (case amqp_on_client (mc_dial k) s of
             (Inl e, s1) \<Rightarrow> (Inl e, s1)
           | (Inr c, s1) \<Rightarrow> (Inr c, s1\<lparr>ms_conn := Some c, ms_channel := None, ms_declared := []\<rparr>)))"

definition ensure :: "'w amqp_client \<Rightarrow> 'w amqp_state \<Rightarrow> (go_error + nat) \<times> 'w amqp_state" where
  "ensure k s =
     (case ensure_conn k s of
        (Inl e, s1) \<Rightarrow> (Inl e, s1)
      | (Inr c, s1) \<Rightarrow>
          (case (case ms_channel s1 of
                   Some ch \<Rightarrow> if mc_channel_closed k ch (ms_world s1) then None else Some ch | None \<Rightarrow> None) of
             Some ch \<Rightarrow> (Inr ch, s1)
           | None \<Rightarrow>
               (case amqp_on_client (mc_channel k c) s1 of
                  (Inl e, s2) \<Rightarrow> (Inl e, s2)
                | (Inr ch, s2) \<Rightarrow> (Inr ch, s2\<lparr>ms_channel := Some ch\<rparr>))))"

definition declare_queue :: "'w amqp_client \<Rightarrow> nat \<Rightarrow> bytes \<Rightarrow> 'w amqp_state effect" where
  "declare_queue k ch queue s =
     (if smap_get (ms_declared s) queue \<noteq> None then (None, s)
      else (case amqp_on_client (mc_declare k ch queue) s of
              (Some e, s1) \<Rightarrow> (Some e, s1)
            | (None, s1) \<Rightarrow> (None, s1\<lparr>ms_declared := smap_put queue () (ms_declared s1)\<rparr>)))"

text \<open>An open channel on which the queue is declared.\<close>

definition ready_channel :: "'w amqp_client \<Rightarrow> bytes \<Rightarrow> 'w amqp_state \<Rightarrow> (go_error + nat) \<times> 'w amqp_state" where
  "ready_channel k queue s =
     (case ensure k s of
        (Inl e, s1) \<Rightarrow> (Inl e, s1)
      | (Inr ch, s1) \<Rightarrow>
          (case declare_queue k ch queue s1 of
             (Some e, s2) \<Rightarrow> (Inl e, s2)
           | (None, s2) \<Rightarrow> (Inr ch, s2)))"

subsection \<open>Messages\<close>

definition merge_headers :: "amqp_value smap \<Rightarrow> bytes smap \<Rightarrow> amqp_value smap" where
  "merge_headers table headers = merge_out_of_band [] AmqpText table headers"

text \<open>The contract headers are written last, over any header of the same name.\<close>

definition publishing :: "(bytes \<Rightarrow> bytes) \<Rightarrow> bytes \<Rightarrow> bytes smap \<Rightarrow> amqp_publishing" where
  "publishing stx body extra =
     (let table = merge_headers [] extra;
          pub = \<lparr>mp_content_type = ''application/json'', mp_content_encoding = ''utf-8'', mp_persistent = True,
                 mp_app_id = ''babelqueue'', mp_type = [], mp_correlation_id = [], mp_message_id = [],
                 mp_headers = table, mp_body = body\<rparr>
      in case decode stx body of
           (env, Some e) \<Rightarrow> pub
         | (env, None) \<Rightarrow>
             pub\<lparr>mp_type := env_job env, mp_correlation_id := env_trace_id env, mp_message_id := meta_id (env_meta env),
                 mp_headers :=
                   put_if (meta_lang (env_meta env) \<noteq> []) ''x-source-lang'' (AmqpText (meta_lang (env_meta env)))
                   (put_if (meta_schema_version (env_meta env) \<noteq> 0) ''x-schema-version''
                      (AmqpInt (meta_schema_version (env_meta env)))
                   (smap_put ''x-attempts'' (AmqpInt (env_attempts env)) table))\<rparr>)"

fun headers_from_table :: "amqp_value smap \<Rightarrow> bytes smap" where
  "headers_from_table [] = []"
| "headers_from_table ((k, v) # table) =
     (case v of
        AmqpText s \<Rightarrow> (k, s) # headers_from_table table
      | AmqpBytes s \<Rightarrow> (k, s) # headers_from_table table
      | AmqpNull \<Rightarrow> headers_from_table table
      | AmqpInt n \<Rightarrow> (k, int_text n) # headers_from_table table
      | AmqpOther t \<Rightarrow> (k, t) # headers_from_table table)"

subsection \<open>Operations\<close>

definition amqp_publish_headers :: "'w amqp_client \<Rightarrow> bytes \<Rightarrow> bytes \<Rightarrow> bytes smap \<Rightarrow> 'w amqp_state effect" where
  "amqp_publish_headers k queue body headers s =
     (case ready_channel k queue s of
        (Inl e, s1) \<Rightarrow> (Some e, s1)
      | (Inr ch, s1) \<Rightarrow> amqp_on_client (mc_publish k ch queue (publishing (mc_syntax k) body headers)) s1)"

definition amqp_publish :: "'w amqp_client \<Rightarrow> bytes \<Rightarrow> bytes \<Rightarrow> 'w amqp_state effect" where
  "amqp_publish k queue body s = amqp_publish_headers k queue body [] s"

definition amqp_pop ::
  "'w amqp_client \<Rightarrow> bytes \<Rightarrow> int \<Rightarrow> 'w amqp_state \<Rightarrow> (go_error + received_message option) \<times> 'w amqp_state" where
  "amqp_pop k queue timeout s =
     (case ready_channel k queue s of
        (Inl e, s1) \<Rightarrow> (Inl e, s1)
      | (Inr ch, s1) \<Rightarrow>
          (case amqp_on_client (mc_get k ch queue) s1 of
             (Inl e, s2) \<Rightarrow> (Inl e, s2)
           | (Inr None, s2) \<Rightarrow>
               if 0 < timeout
               then (case amqp_on_client (mc_wait k timeout) s2 of
                       (Some e, s3) \<Rightarrow> (Inl e, s3)
                     | (None, s3) \<Rightarrow> (Inr None, s3))
               else (Inr None, s2)
           | (Inr (Some d), s2) \<Rightarrow>
               (Inr (Some \<lparr>msg_body = md_body d, msg_queue = queue, msg_handle = ClientMessage (md_tag d),
                           msg_headers = headers_from_table (md_headers d), msg_delivery_count = 0,
                           msg_route_urn = [], msg_poison = False\<rparr>), s2)))"

definition amqp_ack :: "'w amqp_client \<Rightarrow> received_message \<Rightarrow> 'w amqp_state effect" where
  "amqp_ack k msg s =
     (case msg_handle msg of ClientMessage d \<Rightarrow> amqp_on_client (mc_ack k d) s | _ \<Rightarrow> (None, s))"

definition amqp_close :: "'w amqp_client \<Rightarrow> 'w amqp_state effect" where
  "amqp_close k s =
     (let s1 = (case ms_channel s of
            Some ch \<Rightarrow> if mc_channel_closed k ch (ms_world s) then s else s\<lparr>ms_world := mc_close_channel k ch (ms_world s)\<rparr>
          | None \<Rightarrow> s)
      in case ms_conn s1 of
           Some c \<Rightarrow> if mc_conn_closed k c (ms_world s1) then (None, s1) else amqp_on_client (mc_close_conn k c) s1
         | None \<Rightarrow> (None, s1))"

definition amqp_transport :: "'w amqp_client \<Rightarrow> 'w amqp_state transport" where
  "amqp_transport k =
     \<lparr>tr_publish = amqp_publish k, tr_pop = amqp_pop k, tr_ack = amqp_ack k,
      tr_publish_with_headers = Some (amqp_publish_headers k), tr_publish_routed = None, tr_publish_from = None,
      tr_publish_from_with_headers = None, tr_release = None, tr_dead_letter = None, tr_rewind = None,
      tr_settle_native = None, tr_settle_native_dead_letter = None, tr_dead_letter_queue_name = None\<rparr>"

end
