(* ===== verification/BrokerLaws.thy ===== *)
theory BrokerLaws
  imports KafkaLaws PulsarLaws Sqs ServiceBus Artemis Amqp Redrive
begin

section \<open>Laws of the other bindings, and what holds of all of them\<close>

text \<open>
  Azure Service Bus and Artemis carry out-of-band headers like Pulsar (two more interpretations of
  \<open>header_carrier\<close>); SQS has room for ten attributes only, and AMQP shows the contract headers to the consumer as
  well. On all six the marker of a replay crosses the broker, and on those that count deliveries themselves the
  attempts of the envelope never fall behind.
\<close>

subsection \<open>Azure Service Bus\<close>

lemma put_if_ok [simp]: "smap_ok m \<Longrightarrow> smap_ok (put_if b k v m)"
  by (simp add: put_if_def)

lemma put_if_keys: "fst ` set (put_if b k v m) = (if b then insert k (fst ` set m) else fst ` set m)"
  by (simp add: put_if_def set_smap_keys_put)

lemma put_if_get: "smap_get (put_if b k v m) j = (if b \<and> j = k then Some v else smap_get m j)"
  by (simp add: put_if_def smap_get_put)

lemma asb_message_properties [simp]:
  "smap_ok (am_properties (asb_message_of stx body))"
  "fst ` set (am_properties (asb_message_of stx body)) \<subseteq> set asb_contract"
  by (cases "decode stx body"; cases "snd (decode stx body)";
      simp add: asb_message_of_def put_if_keys asb_contract_def)+

definition asb_carry :: "(bytes \<Rightarrow> bytes) \<Rightarrow> bytes \<Rightarrow> bytes smap \<Rightarrow> amqp_value smap" where
  "asb_carry stx body h = asb_merge (am_properties (asb_message_of stx body)) h"

interpretation asb_headers: header_carrier "asb_carry stx" asb_surface asb_contract
proof
  show "smap_ok h \<Longrightarrow> asb_surface (asb_carry stx body h) = out_of_band asb_contract h" for h body
    unfolding asb_surface_def asb_carry_def asb_merge_def by (rule surface_merge) simp_all
  show "header_replay_bypass \<notin> set asb_contract" by (simp add: header_replay_bypass_def asb_contract_def)
qed

subsection \<open>Artemis\<close>

lemma artemis_message_properties [simp]:
  "smap_ok (tm_properties (artemis_message_of stx body))"
  "fst ` set (tm_properties (artemis_message_of stx body)) \<subseteq> set artemis_contract"
  by (cases "decode stx body"; cases "snd (decode stx body)";
      simp add: artemis_message_of_def artemis_properties_def Let_def set_smap_keys_put artemis_contract_def)+

definition artemis_carry :: "(bytes \<Rightarrow> bytes) \<Rightarrow> bytes \<Rightarrow> bytes smap \<Rightarrow> amqp_value smap" where
  "artemis_carry stx body h = artemis_merge (tm_properties (artemis_message_of stx body)) h"

interpretation artemis_headers: header_carrier "artemis_carry stx" artemis_surface artemis_contract
proof
  show "smap_ok h \<Longrightarrow> artemis_surface (artemis_carry stx body h) = out_of_band artemis_contract h" for h body
    unfolding artemis_surface_def artemis_carry_def artemis_merge_def by (rule surface_merge) simp_all
  show "header_replay_bypass \<notin> set artemis_contract" by (simp add: header_replay_bypass_def artemis_contract_def)
qed

subsection \<open>SQS\<close>

lemma sqs_attributes_ok [simp]: "smap_ok (sqs_attributes stx body)" "length (sqs_attributes stx body) \<le> 6"
proof -
  have l: "length (put_if b k v m) \<le> Suc (length m)" for b k v and m :: "sqs_attribute smap"
  proof -
    have "length (smap_put k v m) \<le> Suc (length m)" by (induction k v m rule: smap_put.induct) auto
    then show ?thesis by (simp add: put_if_def)
  qed
  have "length (put_if b1 k1 v1 (put_if b2 k2 v2 (put_if b3 k3 v3 (put_if b4 k4 v4 (put_if b5 k5 v5 (put_if b6 k6 v6 [])))))) \<le> 6"
    for b1 k1 b2 k2 b3 k3 b4 k4 b5 k5 b6 k6 and v1 v2 v3 v4 v5 v6 :: sqs_attribute
    using l [of b1 k1 v1 "put_if b2 k2 v2 (put_if b3 k3 v3 (put_if b4 k4 v4 (put_if b5 k5 v5 (put_if b6 k6 v6 []))))"]
      l [of b2 k2 v2 "put_if b3 k3 v3 (put_if b4 k4 v4 (put_if b5 k5 v5 (put_if b6 k6 v6 [])))"]
      l [of b3 k3 v3 "put_if b4 k4 v4 (put_if b5 k5 v5 (put_if b6 k6 v6 []))"]
      l [of b4 k4 v4 "put_if b5 k5 v5 (put_if b6 k6 v6 [])"] l [of b5 k5 v5 "put_if b6 k6 v6 []"] l [of b6 k6 v6 "[]"]
    by simp
  then show "length (sqs_attributes stx body) \<le> 6"
    unfolding sqs_attributes_def by (simp split: prod.split option.split)
  show "smap_ok (sqs_attributes stx body)"
    by (simp add: sqs_attributes_def split: prod.split option.split)
qed

lemma length_smap_put_new: "k \<notin> fst ` set m \<Longrightarrow> length (smap_put k v m) = Suc (length m)"
  by (induction k v m rule: smap_put.induct) auto

text \<open>The headers SQS takes: those that are not blank and not attributes already, as many as there is room for.\<close>

definition fresh_headers :: "sqs_attribute smap \<Rightarrow> bytes smap \<Rightarrow> bytes smap" where
  "fresh_headers base h = filter (\<lambda>(k, v). k \<noteq> [] \<and> v \<noteq> [] \<and> k \<notin> fst ` set base) h"

lemma fresh_headers_Nil [simp]: "fresh_headers base [] = []"
  by (simp add: fresh_headers_def)

lemma fresh_headers_Cons [simp]:
  "fresh_headers base ((k, v) # h) =
     (if k \<noteq> [] \<and> v \<noteq> [] \<and> k \<notin> fst ` set base then (k, v) # fresh_headers base h else fresh_headers base h)"
  by (simp add: fresh_headers_def)

lemma fresh_headers_put:
  "k \<notin> fst ` set h \<Longrightarrow> fresh_headers (smap_put k v base) h = fresh_headers base h"
  unfolding fresh_headers_def by (rule filter_cong) (auto simp: set_smap_keys_put image_iff)

lemma smap_get_merge_attributes:
  "smap_ok h \<Longrightarrow>
   smap_get (merge_attributes base h) k =
     (case smap_get base k of Some a \<Rightarrow> Some a
      | None \<Rightarrow> map_option string_attribute (map_of (take (max_message_attributes - length base) (fresh_headers base h)) k))"
proof (induction base h rule: merge_attributes.induct)
  case (2 base k' v h)
  have k': "k' \<notin> fst ` set h" and h: "smap_ok h" using "2.prems" by auto
  consider "k' = [] \<or> v = []" | "k' \<noteq> []" "v \<noteq> []" "k' \<in> fst ` set base"
    | "k' \<noteq> []" "v \<noteq> []" "k' \<notin> fst ` set base" "max_message_attributes \<le> length base"
    | "k' \<noteq> []" "v \<noteq> []" "k' \<notin> fst ` set base" "length base < max_message_attributes"
    by linarith
  then show ?case
  proof cases
    case 1
    then show ?thesis using "2.IH"(1) h by (elim disjE) (simp_all split: option.split)
  next
    case 2
    then have "smap_get base k' \<noteq> None" by (simp add: map_of_eq_None_iff)
    then show ?thesis using "2.IH"(2) 2 h by (simp split: option.split)
  next
    case 3
    then have "smap_get base k' = None" by (simp add: map_of_eq_None_iff)
    then show ?thesis using 3 by (simp split: option.split)
  next
    case 4
    then have n: "smap_get base k' = None" by (simp add: map_of_eq_None_iff)
    let ?base = "smap_put k' (string_attribute v) base"
    have "fresh_headers base ((k', v) # h) = (k', v) # fresh_headers ?base h"
      using 4 fresh_headers_put [OF k', of "string_attribute v" base] by simp
    moreover have "max_message_attributes - length base = Suc (max_message_attributes - length ?base)"
      using 4 by (simp add: length_smap_put_new)
    moreover have "smap_get (merge_attributes base ((k', v) # h)) k = smap_get (merge_attributes ?base h) k"
      using 4 n by simp
    moreover have "smap_get (merge_attributes ?base h) k =
      (case smap_get ?base k of Some a \<Rightarrow> Some a
       | None \<Rightarrow> map_option string_attribute (map_of (take (max_message_attributes - length ?base) (fresh_headers ?base h)) k))"
      using "2.IH"(3) 4 n h by simp
    ultimately show ?thesis using n by (auto simp: smap_get_put split: option.split)
  qed
qed (simp split: option.split)

lemma merge_attributes_ok [simp]: "smap_ok base \<Longrightarrow> smap_ok (merge_attributes base h)"
  by (induction base h rule: merge_attributes.induct) auto

lemma length_merge_attributes:
  "length base \<le> max_message_attributes \<Longrightarrow> length (merge_attributes base h) \<le> max_message_attributes"
proof (induction base h rule: merge_attributes.induct)
  case (2 base k v h)
  then show ?case by (auto simp: length_smap_put_new map_of_eq_None_iff)
qed simp

lemma smap_get_headers_from_attributes:
  assumes "smap_ok m"
  shows "smap_get (headers_from_attributes m) k =
     (case smap_get m k of None \<Rightarrow> None | Some a \<Rightarrow> if attribute_text a = [] then None else Some (attribute_text a))"
proof -
  have "distinct (map fst (map (\<lambda>(k, a). (k, attribute_text a)) m))"
    using smap_ok_distinct [OF assms] by (simp add: comp_def case_prod_unfold)
  from map_of_filter_key [OF this, of "\<lambda>k v. v \<noteq> []"] show ?thesis
    by (simp add: headers_from_attributes_def map_of_map split: option.split)
qed

text \<open>C38. What a message SQS is given carries: never more than its ten attributes, every attribute of the contract
  as the body has it, and of the other headers (blank ones and those named like a contract attribute left out) the
  first ones in the order of their names, as many as there is room for, which is four at least.\<close>

theorem sqs_attributes_bounded:
  assumes "smap_ok h" and "attrs = merge_attributes (sqs_attributes stx body) h"
  shows "length attrs \<le> 10
    \<and> (\<forall>k a. smap_get (sqs_attributes stx body) k = Some a \<longrightarrow> smap_get attrs k = Some a)
    \<and> (\<exists>n \<ge> 4. \<forall>k. smap_get (sqs_attributes stx body) k = None \<longrightarrow>
         smap_get attrs k = map_option string_attribute (map_of (take n (fresh_headers (sqs_attributes stx body) h)) k))"
proof -
  have l: "length (sqs_attributes stx body) \<le> 6" by simp
  then have "4 \<le> max_message_attributes - length (sqs_attributes stx body)" unfolding max_message_attributes_def by linarith
  moreover have "length attrs \<le> 10"
    using length_merge_attributes [of "sqs_attributes stx body" h] l unfolding assms(2) by (simp add: max_message_attributes_def)
  ultimately show ?thesis using smap_get_merge_attributes [OF assms(1)] unfolding assms(2) by auto
qed

theorem sqs_attributes_bounded_witness:
  "length (merge_attributes (sqs_attributes (\<lambda>_. []) work_body) [(header_replay_bypass, ''1''), (''traceparent'', ''00-1'')]) \<le> 10"
  using sqs_attributes_bounded [OF _ refl, of "[(header_replay_bypass, ''1''), (''traceparent'', ''00-1'')]"]
  by (simp add: header_replay_bypass_def)

subsection \<open>AMQP\<close>

lemma smap_get_headers_from_table:
  "smap_ok m \<Longrightarrow> smap_get (headers_from_table m) k =
     (case smap_get m k of None \<Rightarrow> None | Some AmqpNull \<Rightarrow> None | Some (AmqpText t) \<Rightarrow> Some t | Some (AmqpBytes t) \<Rightarrow> Some t
      | Some (AmqpInt n) \<Rightarrow> Some (int_text n) | Some (AmqpOther t) \<Rightarrow> Some t)"
proof (induction m rule: headers_from_table.induct)
  case (2 k' v m)
  then have "smap_get m k' = None" by (force simp: map_of_eq_None_iff)
  then show ?case using 2 by (cases v) auto
qed simp

lemma publishing_header:
  assumes "smap_ok h" and "k \<notin> {''x-source-lang'', ''x-schema-version'', ''x-attempts''}"
  shows "smap_get (mp_headers (publishing stx body h)) k = map_option AmqpText (smap_get (out_of_band [] h) k)"
  using assms
  by (cases "decode stx body"; cases "snd (decode stx body)")
     (simp_all add: publishing_def Let_def merge_headers_def put_if_get smap_get_put smap_get_merge)

lemma publishing_ok [simp]: "smap_ok (mp_headers (publishing stx body h))"
  by (cases "decode stx body"; cases "snd (decode stx body)")
     (simp_all add: publishing_def Let_def merge_headers_def)

subsection \<open>The marker of a replay\<close>

lemma received_headers [simp]:
  "msg_headers (kafka_received stx q r) = out_of_band_from_record (kr_headers r) []"
  "msg_headers (pulsar_received stx q pm) = pulsar_surface (pm_properties pm)"
  "msg_headers (asb_delivery stx q am) = asb_surface (ar_properties am)"
  "msg_headers (artemis_delivery stx q tm) = artemis_surface (tv_properties tm)"
  "msg_headers (sqs_received stx q sm) = headers_from_attributes (sm_attributes sm)"
  by (simp_all add: kafka_received_def pulsar_received_def asb_delivery_def artemis_delivery_def sqs_received_def
      split: option.split prod.split)

lemma bypass_header [simp]: "smap_ok bypass_headers" "smap_get bypass_headers header_replay_bypass = Some ''1''"
  by (simp_all add: bypass_headers_def)

lemma bypass_out_of_band: "header_replay_bypass \<notin> set owned \<Longrightarrow> smap_get (out_of_band owned bypass_headers) header_replay_bypass = Some ''1''"
  by (simp add: smap_get_out_of_band) (simp add: header_replay_bypass_def)

lemma kafka_replay:
  assumes "kr_headers r = kr_headers (republish_record stx' queue body km bypass_headers)"
  shows "is_replay (delivery_context (kafka_received stx q r))"
proof (rule replay_context)
  let ?d = "kr_headers (kafka_message stx' queue body)"
  let ?h = "append_out_of_band ?d bypass_headers"
  have m: "header_replay_bypass \<notin> set contract_headers" by (rule kafka_headers.marker_not_owned)
  have h: "?h = ?d @ out_of_band contract_headers bypass_headers"
    by (rule append_out_of_band_all) (simp_all add: projected_names)
  have "distinct (map fst ?d)"
    using distinct_record_headers by (simp add: kafka_message_def Let_def split: prod.split option.split)
  moreover have "fst ` set (out_of_band contract_headers bypass_headers) \<inter> set contract_headers = {}"
    by (auto simp: out_of_band_def)
  ultimately have d: "distinct (map fst ?h)"
    using projected_names [of stx' queue body] unfolding h by (simp add: smap_ok_distinct) blast
  have "map_of ?d header_replay_bypass = None"
    using projected_names [of stx' queue body] m by (auto simp: map_of_eq_None_iff)
  then have g: "map_of ?h header_replay_bypass = Some ''1''"
    using bypass_out_of_band [OF m] by (simp add: h map_add_def)
  have "distinct (map fst (kr_headers r))" and "map_of (kr_headers r) header_replay_bypass = Some ''1''"
    using d g distinct_forward by (auto simp: assms republish_record_def Let_def map_of_forward)
  then show "smap_get (msg_headers (kafka_received stx q r)) header_replay_bypass = Some ''1''"
    using m by (simp add: oob_from_record_get) (simp add: oob_from_record_get header_replay_bypass_def)
qed simp

lemma sqs_replay:
  assumes "sm_attributes m = merge_attributes (sqs_attributes stx' body) bypass_headers"
  shows "is_replay (delivery_context (sqs_received stx q m))"
proof (rule replay_context)
  have "smap_get (sqs_attributes stx' body) header_replay_bypass = None"
    by (simp add: sqs_attributes_def put_if_get header_replay_bypass_def split: prod.split option.split)
  moreover have "length (sqs_attributes stx' body) < 10" using sqs_attributes_ok(2) [of stx' body] by linarith
  ultimately have "smap_get (sm_attributes m) header_replay_bypass = Some (string_attribute ''1'')"
    by (simp add: assms bypass_headers_def max_message_attributes_def header_replay_bypass_def smap_get_put)
  then show "smap_get (msg_headers (sqs_received stx q m)) header_replay_bypass = Some ''1''"
    by (simp add: smap_get_headers_from_attributes assms attribute_text_def string_attribute_def)
qed simp

lemma amqp_replay:
  assumes "msg_headers msg = headers_from_table (mp_headers (publishing stx body bypass_headers))"
  shows "is_replay (delivery_context msg)"
proof (rule replay_context)
  have "smap_get (mp_headers (publishing stx body bypass_headers)) header_replay_bypass = Some (AmqpText ''1'')"
    using bypass_out_of_band [of "[]"] by (subst publishing_header) (simp_all, simp add: header_replay_bypass_def)
  then show "smap_get (msg_headers msg) header_replay_bypass = Some ''1''"
    by (simp add: assms smap_get_headers_from_table)
qed simp

lemma publish_bypassed:
  "publish_redriven (kafka_transport kk kc) q body True d ks = apfst (Pair True) (kafka_publish_from_with_headers kk q body d bypass_headers ks)"
  "publish_redriven (pulsar_transport pk pc) q body True d ps = apfst (Pair True) (pulsar_publish_from_with_headers pk q body d bypass_headers ps)"
  "publish_redriven (asb_transport bk bc) q body True d bs = apfst (Pair True) (asb_publish_with_headers bk q body bypass_headers bs)"
  "publish_redriven (artemis_transport tk tc) q body True d ts = apfst (Pair True) (artemis_publish_with_headers tk q body bypass_headers ts)"
  "publish_redriven (sqs_transport sk sc) q body True d ss = apfst (Pair True) (sqs_publish_with_headers sk sc q body bypass_headers ss)"
  "publish_redriven (amqp_transport mk) q body True d ms = apfst (Pair True) (amqp_publish_headers mk q body bypass_headers ms)"
  by (simp_all add: publish_redriven_def kafka_transport_def pulsar_transport_def asb_transport_def artemis_transport_def
      sqs_transport_def amqp_transport_def)

lemma kafka_redriven:
  "\<exists>r. kafka_publish_from_with_headers k q body d bypass_headers s = kafka_write k r s
    \<and> (\<forall>r' stx q'. kr_headers r' = kr_headers r \<longrightarrow> is_replay (delivery_context (kafka_received stx q' r')))"
proof (cases "\<exists>km. msg_handle d = RecordHandle km")
  case True
  then obtain km where "msg_handle d = RecordHandle km" by blast
  then show ?thesis using kafka_replay
    by (intro exI [of _ "republish_record (kc_syntax k) q body km bypass_headers"]) (auto simp: kafka_publish_from_with_headers_def)
next
  case False
  let ?m = "kafka_message (kc_syntax k) q body"
  let ?r = "?m\<lparr>kr_headers := append_out_of_band (kr_headers ?m) bypass_headers\<rparr>"
  have "kr_headers ?m = kr_headers (kafka_message (kc_syntax k) [] body)"
    by (simp add: kafka_message_def Let_def split: prod.split option.split)
  then have "kr_headers ?r = kafka_carry (kc_syntax k) body bypass_headers" by (simp add: kafka_carry_def)
  moreover have "kafka_publish_from_with_headers k q body d bypass_headers s = kafka_write k ?r s"
    using False by (cases "msg_handle d") (simp_all add: kafka_publish_from_with_headers_def kafka_publish_with_headers_def Let_def)
  ultimately show ?thesis
    using kafka_headers.replay_recognised [of bypass_headers "''1''" _ "kc_syntax k" body]
    by (intro exI [of _ ?r]) (simp add: kafka_surfaced_def)
qed

lemma pulsar_redriven:
  "\<exists>m. pulsar_publish_from_with_headers k q body d bypass_headers s = pulsar_send k q m s
    \<and> (\<forall>m' stx q'. pm_properties m' = pp_properties m \<longrightarrow> is_replay (delivery_context (pulsar_received stx q' m')))"
  using pulsar_headers.replay_recognised [of bypass_headers "''1''" _ "pc_syntax k" "msg_route_urn d" body]
  by (intro exI [of _ "\<lparr>pp_payload = body, pp_properties = pulsar_carry (pc_syntax k) (msg_route_urn d) body bypass_headers\<rparr>"])
     (simp add: publish_from_carries)

text \<open>C34. On six brokers a redriven message is recognised. What a redrive with the bypass option hands the transport is
  one message; whoever receives a message with these headers (properties, attributes, table) handles it as a replay,
  even when the version gate rejects it, and however full the ten attributes of SQS are.\<close>

theorem replay_marker_crosses:
  "(\<exists>r. publish_redriven (kafka_transport kk kc) q body True d ks = apfst (Pair True) (kafka_write kk r ks)
      \<and> (\<forall>r' stx q'. kr_headers r' = kr_headers r \<longrightarrow> is_replay (delivery_context (kafka_received stx q' r'))))
   \<and> (\<exists>m. publish_redriven (pulsar_transport pk pc) q body True d ps = apfst (Pair True) (pulsar_send pk q m ps)
      \<and> (\<forall>m' stx q'. pm_properties m' = pp_properties m \<longrightarrow> is_replay (delivery_context (pulsar_received stx q' m'))))
   \<and> (\<exists>m. publish_redriven (asb_transport bk bc) q body True d bs = apfst (Pair True) (asb_send bk q m bs)
      \<and> (\<forall>m' stx q'. ar_properties m' = am_properties m \<longrightarrow> is_replay (delivery_context (asb_delivery stx q' m'))))
   \<and> (\<exists>m. publish_redriven (artemis_transport tk tc) q body True d ts = apfst (Pair True) (artemis_send tk q m ts)
      \<and> (\<forall>m' stx q'. tv_properties m' = tm_properties m \<longrightarrow> is_replay (delivery_context (artemis_delivery stx q' m'))))
   \<and> (\<exists>h. publish_redriven (sqs_transport sk sc) q body True d ss = apfst (Pair True) (sqs_send sk sc q body h 0 ss)
      \<and> (\<forall>m' stx q'. sm_attributes m' = merge_attributes (sqs_attributes (sc_syntax sk) body) h \<longrightarrow>
           is_replay (delivery_context (sqs_received stx q' m'))))
   \<and> (\<exists>h. publish_redriven (amqp_transport mk) q body True d ms = apfst (Pair True) (amqp_publish_headers mk q body h ms)
      \<and> (\<forall>msg. msg_headers msg = headers_from_table (mp_headers (publishing (mc_syntax mk) body h)) \<longrightarrow>
           is_replay (delivery_context msg)))"
proof (intro conjI)
  note bypass = bypass_header(1) bypass_header(2)
  show "\<exists>m. publish_redriven (asb_transport bk bc) q body True d bs = apfst (Pair True) (asb_send bk q m bs)
      \<and> (\<forall>m' stx q'. ar_properties m' = am_properties m \<longrightarrow> is_replay (delivery_context (asb_delivery stx q' m')))"
    using asb_headers.replay_recognised [OF bypass, of _ "bc_syntax bk" body]
    by (intro exI [of _ "(asb_message_of (bc_syntax bk) body)\<lparr>am_properties := asb_carry (bc_syntax bk) body bypass_headers\<rparr>"])
       (simp add: publish_bypassed asb_publish_with_headers_def Let_def asb_carry_def)
  show "\<exists>m. publish_redriven (artemis_transport tk tc) q body True d ts = apfst (Pair True) (artemis_send tk q m ts)
      \<and> (\<forall>m' stx q'. tv_properties m' = tm_properties m \<longrightarrow> is_replay (delivery_context (artemis_delivery stx q' m')))"
    using artemis_headers.replay_recognised [OF bypass, of _ "tc_syntax tk" body]
    by (intro exI [of _ "(artemis_message_of (tc_syntax tk) body)\<lparr>tm_properties := artemis_carry (tc_syntax tk) body bypass_headers\<rparr>"])
       (simp add: publish_bypassed artemis_publish_with_headers_def Let_def artemis_carry_def)
  show "\<exists>h. publish_redriven (sqs_transport sk sc) q body True d ss = apfst (Pair True) (sqs_send sk sc q body h 0 ss)
      \<and> (\<forall>m' stx q'. sm_attributes m' = merge_attributes (sqs_attributes (sc_syntax sk) body) h \<longrightarrow>
           is_replay (delivery_context (sqs_received stx q' m')))"
    using sqs_replay by (intro exI [of _ bypass_headers]) (simp add: publish_bypassed sqs_publish_with_headers_def)
  show "\<exists>h. publish_redriven (amqp_transport mk) q body True d ms = apfst (Pair True) (amqp_publish_headers mk q body h ms)
      \<and> (\<forall>msg. msg_headers msg = headers_from_table (mp_headers (publishing (mc_syntax mk) body h)) \<longrightarrow>
           is_replay (delivery_context msg))"
    using amqp_replay by (intro exI [of _ bypass_headers]) (simp add: publish_bypassed)
  show "\<exists>r. publish_redriven (kafka_transport kk kc) q body True d ks = apfst (Pair True) (kafka_write kk r ks)
      \<and> (\<forall>r' stx q'. kr_headers r' = kr_headers r \<longrightarrow> is_replay (delivery_context (kafka_received stx q' r')))"
    unfolding publish_bypassed using kafka_redriven [of kk q body d ks] by (elim exE conjE) auto
  show "\<exists>m. publish_redriven (pulsar_transport pk pc) q body True d ps = apfst (Pair True) (pulsar_send pk q m ps)
      \<and> (\<forall>m' stx q'. pm_properties m' = pp_properties m \<longrightarrow> is_replay (delivery_context (pulsar_received stx q' m')))"
    unfolding publish_bypassed using pulsar_redriven [of pk q body d ps] by (elim exE conjE) auto
qed

theorem replay_marker_crosses_witness:
  "\<exists>r. publish_redriven (kafka_transport sample_kafka sample_tiers) ''q'' work_body True sample_fetched (kafka_init []) =
         apfst (Pair True) (kafka_write sample_kafka r (kafka_init []))
     \<and> is_replay (delivery_context (kafka_received (\<lambda>_. []) ''q'' r))"
  using replay_marker_crosses [where kk = sample_kafka and kc = sample_tiers and q = "''q''" and body = work_body
      and d = sample_fetched and ks = "kafka_init []", THEN conjunct1] by blast

subsection \<open>Attempts the broker counts\<close>

lemma raised_attempts:
  assumes "decode stx body = (env, None)" and "int n \<le> max_int64" and "body' = raise_attempts stx body (int n)"
  shows "\<exists>ws. decode stx body' = (env\<lparr>env_attempts := max (env_attempts env) (int n), env_warnings := ws\<rparr>, None)"
  unfolding assms(3)
  by (rule raise_attempts_spec [OF assms(1)]) (use assms(2) in \<open>simp add: int64_ok_def min_int64_def\<close>)

lemma unraised_attempts:
  assumes "decode stx body = (env, None)" and "0 \<le> env_attempts env"
  shows "\<exists>ws. decode stx body = (env\<lparr>env_attempts := max (env_attempts env) 0, env_warnings := ws\<rparr>, None)"
  using assms by (intro exI [of _ "env_warnings env"]) (simp add: max_def)

text \<open>C31. On the brokers that count deliveries the attempts of an envelope never fall behind the broker. A message that was
  delivered \<open>n + 1\<close> times (to SQS and Service Bus; Artemis counts the failed ones) and is not gated reaches the runtime with
  its envelope unchanged but for the attempts, which are its own or \<open>n\<close>, whatever is more: a message whose consumers die
  without settling it still reaches the limit of attempts.\<close>

theorem attempts_never_behind:
  assumes "decode stx body = (env, None)" and "0 \<le> env_attempts env" and "int n < max_int64"
    and "sm_body sm = Some body" and "sm_receive_count sm = Some (int_text (int n + 1))" and "sqs_gate (sm_attributes sm) = None"
    and "ar_body am = body" and "ar_delivery_count am = n + 1" and "asb_gate (ar_properties am) = None"
    and "message_body tm = body" and "tv_delivery_count tm = Some n" and "artemis_gate (tv_properties tm) = None"
    and "b \<in> {msg_body (sqs_received stx q sm), msg_body (asb_delivery stx q am), msg_body (artemis_delivery stx q tm)}"
  shows "\<exists>ws. decode stx b = (env\<lparr>env_attempts := max (env_attempts env) (int n), env_warnings := ws\<rparr>, None)"
proof -
  have "int64_ok (int n + 1)" using assms(3) by (simp add: int64_ok_def min_int64_def)
  then have rc: "atoi (int_text (int n + 1)) = Some (int n + 1)" by (rule atoi_text)
  have "b = (if n = 0 then body else raise_attempts stx body (int n))"
    using assms(4-13) rc
    by (auto simp: sqs_received_def reconcile_receive_count_def opt_text_def asb_delivery_def asb_reconcile_attempts_def
        artemis_delivery_def artemis_reconcile_attempts_def amqp_delivery_count_def)
  then show ?thesis
    using raised_attempts [OF assms(1), of n] unraised_attempts [OF assms(1,2)] assms(3) by (cases "n = 0") auto
qed

definition counted_sqs :: sqs_message where
  "counted_sqs = \<lparr>sm_body = Some work_body, sm_receipt = Some ''r'', sm_attributes = [], sm_receive_count = Some (int_text 7)\<rparr>"

definition counted_asb :: asb_received where
  "counted_asb = \<lparr>ar_id = 1, ar_body = work_body, ar_properties = [], ar_delivery_count = 7\<rparr>"

definition counted_artemis :: artemis_received where
  "counted_artemis = \<lparr>tv_id = 1, tv_value = Some (AmqpText work_body), tv_data = None, tv_properties = [], tv_delivery_count = Some 6\<rparr>"

theorem attempts_never_behind_witness:
  "\<exists>ws. decode (\<lambda>_. []) (msg_body (sqs_received (\<lambda>_. []) ''q'' counted_sqs)) =
     (work_envelope\<lparr>env_attempts := max (env_attempts work_envelope) (int 6), env_warnings := ws\<rparr>, None)"
proof (rule attempts_never_behind [where sm = counted_sqs and am = counted_asb and tm = counted_artemis and q = "''q''"])
  show "decode (\<lambda>_. []) work_body = (work_envelope, None)" by (rule work_body_decoded)
qed (simp_all add: work_envelope_def counted_sqs_def counted_asb_def counted_artemis_def max_int64_def sqs_gate_def asb_gate_def
  artemis_gate_def message_body_def)

subsection \<open>Delays of SQS\<close>

lemma wrap32_id: "0 \<le> x \<Longrightarrow> x \<le> 43200 \<Longrightarrow> wrap32 x = x"
  by (simp add: wrap32_def)

lemma quot_seconds_up:
  assumes "0 < d" and "n = quot_seconds (d + seconds 1 - 1)"
  shows "d \<le> seconds n" "seconds n < d + seconds 1" "0 < n" "d \<le> seconds m \<Longrightarrow> n \<le> m"
  using assms by (auto simp: quot_seconds_def seconds_def)

text \<open>The whole seconds SQS is asked to wait. A release asks for a visibility timeout within the service's twelve hours,
  never shorter than the delay (unless the delay is longer than that) and less than a second longer; a delayed publish
  does the same within fifteen minutes, and with a longer delay, or on a FIFO queue, it fails and sends nothing; a
  receive waits between nothing and the service's twenty seconds.\<close>

theorem sqs_seconds:
  "(let v = visibility_seconds delay in 0 \<le> v \<and> v \<le> 43200
      \<and> (delay \<le> 0 \<longrightarrow> v = 0) \<and> (0 < delay \<and> delay \<le> seconds 43200 \<longrightarrow> delay \<le> seconds v \<and> seconds v < delay + seconds 1))
   \<and> (0 < delay \<longrightarrow>
       (if sq_fifo c \<or> seconds 900 < delay
        then (\<exists>e. sqs_publish_delayed k c queue body delay s = (Some e, s) \<and> errors_is e ErrInvalidDelay)
        else (\<exists>n. sqs_publish_delayed k c queue body delay s = sqs_send k c queue body [] n s
               \<and> delay \<le> seconds n \<and> seconds n < delay + seconds 1 \<and> n \<le> 900)))
   \<and> 0 \<le> sqs_wait c timeout \<and> sqs_wait c timeout \<le> 20"
proof (intro conjI impI)
  let ?n = "quot_seconds (delay + seconds 1 - 1)"
  show "let v = visibility_seconds delay in 0 \<le> v \<and> v \<le> 43200
      \<and> (delay \<le> 0 \<longrightarrow> v = 0) \<and> (0 < delay \<and> delay \<le> seconds 43200 \<longrightarrow> delay \<le> seconds v \<and> seconds v < delay + seconds 1)"
  proof (cases "delay \<le> 0 \<or> seconds 43200 \<le> delay")
    case True
    then show ?thesis by (auto simp: visibility_seconds_def max_visibility_timeout_seconds_def Let_def seconds_def)
  next
    case False
    then have "0 < delay" "delay \<le> seconds 43200" by auto
    note n = quot_seconds_up(1-3) [OF this(1) refl] quot_seconds_up(4) [OF this(1) refl this(2)]
    then have "visibility_seconds delay = ?n"
      using False by (simp add: visibility_seconds_def max_visibility_timeout_seconds_def Let_def wrap32_id)
    then show ?thesis using False n by (simp add: Let_def)
  qed
  show "if sq_fifo c \<or> seconds 900 < delay
        then (\<exists>e. sqs_publish_delayed k c queue body delay s = (Some e, s) \<and> errors_is e ErrInvalidDelay)
        else (\<exists>n. sqs_publish_delayed k c queue body delay s = sqs_send k c queue body [] n s
               \<and> delay \<le> seconds n \<and> seconds n < delay + seconds 1 \<and> n \<le> 900)" if d: "0 < delay"
  proof (cases "sq_fifo c \<or> seconds 900 < delay")
    case True
    then show ?thesis using d
      by (auto simp: sqs_publish_delayed_def max_delay_seconds_def errors_is_def wrap_error_def plain_error_def)
  next
    case False
    then have "delay \<le> seconds 900" by simp
    note n = quot_seconds_up(1-3) [OF d refl] quot_seconds_up(4) [OF d refl this]
    then have "sqs_publish_delayed k c queue body delay s = sqs_send k c queue body [] ?n s"
      using d False by (simp add: sqs_publish_delayed_def max_delay_seconds_def wrap32_id)
    then show ?thesis using False n by auto
  qed
qed (auto simp: sqs_wait_def Let_def)

theorem sqs_seconds_witness:
  "visibility_seconds 1500000000 \<le> 43200 \<and> 1500000000 \<le> seconds (visibility_seconds 1500000000)"
  using sqs_seconds [where delay = 1500000000, THEN conjunct1] by (simp add: Let_def seconds_def)

end
