(* ===== verification/AmqpLaws.thy ===== *)
theory AmqpLaws
  imports Amqp BindingLaws
begin

section \<open>Reconnecting\<close>

text \<open>
  A client that drops its connection at any moment. \<open>logged\<close> observes a client without changing what it does: the
  world also holds the events, newest first. Whatever sequence of operations runs over it, a queue is only used on an
  open channel of the connection of the moment and after it was declared there (\<open>declared_before_use\<close>).
\<close>

datatype amqp_event = Dialled | Opened nat | Declared nat bytes | Sent nat bytes | Got nat bytes

definition log_ok :: "(go_error + 'a) \<times> 'w \<Rightarrow> ('a \<Rightarrow> amqp_event) \<Rightarrow> amqp_event list \<Rightarrow> (go_error + 'a) \<times> 'w \<times> amqp_event list" where
  "log_ok r ev es = (case r of (Inl e, w) \<Rightarrow> (Inl e, (w, es)) | (Inr x, w) \<Rightarrow> (Inr x, (w, ev x # es)))"

definition logged :: "'w amqp_client \<Rightarrow> ('w \<times> amqp_event list) amqp_client" where
  "logged k =
     \<lparr>mc_dial = (\<lambda>(w, es). log_ok (mc_dial k w) (\<lambda>_. Dialled) es),
      mc_conn_closed = (\<lambda>c (w, es). mc_conn_closed k c w),
      mc_channel = (\<lambda>c (w, es). log_ok (mc_channel k c w) Opened es),
      mc_channel_closed = (\<lambda>ch (w, es). mc_channel_closed k ch w),
      mc_declare = (\<lambda>ch q (w, es).
        case mc_declare k ch q w of (Some e, w') \<Rightarrow> (Some e, (w', es)) | (None, w') \<Rightarrow> (None, (w', Declared ch q # es))),
      mc_publish = (\<lambda>ch q p (w, es). case mc_publish k ch q p w of (r, w') \<Rightarrow> (r, (w', Sent ch q # es))),
      mc_get = (\<lambda>ch q (w, es). case mc_get k ch q w of (r, w') \<Rightarrow> (r, (w', Got ch q # es))),
      mc_wait = (\<lambda>t (w, es). case mc_wait k t w of (r, w') \<Rightarrow> (r, (w', es))),
      mc_ack = (\<lambda>d (w, es). case mc_ack k d w of (r, w') \<Rightarrow> (r, (w', es))),
      mc_close_channel = (\<lambda>ch (w, es). (mc_close_channel k ch w, es)),
      mc_close_conn = (\<lambda>c (w, es). case mc_close_conn k c w of (r, w') \<Rightarrow> (r, (w', es))),
      mc_syntax = mc_syntax k\<rparr>"

lemma logged_simps [simp]:
  "mc_dial (logged k) (w, es) = log_ok (mc_dial k w) (\<lambda>_. Dialled) es"
  "mc_conn_closed (logged k) c (w, es) = mc_conn_closed k c w"
  "mc_channel (logged k) c (w, es) = log_ok (mc_channel k c w) Opened es"
  "mc_channel_closed (logged k) ch (w, es) = mc_channel_closed k ch w"
  "mc_declare (logged k) ch q (w, es) =
     (case mc_declare k ch q w of (Some e, w') \<Rightarrow> (Some e, (w', es)) | (None, w') \<Rightarrow> (None, (w', Declared ch q # es)))"
  "mc_publish (logged k) ch q p (w, es) = (case mc_publish k ch q p w of (r, w') \<Rightarrow> (r, (w', Sent ch q # es)))"
  "mc_get (logged k) ch q (w, es) = (case mc_get k ch q w of (r', w') \<Rightarrow> (r', (w', Got ch q # es)))"
  "mc_wait (logged k) t (w, es) = (case mc_wait k t w of (r, w') \<Rightarrow> (r, (w', es)))"
  "mc_ack (logged k) d (w, es) = (case mc_ack k d w of (r, w') \<Rightarrow> (r, (w', es)))"
  "mc_close_channel (logged k) ch (w, es) = (mc_close_channel k ch w, es)"
  "mc_close_conn (logged k) c (w, es) = (case mc_close_conn k c w of (r, w') \<Rightarrow> (r, (w', es)))"
  "mc_syntax (logged k) = mc_syntax k"
  by (simp_all add: logged_def)

subsection \<open>What is known of the current connection\<close>

definition recent :: "amqp_event list \<Rightarrow> amqp_event list" where
  "recent es = takeWhile (\<lambda>e. e \<noteq> Dialled) es"

definition opened :: "nat \<Rightarrow> amqp_event list \<Rightarrow> bool" where
  "opened ch es \<longleftrightarrow> Opened ch \<in> set (recent es)"

definition declared :: "bytes \<Rightarrow> amqp_event list \<Rightarrow> bool" where
  "declared q es \<longleftrightarrow> list_ex (\<lambda>e. case e of Declared ch q' \<Rightarrow> q' = q | _ \<Rightarrow> False) (recent es)"

text \<open>Every use of a queue follows its declaration and the opening of the channel, with no dial in between.\<close>

fun uses_ok :: "amqp_event list \<Rightarrow> bool" where
  "uses_ok [] = True"
| "uses_ok (e # es) =
     ((case e of Sent ch q \<Rightarrow> opened ch es \<and> declared q es | Got ch q \<Rightarrow> opened ch es \<and> declared q es | _ \<Rightarrow> True) \<and> uses_ok es)"

lemma opened_Cons [simp]: "opened ch (e # es) \<longleftrightarrow> e \<noteq> Dialled \<and> (e = Opened ch \<or> opened ch es)"
  by (auto simp: opened_def recent_def)

lemma declared_Cons [simp]:
  "declared q (e # es) \<longleftrightarrow> e \<noteq> Dialled \<and> ((\<exists>ch. e = Declared ch q) \<or> declared q es)"
  by (auto simp: declared_def recent_def split: amqp_event.splits)

definition amqp_inv :: "('w \<times> amqp_event list) amqp_state \<Rightarrow> bool" where
  "amqp_inv s \<longleftrightarrow> uses_ok (snd (ms_world s))
     \<and> (\<forall>q. smap_get (ms_declared s) q \<noteq> None \<longrightarrow> declared q (snd (ms_world s)))
     \<and> (\<forall>ch. ms_channel s = Some ch \<longrightarrow> opened ch (snd (ms_world s)))"

lemma amqp_inv_new: "amqp_inv (amqp_new (w, []))"
  by (simp add: amqp_inv_def amqp_new_def)

subsection \<open>Every operation keeps it\<close>

lemma ensure_conn_inv:
  assumes "amqp_inv s" and "ensure_conn (logged k) s = (r, s')"
  shows "amqp_inv s'"
  using assms
  by (cases "ms_world s")
     (auto simp: ensure_conn_def amqp_on_client_def log_ok_def amqp_inv_def split: option.splits if_splits prod.splits sum.splits)

lemma ensure_inv:
  assumes "amqp_inv s" and "ensure (logged k) s = (r, s')"
  shows "amqp_inv s' \<and> (\<forall>ch. r = Inr ch \<longrightarrow> ms_channel s' = Some ch)"
proof -
  obtain r1 s1 where e: "ensure_conn (logged k) s = (r1, s1)" by (cases "ensure_conn (logged k) s")
  have s1: "amqp_inv s1" by (rule ensure_conn_inv [OF assms(1) e])
  obtain w es where w: "ms_world s1 = (w, es)" by (cases "ms_world s1")
  show ?thesis using assms(2) s1 w
    by (auto simp: ensure_def e amqp_on_client_def log_ok_def amqp_inv_def
        split: option.splits if_splits prod.splits sum.splits)
qed

lemma declare_inv:
  assumes "amqp_inv s" and "declare_queue (logged k) ch q s = (r, s')"
  shows "amqp_inv s' \<and> ms_channel s' = ms_channel s \<and> (r = None \<longrightarrow> declared q (snd (ms_world s')))"
proof -
  obtain w es where w: "ms_world s = (w, es)" by (cases "ms_world s")
  show ?thesis using assms w
    by (auto simp: declare_queue_def amqp_on_client_def amqp_inv_def smap_get_put
        split: option.splits if_splits prod.splits)
qed

lemma ready_inv:
  assumes "amqp_inv s" and "ready_channel (logged k) q s = (r, s')"
  shows "amqp_inv s' \<and> (\<forall>ch. r = Inr ch \<longrightarrow> opened ch (snd (ms_world s')) \<and> declared q (snd (ms_world s')))"
proof -
  obtain r1 s1 where e: "ensure (logged k) s = (r1, s1)" by (cases "ensure (logged k) s")
  note s1 = ensure_inv [OF assms(1) e]
  show ?thesis
  proof (cases r1)
    case (Inl x)
    then show ?thesis using assms(2) e s1 by (auto simp: ready_channel_def)
  next
    case (Inr ch)
    obtain r2 s2 where d: "declare_queue (logged k) ch q s1 = (r2, s2)" by (cases "declare_queue (logged k) ch q s1")
    note s2 = declare_inv [OF conjunct1 [OF s1] d]
    show ?thesis using assms(2) e d s1 s2 Inr
      by (auto simp: ready_channel_def amqp_inv_def split: option.splits)
  qed
qed

lemma publish_inv:
  assumes "amqp_inv s"
  shows "amqp_inv (snd (amqp_publish_headers (logged k) q body h s))"
proof -
  obtain r s1 where e: "ready_channel (logged k) q s = (r, s1)" by (cases "ready_channel (logged k) q s")
  obtain w es where w: "ms_world s1 = (w, es)" by (cases "ms_world s1")
  show ?thesis using ready_inv [OF assms e] w
    by (auto simp: amqp_publish_headers_def e amqp_on_client_def amqp_inv_def split: sum.split prod.split)
qed

lemma pop_inv:
  assumes "amqp_inv s"
  shows "amqp_inv (snd (amqp_pop (logged k) q timeout s))"
proof -
  obtain r s1 where e: "ready_channel (logged k) q s = (r, s1)" by (cases "ready_channel (logged k) q s")
  obtain w es where w: "ms_world s1 = (w, es)" by (cases "ms_world s1")
  show ?thesis using ready_inv [OF assms e] w
    by (auto simp: amqp_pop_def e amqp_on_client_def amqp_inv_def split: sum.splits prod.splits option.splits)
qed

lemma settle_inv:
  assumes "amqp_inv s"
  shows "amqp_inv (snd (amqp_ack (logged k) msg s))" and "amqp_inv (snd (amqp_close (logged k) s))"
proof -
  obtain w es where w: "ms_world s = (w, es)" by (cases "ms_world s")
  show "amqp_inv (snd (amqp_ack (logged k) msg s))" using assms w
    by (auto simp: amqp_ack_def amqp_on_client_def amqp_inv_def split: delivery_handle.split prod.split)
  show "amqp_inv (snd (amqp_close (logged k) s))" using assms w
    by (auto simp: amqp_close_def amqp_on_client_def amqp_inv_def Let_def split: option.split prod.split)
qed

text \<open>A caller of the transport: any sequence of its operations.\<close>

datatype amqp_call = CallPublish bytes bytes | CallPublishHeaders bytes bytes "bytes smap" | CallPop bytes int
  | CallAck received_message | CallClose

fun amqp_run :: "'w amqp_client \<Rightarrow> amqp_call list \<Rightarrow> 'w amqp_state \<Rightarrow> 'w amqp_state" where
  "amqp_run k [] s = s"
| "amqp_run k (CallPublish q b # cs) s = amqp_run k cs (snd (tr_publish (amqp_transport k) q b s))"
| "amqp_run k (CallPublishHeaders q b h # cs) s = amqp_run k cs (snd (amqp_publish_headers k q b h s))"
| "amqp_run k (CallPop q t # cs) s = amqp_run k cs (snd (tr_pop (amqp_transport k) q t s))"
| "amqp_run k (CallAck m # cs) s = amqp_run k cs (snd (tr_ack (amqp_transport k) m s))"
| "amqp_run k (CallClose # cs) s = amqp_run k cs (snd (amqp_close k s))"

lemma run_inv: "amqp_inv s \<Longrightarrow> amqp_inv (amqp_run (logged k) cs s)"
  by (induction "logged k" cs s rule: amqp_run.induct)
     (simp_all add: amqp_transport_def amqp_publish_def publish_inv pop_inv settle_inv)

text \<open>C33. The RabbitMQ transport uses a queue only where it is declared. Whenever the client drops or refuses connections and
  channels, and whatever the caller does with the transport, after every dial a queue is declared again before the
  next publish to it or get from it, and that goes through a channel opened since.\<close>

theorem declared_before_use:
  "uses_ok (snd (ms_world (amqp_run (logged k) calls (amqp_new (w, [])))))"
proof -
  have "amqp_inv (amqp_run (logged k) calls (amqp_new (w, [])))" by (rule run_inv [OF amqp_inv_new])
  then show ?thesis by (simp add: amqp_inv_def)
qed

end
