(* ===== verification/Bridges.thy ===== *)
theory Bridges
  imports App
begin

section \<open>The asynq and machinery bridges\<close>

text \<open>
  \<open>asynq/asynq.go\<close> and \<open>machinery/machinery.go\<close>. Both let an existing task runner carry envelopes: a task
  is named by the URN and holds the encoded body. The runners are parameters (an enqueuing or sending
  function, and the registry they keep of handlers); what they return about a task is opaque (\<open>'i\<close>). asynq's
  task options are opaque as well (\<open>'o\<close>).
\<close>

subsection \<open>What both share\<close>

definition envelope_body :: "(bytes \<Rightarrow> bytes) \<Rightarrow> envelope \<Rightarrow> go_error + bytes" where
  "envelope_body stx env = (if urn env = [] then Inl (plain_error ErrEmptyURN) else encode stx env)"

definition bind_body :: "(bytes \<Rightarrow> bytes) \<Rightarrow> sentinel \<Rightarrow> 'w handler \<Rightarrow> delivery_ctx \<Rightarrow> bytes \<Rightarrow> 'w effect" where
  "bind_body stx refused h ctx body w =
     (case decode stx body of
        (env, Some e) \<Rightarrow> (Some e, w)
      | (env, None) \<Rightarrow> if \<not> accepts env then (Some (plain_error refused), w) else h ctx env w)"

subsection \<open>asynq\<close>

record 'o asynq_task =
  at_type_name :: bytes
  at_payload :: bytes
  at_options :: "'o list"

datatype 'o mixed_option = EnvOption make_option | TaskOption 'o | OtherOption

fun split_options :: "'o mixed_option list \<Rightarrow> make_option list \<times> 'o list" where
  "split_options [] = ([], [])"
| "split_options (x # xs) =
     (let (es, ts) = split_options xs in
      case x of EnvOption e \<Rightarrow> (e # es, ts) | TaskOption t \<Rightarrow> (es, t # ts) | OtherOption \<Rightarrow> (es, ts))"

definition asynq_task_of :: "(bytes \<Rightarrow> bytes) \<Rightarrow> envelope \<Rightarrow> 'o list \<Rightarrow> go_error + 'o asynq_task" where
  "asynq_task_of stx env opts =
     sbind (envelope_body stx env) (\<lambda>body. Inr \<lparr>at_type_name = urn env, at_payload = body, at_options = opts\<rparr>)"

definition asynq_task_for ::
  "'w runtime \<Rightarrow> bytes \<Rightarrow> goval smap option \<Rightarrow> 'o mixed_option list \<Rightarrow> 'w \<Rightarrow> go_error + 'o asynq_task" where
  "asynq_task_for rt u data opts w =
     (case split_options opts of
        (env_opts, task_opts) \<Rightarrow>
          sbind (Make (rt_uuid rt 0 w) (rt_uuid rt 1 w) (rt_now rt w) u data env_opts)
            (\<lambda>env. asynq_task_of (rt_syntax rt) env task_opts))"

definition asynq_envelope :: "(bytes \<Rightarrow> bytes) \<Rightarrow> 'o asynq_task \<Rightarrow> envelope \<times> go_error option" where
  "asynq_envelope stx task = decode stx (at_payload task)"

type_synonym ('o, 'i, 'w) enqueuer = "'o asynq_task \<Rightarrow> 'w \<Rightarrow> (go_error + 'i) \<times> 'w"

definition asynq_dispatch ::
  "'w runtime \<Rightarrow> ('o, 'i, 'w) enqueuer \<Rightarrow> bytes \<Rightarrow> goval smap option \<Rightarrow> 'o mixed_option list \<Rightarrow> 'w \<Rightarrow> (go_error + 'i) \<times> 'w" where
  "asynq_dispatch rt enq u data opts w =
     (case asynq_task_for rt u data opts w of Inl e \<Rightarrow> (Inl e, w) | Inr task \<Rightarrow> enq task w)"

definition asynq_enqueue ::
  "(bytes \<Rightarrow> bytes) \<Rightarrow> ('o, 'i, 'w) enqueuer \<Rightarrow> envelope \<Rightarrow> 'o list \<Rightarrow> 'w \<Rightarrow> (go_error + 'i) \<times> 'w" where
  "asynq_enqueue stx enq env opts w =
     (case asynq_task_of stx env opts of Inl e \<Rightarrow> (Inl e, w) | Inr task \<Rightarrow> enq task w)"

definition asynq_bind :: "(bytes \<Rightarrow> bytes) \<Rightarrow> 'w handler \<Rightarrow> delivery_ctx \<Rightarrow> 'o asynq_task \<Rightarrow> 'w effect" where
  "asynq_bind stx h ctx task w = bind_body stx ErrNotAcceptedAsynq h ctx (at_payload task) w"

definition asynq_register ::
  "(bytes \<Rightarrow> (delivery_ctx \<Rightarrow> 'o asynq_task \<Rightarrow> 'w effect) \<Rightarrow> 'm \<Rightarrow> 'm) \<Rightarrow> (bytes \<Rightarrow> bytes) \<Rightarrow> bytes
   \<Rightarrow> 'w handler \<Rightarrow> 'm \<Rightarrow> 'm" where
  "asynq_register handle_pattern stx u h mux = handle_pattern u (asynq_bind stx h) mux"

subsection \<open>machinery\<close>

text \<open>An argument of a signature; only a string one is read.\<close>

datatype task_value = TaskString bytes | TaskOther

record task_arg =
  ta_name :: bytes
  ta_type :: bytes
  ta_value :: task_value

record task_signature =
  ts_name :: bytes
  ts_args :: "task_arg list"

definition envelope_arg_name :: bytes where "envelope_arg_name = ''envelope''"

definition signature_of :: "(bytes \<Rightarrow> bytes) \<Rightarrow> envelope \<Rightarrow> go_error + task_signature" where
  "signature_of stx env =
     sbind (envelope_body stx env) (\<lambda>body.
       Inr \<lparr>ts_name = urn env, ts_args = [\<lparr>ta_name = envelope_arg_name, ta_type = ''string'', ta_value = TaskString body\<rparr>]\<rparr>)"

definition signature_for ::
  "'w runtime \<Rightarrow> bytes \<Rightarrow> goval smap option \<Rightarrow> make_option list \<Rightarrow> 'w \<Rightarrow> go_error + task_signature" where
  "signature_for rt u data opts w =
     sbind (Make (rt_uuid rt 0 w) (rt_uuid rt 1 w) (rt_now rt w) u data opts) (signature_of (rt_syntax rt))"

definition signature_envelope :: "(bytes \<Rightarrow> bytes) \<Rightarrow> task_signature option \<Rightarrow> envelope \<times> go_error option" where
  "signature_envelope stx sig =
     (case (case sig of Some s \<Rightarrow> ts_args s | None \<Rightarrow> []) of
        [] \<Rightarrow> (zero_envelope, Some (plain_error ErrNoEnvelopeArg))
      | a # _ \<Rightarrow>
          (case ta_value a of
             TaskString body \<Rightarrow> decode stx body
           | TaskOther \<Rightarrow> (zero_envelope, Some (plain_error ErrNoEnvelopeArg))))"

type_synonym ('i, 'w) sender = "task_signature \<Rightarrow> 'w \<Rightarrow> (go_error + 'i) \<times> 'w"

definition machinery_dispatch ::
  "'w runtime \<Rightarrow> ('i, 'w) sender \<Rightarrow> bytes \<Rightarrow> goval smap option \<Rightarrow> make_option list \<Rightarrow> 'w \<Rightarrow> (go_error + 'i) \<times> 'w" where
  "machinery_dispatch rt send u data opts w =
     (case signature_for rt u data opts w of Inl e \<Rightarrow> (Inl e, w) | Inr sig \<Rightarrow> send sig w)"

definition machinery_send ::
  "(bytes \<Rightarrow> bytes) \<Rightarrow> ('i, 'w) sender \<Rightarrow> envelope \<Rightarrow> 'w \<Rightarrow> (go_error + 'i) \<times> 'w" where
  "machinery_send stx send env w = (case signature_of stx env of Inl e \<Rightarrow> (Inl e, w) | Inr sig \<Rightarrow> send sig w)"

definition machinery_bind :: "(bytes \<Rightarrow> bytes) \<Rightarrow> 'w handler \<Rightarrow> delivery_ctx \<Rightarrow> bytes \<Rightarrow> 'w effect" where
  "machinery_bind stx h ctx body w = bind_body stx ErrNotAcceptedMachinery h ctx body w"

definition machinery_register ::
  "(bytes \<Rightarrow> (delivery_ctx \<Rightarrow> bytes \<Rightarrow> 'w effect) \<Rightarrow> 'r \<Rightarrow> go_error option \<times> 'r) \<Rightarrow> (bytes \<Rightarrow> bytes) \<Rightarrow> bytes
   \<Rightarrow> 'w handler \<Rightarrow> 'r \<Rightarrow> go_error option \<times> 'r" where
  "machinery_register register_task stx u h server = register_task u (machinery_bind stx h) server"

end
