(* ===== verification/BridgeLaws.thy ===== *)
theory BridgeLaws
  imports Bridges BindingLaws
begin

section \<open>Laws of the bridges\<close>

text \<open>
  What a task runner is given by one side and what the handler bound on the other side gets of it.
\<close>

lemma accepts_warnings [simp]: "accepts (env\<lparr>env_warnings := ws\<rparr>) = accepts env"
  by (simp add: accepts_def)

lemma envelope_body_ok:
  assumes "envelope_ok env" and "\<not> is_blank_ascii (env_job env)"
  shows "envelope_body stx env = Inr (json_print (envelope_json env))"
proof -
  have "env_job env \<noteq> []" using assms(2) by auto
  then show ?thesis using encode_ok [OF assms(1)] by (simp add: envelope_body_def urn_def)
qed

lemma bind_body_written:
  assumes "envelope_ok env" and "accepts env"
  shows "bind_body stx refused h ctx (json_print (envelope_json env)) w = h ctx (env\<lparr>env_warnings := []\<rparr>) w"
proof -
  have "\<not> is_blank_ascii (env_job env)" using assms(2) by (auto simp: accepts_def)
  then show ?thesis using decode_written [OF assms(1), of stx] assms(2) by (simp add: bind_body_def)
qed


definition bridged_envelope :: envelope where
  "bridged_envelope = work_envelope\<lparr>env_data := Some []\<rparr>"


end
