(* ===== verification/Postgres.thy ===== *)
theory Postgres
  imports Idempotency
begin

section \<open>The PostgreSQL idempotency store\<close>

text \<open>
  \<open>idempotency-postgres/postgres.go\<close>. The database is a parameter: executing a statement, and reading the
  one column of the first row of a query, both given the text of the statement. The texts are the code's, so
  the model says exactly what is sent. \<open>table_db\<close> below gives these statements their documented meaning on
  a table, and shows what the store then promises.
\<close>

datatype sql_arg = SqlText bytes | SqlTime int | SqlNull

record 'w database =
  db_exec :: "bytes \<Rightarrow> sql_arg list \<Rightarrow> 'w effect"
  db_query_row :: "bytes \<Rightarrow> sql_arg list \<Rightarrow> 'w \<Rightarrow> (go_error + bytes) \<times> 'w"
  db_ping :: "'w effect"
  db_close :: "'w effect"
  db_now :: "'w \<Rightarrow> int"
  db_quoted :: "bytes \<Rightarrow> bytes"

record 'w pg_store =
  pg_db :: "'w database"
  pg_table :: bytes
  pg_ttl :: int
  pg_owned :: bool

definition default_table :: bytes where "default_table = ''babelqueue_idempotency''"

definition pg_with_table :: "bytes \<Rightarrow> 'w pg_store \<Rightarrow> 'w pg_store" where
  "pg_with_table t s = s\<lparr>pg_table := t\<rparr>"

definition pg_with_ttl :: "int \<Rightarrow> 'w pg_store \<Rightarrow> 'w pg_store" where
  "pg_with_ttl ttl s = s\<lparr>pg_ttl := (if ttl < 0 then 0 else ttl)\<rparr>"

definition new_with_db :: "'w database \<Rightarrow> ('w pg_store \<Rightarrow> 'w pg_store) list \<Rightarrow> 'w pg_store" where
  "new_with_db db opts = fold (\<lambda>f s. f s) opts \<lparr>pg_db = db, pg_table = default_table, pg_ttl = 0, pg_owned = False\<rparr>"

text \<open>\<open>New\<close> over what \<open>sql.Open\<close> returned; a database that does not answer is closed again.\<close>

definition pg_new ::
  "go_error + 'w database \<Rightarrow> ('w pg_store \<Rightarrow> 'w pg_store) list \<Rightarrow> 'w \<Rightarrow> (go_error + 'w pg_store) \<times> 'w" where
  "pg_new opened opts w =
     (case opened of
        Inl e \<Rightarrow> (Inl e, w)
      | Inr db \<Rightarrow>
          (case db_ping db w of
             (Some e, w1) \<Rightarrow> (Inl e, snd (db_close db w1))
           | (None, w1) \<Rightarrow> (Inr ((new_with_db db opts)\<lparr>pg_owned := True\<rparr>), w1)))"

subsection \<open>Table names\<close>

definition pg_error :: "bytes \<Rightarrow> go_error" where
  "pg_error t = \<lparr>err_is = [], err_text = t, err_type = ''*errors.errorString''\<rparr>"

definition word_char :: "char \<Rightarrow> bool" where
  "word_char c \<longleftrightarrow> in_range 0x61 0x7A c \<or> in_range 0x41 0x5A c \<or> c = CHR ''_''"

fun identifier_from :: "nat \<Rightarrow> bytes \<Rightarrow> bool" where
  "identifier_from i [] = True"
| "identifier_from i (c # s) = ((word_char c \<or> is_digit c \<and> 0 < i) \<and> identifier_from (Suc i) s)"

definition validate_identifier :: "(bytes \<Rightarrow> bytes) \<Rightarrow> bytes \<Rightarrow> go_error option" where
  "validate_identifier quoted name =
     (if name = [] then Some (pg_error ''postgres: empty table name'')
      else if 63 < length name then Some (pg_error (''postgres: table name '' @ quoted name @ '' too long (max 63)''))
      else if identifier_from 0 name then None
      else Some (pg_error (''postgres: invalid table name '' @ quoted name @ '' (allowed: [A-Za-z_][A-Za-z0-9_]*)'')))"

subsection \<open>Statements\<close>

definition sql_lines :: "bytes list \<Rightarrow> bytes" where
  "sql_lines ls = intersperse [CHR 0x0A] ls"

definition tab :: bytes where "tab = [CHR 0x09]"

definition create_table_sql :: "bytes \<Rightarrow> bytes" where
  "create_table_sql t = sql_lines
     [''CREATE TABLE IF NOT EXISTS '' @ t @ '' ('',
      tab @ ''message_id  TEXT        NOT NULL PRIMARY KEY,'',
      tab @ ''created_at  TIMESTAMPTZ NOT NULL DEFAULT now(),'',
      tab @ ''expires_at  TIMESTAMPTZ NULL'',
      '')'']"

definition create_index_sql :: "bytes \<Rightarrow> bytes" where
  "create_index_sql t = ''CREATE INDEX IF NOT EXISTS '' @ t @ ''_expires_at_idx ON '' @ t @ '' (expires_at)''"

definition claim_sql :: "bytes \<Rightarrow> bytes" where
  "claim_sql t = sql_lines
     [[], ''INSERT INTO '' @ t @ '' (message_id, created_at, expires_at)'',
      ''VALUES ($1, now(), $2)'',
      ''ON CONFLICT (message_id) DO UPDATE'',
      tab @ ''SET created_at = now(),'',
      tab @ ''    expires_at = EXCLUDED.expires_at'',
      tab @ ''WHERE '' @ t @ ''.expires_at IS NOT NULL AND '' @ t @ ''.expires_at <= now()'',
      ''RETURNING message_id'']"

definition seen_sql :: "bytes \<Rightarrow> bytes" where
  "seen_sql t = ''SELECT 1 FROM '' @ t @ '' WHERE message_id = $1 AND (expires_at IS NULL OR expires_at > now())''"

definition forget_sql :: "bytes \<Rightarrow> bytes" where
  "forget_sql t = ''DELETE FROM '' @ t @ '' WHERE message_id = $1''"

subsection \<open>Operations\<close>

text \<open>Every operation starts by checking the table name.\<close>

definition pg_migrate :: "'w pg_store \<Rightarrow> 'w effect" where
  "pg_migrate s w =
     (case validate_identifier (db_quoted (pg_db s)) (pg_table s) of
        Some e \<Rightarrow> (Some e, w)
      | None \<Rightarrow>
          (case db_exec (pg_db s) (create_table_sql (pg_table s)) [] w of
             (Some e, w1) \<Rightarrow> (Some e, w1)
           | (None, w1) \<Rightarrow> db_exec (pg_db s) (create_index_sql (pg_table s)) [] w1))"

text \<open>A row means yes, \<open>sql.ErrNoRows\<close> no; the code compares the error itself.\<close>

definition row_found :: "(go_error + bytes) \<times> 'w \<Rightarrow> (go_error + bool) \<times> 'w" where
  "row_found r =
     (case r of
        (Inr _, w) \<Rightarrow> (Inr True, w)
      | (Inl e, w) \<Rightarrow> if e = plain_error ErrNoRows then (Inr False, w) else (Inl e, w))"

definition pg_claim :: "'w pg_store \<Rightarrow> bytes \<Rightarrow> 'w \<Rightarrow> (go_error + bool) \<times> 'w" where
  "pg_claim s i w =
     (case validate_identifier (db_quoted (pg_db s)) (pg_table s) of
        Some e \<Rightarrow> (Inl e, w)
      | None \<Rightarrow>
          row_found (db_query_row (pg_db s) (claim_sql (pg_table s))
            [SqlText i, if 0 < pg_ttl s then SqlTime (db_now (pg_db s) w + pg_ttl s) else SqlNull] w))"

definition pg_remember :: "'w pg_store \<Rightarrow> bytes \<Rightarrow> 'w effect" where
  "pg_remember s i w = (case pg_claim s i w of (Inl e, w') \<Rightarrow> (Some e, w') | (Inr _, w') \<Rightarrow> (None, w'))"

definition pg_seen :: "'w pg_store \<Rightarrow> bytes \<Rightarrow> 'w \<Rightarrow> (go_error + bool) \<times> 'w" where
  "pg_seen s i w =
     (case validate_identifier (db_quoted (pg_db s)) (pg_table s) of
        Some e \<Rightarrow> (Inl e, w)
      | None \<Rightarrow> row_found (db_query_row (pg_db s) (seen_sql (pg_table s)) [SqlText i] w))"

definition pg_forget :: "'w pg_store \<Rightarrow> bytes \<Rightarrow> 'w effect" where
  "pg_forget s i w =
     (case validate_identifier (db_quoted (pg_db s)) (pg_table s) of
        Some e \<Rightarrow> (Some e, w)
      | None \<Rightarrow> db_exec (pg_db s) (forget_sql (pg_table s)) [SqlText i] w)"

definition pg_close :: "'w pg_store \<Rightarrow> 'w effect" where
  "pg_close s w = (if pg_owned s then db_close (pg_db s) w else (None, w))"

definition pg_ids_store :: "'w pg_store \<Rightarrow> 'w idem_store" where
  "pg_ids_store s = \<lparr>sto_seen = pg_seen s, sto_remember = pg_remember s, sto_forget = pg_forget s\<rparr>"

subsection \<open>A table\<close>

text \<open>
  What the three statements mean on a table: the world is the clock, the rows (an id and when it lapses) and
  the part of the application. Within a statement \<open>now()\<close> is one moment. The claim inserts the row or, when the
  row that is there has lapsed, replaces it, and returns a row in these two cases; both happen in one step, as
  the primary key makes concurrent inserts wait for each other.
\<close>

type_synonym 'a table = "int \<times> (bytes \<rightharpoonup> int option) \<times> 'a"

definition lapsed :: "int \<Rightarrow> int option \<Rightarrow> bool" where
  "lapsed now x = (case x of None \<Rightarrow> False | Some t \<Rightarrow> t \<le> now)"

definition live :: "'a table \<Rightarrow> bytes set" where
  "live w = (case w of (now, rows, _) \<Rightarrow> {i. \<exists>x. rows i = Some x \<and> \<not> lapsed now x})"

definition no_rows :: "(go_error + bytes)" where "no_rows = Inl (plain_error ErrNoRows)"

definition sql_time :: "sql_arg \<Rightarrow> int option" where
  "sql_time a = (case a of SqlTime t \<Rightarrow> Some t | _ \<Rightarrow> None)"

definition table_query :: "bytes \<Rightarrow> bytes \<Rightarrow> sql_arg list \<Rightarrow> 'a table \<Rightarrow> (go_error + bytes) \<times> 'a table" where
  "table_query t q args w =
     (case (w, args) of
        ((now, rows, a), [SqlText i, x]) \<Rightarrow>
          if q = claim_sql t then
            (if (case rows i of None \<Rightarrow> True | Some y \<Rightarrow> lapsed now y)
             then (Inr i, (now, rows(i \<mapsto> sql_time x), a)) else (no_rows, w))
          else (Inl (pg_error ''syntax''), w)
      | ((now, rows, a), [SqlText i]) \<Rightarrow>
          if q = seen_sql t then
            (if (case rows i of None \<Rightarrow> False | Some y \<Rightarrow> \<not> lapsed now y) then (Inr ''1'', w) else (no_rows, w))
          else (Inl (pg_error ''syntax''), w)
      | _ \<Rightarrow> (Inl (pg_error ''syntax''), w))"

definition table_exec :: "bytes \<Rightarrow> bytes \<Rightarrow> sql_arg list \<Rightarrow> 'a table effect" where
  "table_exec t q args w =
     (case (w, args) of
        ((now, rows, a), [SqlText i]) \<Rightarrow>
          if q = forget_sql t then (None, (now, rows(i := None), a)) else (Some (pg_error ''syntax''), w)
      | _ \<Rightarrow> if q = create_table_sql t \<or> q = create_index_sql t then (None, w) else (Some (pg_error ''syntax''), w))"

definition table_db :: "bytes \<Rightarrow> 'a table database" where
  "table_db t =
     \<lparr>db_exec = table_exec t, db_query_row = table_query t, db_ping = (\<lambda>w. (None, w)), db_close = (\<lambda>w. (None, w)),
      db_now = fst, db_quoted = (\<lambda>x. x)\<rparr>"

definition table_store :: "int \<Rightarrow> 'a table pg_store" where
  "table_store ttl = new_with_db (table_db default_table) [pg_with_ttl ttl]"

lemma table_store_fields [simp]:
  "pg_db (table_store ttl) = table_db default_table" "pg_table (table_store ttl) = default_table"
  "pg_ttl (table_store ttl) = max 0 ttl"
  by (simp_all add: table_store_def new_with_db_def pg_with_ttl_def)

lemma default_table_valid: "validate_identifier q default_table = None"
  by (simp add: validate_identifier_def default_table_def word_char_def in_range_def)

lemma table_db_fields [simp]:
  "db_exec (table_db t) = table_exec t" "db_query_row (table_db t) = table_query t" "db_now (table_db t) = fst"
  by (simp_all add: table_db_def)

text \<open>What the store does on the table, in terms of the ids that are live: the claim wins exactly when the id is
  not, and the row it writes is live afterwards.\<close>

lemma pg_seen_table: "pg_seen (table_store ttl) i w = (Inr (i \<in> live w), w)"
  by (cases w) (auto simp: pg_seen_def default_table_valid table_query_def row_found_def live_def no_rows_def split: option.splits)

lemma pg_claim_table:
  "pg_claim (table_store ttl) i (now, rows, a) =
     (Inr (i \<notin> live (now, rows, a)),
      (now, if i \<in> live (now, rows, a) then rows else rows(i \<mapsto> if 0 < ttl then Some (now + ttl) else None), a))"
  by (auto simp: pg_claim_def default_table_valid table_query_def row_found_def live_def no_rows_def sql_time_def
      split: option.splits)

lemma pg_forget_table:
  "pg_forget (table_store ttl) i (now, rows, a) = (None, (now, rows(i := None), a))"
  by (simp add: pg_forget_def default_table_valid table_exec_def)

lemma live_upd: "live (now, rows(i := x), a) = (case x of None \<Rightarrow> live (now, rows, a) - {i}
    | Some y \<Rightarrow> if lapsed now y then live (now, rows, a) - {i} else insert i (live (now, rows, a)))"
  by (auto simp: live_def split: option.splits)

lemma live_claim:
  "live (now, if i \<in> live (now, rows, a) then rows else rows(i \<mapsto> if 0 < ttl then Some (now + ttl) else None), a)
    = insert i (live (now, rows, a))"
  by (cases "i \<in> live (now, rows, a)") (auto simp: live_upd lapsed_def)

interpretation pg_ids: idempotency_store "pg_ids_store (table_store ttl)" live
proof
  fix i b e and w w' :: "'a table"
  obtain now rows a where w: "w = (now, rows, a)" by (cases w)
  show "sto_seen (pg_ids_store (table_store ttl)) i w = (Inr b, w') \<Longrightarrow> b = (i \<in> live w) \<and> live w' = live w"
    by (auto simp: pg_ids_store_def pg_seen_table)
  show "sto_seen (pg_ids_store (table_store ttl)) i w = (Inl e, w') \<Longrightarrow> live w' = live w"
    by (simp add: pg_ids_store_def pg_seen_table)
  show "sto_remember (pg_ids_store (table_store ttl)) i w = (None, w') \<Longrightarrow> live w' = insert i (live w)"
    by (auto simp: w pg_ids_store_def pg_remember_def pg_claim_table live_claim)
  show "sto_remember (pg_ids_store (table_store ttl)) i w = (Some e, w') \<Longrightarrow>
      live w' = live w \<or> live w' = insert i (live w)"
    by (simp add: w pg_ids_store_def pg_remember_def pg_claim_table)
  show "sto_forget (pg_ids_store (table_store ttl)) i w = (None, w') \<Longrightarrow> live w' = live w - {i}"
    by (auto simp: w pg_ids_store_def pg_forget_table live_upd)
qed

end
