(* ===== verification/PostgresLaws.thy ===== *)
theory PostgresLaws
  imports Postgres
begin

section \<open>Claims of the PostgreSQL store\<close>

text \<open>
  Consumers that share the table, as the events a table sees: time passes, somebody claims an id, asks for one or
  forgets one. A run gives the claims that won, each with its time.
\<close>

datatype pg_event = Tick nat | Claim bytes | AskSeen bytes | Forget bytes

fun pg_run :: "int \<Rightarrow> pg_event list \<Rightarrow> 'a table \<Rightarrow> (int \<times> bytes) list" where
  "pg_run ttl [] w = []"
| "pg_run ttl (Tick n # evs) w = pg_run ttl evs (fst w + int n, snd w)"
| "pg_run ttl (Claim i # evs) w =
     (case pg_claim (table_store ttl) i w of
        (Inr True, w') \<Rightarrow> (fst w, i) # pg_run ttl evs w'
      | (_, w') \<Rightarrow> pg_run ttl evs w')"
| "pg_run ttl (AskSeen i # evs) w = pg_run ttl evs (snd (pg_seen (table_store ttl) i w))"
| "pg_run ttl (Forget i # evs) w = pg_run ttl evs (snd (pg_forget (table_store ttl) i w))"

definition win_times :: "bytes \<Rightarrow> (int \<times> bytes) list \<Rightarrow> int list" where
  "win_times i ws = map fst (filter (\<lambda>(t, j). j = i) ws)"

lemma win_times_simps [simp]:
  "win_times i [] = []" "win_times i ((t, j) # ws) = (if j = i then t # win_times i ws else win_times i ws)"
  by (simp_all add: win_times_def)

lemma pg_claim_run:
  "pg_run ttl (Claim i # evs) (now, rows, a) =
     (if i \<in> live (now, rows, a) then pg_run ttl evs (now, rows, a)
      else (now, i) # pg_run ttl evs (now, rows(i \<mapsto> if 0 < ttl then Some (now + ttl) else None), a))"
  by (simp add: pg_claim_table)

lemma wins_later: "\<forall>t \<in> set (win_times i (pg_run ttl evs (now, rows, a))). now \<le> t"
proof (induction evs arbitrary: now rows)
  case (Cons e evs)
  then show ?case
  proof (cases e)
    case (Tick n)
    have "\<forall>t \<in> set (win_times i (pg_run ttl evs (now + int n, rows, a))). now + int n \<le> t" by (rule Cons.IH)
    then show ?thesis using Tick by fastforce
  qed (use Cons in \<open>auto simp: pg_claim_table pg_seen_table pg_forget_table\<close>)
qed simp

text \<open>While the row of an id has not lapsed, and nobody forgets it, no claim of it wins.\<close>

lemma wins_after:
  assumes "Forget i \<notin> set evs" and "rows i = Some x" and "case x of None \<Rightarrow> True | Some t \<Rightarrow> lim \<le> t"
  shows "\<forall>t \<in> set (win_times i (pg_run ttl evs (now, rows, a))). x \<noteq> None \<and> lim \<le> t"
  using assms(1,2)
proof (induction evs arbitrary: now rows)
  case (Cons ev evs)
  show ?case
  proof (cases ev)
    case (Claim j)
    show ?thesis
    proof (cases "j \<in> live (now, rows, a)")
      case True
      then show ?thesis using Cons Claim by (simp add: pg_claim_run del: pg_run.simps(3))
    next
      case False
      note lost = False
      show ?thesis
      proof (cases "j = i")
        case True
        have "\<exists>t. x = Some t \<and> t \<le> now"
          using lost Cons.prems(2) True by (auto simp: live_def lapsed_def split: option.splits)
        then obtain t where t: "x = Some t" "lim \<le> t" "t \<le> now" using assms(3) by auto
        have "pg_run ttl (Claim i # evs) (now, rows, a) =
            (now, i) # pg_run ttl evs (now, rows(i \<mapsto> if 0 < ttl then Some (now + ttl) else None), a)"
          using lost True by (simp add: pg_claim_run del: pg_run.simps(3))
        moreover have "\<forall>t' \<in> set (win_times i
            (pg_run ttl evs (now, rows(i \<mapsto> if 0 < ttl then Some (now + ttl) else None), a))). lim \<le> t'"
          using wins_later order_trans [OF t(2,3)] by (meson order_trans)
        ultimately show ?thesis using t(1) order_trans [OF t(2,3)] unfolding Claim True by simp
      next
        case False
        then have "(rows(j \<mapsto> if 0 < ttl then Some (now + ttl) else None)) i = Some x" using Cons.prems(2) by simp
        then have "\<forall>t \<in> set (win_times i
            (pg_run ttl evs (now, rows(j \<mapsto> if 0 < ttl then Some (now + ttl) else None), a))). x \<noteq> None \<and> lim \<le> t"
          by (rule Cons.IH [rotated]) (use Cons.prems(1) in simp)
        then show ?thesis using False lost unfolding Claim pg_claim_run by (simp only: if_False win_times_simps)
      qed
    qed
  next
    case (Forget j)
    then have "(rows(j := None)) i = Some x" using Cons.prems by auto
    then have "\<forall>t \<in> set (win_times i (pg_run ttl evs (now, rows(j := None), a))). x \<noteq> None \<and> lim \<le> t"
      by (rule Cons.IH [rotated]) (use Cons.prems(1) in simp)
    then show ?thesis unfolding Forget by (simp only: pg_run.simps pg_forget_table snd_conv)
  qed (use Cons in \<open>auto simp: pg_seen_table pg_forget_table\<close>)
qed simp



end
