(* ===== verification/Otel.thy ===== *)
theory Otel
  imports App
begin

section \<open>Tracing and metrics\<close>

text \<open>
  \<open>otel/tracing.go\<close>, \<open>otel/traceparent.go\<close> and \<open>otel/metrics.go\<close>. OpenTelemetry is a parameter: the W3C
  propagator, the tracer with its spans (named by numbers) and the instruments of a meter, and so is SHA-256. A
  span context a Go context carries is not part of \<open>delivery_ctx\<close>: the tracer is given the parent and its
  world knows the active span. A trace id is sixteen bytes, a span id eight.

  The ids a wrapped handler has warned about are a map of that wrapper, which the world holds for it. Of the log
  records only this warning is modelled; those of a missing system name and of a failed instrument are not.
\<close>

record span_context =
  sc_trace :: "8 word list"
  sc_span :: "8 word list"
  sc_flags :: "8 word"
  sc_remote :: bool

datatype attr_value = AttrText bytes | AttrInt int

datatype span_kind = ProducerKind | ConsumerKind

text \<open>\<open>tl_inject\<close> gives the headers the propagator sets for a span, in the order it sets them: none without a valid span
  context.\<close>

record 'w telemetry =
  tl_extract :: "bytes smap \<Rightarrow> span_context option"
  tl_sha256 :: "bytes \<Rightarrow> 8 word list"
  tl_start :: "span_context option \<Rightarrow> bytes \<Rightarrow> span_kind \<Rightarrow> (bytes \<times> attr_value) list \<Rightarrow> 'w \<Rightarrow> nat \<times> 'w"
  tl_context :: "nat \<Rightarrow> 'w \<Rightarrow> span_context"
  tl_inject :: "nat \<Rightarrow> 'w \<Rightarrow> (bytes \<times> bytes) list"
  tl_set_name :: "nat \<Rightarrow> bytes \<Rightarrow> 'w \<Rightarrow> 'w"
  tl_set_attributes :: "nat \<Rightarrow> (bytes \<times> attr_value) list \<Rightarrow> 'w \<Rightarrow> 'w"
  tl_record_error :: "nat \<Rightarrow> go_error \<Rightarrow> 'w \<Rightarrow> 'w"
  tl_set_status :: "nat \<Rightarrow> bytes \<Rightarrow> 'w \<Rightarrow> 'w"
  tl_end :: "nat \<Rightarrow> 'w \<Rightarrow> 'w"
  tl_clock :: "'w \<Rightarrow> int"
  tl_warned :: "'w \<Rightarrow> unit smap"
  tl_set_warned :: "unit smap \<Rightarrow> 'w \<Rightarrow> 'w"
  tl_warn :: "bytes \<Rightarrow> 'w \<Rightarrow> 'w"

text \<open>The instruments of a meter; \<open>None\<close> is one that could not be created.\<close>

record 'w instruments =
  in_duration :: "(int \<Rightarrow> (bytes \<times> bytes) list \<Rightarrow> 'w \<Rightarrow> 'w) option"
  in_sent :: "((bytes \<times> bytes) list \<Rightarrow> 'w \<Rightarrow> 'w) option"
  in_consumed :: "((bytes \<times> bytes) list \<Rightarrow> 'w \<Rightarrow> 'w) option"
  in_retries :: "((bytes \<times> bytes) list \<Rightarrow> 'w \<Rightarrow> 'w) option"
  in_dlq :: "((bytes \<times> bytes) list \<Rightarrow> 'w \<Rightarrow> 'w) option"

text \<open>A meter creates instruments: a histogram from a name, a unit, a description and bucket boundaries (here in
  milliseconds), a counter from a name, a unit and a description.\<close>

record 'w meter =
  mt_histogram :: "bytes \<Rightarrow> bytes \<Rightarrow> bytes \<Rightarrow> int list \<Rightarrow> go_error + (int \<Rightarrow> (bytes \<times> bytes) list \<Rightarrow> 'w \<Rightarrow> 'w)"
  mt_counter :: "bytes \<Rightarrow> bytes \<Rightarrow> bytes \<Rightarrow> go_error + ((bytes \<times> bytes) list \<Rightarrow> 'w \<Rightarrow> 'w)"

record 'w otel_config =
  oc_system :: bytes
  oc_consumer_group :: bytes
  oc_meter :: "'w meter option"

definition default_system :: bytes where "default_system = ''babelqueue''"

definition with_system :: "bytes \<Rightarrow> 'w otel_config \<Rightarrow> 'w otel_config" where
  "with_system s c = c\<lparr>oc_system := s\<rparr>"
definition with_consumer_group :: "bytes \<Rightarrow> 'w otel_config \<Rightarrow> 'w otel_config" where
  "with_consumer_group g c = c\<lparr>oc_consumer_group := g\<rparr>"
definition with_meter :: "'w meter option \<Rightarrow> 'w otel_config \<Rightarrow> 'w otel_config" where
  "with_meter m c = c\<lparr>oc_meter := m\<rparr>"

definition new_otel_config :: "('w otel_config \<Rightarrow> 'w otel_config) list \<Rightarrow> 'w otel_config" where
  "new_otel_config opts =
     (let c = fold (\<lambda>f c. f c) opts \<lparr>oc_system = [], oc_consumer_group = [], oc_meter = None\<rparr>
      in if oc_system c = [] then c\<lparr>oc_system := default_system\<rparr> else c)"

subsection \<open>Trace ids\<close>

definition all_zero :: "8 word list \<Rightarrow> bool" where
  "all_zero bs \<longleftrightarrow> list_all (\<lambda>b. b = 0) bs"

fun hex_decode :: "bytes \<Rightarrow> 8 word list option" where
  "hex_decode [] = Some []"
| "hex_decode [c] = None"
| "hex_decode (a # b # s) =
     (case (hex_val a, hex_val b) of
        (Some x, Some y) \<Rightarrow> map_option ((#) (word_of_nat (16 * x + y))) (hex_decode s)
      | _ \<Rightarrow> None)"

definition uuid_bytes :: "bytes \<Rightarrow> 8 word list option" where
  "uuid_bytes s = (let h = filter (\<lambda>c. c \<noteq> CHR ''-'') s in if length h \<noteq> 32 then None else hex_decode h)"

text \<open>The trace id, and whether it had to be hashed.\<close>

definition map_trace_id :: "(bytes \<Rightarrow> 8 word list) \<Rightarrow> bytes \<Rightarrow> 8 word list \<times> bool" where
  "map_trace_id sha trace_id =
     (case uuid_bytes trace_id of
        Some raw \<Rightarrow> if \<not> all_zero raw then (raw, False) else (take 16 (sha trace_id), True)
      | None \<Rightarrow> (take 16 (sha trace_id), True))"

definition trace_id_of :: "(bytes \<Rightarrow> 8 word list) \<Rightarrow> bytes \<Rightarrow> 8 word list" where
  "trace_id_of sha trace_id = fst (map_trace_id sha trace_id)"

definition uuid_of :: "8 word list \<Rightarrow> bytes" where
  "uuid_of t = hex_bytes (take 4 t) @ ''-'' @ hex_bytes (take 2 (drop 4 t)) @ ''-'' @ hex_bytes (take 2 (drop 6 t)) @ ''-''
     @ hex_bytes (take 2 (drop 8 t)) @ ''-'' @ hex_bytes (take 6 (drop 10 t))"

definition span_id_of :: "(bytes \<Rightarrow> 8 word list) \<Rightarrow> bytes \<Rightarrow> 8 word list" where
  "span_id_of sha trace_id =
     (let s = take 8 (sha (''babelqueue-span:'' @ trace_id)) in if all_zero s then s[7 := 1] else s)"

definition parent_of :: "(bytes \<Rightarrow> 8 word list) \<Rightarrow> bytes \<Rightarrow> span_context" where
  "parent_of sha trace_id =
     \<lparr>sc_trace = trace_id_of sha trace_id, sc_span = span_id_of sha trace_id, sc_flags = 1, sc_remote = True\<rparr>"

subsection \<open>The traceparent header\<close>

definition w3c_traceparent :: bytes where "w3c_traceparent = ''traceparent''"

text \<open>The carrier the propagator reads and writes is the header map.\<close>

definition header_of :: "bytes smap \<Rightarrow> bytes \<Rightarrow> bytes" where
  "header_of h k = (case smap_get h k of None \<Rightarrow> [] | Some v \<Rightarrow> v)"

definition carrier_set :: "bytes \<Rightarrow> bytes \<Rightarrow> bytes smap \<Rightarrow> bytes smap" where
  "carrier_set k v h = smap_put k v h"

definition carrier_keys :: "bytes smap \<Rightarrow> bytes list" where
  "carrier_keys h = smap_keys h"

definition inject_traceparent :: "'w telemetry \<Rightarrow> nat \<Rightarrow> 'w \<Rightarrow> bytes smap option \<Rightarrow> bytes smap" where
  "inject_traceparent tel span w headers =
     fold (\<lambda>(k, v). carrier_set k v) (tl_inject tel span w) (case headers of None \<Rightarrow> [] | Some h \<Rightarrow> h)"

definition valid_context :: "span_context \<Rightarrow> bool" where
  "valid_context sc \<longleftrightarrow> \<not> all_zero (sc_trace sc) \<and> \<not> all_zero (sc_span sc)"

definition extract_remote_parent :: "(bytes smap \<Rightarrow> span_context option) \<Rightarrow> bytes smap \<Rightarrow> span_context option" where
  "extract_remote_parent ex headers =
     (if header_of headers w3c_traceparent = [] then None
      else (case ex headers of None \<Rightarrow> None | Some sc \<Rightarrow> if valid_context sc then Some sc else None))"

definition remote_parent_from_headers ::
  "(bytes smap \<Rightarrow> span_context option) \<Rightarrow> delivery_ctx \<Rightarrow> span_context option" where
  "remote_parent_from_headers ex ctx = extract_remote_parent ex (headers_from_context ctx)"

record extracted =
  ex_source :: bytes
  ex_trace_id :: bytes
  ex_parent :: bytes
  ex_flags :: bytes

definition extract_traceparent :: "(bytes smap \<Rightarrow> span_context option) \<Rightarrow> bytes \<Rightarrow> bytes \<Rightarrow> extracted" where
  "extract_traceparent ex traceparent envelope_trace_id =
     (case extract_remote_parent ex [(w3c_traceparent, traceparent)] of
        Some sc \<Rightarrow>
          \<lparr>ex_source = ''traceparent'', ex_trace_id = hex_bytes (sc_trace sc), ex_parent = hex_bytes (sc_span sc),
           ex_flags = hex_byte (sc_flags sc)\<rparr>
      | None \<Rightarrow>
          \<lparr>ex_source = ''trace_id'', ex_trace_id = filter (\<lambda>c. c \<noteq> CHR ''-'') envelope_trace_id, ex_parent = [],
           ex_flags = []\<rparr>)"

subsection \<open>Metrics\<close>

definition metric_process_duration :: bytes where "metric_process_duration = ''messaging.process.duration''"
definition metric_sent_messages :: bytes where "metric_sent_messages = ''messaging.client.sent.messages''"
definition metric_consumed_messages :: bytes where "metric_consumed_messages = ''messaging.client.consumed.messages''"
definition metric_retries :: bytes where "metric_retries = ''babelqueue.retries''"
definition metric_dead_letters :: bytes where "metric_dead_letters = ''babelqueue.dlq.messages''"

definition metric_attrs :: "bytes \<Rightarrow> bytes \<Rightarrow> bytes \<Rightarrow> bytes \<Rightarrow> (bytes \<times> bytes) list" where
  "metric_attrs system operation destination err_type' =
     [(''messaging.system'', system), (''messaging.operation.name'', operation)]
     @ (if is_blank_ascii destination then [] else [(''messaging.destination.name'', destination)])
     @ (if err_type' \<noteq> [] then [(''error.type'', err_type')] else [])"

definition run_opt :: "('w \<Rightarrow> 'w) option \<Rightarrow> 'w \<Rightarrow> 'w" where
  "run_opt f w = (case f of None \<Rightarrow> w | Some g \<Rightarrow> g w)"

definition created :: "go_error + 'a \<Rightarrow> 'a option" where
  "created r = (case r of Inl e \<Rightarrow> None | Inr i \<Rightarrow> Some i)"

definition message_unit :: bytes where "message_unit = ''{message}''"

definition process_duration_buckets :: "int list" where
  "process_duration_buckets = [5, 10, 25, 50, 75, 100, 250, 500, 750, 1000, 2500, 5000, 7500, 10000]"

definition new_counter :: "'w meter \<Rightarrow> bytes \<Rightarrow> bytes \<Rightarrow> ((bytes \<times> bytes) list \<Rightarrow> 'w \<Rightarrow> 'w) option" where
  "new_counter m name description = created (mt_counter m name message_unit description)"

definition dead_letter_counter :: "'w meter \<Rightarrow> ((bytes \<times> bytes) list \<Rightarrow> 'w \<Rightarrow> 'w) option" where
  "dead_letter_counter m = new_counter m metric_dead_letters ''Number of dead-letters the SDK carried out.''"

definition new_instruments :: "'w meter option \<Rightarrow> 'w instruments option" where
  "new_instruments meter =
     (case meter of
        None \<Rightarrow> None
      | Some m \<Rightarrow> Some
          \<lparr>in_duration = created (mt_histogram m metric_process_duration ''s''
             ''Duration of processing one delivery in the handler.'' process_duration_buckets),
           in_sent = new_counter m metric_sent_messages ''Number of publish attempts.'',
           in_consumed = new_counter m metric_consumed_messages
             ''Number of deliveries that entered the consumer wrapper.'',
           in_retries = new_counter m metric_retries
             ''Number of deliveries that were already attempted before (attempts > 0).'',
           in_dlq = dead_letter_counter m\<rparr>)"

definition delivered :: "'w instruments option \<Rightarrow> bytes \<Rightarrow> envelope \<Rightarrow> 'w \<Rightarrow> 'w" where
  "delivered inst system env w =
     (case inst of
        None \<Rightarrow> w
      | Some i \<Rightarrow>
          let attrs = metric_attrs system ''process'' (meta_queue (env_meta env)) [];
              w1 = run_opt (map_option (\<lambda>f. f attrs) (in_consumed i)) w
          in if 0 < env_attempts env then run_opt (map_option (\<lambda>f. f attrs) (in_retries i)) w1 else w1)"

definition processed :: "'w instruments option \<Rightarrow> bytes \<Rightarrow> bytes \<Rightarrow> int \<Rightarrow> bytes \<Rightarrow> 'w \<Rightarrow> 'w" where
  "processed inst system destination d err_type' w =
     (case inst of
        None \<Rightarrow> w
      | Some i \<Rightarrow> run_opt (map_option (\<lambda>f. f d (metric_attrs system ''process'' destination err_type')) (in_duration i)) w)"

definition sent :: "'w instruments option \<Rightarrow> bytes \<Rightarrow> bytes \<Rightarrow> bytes \<Rightarrow> 'w \<Rightarrow> 'w" where
  "sent inst system destination err_type' w =
     (case inst of
        None \<Rightarrow> w
      | Some i \<Rightarrow> run_opt (map_option (\<lambda>f. f (metric_attrs system ''send'' destination err_type')) (in_sent i)) w)"

definition dead_letter_observer :: "'w otel_config \<Rightarrow> delivery_ctx \<Rightarrow> dead_letter_event \<Rightarrow> 'w \<Rightarrow> 'w" where
  "dead_letter_observer c ctx ev w =
     (case oc_meter c of
        None \<Rightarrow> w
      | Some m \<Rightarrow>
          run_opt (map_option (\<lambda>f. f (metric_attrs (oc_system c) ''process'' (ev_queue ev) [])) (dead_letter_counter m)) w)"

subsection \<open>Consuming under a span\<close>

definition error_type :: "go_error \<Rightarrow> bytes" where
  "error_type e = (if err_type e \<noteq> [] \<and> err_type e \<noteq> ''<nil>'' then err_type e else ''_OTHER'')"

definition record_failure :: "'w telemetry \<Rightarrow> nat \<Rightarrow> go_error \<Rightarrow> 'w \<Rightarrow> 'w" where
  "record_failure tel span e w =
     tl_set_attributes tel span [(''error.type'', AttrText (error_type e))]
       (tl_set_status tel span (err_text e) (tl_record_error tel span e w))"

definition consume_attrs :: "'w otel_config \<Rightarrow> envelope \<Rightarrow> (bytes \<times> attr_value) list" where
  "consume_attrs c env =
     [(''messaging.system'', AttrText (oc_system c)), (''messaging.operation.type'', AttrText ''process''),
      (''messaging.operation.name'', AttrText ''process''),
      (''messaging.message.conversation_id'', AttrText (env_trace_id env)), (''babelqueue.urn'', AttrText (urn env)),
      (''babelqueue.schema_version'', AttrInt (meta_schema_version (env_meta env))),
      (''babelqueue.attempts'', AttrInt (env_attempts env)), (''messaging.operation'', AttrText ''process''),
      (''messaging.babelqueue.attempts'', AttrInt (env_attempts env))]
     @ (if is_blank_ascii (meta_queue (env_meta env)) then []
        else [(''messaging.destination.name'', AttrText (meta_queue (env_meta env)))])
     @ (if meta_id (env_meta env) \<noteq> [] then [(''messaging.message.id'', AttrText (meta_id (env_meta env)))] else [])
     @ (if oc_consumer_group c \<noteq> [] then [(''messaging.consumer.group.name'', AttrText (oc_consumer_group c))] else [])"

definition process_name :: "envelope \<Rightarrow> bytes" where
  "process_name env =
     (if is_blank_ascii (meta_queue (env_meta env)) then ''process'' else ''process '' @ meta_queue (env_meta env))"

definition consumer_parent :: "'w telemetry \<Rightarrow> delivery_ctx \<Rightarrow> envelope \<Rightarrow> span_context" where
  "consumer_parent tel ctx env =
     (case remote_parent_from_headers (tl_extract tel) ctx of
        Some sc \<Rightarrow> sc
      | None \<Rightarrow> parent_of (tl_sha256 tel) (env_trace_id env))"

text \<open>The warner: the log is written for an id that is hashed and was not seen; at most 1024 are remembered.\<close>

definition max_warned_trace_ids :: nat where "max_warned_trace_ids = 1024"
definition max_logged_trace_id :: nat where "max_logged_trace_id = 64"

definition warn_check :: "(bytes \<Rightarrow> 8 word list) \<Rightarrow> bytes \<Rightarrow> unit smap \<Rightarrow> bytes option \<times> unit smap" where
  "warn_check sha trace_id seen =
     (if \<not> snd (map_trace_id sha trace_id) then (None, seen)
      else if smap_get seen trace_id \<noteq> None then (None, seen)
      else let seen' = smap_put trace_id () (if max_warned_trace_ids \<le> length seen then [] else seen)
           in (Some (if max_logged_trace_id < length (runes trace_id)
                     then sanitize (take (rune_index max_logged_trace_id trace_id) trace_id) @ ''...'' else trace_id), seen'))"

definition warn_hashed :: "'w telemetry \<Rightarrow> bytes \<Rightarrow> 'w \<Rightarrow> 'w" where
  "warn_hashed tel trace_id w =
     (case warn_check (tl_sha256 tel) trace_id (tl_warned tel w) of
        (logged, seen) \<Rightarrow>
          let w' = tl_set_warned tel seen w in (case logged of None \<Rightarrow> w' | Some t \<Rightarrow> tl_warn tel t w'))"

definition traced_handler :: "'w telemetry \<Rightarrow> 'w otel_config \<Rightarrow> 'w handler \<Rightarrow> 'w handler" where
  "traced_handler tel c h ctx env w =
     (case tl_start tel (Some (consumer_parent tel ctx env)) (process_name env) ConsumerKind (consume_attrs c env)
             (if remote_parent_from_headers (tl_extract tel) ctx = None then warn_hashed tel (env_trace_id env) w else w) of
        (span, w1) \<Rightarrow>
          let w2 = delivered (new_instruments (oc_meter c)) (oc_system c) env w1; start = tl_clock tel w2 in
          (case h ctx env w2 of
             (err, w3) \<Rightarrow>
               let w4 = (case err of None \<Rightarrow> w3 | Some e \<Rightarrow> record_failure tel span e w3);
                   failure = (case err of None \<Rightarrow> [] | Some e \<Rightarrow> error_type e);
                   w5 = processed (new_instruments (oc_meter c)) (oc_system c) (meta_queue (env_meta env)) (tl_clock tel w4 - start) failure w4
               in (err, tl_end tel span w5)))"

subsection \<open>Publishing under a span\<close>

definition send_attrs :: "'w otel_config \<Rightarrow> bytes \<Rightarrow> (bytes \<times> attr_value) list" where
  "send_attrs c u =
     [(''messaging.system'', AttrText (oc_system c)), (''messaging.operation.type'', AttrText ''send''),
      (''messaging.operation.name'', AttrText ''send''), (''babelqueue.urn'', AttrText u),
      (''babelqueue.schema_version'', AttrInt schema_version), (''messaging.operation'', AttrText ''publish'')]"

record 'w publisher =
  pb_tracer :: "'w telemetry"
  pb_app :: "'w app"
  pb_config :: "'w otel_config"
  pb_instruments :: "'w instruments option"

definition new_publisher :: "'w telemetry \<Rightarrow> 'w app \<Rightarrow> ('w otel_config \<Rightarrow> 'w otel_config) list \<Rightarrow> 'w publisher" where
  "new_publisher tel a opts =
     (let c = new_otel_config opts
      in \<lparr>pb_tracer = tel, pb_app = a, pb_config = c, pb_instruments = new_instruments (oc_meter c)\<rparr>)"

definition traced_publish ::
  "'w runtime \<Rightarrow> 'w publisher \<Rightarrow> bytes \<Rightarrow> goval smap option \<Rightarrow> make_option list
   \<Rightarrow> 'w \<Rightarrow> (go_error + bytes) \<times> 'w" where
  "traced_publish rt p u data opts w =
     (let u' = trim_ascii u; tel = pb_tracer p in
      case tl_start tel None ''send'' ProducerKind (send_attrs (pb_config p) u') w of
        (span, w1) \<Rightarrow>
          (case publish_envelope_with_headers rt (pb_app p) u' data (inject_traceparent tel span w1 None)
                  (opts @ [WithTraceID (uuid_of (sc_trace (tl_context tel span w1)))]) w1 of
             ((env, err), w2) \<Rightarrow>
               let handed = (meta_id (env_meta env) \<noteq> []);
                   destination = (if handed \<and> \<not> is_blank_ascii (meta_queue (env_meta env)) then meta_queue (env_meta env) else []);
                   w3 = (if destination \<noteq> []
                         then tl_set_attributes tel span [(''messaging.destination.name'', AttrText destination)]
                                (tl_set_name tel span (''send '' @ destination) w2) else w2);
                   w4 = (if handed
                         then tl_set_attributes tel span
                                [(''messaging.message.id'', AttrText (meta_id (env_meta env))),
                                 (''messaging.message.conversation_id'', AttrText (env_trace_id env))] w3 else w3);
                   w5 = (case err of None \<Rightarrow> w4 | Some e \<Rightarrow> record_failure tel span e w4);
                   w6 = sent (pb_instruments p) (oc_system (pb_config p)) destination
                          (case err of None \<Rightarrow> [] | Some e \<Rightarrow> error_type e) w5
               in ((case err of None \<Rightarrow> Inr (meta_id (env_meta env)) | Some e \<Rightarrow> Inl e), tl_end tel span w6)))"

text \<open>The deprecated entry point: a publisher with the default options for one message.\<close>

definition default_publish ::
  "'w telemetry \<Rightarrow> 'w runtime \<Rightarrow> 'w app \<Rightarrow> bytes \<Rightarrow> goval smap option \<Rightarrow> make_option list
   \<Rightarrow> 'w \<Rightarrow> (go_error + bytes) \<times> 'w" where
  "default_publish tel rt a u data opts w = traced_publish rt (new_publisher tel a []) u data opts w"

end
