(* ===== verification/OtelLaws.thy ===== *)
theory OtelLaws
  imports Otel AppLaws
begin

section \<open>Laws of tracing\<close>

text \<open>
  The sixteen bytes of a trace id and the UUID text an envelope carries stand for each other, so a trace goes on
  across a broker that carries no headers.
\<close>

lemma hex_decode_append_byte: "hex_decode (hex_byte b @ s) = map_option ((#) b) (hex_decode s)"
proof -
  have "unat (drop_bit 4 b) < 16" "unat (b AND 0x0F) < 16" by (rule nibble_bounds)+
  moreover have "16 * unat (drop_bit 4 b) + unat (b AND 0x0F) = unat b"
  proof -
    have "b AND 0x0F = take_bit 4 b" by (simp add: take_bit_eq_mask mask_eq_exp_minus_1)
    then have "unat (b AND 0x0F) = unat b mod 16"
      using take_bit_eq_mod [of 4 "unat b"] by (simp add: unsigned_take_bit_eq)
    moreover have "unat (drop_bit 4 b) = unat b div 16" unfolding unat_drop_bit_eq by (simp add: drop_bit_eq_div)
    ultimately show ?thesis by presburger
  qed
  ultimately show ?thesis by (simp add: hex_byte_def)
qed

lemma hex_decode_bytes [simp]: "hex_decode (hex_bytes bs) = Some bs"
  by (induction bs) (simp_all add: hex_decode_append_byte)

lemma hex_bytes_append [simp]: "hex_bytes (as @ bs) = hex_bytes as @ hex_bytes bs"
  by (simp add: hex_bytes_def)

lemma filter_dash_hex [simp]: "filter (\<lambda>c. c \<noteq> CHR ''-'') (hex_bytes bs) = hex_bytes bs"
proof (rule filter_True, rule ballI)
  fix c
  assume "c \<in> set (hex_bytes bs)"
  then have "is_hex c" using hex_bytes_props [of bs] by (auto simp: list_all_iff)
  then show "c \<noteq> CHR ''-''" by (auto simp: is_hex_def in_range_def)
qed

lemma uuid_bytes_uuid_of:
  assumes "length t = 16"
  shows "uuid_bytes (uuid_of t) = Some t"
proof -
  have "filter (\<lambda>c. c \<noteq> CHR ''-'') (uuid_of t) =
      hex_bytes (take 4 t @ take 2 (drop 4 t) @ take 2 (drop 6 t) @ take 2 (drop 8 t) @ take 6 (drop 10 t))"
    by (simp add: uuid_of_def)
  also have "take 4 t @ take 2 (drop 4 t) @ take 2 (drop 6 t) @ take 2 (drop 8 t) @ take 6 (drop 10 t) = t"
  proof -
    have "take 6 (drop 10 t) = drop 10 t" using assms by simp
    moreover have "take 2 (drop 8 t) @ drop 10 t = drop 8 t" using append_take_drop_id [of 2 "drop 8 t"] by simp
    moreover have "take 2 (drop 6 t) @ drop 8 t = drop 6 t" using append_take_drop_id [of 2 "drop 6 t"] by simp
    moreover have "take 2 (drop 4 t) @ drop 6 t = drop 4 t" using append_take_drop_id [of 2 "drop 4 t"] by simp
    ultimately show ?thesis by simp
  qed
  finally show ?thesis using assms hex_bytes_props [of t] by (simp add: uuid_bytes_def)
qed

lemma map_trace_id_uuid: "length t = 16 \<Longrightarrow> \<not> all_zero t \<Longrightarrow> map_trace_id sha (uuid_of t) = (t, False)"
  by (simp add: map_trace_id_def uuid_bytes_uuid_of)

lemma span_id_valid:
  assumes "8 \<le> length (sha (''babelqueue-span:'' @ i))"
  shows "\<not> all_zero (span_id_of sha i)"
proof (cases "all_zero (take 8 (sha (''babelqueue-span:'' @ i)))")
  case True
  then have "span_id_of sha i = (take 8 (sha (''babelqueue-span:'' @ i)))[7 := 1]" by (simp add: span_id_of_def)
  then have "span_id_of sha i ! 7 = 1" "7 < length (span_id_of sha i)" using assms by simp_all
  then show ?thesis by (auto simp: all_zero_def list_all_length)
qed (simp add: span_id_of_def)

lemma uuid_of_hex: "list_all (\<lambda>c. is_hex c \<or> c = CHR ''-'') (uuid_of t)"
proof -
  have "list_all (\<lambda>c. is_hex c \<or> c = CHR ''-'') (hex_bytes bs)" for bs
    using hex_bytes_props [of bs] by (auto simp: list_all_iff)
  then show ?thesis by (simp add: uuid_of_def)
qed

lemma uuid_of_nonempty [simp]: "uuid_of t \<noteq> []"
  by (simp add: uuid_of_def)

lemma uuid_of_trim: "trim_ascii (uuid_of t) = uuid_of t"
  unfolding trim_ascii_def
proof (rule trim_cutset_untouched)
  have "c \<notin> set ascii_whitespace" if "is_hex c \<or> c = CHR ''-''" for c
    using that by (auto simp: ascii_whitespace_def is_hex_def in_range_def)
  then have "\<forall>c \<in> set (uuid_of t). c \<notin> set ascii_whitespace" using uuid_of_hex [of t] by (auto simp: list_all_iff)
  then show "uuid_of t = [] \<or> hd (uuid_of t) \<notin> set ascii_whitespace \<and> last (uuid_of t) \<notin> set ascii_whitespace"
    by simp
qed

lemma apfst_Pair: "apfst (Pair x) p = ((y, e), w) \<Longrightarrow> y = x"
  by (cases p) simp

lemma Make_trace_id:
  assumes "Make rnd1 rnd2 now u data (opts @ [WithTraceID t]) = Inr e" and "trim_ascii t = t" and "t \<noteq> []"
  shows "env_trace_id e = t"
  using assms by (auto simp: Make_def Let_def split: if_splits option.splits)

text \<open>A publish under a span that succeeds has handed the envelope to the transport, with the span's trace as its
  trace id.\<close>

lemma traced_publish_sends:
  assumes "fst (traced_publish rt p u data opts w) = Inr i"
    and "tl_start (pb_tracer p) None ''send'' ProducerKind (send_attrs (pb_config p) (trim_ascii u)) w = (span, w1)"
  shows "\<exists>env w2. publish_envelope_with_headers rt (pb_app p) (trim_ascii u) data (inject_traceparent (pb_tracer p) span w1 None)
      (opts @ [WithTraceID (uuid_of (sc_trace (tl_context (pb_tracer p) span w1)))]) w1 = ((env, None), w2)
    \<and> meta_id (env_meta env) = i"
proof -
  obtain env err w2 where p: "publish_envelope_with_headers rt (pb_app p) (trim_ascii u) data
      (inject_traceparent (pb_tracer p) span w1 None)
      (opts @ [WithTraceID (uuid_of (sc_trace (tl_context (pb_tracer p) span w1)))]) w1 = ((env, err), w2)"
    by (metis surj_pair)
  then have "err = None" "meta_id (env_meta env) = i"
    using assms(1) unfolding traced_publish_def Let_def assms(2) by (auto split: option.splits)
  then show ?thesis using p by simp
qed

lemma sent_trace_id:
  assumes "publish_envelope_with_headers rt a (trim_ascii u) data h (opts @ [WithTraceID (uuid_of t)]) w = ((env, None), w')"
  shows "env_trace_id env = uuid_of t"
proof -
  obtain e where "Make (rt_uuid rt 0 w) (rt_uuid rt 1 w) (rt_now rt w) (trim_ascii u) data
      ((WithQueue (app_queue a) # opts) @ [WithTraceID (uuid_of t)]) = Inr e" "env = e"
    using assms by (auto simp: publish_envelope_with_headers_def dest: apfst_Pair split: sum.splits option.splits prod.splits)
  then show ?thesis using Make_trace_id uuid_of_trim uuid_of_nonempty by blast
qed

text \<open>C35. The trace goes on at the consumer. A publish that succeeds under a span sends an envelope whose trace id is the
  UUID text of the span's trace; any consumer that gets this envelope with no usable \<open>traceparent\<close> header beside it
  opens its span under a valid parent of the very same trace, and no warning about a hashed id is logged.\<close>

theorem trace_continues:
  assumes "fst (traced_publish rt p u data opts w) = Inr i"
    and "tl_start (pb_tracer p) None ''send'' ProducerKind (send_attrs (pb_config p) (trim_ascii u)) w = (span, w1)"
    and "t = sc_trace (tl_context (pb_tracer p) span w1)" and "length t = 16" and "\<not> all_zero t"
    and "\<forall>x. length (tl_sha256 tel x) = 32"
  shows "\<exists>env w2. publish_envelope_with_headers rt (pb_app p) (trim_ascii u) data (inject_traceparent (pb_tracer p) span w1 None)
        (opts @ [WithTraceID (uuid_of t)]) w1 = ((env, None), w2)
    \<and> meta_id (env_meta env) = i \<and> env_trace_id env = uuid_of t
    \<and> (\<forall>ctx env' seen. env_trace_id env' = env_trace_id env \<and> remote_parent_from_headers (tl_extract tel) ctx = None \<longrightarrow>
         sc_trace (consumer_parent tel ctx env') = t \<and> valid_context (consumer_parent tel ctx env')
         \<and> fst (warn_check (tl_sha256 tel) (env_trace_id env') seen) = None)"
proof -
  obtain env w2 where p: "publish_envelope_with_headers rt (pb_app p) (trim_ascii u) data
      (inject_traceparent (pb_tracer p) span w1 None) (opts @ [WithTraceID (uuid_of t)]) w1 = ((env, None), w2)"
    and e: "meta_id (env_meta env) = i"
    using traced_publish_sends [OF assms(1,2)] unfolding assms(3) by blast
  have tid: "env_trace_id env = uuid_of t" by (rule sent_trace_id [OF p])
  have m: "map_trace_id (tl_sha256 tel) (uuid_of t) = (t, False)" by (rule map_trace_id_uuid [OF assms(4,5)])
  then have "valid_context (parent_of (tl_sha256 tel) (uuid_of t))" "sc_trace (parent_of (tl_sha256 tel) (uuid_of t)) = t"
    using span_id_valid [of "tl_sha256 tel" "uuid_of t"] assms(5,6)
    by (simp_all add: valid_context_def parent_of_def trace_id_of_def)
  then show ?thesis using p e tid m by (simp add: consumer_parent_def warn_check_def)
qed

definition sample_trace :: "8 word list" where
  "sample_trace = replicate 15 0 @ [1]"

definition sample_telemetry :: "(queues \<times> nat) telemetry" where
  "sample_telemetry =
     \<lparr>tl_extract = (\<lambda>_. None), tl_sha256 = (\<lambda>_. replicate 32 7), tl_start = (\<lambda>p n k as w. (0, w)),
      tl_context = (\<lambda>_ _. \<lparr>sc_trace = sample_trace, sc_span = replicate 8 1, sc_flags = 1, sc_remote = False\<rparr>),
      tl_inject = (\<lambda>_ _. []), tl_set_name = (\<lambda>_ _ w. w), tl_set_attributes = (\<lambda>_ _ w. w), tl_record_error = (\<lambda>_ _ w. w), tl_set_status = (\<lambda>_ _ w. w),
      tl_end = (\<lambda>_ w. w), tl_clock = (\<lambda>_. 0), tl_warned = (\<lambda>_. []),
      tl_set_warned = (\<lambda>_ w. w), tl_warn = (\<lambda>_ w. w)\<rparr>"

lemma sample_traced:
  assumes "tel = sample_telemetry\<lparr>tl_inject := f, tl_extract := g\<rparr>"
  shows "\<exists>i. fst (traced_publish sample_runtime (new_publisher tel sample_app []) ''u:x'' None [] ([], 0)) = Inr i"
proof -
  let ?o = "[WithQueue ''default'', WithTraceID (uuid_of sample_trace)]" and ?h = "inject_traceparent tel 0 ([], 0) None"
  define E where "E = projr (Make (replicate 16 0) (replicate 16 0) 7 ''u:x'' None ?o)"
  have u: "trim_ascii ''u:x'' = ''u:x''" by code_simp
  then have mk: "Make (replicate 16 0) (replicate 16 0) 7 ''u:x'' None ?o = Inr E"
    by (simp add: E_def Make_def Let_def)
  have "utf8_ok (uuid_of sample_trace)" using uuid_of_hex utf8_ok_hex by blast
  then have ok: "envelope_ok E"
    using Make_ok [OF mk] by (simp add: int64_ok_def min_int64_def max_int64_def data_json_def)
  have q: "app_queue sample_app = ''default''" "app_transport sample_app = in_memory_transport"
    using sample_on_memory
    by (simp_all add: on_memory_def sample_app_def handle_def new_app_def default_app_def with_dead_letter_def)
  have "\<exists>w'. publish_envelope_with_headers sample_runtime sample_app ''u:x'' None ?h [WithTraceID (uuid_of sample_trace)] ([], 0)
      = ((E, None), w')"
    using mk encode_ok [OF ok]
    by (cases "?h = []") (simp_all add: publish_envelope_with_headers_def q sample_runtime_def im_publish_def im_publish_with_headers_def)
  then obtain w' where "publish_envelope_with_headers sample_runtime sample_app ''u:x'' None ?h [WithTraceID (uuid_of sample_trace)] ([], 0)
      = ((E, None), w')" ..
  then show ?thesis
    unfolding assms by (simp add: traced_publish_def new_publisher_def Let_def u sample_telemetry_def)
qed

theorem trace_continues_witness:
  "\<exists>env w2. publish_envelope_with_headers sample_runtime sample_app ''u:x'' None [] [WithTraceID (uuid_of sample_trace)] ([], 0) = ((env, None), w2)
    \<and> sc_trace (consumer_parent sample_telemetry background env) = sample_trace"
proof -
  obtain i where i: "fst (traced_publish sample_runtime (new_publisher sample_telemetry sample_app []) ''u:x'' None [] ([], 0)) = Inr i"
    using sample_traced [of sample_telemetry "\<lambda>_. None" "\<lambda>_ _. []"] by (auto simp: sample_telemetry_def)
  have u: "trim_ascii ''u:x'' = ''u:x''" by code_simp
  let ?p = "new_publisher sample_telemetry sample_app []"
  have st: "tl_start (pb_tracer ?p) None ''send'' ProducerKind (send_attrs (pb_config ?p) (trim_ascii ''u:x'')) ([], 0) = (0, ([], 0))"
    "sample_trace = sc_trace (tl_context (pb_tracer ?p) 0 ([], 0))" "\<forall>x. length (tl_sha256 sample_telemetry x) = 32"
    "inject_traceparent (pb_tracer ?p) 0 ([], 0) None = []" "pb_app ?p = sample_app"
    by (simp_all add: sample_telemetry_def new_publisher_def inject_traceparent_def Let_def)
  have t: "length sample_trace = 16" "\<not> all_zero sample_trace" by (simp_all add: sample_trace_def all_zero_def)
  have "remote_parent_from_headers (tl_extract sample_telemetry) background = None"
    by (simp add: remote_parent_from_headers_def extract_remote_parent_def sample_telemetry_def)
  then show ?thesis using trace_continues [OF i st(1,2) t st(3)] by (auto simp: u st(4,5))
qed

subsection \<open>The span link\<close>


definition linked_telemetry :: "(queues \<times> nat) telemetry" where
  "linked_telemetry = sample_telemetry
     \<lparr>tl_inject := (\<lambda>_ _. [(w3c_traceparent, ''00'')]),
      tl_extract := (\<lambda>h. Some \<lparr>sc_trace = sample_trace, sc_span = replicate 8 1, sc_flags = 1, sc_remote = True\<rparr>)\<rparr>"


subsection \<open>The warnings\<close>

text \<open>A run of deliveries without headers: the warnings, and the ids that are remembered.\<close>

fun warn_all :: "(bytes \<Rightarrow> 8 word list) \<Rightarrow> bytes list \<Rightarrow> unit smap \<Rightarrow> bytes option list \<times> unit smap" where
  "warn_all sha [] seen = ([], seen)"
| "warn_all sha (t # ts) seen =
     (case warn_check sha t seen of (l, seen1) \<Rightarrow> (case warn_all sha ts seen1 of (ls, seen2) \<Rightarrow> (l # ls, seen2)))"

definition hashed_id :: "(bytes \<Rightarrow> 8 word list) \<Rightarrow> bytes \<Rightarrow> bool" where
  "hashed_id sha t \<longleftrightarrow> snd (map_trace_id sha t)"

lemma smap_length: "smap_ok m \<Longrightarrow> length m = card (fst ` set m)"
  using distinct_card [OF smap_ok_distinct] by fastforce

lemma warn_check_seen:
  assumes "smap_ok seen" and "length seen \<le> max_warned_trace_ids"
  shows "smap_ok (snd (warn_check sha t seen)) \<and> length (snd (warn_check sha t seen)) \<le> max_warned_trace_ids"
proof (cases "hashed_id sha t \<and> smap_get seen t = None")
  case True
  then have t: "t \<notin> fst ` set seen" by (simp add: map_of_eq_None_iff)
  have "length (smap_put t () seen) = Suc (length seen)"
    using smap_length [OF assms(1)] smap_length [OF smap_ok_put [OF assms(1)]] t by (simp add: set_smap_keys_put)
  then show ?thesis using True assms by (auto simp: warn_check_def hashed_id_def Let_def max_warned_trace_ids_def)
next
  case False
  then show ?thesis using assms by (auto simp: warn_check_def hashed_id_def)
qed

lemma warn_all_seen:
  "smap_ok seen \<Longrightarrow> length seen \<le> max_warned_trace_ids \<Longrightarrow> length (snd (warn_all sha ts seen)) \<le> max_warned_trace_ids"
proof (induction ts arbitrary: seen)
  case (Cons t ts)
  have "length (snd (warn_all sha ts (snd (warn_check sha t seen)))) \<le> max_warned_trace_ids"
    using Cons.IH warn_check_seen [OF Cons.prems] by blast
  then show ?case by (simp add: case_prod_beta)
qed simp

lemma warn_all_count:
  assumes "smap_ok seen" and "card (fst ` set seen \<union> {t \<in> set ts. hashed_id sha t}) \<le> max_warned_trace_ids"
  shows "length (filter (\<lambda>l. l \<noteq> None) (fst (warn_all sha ts seen))) = card ({t \<in> set ts. hashed_id sha t} - fst ` set seen)"
  using assms
proof (induction ts arbitrary: seen)
  case (Cons t ts)
  let ?S = "fst ` set seen" and ?H = "{t \<in> set ts. hashed_id sha t}"
  show ?case
  proof (cases "hashed_id sha t \<and> t \<notin> ?S")
    case True
    then have none: "smap_get seen t = None" by (simp add: map_of_eq_None_iff)
    have H: "{x \<in> set (t # ts). hashed_id sha x} = insert t ?H" using True by auto
    have "card (insert t ?S) \<le> card (?S \<union> insert t ?H)" by (rule card_mono) auto
    then have "Suc (card ?S) \<le> max_warned_trace_ids" using Cons.prems(2) True unfolding H by simp
    then have room: "\<not> max_warned_trace_ids \<le> length seen" using smap_length [OF Cons.prems(1)] by simp
    obtain l where w: "warn_check sha t seen = (Some l, smap_put t () seen)"
      using True none room by (simp add: warn_check_def hashed_id_def Let_def)
    have "card (insert t ?S \<union> ?H) \<le> max_warned_trace_ids" using Cons.prems(2) unfolding H by simp
    then have "length (filter (\<lambda>l. l \<noteq> None) (fst (warn_all sha ts (smap_put t () seen)))) = card (?H - insert t ?S)"
      using Cons.IH [of "smap_put t () seen"] Cons.prems(1) by (simp add: set_smap_keys_put)
    moreover have "insert t ?H - ?S = insert t (?H - insert t ?S)" "t \<notin> ?H - insert t ?S" "finite (?H - insert t ?S)"
      using True by auto
    ultimately show ?thesis using w unfolding H by (simp add: case_prod_beta)
  next
    case False
    then have "hashed_id sha t \<longrightarrow> smap_get seen t \<noteq> None" by (auto simp: map_of_eq_None_iff)
    then have w: "warn_check sha t seen = (None, seen)" by (auto simp: warn_check_def hashed_id_def)
    have H: "{x \<in> set (t # ts). hashed_id sha x} - ?S = ?H - ?S" using False by auto
    have "card (?S \<union> ?H) \<le> card (?S \<union> {x \<in> set (t # ts). hashed_id sha x})" by (rule card_mono) auto
    then have "card (?S \<union> ?H) \<le> max_warned_trace_ids" using Cons.prems(2) by simp
    then show ?thesis using Cons.IH [OF Cons.prems(1)] w unfolding H by (simp add: case_prod_beta)
  qed
qed simp

text \<open>The warning about hashed trace ids is given once per id and costs bounded memory. Whatever trace ids arrive, the
  wrapper never remembers more than 1024 of them; and as long as no more than 1024 different ones had to be hashed,
  the warnings of a run are exactly as many as the different hashed ids in it.\<close>

theorem warnings_bounded:
  "length (snd (warn_all sha ts [])) \<le> 1024
    \<and> (1024 < card {t \<in> set ts. hashed_id sha t}
       \<or> length (filter (\<lambda>l. l \<noteq> None) (fst (warn_all sha ts []))) = card {t \<in> set ts. hashed_id sha t})"
  using warn_all_seen [of "[]" sha ts] warn_all_count [of "[]" ts sha]
  by (cases "1024 < card {t \<in> set ts. hashed_id sha t}") (simp_all add: max_warned_trace_ids_def not_less)

end
