(* ===== verification/Provider.thy ===== *)
theory Provider
  imports Schema
begin

section \<open>The directory provider\<close>

text \<open>
  The rest of \<open>schema/provider.go\<close>: the manifest of a registry, read by \<open>encoding/json\<close> into Go structs, the
  paths of its schema files, resolved by \<open>path/filepath\<close> as on Unix, and the provider that reads a schema
  file when its URN is first asked for and keeps what it parsed. Reading a file is an argument. The lemmas show
  that the cache never shows: a provider answers as if it read the files anew every time.
\<close>

subsection \<open>Slash-separated paths\<close>

fun split_slash_from :: "bytes \<Rightarrow> bytes \<Rightarrow> bytes list" where
  "split_slash_from part [] = [part]"
| "split_slash_from part (c # s) =
     (if c = CHR ''/'' then part # split_slash_from [] s else split_slash_from (part @ [c]) s)"

text \<open>One path element over the elements before it, the nearest first: empty elements and dots vanish, two dots
  take the element before away, unless that is a pair of dots itself, or nothing.\<close>

fun clean_step :: "bool \<Rightarrow> bytes \<Rightarrow> bytes list \<Rightarrow> bytes list" where
  "clean_step rooted e st =
     (if e = [] \<or> e = ''.'' then st
      else if e = ''..'' then
        (case st of
           [] \<Rightarrow> if rooted then [] else [''..'']
         | t # ts \<Rightarrow> if t = ''..'' then ''..'' # st else ts)
      else e # st)"

definition path_is_abs :: "bytes \<Rightarrow> bool" where
  "path_is_abs p \<longleftrightarrow> take 1 p = ''/''"

definition path_clean :: "bytes \<Rightarrow> bytes" where
  "path_clean p =
     (if p = [] then ''.''
      else let es = rev (fold (clean_step (path_is_abs p)) (split_slash_from [] p) [])
           in if path_is_abs p then ''/'' @ intersperse ''/'' es
              else if es = [] then ''.'' else intersperse ''/'' es)"

definition path_dir :: "bytes \<Rightarrow> bytes" where
  "path_dir p = path_clean (rev (dropWhile (\<lambda>c. c \<noteq> CHR ''/'') (rev p)))"

definition path_join :: "bytes \<Rightarrow> bytes \<Rightarrow> bytes" where
  "path_join a b =
     (if a \<noteq> [] then path_clean (a @ ''/'' @ b) else if b \<noteq> [] then path_clean b else [])"

subsection \<open>The manifest\<close>

text \<open>Decoding into a struct. A member goes to the field of its name, a \<open>null\<close> leaves a field as it is, and \<open>None\<close> is
  a value that does not fit: the decoder goes on after the first of these and returns the error at the end.\<close>

record manifest_entry =
  me_urn :: bytes
  me_schema :: bytes

definition string_into :: "json \<Rightarrow> bytes \<Rightarrow> bytes option" where
  "string_into v old = (case v of JNull \<Rightarrow> Some old | JStr b \<Rightarrow> Some (unquote b) | _ \<Rightarrow> None)"

fun entry_members :: "(bytes \<times> json) list \<Rightarrow> manifest_entry \<Rightarrow> manifest_entry option" where
  "entry_members [] e = Some e"
| "entry_members ((k, v) # ms) e =
     (if is_field ''urn'' (unquote k) then
        Option.bind (string_into v (me_urn e)) (\<lambda>x. entry_members ms (e\<lparr>me_urn := x\<rparr>))
      else if is_field ''schema'' (unquote k) then
        Option.bind (string_into v (me_schema e)) (\<lambda>x. entry_members ms (e\<lparr>me_schema := x\<rparr>))
      else entry_members ms e)"

definition zero_entry :: manifest_entry where
  "zero_entry = \<lparr>me_urn = [], me_schema = []\<rparr>"

definition entry_into :: "json \<Rightarrow> manifest_entry \<Rightarrow> manifest_entry option" where
  "entry_into v e = (case v of JNull \<Rightarrow> Some e | JObj ms \<Rightarrow> entry_members ms e | _ \<Rightarrow> None)"

text \<open>An array is decoded over the elements the slice had, those past its length included, when the same member
  comes a second time; \<open>null\<close> and the empty array give up the old elements.\<close>

record entry_slice =
  es_length :: nat
  es_backing :: "manifest_entry list"

fun elements_into :: "json list \<Rightarrow> manifest_entry list \<Rightarrow> manifest_entry list option" where
  "elements_into [] old = Some old"
| "elements_into (v # vs) old =
     Option.bind (entry_into v (case old of [] \<Rightarrow> zero_entry | e # _ \<Rightarrow> e))
       (\<lambda>e. map_option ((#) e) (elements_into vs (tl old)))"

definition nil_slice :: entry_slice where
  "nil_slice = \<lparr>es_length = 0, es_backing = []\<rparr>"

definition slice_into :: "json \<Rightarrow> entry_slice \<Rightarrow> entry_slice option" where
  "slice_into v s =
     (case v of
        JNull \<Rightarrow> Some nil_slice
      | JArr [] \<Rightarrow> Some nil_slice
      | JArr vs \<Rightarrow> map_option (\<lambda>b. \<lparr>es_length = length vs, es_backing = b\<rparr>) (elements_into vs (es_backing s))
      | _ \<Rightarrow> None)"

fun manifest_members :: "(bytes \<times> json) list \<Rightarrow> entry_slice \<Rightarrow> entry_slice option" where
  "manifest_members [] s = Some s"
| "manifest_members ((k, v) # ms) s =
     (if is_field ''schemas'' (unquote k) then Option.bind (slice_into v s) (manifest_members ms)
      else manifest_members ms s)"

definition manifest_of :: "json \<Rightarrow> manifest_entry list option" where
  "manifest_of v =
     map_option (\<lambda>s. take (es_length s) (es_backing s))
       (case v of JNull \<Rightarrow> Some nil_slice | JObj ms \<Rightarrow> manifest_members ms nil_slice | _ \<Rightarrow> None)"

text \<open>\<open>json.Unmarshal\<close> into the manifest; \<open>stx\<close> gives the text of its error.\<close>

definition read_manifest :: "(bytes \<Rightarrow> bytes) \<Rightarrow> bytes \<Rightarrow> go_error + manifest_entry list" where
  "read_manifest stx raw =
     (case json_parse raw of
        None \<Rightarrow> Inl (syntax_error stx raw)
      | Some v \<Rightarrow>
          (case manifest_of v of
             None \<Rightarrow> Inl \<lparr>err_is = [], err_text = stx raw, err_type = ''*json.UnmarshalTypeError''\<rparr>
           | Some es \<Rightarrow> Inr es))"

subsection \<open>The provider\<close>

type_synonym 'w file_reader = "bytes \<Rightarrow> 'w \<Rightarrow> (go_error + bytes) \<times> 'w"

record dir_provider =
  dp_dir :: bytes
  dp_files :: "bytes smap"
  dp_cache :: "schema smap"

fun manifest_files :: "manifest_entry list \<Rightarrow> bytes smap \<Rightarrow> bytes smap" where
  "manifest_files [] m = m"
| "manifest_files (e # es) m =
     (if me_urn e = [] \<or> me_schema e = [] then manifest_files es m
      else manifest_files es (smap_put (me_urn e) (me_schema e) m))"

definition new_dir_provider ::
  "(bytes \<Rightarrow> bytes) \<Rightarrow> 'w file_reader \<Rightarrow> bytes \<Rightarrow> 'w \<Rightarrow> (go_error + dir_provider) \<times> 'w" where
  "new_dir_provider stx read path w =
     (case read path w of
        (Inl e, w') \<Rightarrow> (Inl (wrap_error (''schema: read '' @ path @ '': '') e []), w')
      | (Inr raw, w') \<Rightarrow>
          (case read_manifest stx raw of
             Inl e \<Rightarrow> (Inl (wrap_error (''schema: parse '' @ path @ '': '') e []), w')
           | Inr es \<Rightarrow>
               (Inr \<lparr>dp_dir = path_dir path, dp_files = manifest_files es [], dp_cache = []\<rparr>, w')))"

definition schema_path :: "bytes \<Rightarrow> bytes \<Rightarrow> bytes" where
  "schema_path dir file = (if path_is_abs file then file else path_join dir file)"

definition dir_schema ::
  "(bytes \<Rightarrow> bytes) \<Rightarrow> (bytes \<Rightarrow> bytes) \<Rightarrow> 'w file_reader \<Rightarrow> (dir_provider \<times> 'w) provider" where
  "dir_schema stx q read u = (\<lambda>(p, w).
     case smap_get (dp_cache p) u of
       Some s \<Rightarrow> (Inr (Some s), (p, w))
     | None \<Rightarrow>
         (case smap_get (dp_files p) u of
            None \<Rightarrow> (Inr None, (p, w))
          | Some file \<Rightarrow>
              (case read (schema_path (dp_dir p) file) w of
                 (Inl e, w') \<Rightarrow>
                   (Inl (wrap_error (''schema: read schema for '' @ q u @ '' ('' @ file @ ''): '') e []), (p, w'))
               | (Inr raw, w') \<Rightarrow>
                   (case parse_schema stx raw of
                      Inl e \<Rightarrow> (Inl (wrap_error (''schema: '' @ q u @ '': '') e []), (p, w'))
                    | Inr s \<Rightarrow> (Inr (Some s), (p\<lparr>dp_cache := smap_put u s (dp_cache p)\<rparr>, w'))))))"

subsection \<open>The cache never shows\<close>

text \<open>Of several entries with the same URN the last complete one counts.\<close>

definition manifest_file :: "manifest_entry list \<Rightarrow> bytes \<Rightarrow> bytes option" where
  "manifest_file es u =
     map_of (rev (map (\<lambda>e. (me_urn e, me_schema e)) (filter (\<lambda>e. me_urn e \<noteq> [] \<and> me_schema e \<noteq> []) es))) u"

lemma manifest_files_get: "smap_get (manifest_files es m) u = (case manifest_file es u of None \<Rightarrow> smap_get m u | Some f \<Rightarrow> Some f)"
proof (induction es arbitrary: m)
  case (Cons e es)
  then show ?case
    by (auto simp: manifest_file_def map_add_def smap_get_put split: option.splits)
qed (simp add: manifest_file_def)

text \<open>The answer without a cache, when the contents of the files are \<open>content\<close>.\<close>

definition direct_schema ::
  "(bytes \<Rightarrow> bytes) \<Rightarrow> (bytes \<Rightarrow> bytes) \<Rightarrow> (bytes \<Rightarrow> go_error + bytes) \<Rightarrow> bytes \<Rightarrow> bytes option \<Rightarrow> bytes
   \<Rightarrow> go_error + schema option" where
  "direct_schema stx q content dir file u =
     (case file of
        None \<Rightarrow> Inr None
      | Some f \<Rightarrow>
          (case content (schema_path dir f) of
             Inl e \<Rightarrow> Inl (wrap_error (''schema: read schema for '' @ q u @ '' ('' @ f @ ''): '') e [])
           | Inr raw \<Rightarrow>
               (case parse_schema stx raw of
                  Inl e \<Rightarrow> Inl (wrap_error (''schema: '' @ q u @ '': '') e [])
                | Inr s \<Rightarrow> Inr (Some s))))"

definition cache_true ::
  "(bytes \<Rightarrow> bytes) \<Rightarrow> (bytes \<Rightarrow> bytes) \<Rightarrow> (bytes \<Rightarrow> go_error + bytes) \<Rightarrow> dir_provider \<Rightarrow> bool" where
  "cache_true stx q content p \<longleftrightarrow>
     (\<forall>u s. smap_get (dp_cache p) u = Some s \<longrightarrow>
        direct_schema stx q content (dp_dir p) (smap_get (dp_files p) u) u = Inr (Some s))"

lemma cache_put:
  assumes "cache_true stx q content p" and "direct_schema stx q content (dp_dir p) (smap_get (dp_files p) u) u = Inr (Some s)"
  shows "cache_true stx q content (p\<lparr>dp_cache := smap_put u s (dp_cache p)\<rparr>)"
  using assms by (simp add: cache_true_def smap_get_put)

text \<open>One lookup. What is in the cache is not read again; what could not be read or parsed is not kept.\<close>

lemma dir_schema_direct:
  assumes "\<And>path w. fst (read path w) = content path" and "cache_true stx q content p"
    and "dir_schema stx q read u (p, w) = (r, (p', w'))"
  shows "r = direct_schema stx q content (dp_dir p) (smap_get (dp_files p) u) u"
    and "cache_true stx q content p' \<and> dp_dir p' = dp_dir p \<and> dp_files p' = dp_files p"
    and "smap_get (dp_cache p) u \<noteq> None \<Longrightarrow> p' = p \<and> w' = w"
    and "smap_get (dp_cache p') u = (case r of Inr (Some s) \<Rightarrow> Some s | _ \<Rightarrow> None)"
proof -
  have "r = direct_schema stx q content (dp_dir p) (smap_get (dp_files p) u) u
    \<and> (cache_true stx q content p' \<and> dp_dir p' = dp_dir p \<and> dp_files p' = dp_files p)
    \<and> (smap_get (dp_cache p) u \<noteq> None \<longrightarrow> p' = p \<and> w' = w)
    \<and> smap_get (dp_cache p') u = (case r of Inr (Some s) \<Rightarrow> Some s | _ \<Rightarrow> None)"
  proof (cases "smap_get (dp_cache p) u")
    case (Some s)
    then show ?thesis using assms(2,3) by (auto simp: dir_schema_def cache_true_def)
  next
    case None
    show ?thesis
    proof (cases "smap_get (dp_files p) u")
      case (Some f)
      obtain c w1 where rd: "read (schema_path (dp_dir p) f) w = (c, w1)" by fastforce
      have c: "content (schema_path (dp_dir p) f) = c" using assms(1) [of "schema_path (dp_dir p) f" w] rd by simp
      show ?thesis
      proof (cases "direct_schema stx q content (dp_dir p) (smap_get (dp_files p) u) u")
        case (Inl e)
        then show ?thesis
          using assms(2,3) None Some rd by (auto simp: dir_schema_def direct_schema_def c split: sum.splits)
      next
        case (Inr o')
        then obtain raw s where "c = Inr raw" "parse_schema stx raw = Inr s" "o' = Some s"
          using Some by (auto simp: direct_schema_def c split: sum.splits)
        moreover from this have "r = Inr (Some s)" "p' = p\<lparr>dp_cache := smap_put u s (dp_cache p)\<rparr>"
          using assms(3) None Some rd by (simp_all add: dir_schema_def)
        ultimately show ?thesis using None Inr cache_put [OF assms(2), of u s] by (simp add: smap_get_put)
      qed
    qed (use assms(2,3) None in \<open>auto simp: dir_schema_def direct_schema_def\<close>)
  qed
  then show "r = direct_schema stx q content (dp_dir p) (smap_get (dp_files p) u) u"
    and "cache_true stx q content p' \<and> dp_dir p' = dp_dir p \<and> dp_files p' = dp_files p"
    and "smap_get (dp_cache p) u \<noteq> None \<Longrightarrow> p' = p \<and> w' = w"
    and "smap_get (dp_cache p') u = (case r of Inr (Some s) \<Rightarrow> Some s | _ \<Rightarrow> None)" by simp_all
qed

text \<open>A series of lookups, each with the provider the one before left.\<close>

fun lookups :: "'w provider \<Rightarrow> bytes list \<Rightarrow> 'w \<Rightarrow> (go_error + schema option) list \<times> 'w" where
  "lookups f [] w = ([], w)"
| "lookups f (u # us) w = (case f u w of (r, w1) \<Rightarrow> (case lookups f us w1 of (rs, w2) \<Rightarrow> (r # rs, w2)))"

lemma lookups_direct:
  assumes "\<And>path w. fst (read path w) = content path"
  shows "cache_true stx q content p \<Longrightarrow>
    fst (lookups (dir_schema stx q read) us (p, w)) =
      map (\<lambda>u. direct_schema stx q content (dp_dir p) (smap_get (dp_files p) u) u) us"
proof (induction us arbitrary: p w)
  case (Cons u us)
  obtain r p1 w1 where d: "dir_schema stx q read u (p, w) = (r, (p1, w1))" by (metis surj_pair)
  note k = dir_schema_direct [OF assms Cons.prems d]
  obtain rs z where "lookups (dir_schema stx q read) us (p1, w1) = (rs, z)" by (metis surj_pair)
  then show ?case using Cons.IH [of p1 w1] k(1,2) d by simp
qed simp

text \<open>C19. A directory provider answers from its registry. While the files do not change, every series of lookups, in
  any order and however often, gives for each URN what reading the registry directly would: no schema when no
  complete manifest entry names the URN, else the schema of the file the last such entry names (a relative path
  taken from the directory of the manifest), or the error of reading or parsing that very file. So a failed lookup
  is never remembered as an answer, and no URN gets another one's schema.\<close>

theorem directory_lookups:
  assumes "\<And>path w. fst (read path w) = content path"
    and "new_dir_provider stx read path w = (Inr p, w1)"
  shows "\<exists>raw es. content path = Inr raw \<and> read_manifest stx raw = Inr es
    \<and> fst (lookups (dir_schema stx q read) us (p, w2)) =
        map (\<lambda>u. direct_schema stx q content (path_dir path) (manifest_file es u) u) us"
proof -
  obtain c w' where rd: "read path w = (c, w')" by fastforce
  have c: "content path = c" using assms(1) [of path w] rd by simp
  obtain raw es where r: "c = Inr raw" "read_manifest stx raw = Inr es"
    and p: "p = \<lparr>dp_dir = path_dir path, dp_files = manifest_files es [], dp_cache = []\<rparr>"
    using assms(2) rd by (auto simp: new_dir_provider_def split: sum.splits)
  have "cache_true stx q content p" by (simp add: p cache_true_def)
  from lookups_direct [where us = us and w = w2, OF assms(1) this] show ?thesis
    using c r by (auto simp: p manifest_files_get split: option.splits)
qed

definition sample_registry :: "bytes \<Rightarrow> go_error + bytes" where
  "sample_registry path =
     (if path = ''/r/registry.json'' then
        Inr (json_print (JObj [(''schemas'', JArr [JObj [(''urn'', JStr ''u:x''), (''schema'', JStr ''x.json'')]])]))
      else if path = ''/r/x.json'' then Inr (json_print (JObj [(''type'', JStr ''object'')]))
      else Inl (plain_error ErrInvalidPayload))"

theorem directory_lookups_witness:
  "\<exists>p. new_dir_provider (\<lambda>_. []) (\<lambda>path w. (sample_registry path, w)) ''/r/registry.json'' () = (Inr p, ())
    \<and> fst (lookups (dir_schema (\<lambda>_. []) (\<lambda>u. u) (\<lambda>path w. (sample_registry path, w))) [''u:x'', ''u:y'', ''u:x''] (p, ())) =
      [Inr (Some (from_map [(''type'', GStr ''object'')])), Inr None, Inr (Some (from_map [(''type'', GStr ''object'')]))]"
proof -
  let ?read = "\<lambda>path w. (sample_registry path, w)"
  let ?m = "JObj [(''schemas'', JArr [JObj [(''urn'', JStr ''u:x''), (''schema'', JStr ''x.json'')]])]"
  let ?s = "JObj [(''type'', JStr ''object'')]"
  have "json_ok 0 ?m" "json_ok 0 ?s" by code_simp+
  define M where "M = json_print ?m"
  define S where "S = json_print ?s"
  have parse: "json_parse M = Some ?m" "json_parse S = Some ?s"
    using \<open>json_ok 0 ?m\<close> \<open>json_ok 0 ?s\<close> unfolding M_def S_def by (simp_all only: json_parse_print)
  have "manifest_of ?m = Some [\<lparr>me_urn = ''u:x'', me_schema = ''x.json''\<rparr>]" by code_simp
  then have m: "read_manifest (\<lambda>_. []) M = Inr [\<lparr>me_urn = ''u:x'', me_schema = ''x.json''\<rparr>]"
    unfolding read_manifest_def parse(1) by simp
  have "assign_data ?s = Inr (Some [(''type'', GStr ''object'')])" by code_simp
  then have s: "parse_schema (\<lambda>_. []) S = Inr (from_map [(''type'', GStr ''object'')])"
    unfolding parse_schema_def parse(2) by simp
  have files: "sample_registry ''/r/registry.json'' = Inr M" "sample_registry ''/r/x.json'' = Inr S"
    unfolding M_def S_def sample_registry_def by simp_all
  have path: "path_dir ''/r/registry.json'' = ''/r''" "schema_path ''/r'' ''x.json'' = ''/r/x.json''" by code_simp+
  obtain p where p: "new_dir_provider (\<lambda>_. []) ?read ''/r/registry.json'' () = (Inr p, ())"
    by (simp add: new_dir_provider_def files m)
  have r: "fst (?read x w) = sample_registry x" for x and w :: unit by simp
  obtain raw es where "sample_registry ''/r/registry.json'' = Inr raw" "read_manifest (\<lambda>_. []) raw = Inr es"
    and l: "fst (lookups (dir_schema (\<lambda>_. []) (\<lambda>u. u) ?read) [''u:x'', ''u:y'', ''u:x''] (p, ())) =
      map (\<lambda>u. direct_schema (\<lambda>_. []) (\<lambda>u. u) sample_registry (path_dir ''/r/registry.json'') (manifest_file es u) u)
        [''u:x'', ''u:y'', ''u:x'']"
    using directory_lookups [OF r p] by blast
  then have "es = [\<lparr>me_urn = ''u:x'', me_schema = ''x.json''\<rparr>]" using files m by simp
  then show ?thesis using p l by (simp add: path direct_schema_def manifest_file_def files s)
qed

end
