(* ===== verification/Opening.thy ===== *)
theory Opening
  imports Redis Sqs Idempotency
begin

section \<open>Opening and closing clients\<close>

text \<open>
  How the packages \<open>redis\<close>, \<open>sqs\<close> and \<open>idempotency-redis\<close> come to their client and who closes it. What the SDKs do to
  parse a URL, to load a configuration and to build a client from it are parameters; the other bindings have their
  constructors in their own theories.
\<close>

subsection \<open>The Redis transport\<close>

record ('o, 'c, 'w) redis_sdk =
  sdk_parse_url :: "bytes \<Rightarrow> go_error + 'o"
  sdk_new_client :: "'o \<Rightarrow> 'w \<Rightarrow> 'c \<times> 'w"
  sdk_close :: "'c \<Rightarrow> 'w effect"

text \<open>\<open>New\<close>: a client opened for options that do not fit is closed again, and the error of closing it dropped.\<close>

definition redis_open ::
  "('o, 'c, 'w) redis_sdk \<Rightarrow> bytes \<Rightarrow> (redis_config \<Rightarrow> redis_config) list \<Rightarrow> 'w \<Rightarrow> (go_error + 'c \<times> redis_config) \<times> 'w" where
  "redis_open sdk url opts w =
     (case sdk_parse_url sdk url of
        Inl e \<Rightarrow> (Inl e, w)
      | Inr options \<Rightarrow>
          (let (client, w1) = sdk_new_client sdk options w; c = new_with_client opts
           in case rc_cfg_err c of
                Some e \<Rightarrow> (Inl e, snd (sdk_close sdk client w1))
              | None \<Rightarrow> (Inr (client, c), w1)))"

definition redis_close :: "('o, 'c, 'w) redis_sdk \<Rightarrow> 'c \<times> redis_config \<Rightarrow> 'w effect" where
  "redis_close sdk t = sdk_close sdk (fst t)"

subsection \<open>The Redis idempotency store\<close>

text \<open>\<open>closer\<close> is set only by \<open>New\<close>, which opened the client itself.\<close>

record 'w owned_ids = "'w redis_ids" +
  oi_closer :: "'w effect option"

definition redis_ids_with_client ::
  "'w redis_keys_client \<Rightarrow> ('w redis_ids \<Rightarrow> 'w redis_ids) list \<Rightarrow> 'w owned_ids" where
  "redis_ids_with_client client opts = redis_ids.extend (new_redis_ids client opts) \<lparr>oi_closer = None\<rparr>"

definition redis_ids_open ::
  "('o, 'c, 'w) redis_sdk \<Rightarrow> ('c \<Rightarrow> 'w redis_keys_client) \<Rightarrow> bytes \<Rightarrow> ('w redis_ids \<Rightarrow> 'w redis_ids) list \<Rightarrow> 'w
    \<Rightarrow> (go_error + 'w owned_ids) \<times> 'w" where
  "redis_ids_open sdk commands url opts w =
     (case sdk_parse_url sdk url of
        Inl e \<Rightarrow> (Inl e, w)
      | Inr options \<Rightarrow>
          (let (client, w1) = sdk_new_client sdk options w
           in (Inr ((redis_ids_with_client (commands client) opts)\<lparr>oi_closer := Some (sdk_close sdk client)\<rparr>), w1)))"

definition redis_ids_close :: "'w owned_ids \<Rightarrow> 'w effect" where
  "redis_ids_close s w = (case oi_closer s of Some close \<Rightarrow> close w | None \<Rightarrow> (None, w))"

subsection \<open>The SQS transport\<close>

text \<open>The client, the region and the endpoint are what \<open>WithClient\<close>, \<open>WithRegion\<close> and \<open>WithEndpoint\<close> set. Without a region the
  configuration is loaded without that option, without an endpoint the client keeps the service's own.\<close>

definition sqs_open ::
  "'c option \<Rightarrow> bytes \<Rightarrow> bytes \<Rightarrow> (bytes option \<Rightarrow> go_error + 'g) \<Rightarrow> ('g \<Rightarrow> bytes option \<Rightarrow> 'c) \<Rightarrow> go_error + 'c" where
  "sqs_open client region endpoint load from_config =
     (case client of
        Some c \<Rightarrow> Inr c
      | None \<Rightarrow>
          (case load (if region = [] then None else Some region) of
             Inl e \<Rightarrow> Inl e
           | Inr cfg \<Rightarrow> Inr (from_config cfg (if endpoint = [] then None else Some endpoint))))"

subsection \<open>No client leaks\<close>

text \<open>A world in which the open clients are counted: building one adds it, closing it removes it, with or without an
  error.\<close>

definition counts_clients :: "('o, 'c, 'w) redis_sdk \<Rightarrow> ('w \<Rightarrow> 'c set) \<Rightarrow> bool" where
  "counts_clients sdk live \<longleftrightarrow>
     (\<forall>x w. fst (sdk_new_client sdk x w) \<notin> live w
        \<and> live (snd (sdk_new_client sdk x w)) = insert (fst (sdk_new_client sdk x w)) (live w))
     \<and> (\<forall>c w. live (snd (sdk_close sdk c w)) = live w - {c})"

lemma opened:
  assumes "counts_clients sdk live" "sdk_new_client sdk x w = (client, w1)"
  shows "client \<notin> live w" "live w1 = insert client (live w)" "live (snd (sdk_close sdk client v)) = live v - {client}"
  using assms unfolding counts_clients_def by (metis fst_conv snd_conv)+

text \<open>A transport that is returned has no configuration error and its client is open; when \<open>New\<close> fails no client is left
  open, whatever the options.\<close>

theorem redis_open_no_leak:
  assumes "counts_clients sdk live"
  shows "case redis_open sdk url opts w of
      (Inr (client, c), w') \<Rightarrow> rc_cfg_err c = None \<and> live w' = insert client (live w)
        \<and> live (snd (redis_close sdk (client, c) w')) = live w
    | (Inl e, w') \<Rightarrow> live w' = live w"
proof (cases "sdk_parse_url sdk url")
  case (Inr options)
  obtain client w1 where k: "sdk_new_client sdk options w = (client, w1)" by fastforce
  then show ?thesis using Inr opened [OF assms k]
    by (cases "rc_cfg_err (new_with_client opts)") (simp_all add: redis_open_def redis_close_def)
qed (simp add: redis_open_def)

text \<open>The store closes exactly the client it opened: after \<open>Close\<close> the clients are those before \<open>New\<close>, and a borrowed
  client stays open.\<close>

theorem redis_ids_close_owned:
  assumes "counts_clients sdk live" and "redis_ids_open sdk commands url opts w = (Inr s, w')"
  shows "live (snd (redis_ids_close s w')) = live w"
proof -
  obtain options where p: "sdk_parse_url sdk url = Inr options"
    using assms(2) by (auto simp: redis_ids_open_def split: sum.splits)
  obtain client w1 where k: "sdk_new_client sdk options w = (client, w1)" by fastforce
  then show ?thesis using assms(2) p opened [OF assms(1) k] by (auto simp: redis_ids_open_def redis_ids_close_def)
qed

lemma borrowed_stays_open: "redis_ids_close (redis_ids_with_client client opts) w = (None, w)"
  by (simp add: redis_ids_close_def redis_ids_with_client_def redis_ids.defs)

text \<open>An injected client is taken as it is and no configuration is loaded.\<close>

lemma sqs_injected: "sqs_open (Some c) region endpoint load from_config = Inr c"
  by (simp add: sqs_open_def)

end
