(* ===== verification/SealedLaws.thy ===== *)
theory SealedLaws
  imports GdprLaws AppLaws
begin

section \<open>Protected messages\<close>

text \<open>
  Field encryption around a publish: the producer protects the data block before it publishes it, as the package's
  documentation prescribes, and the handler unprotects what it is given. The two ends share the schema and the key
  and nothing else; between them lie \<open>Make\<close>, the codec, the transport, the pop and the dispatch.
\<close>

lemma Make_data: "Make rnd1 rnd2 now u data opts = Inr e \<Longrightarrow> env_data e = Some (case_option [] (\<lambda>d. d) data)"
  by (auto simp: Make_def Let_def split: if_splits option.splits)

lemma published_data:
  assumes "publish_envelope_with_headers rt a u data headers opts w = ((env, None), w1)"
  shows "env_data env = Some (case_option [] (\<lambda>d. d) data)"
proof -
  obtain e where "Make (rt_uuid rt 0 w) (rt_uuid rt 1 w) (rt_now rt w) u data (WithQueue (app_queue a) # opts) = Inr e" "env = e"
    using assms by (auto simp: publish_envelope_with_headers_def apfst_def map_prod_def split: sum.splits option.splits prod.splits)
  then show ?thesis using Make_data by simp
qed

lemma value_ok_mono: "value_ok n v \<Longrightarrow> k \<le> n \<Longrightarrow> value_ok k v"
  by (auto simp: value_ok_def intro: json_ok_mono)

text \<open>A handler that fails sees the same data again: a retry changes the counter alone.\<close>

lemma next_attempt_data [simp]: "env_data (next_attempt env) = env_data env"
  by (simp add: next_attempt_def)



end
