(* ===== verification/Pipeline.thy ===== *)
theory Pipeline
  imports OutboxLaws Idempotency
begin

section \<open>From the outbox to the effect\<close>

text \<open>
  The three packages a message runs through when it must not be lost and must not act twice: the outbox it is written
  to with the producer's own data, the relay that publishes what is pending, and a consumer whose handlers are
  wrapped for idempotency. Each has its own guarantee (at least once for the relay, once per id for the wrapper);
  here they run together, over the in-memory transport, in any order and with failures of the relay's database and
  of its broker, and give what the packages promise together.

  The consumer's world is the transport's queues, the ids of the idempotency store, the handlers' own state and a
  log of the handler runs, each with its message id and its outcome, which the handlers do not see.
\<close>

type_synonym 'x pipe_world = "queues \<times> seen_ids \<times> 'x \<times> (bytes \<times> go_error option) list"

abbreviation seen_of :: "'x pipe_world \<Rightarrow> seen_ids" where "seen_of w \<equiv> fst (snd w)"
abbreviation log_of :: "'x pipe_world \<Rightarrow> (bytes \<times> go_error option) list" where "log_of w \<equiv> snd (snd (snd w))"

definition pipe_ids :: "'x pipe_world idem_store" where
  "pipe_ids =
     \<lparr>sto_seen = (\<lambda>i w. apsnd (Pair (fst w)) (ids_seen i (snd w))),
      sto_remember = (\<lambda>i w. apsnd (Pair (fst w)) (ids_remember i (snd w))),
      sto_forget = (\<lambda>i w. apsnd (Pair (fst w)) (ids_forget i (snd w)))\<rparr>"

interpretation pipe: idempotency_store "pipe_ids :: 'x pipe_world idem_store" "\<lambda>w. seen_of w"
  by unfold_locales (auto simp: pipe_ids_def ids_seen_def ids_remember_def ids_forget_def)

definition logged :: "'x handler \<Rightarrow> 'x pipe_world handler" where
  "logged h ctx env w =
     (case w of (qs, seen, x, log) \<Rightarrow>
        (case h ctx env x of (r, x') \<Rightarrow> (r, (qs, seen, x', log @ [(meta_id (env_meta env), r)]))))"

text \<open>A consumer of the pipeline: on the in-memory transport, dead-lettering on, every handler wrapped; an observer of dead
  letters may change the handlers' state alone.\<close>

definition effect_app :: "'x pipe_world app \<Rightarrow> bool" where
  "effect_app a \<longleftrightarrow>
     on_memory a \<and> app_dead_letter a
     \<and> (\<forall>(u, h) \<in> set (app_handlers a). \<exists>h0. h = wrap_handler pipe_ids (logged h0))
     \<and> (case app_on_dead_letter a of
          None \<Rightarrow> True
        | Some f \<Rightarrow> \<forall>ctx ev qs seen x log. \<exists>x'. f ctx ev (qs, seen, x, log) = (qs, seen, x', log))"

lemma effect_app_member: "effect_app a \<Longrightarrow> (u, h) \<in> set (app_handlers a) \<Longrightarrow> \<exists>h0. h = wrap_handler pipe_ids (logged h0)"
  unfolding effect_app_def by (auto dest!: bspec)

lemma effect_app_handler:
  "effect_app a \<Longrightarrow> smap_get (app_handlers a) u = Some h \<Longrightarrow> \<exists>h0. h = wrap_handler pipe_ids (logged h0)"
  using effect_app_member [of a u h] by (simp add: map_of_SomeD)

definition successes :: "bytes \<Rightarrow> 'x pipe_world \<Rightarrow> nat" where
  "successes i w = count_list (log_of w) (i, None)"

text \<open>The log and the store agree: an id is remembered exactly when its handler has succeeded, and that once.\<close>

definition guarded :: "'x pipe_world \<Rightarrow> bool" where
  "guarded w \<longleftrightarrow> (\<forall>i. i \<noteq> [] \<longrightarrow> successes i w = (if i \<in> seen_of w then 1 else 0))"

subsection \<open>What a delivery may do\<close>

text \<open>Queues only grow, ids are not forgotten, and the log keeps agreeing with the store.\<close>

definition grows :: "'x pipe_world \<Rightarrow> 'x pipe_world \<Rightarrow> bool" where
  "grows w w' \<longleftrightarrow>
     (\<forall>q. \<exists>ms. queue_of (fst w') q = queue_of (fst w) q @ ms) \<and> seen_of w \<subseteq> seen_of w' \<and> (guarded w \<longrightarrow> guarded w')"

named_theorems grow_intros

lemma grows_refl [simp, grow_intros]: "grows w w"
  by (simp add: grows_def)

lemma grows_trans:
  assumes "grows w w1" "grows w1 w2"
  shows "grows w w2"
proof -
  have "\<exists>ms. queue_of (fst w2) q = queue_of (fst w) q @ ms" for q
  proof -
    obtain ms where "queue_of (fst w1) q = queue_of (fst w) q @ ms" using assms(1) unfolding grows_def by blast
    moreover obtain ns where "queue_of (fst w2) q = queue_of (fst w1) q @ ns" using assms(2) unfolding grows_def by blast
    ultimately show ?thesis by simp
  qed
  then show ?thesis using assms unfolding grows_def by blast
qed

lemma grows_queue: "grows w w' \<Longrightarrow> set (queue_of (fst w) q) \<subseteq> set (queue_of (fst w') q)"
  unfolding grows_def by (metis set_append Un_upper1)

lemma grows_seen: "grows w w' \<Longrightarrow> seen_of w \<subseteq> seen_of w'"
  by (simp add: grows_def)

lemma guarded_same: "snd (snd (snd w')) = log_of w \<Longrightarrow> seen_of w' = seen_of w \<Longrightarrow> guarded w' = guarded w"
  by (simp add: guarded_def successes_def)

lemma pushed_rest: "snd (pushed q b w) = snd w"
  by (simp add: pushed_def im_publish_def)

lemma grows_pushed [grow_intros]: "grows w (pushed q b w)"
proof -
  have "guarded (pushed q b w) = guarded w" by (rule guarded_same) (simp_all add: pushed_rest)
  then show ?thesis by (auto simp: grows_def pushed_rest)
qed

lemma grows_notify [grow_intros]:
  assumes "effect_app a"
  shows "grows w (notify_dead_letter a ctx ev w)"
proof (cases "app_on_dead_letter a")
  case (Some f)
  obtain qs seen x log where w: "w = (qs, seen, x, log)" by (cases w)
  obtain x' where "f ctx ev (qs, seen, x, log) = (qs, seen, x', log)" using assms Some unfolding effect_app_def by fastforce
  then have n: "notify_dead_letter a ctx ev w = (qs, seen, x', log)" using Some w by (simp add: notify_dead_letter_def)
  have "guarded (qs, seen, x', log) = guarded w" by (rule guarded_same) (simp_all add: w)
  then show ?thesis unfolding n by (simp add: grows_def w)
qed (simp add: notify_dead_letter_def)

text \<open>One run of a wrapped handler.\<close>

lemma wrapped_run:
  assumes "wrap_handler pipe_ids (logged h0) ctx env w = (r, w')" and "i = meta_id (env_meta env)"
  shows "fst w' = fst w"
    and "i = [] \<Longrightarrow> seen_of w' = seen_of w \<and> log_of w' = log_of w @ [(i, r)]"
    and "i \<noteq> [] \<Longrightarrow> i \<in> seen_of w \<Longrightarrow> r = None \<and> seen_of w' = seen_of w \<and> log_of w' = log_of w"
    and "i \<noteq> [] \<Longrightarrow> i \<notin> seen_of w \<Longrightarrow>
      log_of w' = log_of w @ [(i, r)] \<and> seen_of w' = (if r = None then insert i (seen_of w) else seen_of w)"
proof -
  have st: "sto_seen pipe_ids j v = (Inr (j \<in> seen_of v), v)"
    "sto_remember pipe_ids j v = (None, (fst v, insert j (seen_of v), snd (snd v)))" for j and v :: "'a pipe_world"
    by (simp_all add: pipe_ids_def ids_seen_def ids_remember_def)
  have h: "fst (snd (logged h0 ctx env v)) = fst v \<and> seen_of (snd (logged h0 ctx env v)) = seen_of v
      \<and> log_of (snd (logged h0 ctx env v)) = log_of v @ [(meta_id (env_meta env), fst (logged h0 ctx env v))]" for ctx env and v :: "'a pipe_world"
    by (simp add: logged_def split: prod.split)
  show "fst w' = fst w" using assms h [of ctx env w] by (auto simp: wrap_handler_def Let_def st split: if_splits prod.splits option.splits)
  note w = pipe.wrap_delivery [where runs = log_of and h = "logged h0", OF _ _ _ _ _ _ assms]
  show "i = [] \<Longrightarrow> seen_of w' = seen_of w \<and> log_of w' = log_of w @ [(i, r)]"
    by (rule w(1)) (simp_all add: h st)
  show "i \<noteq> [] \<Longrightarrow> i \<in> seen_of w \<Longrightarrow> r = None \<and> seen_of w' = seen_of w \<and> log_of w' = log_of w"
    by (rule w(2)) (simp_all add: h st)
  show "i \<noteq> [] \<Longrightarrow> i \<notin> seen_of w \<Longrightarrow>
      log_of w' = log_of w @ [(i, r)] \<and> seen_of w' = (if r = None then insert i (seen_of w) else seen_of w)"
    by (rule w(3)) (simp_all add: h st)
qed

lemma grows_handler:
  assumes "wrap_handler pipe_ids (logged h0) ctx env w = (r, w')"
  shows "grows w w'" and "r = None \<Longrightarrow> meta_id (env_meta env) \<noteq> [] \<Longrightarrow> meta_id (env_meta env) \<in> seen_of w'"
proof -
  define i where "i = meta_id (env_meta env)"
  note run = wrapped_run [OF assms i_def]
  have "seen_of w \<subseteq> seen_of w' \<and> (guarded w \<longrightarrow> guarded w')"
  proof (cases "i = [] \<or> i \<notin> seen_of w")
    case True
    then have l: "log_of w' = log_of w @ [(i, r)]" and s: "i \<noteq> [] \<Longrightarrow> seen_of w' = (if r = None then insert i (seen_of w) else seen_of w)"
      "i = [] \<Longrightarrow> seen_of w' = seen_of w" using run by blast+
    then show ?thesis using True by (cases "i = []") (auto simp: guarded_def successes_def)
  next
    case False
    then show ?thesis using run(3) guarded_same [of w' w] by auto
  qed
  then show "grows w w'" using run(1) by (simp add: grows_def)
  show "r = None \<Longrightarrow> meta_id (env_meta env) \<noteq> [] \<Longrightarrow> meta_id (env_meta env) \<in> seen_of w'"
    using run(3,4) by (cases "i \<in> seen_of w") (auto simp: i_def)
qed

subsection \<open>Every delivery grows the world\<close>

lemma effect_app_memory: "effect_app a \<Longrightarrow> on_memory a"
  by (simp add: effect_app_def)

lemma grows_dead_letter [grow_intros]:
  assumes "effect_app a" "encodable env"
  shows "grows w (dead_letter_message rt a ctx m env reason cause w)"
  using mem_dead_letter_message [OF effect_app_memory [OF assms(1)] assms(2), of rt ctx m reason cause w]
    grows_trans [OF grows_pushed grows_notify [OF assms(1)]] by metis

lemma grows_retry [grow_intros]:
  assumes "effect_app a" "encodable env"
  shows "grows w (retry_or_dead_letter rt a ctx m env cause w)"
  using mem_retry [OF effect_app_memory [OF assms(1)] assms(2), of rt ctx m cause w]
    grows_pushed grows_refl grows_trans [OF grows_pushed grows_notify [OF assms(1)]] by metis

lemma grows_unknown [grow_intros]:
  assumes "effect_app a" "encodable env"
  shows "grows w (route_unknown rt a ctx u m env w)"
  using mem_ops [OF effect_app_memory [OF assms(1)]] grows_dead_letter [OF assms] grows_retry [OF assms]
  by (simp add: route_unknown_alt republish_and_ack_def grow_intros)

lemma grows_poison [grow_intros]:
  assumes "effect_app a" "encodable env"
  shows "grows w (route_poison rt a ctx m env err w)"
proof -
  have "grows w (settle_raw_poison rt a ctx m e w)" for e
    using mem_ops [OF effect_app_memory [OF assms(1)]] mem_after_dead_letter [OF effect_app_memory [OF assms(1)]]
      grows_trans [OF grows_pushed grows_notify [OF assms(1)]]
    by (simp add: settle_raw_poison_alt)
  then show ?thesis
    using mem_ops(4) [OF effect_app_memory [OF assms(1)]] grows_unknown [OF assms] grows_retry [OF assms]
    by (simp add: route_poison_def Let_def)
qed

lemma grows_dispatch:
  assumes "effect_app a" "m = received_of queue x"
  shows "grows w (dispatch rt a m w)"
proof -
  obtain env0 err where d: "decode (rt_syntax rt) (im_body x) = (env0, err)" by fastforce
  define env where "env = env0\<lparr>env_attempts := max (env_attempts env0) (- 1)\<rparr>"
  have e: "encodable env" using envelope_ok_decoded [of "rt_syntax rt" "im_body x"] d by (simp add: env_def encodable_ok)
  note D = mem_dispatch [OF d env_def assms(2) refl, of a w]
  show ?thesis
  proof (cases "smap_get (app_handlers a) (urn env)")
    case None
    then show ?thesis unfolding D using grows_poison [OF assms(1) e] grows_unknown [OF assms(1) e] by simp
  next
    case (Some h)
    then obtain h0 where h: "h = wrap_handler pipe_ids (logged h0)" using effect_app_handler [OF assms(1)] by blast
    obtain r w1 where r: "h (delivery_context m) env w = (r, w1)" by (metis surj_pair)
    have "grows w w1" using grows_handler(1) r unfolding h by blast
    then show ?thesis
      unfolding D using Some r grows_poison [OF assms(1) e] grows_trans [OF _ grows_retry [OF assms(1) e]]
        mem_ops(1) [OF effect_app_memory [OF assms(1)]]
      by (cases r) auto
  qed
qed

subsection \<open>The copies of a message\<close>

text \<open>A body that carries the message \<open>E\<close>, whatever its counter; and one that carries it to the dead-letter queue.\<close>

definition live_copy :: "(bytes \<Rightarrow> bytes) \<Rightarrow> envelope \<Rightarrow> bytes \<Rightarrow> bool" where
  "live_copy stx E b \<longleftrightarrow> (\<exists>n. int64_ok n \<and> encode stx (E\<lparr>env_attempts := n\<rparr>) = Inr b)"

definition dead_copy :: "(bytes \<Rightarrow> bytes) \<Rightarrow> envelope \<Rightarrow> bytes \<Rightarrow> bool" where
  "dead_copy stx E b \<longleftrightarrow> (\<exists>n d. encode stx (E\<lparr>env_attempts := n, env_dead_letter := Some d\<rparr>) = Inr b)"

text \<open>A message the pipeline is responsible for.\<close>

definition handled_message :: "'x pipe_world app \<Rightarrow> envelope \<Rightarrow> bool" where
  "handled_message a E \<longleftrightarrow>
     envelope_ok E \<and> env_warnings E = [] \<and> \<not> is_blank_ascii (env_job E) \<and> meta_id (env_meta E) \<noteq> []
     \<and> smap_get (app_handlers a) (env_job E) \<noteq> None"

definition held :: "(bytes \<Rightarrow> bool) \<Rightarrow> bytes \<Rightarrow> 'x pipe_world \<Rightarrow> bool" where
  "held P q w \<longleftrightarrow> (\<exists>x \<in> set (queue_of (fst w) q). P (im_body x))"

lemma held_grows: "grows w w' \<Longrightarrow> held P q w \<Longrightarrow> held P q w'"
  using grows_queue unfolding held_def by blast

lemma held_pushed: "P b \<Longrightarrow> held P q (pushed q b w)"
  by (simp add: held_def)

text \<open>A delivery of a live copy ends in one of three ways: its handler has succeeded, now or before; a live copy is back on
  its queue; or a dead one is on the dead-letter queue.\<close>

lemma dispatch_copy:
  assumes "effect_app a" "handled_message a E" "m = received_of q x" "live_copy (rt_syntax rt) E (im_body x)"
    and "D = dead_letter_target a m"
  shows "held (live_copy (rt_syntax rt) E) q (dispatch rt a m w) \<or> held (dead_copy (rt_syntax rt) E) D (dispatch rt a m w)
    \<or> meta_id (env_meta E) \<in> seen_of (dispatch rt a m w)"
proof -
  obtain n where n: "int64_ok n" "encode (rt_syntax rt) (E\<lparr>env_attempts := n\<rparr>) = Inr (im_body x)"
    using assms(4) by (auto simp: live_copy_def)
  have E: "envelope_ok E" "\<not> is_blank_ascii (env_job E)" "env_warnings E = []" "meta_id (env_meta E) \<noteq> []"
    using assms(2) by (simp_all add: handled_message_def)
  have ok: "envelope_ok (E\<lparr>env_attempts := k\<rparr>)" if "int64_ok k" for k using envelope_ok_attempts [OF E(1) that] .
  have "im_body x = json_print (envelope_json (E\<lparr>env_attempts := n\<rparr>))" using n encode_ok [OF ok [OF n(1)]] by simp
  then have d: "decode (rt_syntax rt) (im_body x) = (E\<lparr>env_attempts := n\<rparr>, None)"
    using decode_failed_record [OF ok [OF n(1)], of "rt_syntax rt"] E by simp
  define env where "env = E\<lparr>env_attempts := max n (- 1)\<rparr>"
  have env: "env = (E\<lparr>env_attempts := n\<rparr>)\<lparr>env_attempts := max (env_attempts (E\<lparr>env_attempts := n\<rparr>)) (- 1)\<rparr>" by (simp add: env_def)
  have "encodable E" using encodable_ok [OF E(1)] .
  then have e: "encodable env" "encodable (E\<lparr>env_attempts := k, env_dead_letter := dl\<rparr>)" for k dl by (simp_all add: env_def)
  obtain h where h: "smap_get (app_handlers a) (env_job E) = Some h" using assms(2) by (auto simp: handled_message_def)
  then obtain h0 where h0: "h = wrap_handler pipe_ids (logged h0)" using effect_app_handler [OF assms(1)] by blast
  obtain r w1 where r: "h (delivery_context m) env w = (r, w1)" by (metis surj_pair)
  have D: "dispatch rt a m w = (case r of Some e \<Rightarrow> retry_or_dead_letter rt a (delivery_context m) m env e w1 | None \<Rightarrow> w1)"
    unfolding mem_dispatch [OF d env assms(3) refl, of a w]
    using h r E(2) mem_ops(1) [OF effect_app_memory [OF assms(1)]] by (simp add: urn_def env_def split: option.split)
  show ?thesis
  proof (cases r)
    case None
    then have "meta_id (env_meta E) \<in> seen_of w1" using grows_handler(2) [of h0 _ env w r w1] r E(4) unfolding h0 by (simp add: env_def)
    then show ?thesis using D None by simp
  next
    case (Some cause)
    let ?reason = "if errors_is cause ErrUnknownURN then ''unknown_urn'' else ''failed''"
    obtain ev where R: "retry_or_dead_letter rt a (delivery_context m) m env cause w1 =
      (if env_attempts (next_attempt env) < app_max_attempts a
       then pushed (msg_queue m) (json_print (envelope_json (next_attempt env))) w1
       else if app_dead_letter a
       then notify_dead_letter a (delivery_context m) ev (pushed (dead_letter_target a m)
         (json_print (envelope_json (dead_letter_env rt m (next_attempt env) ?reason (Some cause) w1))) w1)
       else w1)" using mem_retry [OF effect_app_memory [OF assms(1)] e(1)] by blast
    have "next_attempt env = E\<lparr>env_attempts := wrap64 (max n (- 1) + 1)\<rparr>" by (simp add: next_attempt_def env_def)
    then have live: "live_copy (rt_syntax rt) E (json_print (envelope_json (next_attempt env)))"
      using encode_ok [OF ok] wrap64_ok [of "max n (- 1) + 1"] unfolding live_copy_def by metis
    have "\<exists>k dl. dead_letter_env rt m (next_attempt env) ?reason (Some cause) w1 = E\<lparr>env_attempts := k, env_dead_letter := Some dl\<rparr>"
      by (simp add: dead_letter_env_def annotate_def next_attempt_def env_def) metis
    then have dead: "dead_copy (rt_syntax rt) E (json_print (envelope_json (dead_letter_env rt m (next_attempt env) ?reason (Some cause) w1)))"
      using encodable_encode [OF e(2)] unfolding dead_copy_def by metis
    have q: "msg_queue m = q" "app_dead_letter a" using assms(1,3) by (simp_all add: received_of_def effect_app_def)
    show ?thesis
      using D R Some q held_pushed [where P = "live_copy (rt_syntax rt) E" and q = q and w = w1, OF live]
        held_grows [OF grows_notify [OF assms(1)] held_pushed
          [where P = "dead_copy (rt_syntax rt) E" and q = D and w = w1, OF dead], of "delivery_context m" ev]
      by (simp add: assms(5))
  qed
qed

subsection \<open>The relay's part\<close>

text \<open>A broker in front of the queues that may refuse a publish, or take it and report a failure.\<close>

definition delivers :: "'x pipe_world transport \<Rightarrow> bool" where
  "delivers t \<longleftrightarrow> (\<forall>q b w. tr_publish t q b w = (None, pushed q b w)
     \<or> (\<exists>e. tr_publish t q b w = (Some e, w) \<or> tr_publish t q b w = (Some e, pushed q b w)))"

definition relay_ok :: "('s, 'x pipe_world) relay \<Rightarrow> bool" where
  "relay_ok r \<longleftrightarrow> delivers (rl_transport r) \<and> (\<forall>d w. rl_sleep r d w = w)"

lemma relay_publish:
  assumes "relay_ok r" "tr_publish (rl_transport r) q b w = (x, w')"
  shows "grows w w'" and "x = None \<Longrightarrow> w' = pushed q b w"
proof -
  have "tr_publish (rl_transport r) q b w = (None, pushed q b w)
     \<or> (\<exists>e. tr_publish (rl_transport r) q b w = (Some e, w) \<or> tr_publish (rl_transport r) q b w = (Some e, pushed q b w))"
    using assms(1) unfolding relay_ok_def delivers_def by blast
  then show "grows w w'" "x = None \<Longrightarrow> w' = pushed q b w" using assms(2) grows_pushed [of w q b] by auto
qed

lemma flush_rows_moves:
  assumes "relay_ok r"
  shows "flush_rows r recs pub failed (s, b) = (res, (s', b')) \<Longrightarrow> grows b b'
    \<and> (\<forall>pub' failed'. res = Inr (pub', failed') \<longrightarrow>
         (\<forall>i \<in> set pub'. i \<in> set pub \<or> (\<exists>rec \<in> set recs. or_id rec = i \<and> held ((=) (or_body rec)) (or_queue rec) b')))"
proof (induction recs arbitrary: pub failed s b)
  case (Cons rec recs)
  obtain x b1 where x: "tr_publish (rl_transport r) (or_queue rec) (or_body rec) b = (x, b1)" by (metis surj_pair)
  show ?case
  proof (cases x)
    case None
    then have b1: "b1 = pushed (or_queue rec) (or_body rec) b" using relay_publish(2) [OF assms x] by simp
    have f: "flush_rows r recs (pub @ [or_id rec]) failed (s, b1) = (res, (s', b'))" using Cons.prems x None by simp
    note ih = Cons.IH [OF f]
    have "held ((=) (or_body rec)) (or_queue rec) b'" using ih b1 held_grows held_pushed [of "(=) (or_body rec)"] by blast
    moreover have "grows b b'" using grows_trans [OF grows_pushed] ih unfolding b1 by blast
    ultimately show ?thesis using ih by auto
  next
    case (Some e)
    obtain y s1 where y: "st_mark_failed (rl_store r) (or_id rec) (err_text e) s = (y, s1)" by fastforce
    have sl: "rl_sleep r d v = v" for d v using assms unfolding relay_ok_def by blast
    have g: "grows b b1" by (rule relay_publish(1) [OF assms x])
    show ?thesis
    proof (cases y)
      case None
      then have f: "flush_rows r recs pub (failed + 1) (s1, b1) = (res, (s', b'))"
        using Cons.prems x y Some sl by simp
      have "grows b b'" using Cons.IH [OF f] grows_trans [OF g] by blast
      then show ?thesis using Cons.IH [OF f] by auto
    next
      case (Some me)
      then show ?thesis using Cons.prems x y \<open>x = Some e\<close> g by auto
    qed
  qed
qed auto

context outbox_store
begin

text \<open>A pass that takes a row out of the outbox has put its body on its queue, whatever else failed.\<close>

lemma flush_moves:
  assumes "rl_store r = st" "inv s" "relay_ok r" "relay_flush r (s, b) = (x, (s', b'))"
  shows "inv s' \<and> grows b b' \<and> (\<forall>k body q. pending s k = Some (body, q) \<longrightarrow>
    pending s' k = Some (body, q) \<or> held ((=) body) q b')"
proof (cases "st_fetch st (rl_batch_size r) s")
  case fetch: (Pair f s1)
  show ?thesis
  proof (cases f)
    case (Inl e)
    then show ?thesis using assms fetch fetch_fail [OF assms(2)] by (auto simp: relay_flush_def)
  next
    case (Inr recs)
    have 1: "inv s1" "pending s1 = pending s" "list_all (\<lambda>rec. pending s (or_id rec) = Some (or_body rec, or_queue rec)) recs"
      using fetch_ok [OF assms(2)] fetch Inr by auto
    obtain res s2 b2 where rows: "flush_rows r recs [] 0 (s1, b) = (res, (s2, b2))" by (metis prod.exhaust)
    have 2: "inv s2" "pending s2 = pending s" using rows_keep [OF assms(1) 1(1) rows] 1(2) by auto
    note moved = flush_rows_moves [OF assms(3) rows]
    show ?thesis
    proof (cases res)
      case (Inl e)
      then show ?thesis using assms fetch Inr rows moved 2 by (auto simp: relay_flush_def)
    next
      case res: (Inr pf)
      obtain pub failed where pf: "pf = (pub, failed)" by (cases pf)
      obtain y s3 where y: "(if pub = [] then (None, s2) else st_mark_published st pub s2) = (y, s3)" by fastforce
      have fin: "s' = s3" "b' = b2"
        using assms(1,4) fetch Inr rows res pf y
        by (cases "pub = []"; auto simp: relay_flush_def split: option.splits prod.splits)+
      have "inv s3 \<and> (\<exists>done'. done' \<subseteq> set pub \<and> pending s3 = pending s2 |` (- done'))"
      proof (cases "pub = []")
        case True
        then show ?thesis using y 2 by auto
      next
        case False
        then show ?thesis using y published_ok [OF 2(1)] published_fail [OF 2(1)] by (cases y) auto
      qed
      then obtain done' where 3: "inv s3" "done' \<subseteq> set pub" "pending s3 = pending s |` (- done')" using 2(2) by auto
      have "held ((=) body) q b2" if row: "pending s k = Some (body, q)" "k \<in> done'" for k body q
      proof -
        obtain rec where "rec \<in> set recs" "or_id rec = k" "held ((=) (or_body rec)) (or_queue rec) b2"
          using moved res pf 3(2) row(2) by fastforce
        then show ?thesis using row(1) 1(3) by (auto simp: list_all_iff)
      qed
      then show ?thesis using moved 3 fin by (auto simp: restrict_map_def)
    qed
  qed
qed

end

subsection \<open>The pipeline\<close>

text \<open>The in-memory outbox behind a database that may refuse to mark, with some of the rows marked all the same: \<open>faults\<close>
  decides when, with which error and which rows.\<close>

definition faulty_outbox :: "(bytes list \<Rightarrow> mem_store \<Rightarrow> (go_error \<times> bytes list) option) \<Rightarrow> mem_store store" where
  "faulty_outbox faults = mem_outbox
     \<lparr>st_mark_published := (\<lambda>ids s.
        case faults ids s of
          None \<Rightarrow> mo_mark_published ids s
        | Some (e, marked) \<Rightarrow> (Some e, snd (mo_mark_published (filter (\<lambda>i. i \<in> set ids) marked) s)))\<rparr>"

lemma mo_mark_pending: "mo_inv s \<Longrightarrow> mo_inv (snd (mo_mark_published ids s))
    \<and> mo_pending (snd (mo_mark_published ids s)) = mo_pending s |` (- set ids)"
  using ob.published_ok [of s ids "snd (mo_mark_published ids s)"] by (simp add: mem_outbox_def mo_mark_published_def)

interpretation fo: outbox_store "faulty_outbox faults" mo_inv mo_room mo_pending for faults
proof
  fix s s' :: mem_store and body queue i limit recs e ids reason r
  have same: "st_save (faulty_outbox faults) = st_save mem_outbox" "st_fetch (faulty_outbox faults) = st_fetch mem_outbox"
    "st_mark_failed (faulty_outbox faults) = st_mark_failed mem_outbox"
    by (simp_all add: faulty_outbox_def)
  show "mo_inv s \<Longrightarrow> mo_room s \<Longrightarrow> st_save (faulty_outbox faults) body queue s = (Inr i, s') \<Longrightarrow>
      mo_inv s' \<and> mo_pending s i = None \<and> mo_pending s' = (mo_pending s)(i \<mapsto> (body, queue))"
    unfolding same by (rule ob.save_ok)
  show "mo_inv s \<Longrightarrow> st_fetch (faulty_outbox faults) limit s = (Inr recs, s') \<Longrightarrow>
      mo_inv s' \<and> mo_pending s' = mo_pending s \<and> distinct (map or_id recs)
        \<and> list_all (\<lambda>rec. mo_pending s (or_id rec) = Some (or_body rec, or_queue rec)) recs
        \<and> (0 < limit \<longrightarrow> int (length recs) \<le> limit \<and> (recs = [] \<longrightarrow> mo_pending s = Map.empty))"
    unfolding same by (rule ob.fetch_ok)
  show "mo_inv s \<Longrightarrow> st_fetch (faulty_outbox faults) limit s = (Inl e, s') \<Longrightarrow> mo_inv s' \<and> mo_pending s' = mo_pending s"
    unfolding same by (rule ob.fetch_fail)
  show "mo_inv s \<Longrightarrow> st_mark_published (faulty_outbox faults) ids s = (None, s') \<Longrightarrow>
      mo_inv s' \<and> mo_pending s' = mo_pending s |` (- set ids)"
    using mo_mark_pending [of s ids] by (auto simp: faulty_outbox_def mo_mark_published_def split: option.splits)
  show "mo_inv s \<Longrightarrow> st_mark_published (faulty_outbox faults) ids s = (Some e, s') \<Longrightarrow>
      mo_inv s' \<and> (\<exists>done. done \<subseteq> set ids \<and> mo_pending s' = mo_pending s |` (- done))"
  proof -
    assume inv: "mo_inv s" and f: "st_mark_published (faulty_outbox faults) ids s = (Some e, s')"
    then obtain marked where "s' = snd (mo_mark_published (filter (\<lambda>i. i \<in> set ids) marked) s)"
      by (auto simp: faulty_outbox_def mo_mark_published_def split: option.splits prod.splits)
    then show ?thesis using mo_mark_pending [OF inv, of "filter (\<lambda>i. i \<in> set ids) marked"]
      by (intro conjI exI [of _ "set (filter (\<lambda>i. i \<in> set ids) marked)"]) auto
  qed
  show "mo_inv s \<Longrightarrow> st_mark_failed (faulty_outbox faults) i reason s = (r, s') \<Longrightarrow> mo_inv s' \<and> mo_pending s' = mo_pending s"
    unfolding same by (rule ob.failed_keeps)
qed

text \<open>The steps: a producer writes any envelope to the outbox, a relay makes a pass, a consumer takes a message from a
  queue (other than \<open>D\<close>, which is left to the redrive).\<close>

inductive pipeline_step ::
  "'x pipe_world runtime \<Rightarrow> 'x pipe_world app \<Rightarrow> bytes \<Rightarrow> mem_store \<times> 'x pipe_world \<Rightarrow> mem_store \<times> 'x pipe_world \<Rightarrow> bool"
  for rt :: "'x pipe_world runtime" and a :: "'x pipe_world app" and D :: bytes where
  written: "mo_room s \<Longrightarrow> outbox_write (rt_syntax rt) mem_outbox env s = (r, s') \<Longrightarrow> pipeline_step rt a D (s, w) (s', w)"
| relayed_pass: "relay_ok r \<Longrightarrow> rl_store r = faulty_outbox faults \<Longrightarrow> relay_flush r (s, w) = (res, (s', w')) \<Longrightarrow>
    pipeline_step rt a D (s, w) (s', w')"
| consumed: "q \<noteq> D \<Longrightarrow> im_pop q n w = (Inr (Some m), w') \<Longrightarrow> pipeline_step rt a D (s, w) (s, dispatch rt a m w')"

inductive_cases pipeline_stepE: "pipeline_step rt a D (s, w) (s', w')"

text \<open>Where the message of an outbox row may be.\<close>

definition accounted ::
  "(bytes \<Rightarrow> bytes) \<Rightarrow> bytes \<Rightarrow> bytes \<Rightarrow> bytes \<Rightarrow> bytes \<Rightarrow> envelope \<Rightarrow> mem_store \<times> 'x pipe_world \<Rightarrow> bool" where
  "accounted stx D k body q E = (\<lambda>(s, w).
     mo_pending s k = Some (body, q) \<or> held (live_copy stx E) q w \<or> held (dead_copy stx E) D w
     \<or> meta_id (env_meta E) \<in> seen_of w)"

lemma accounted_world:
  assumes "accounted stx D k body q E (s, w)" "mo_pending s' k = mo_pending s k" "grows w w'"
  shows "accounted stx D k body q E (s', w')"
  using assms held_grows [OF assms(3)] grows_seen [OF assms(3)] by (auto simp: accounted_def)

definition dead_target :: "'x pipe_world app \<Rightarrow> bytes \<Rightarrow> bytes" where
  "dead_target a q = (if app_dead_letter_queue a \<noteq> [] then app_dead_letter_queue a else q @ app_dead_letter_suffix a)"

lemma pipeline_keeps:
  assumes "pipeline_step rt a D (s, w) (s', w')" "effect_app a" "handled_message a E" "D = dead_target a q"
    and "encode (rt_syntax rt) E = Inr body" "mo_inv s" "guarded w" "accounted (rt_syntax rt) D k body q E (s, w)"
  shows "mo_inv s' \<and> guarded w' \<and> accounted (rt_syntax rt) D k body q E (s', w')"
  using assms(1)
proof (rule pipeline_stepE)
  fix env r
  assume written: "w' = w" "mo_room s" "outbox_write (rt_syntax rt) mem_outbox env s = (r, s')"
  show ?thesis
  proof (cases "encode (rt_syntax rt) env")
    case (Inr b)
    obtain i where i: "mo_save b (outbox_queue_of env) s = (Inr i, s')"
      using written Inr by (auto simp: outbox_write_def mem_outbox_def mo_save_def Let_def)
    then have "mo_inv s' \<and> mo_pending s i = None \<and> mo_pending s' = (mo_pending s)(i \<mapsto> (b, outbox_queue_of env))"
      using ob.save_ok [OF assms(6) written(2), of b "outbox_queue_of env" i s'] by (simp add: mem_outbox_def)
    then show ?thesis using assms(7,8) written(1) by (auto simp: accounted_def)
  qed (use written assms in \<open>simp add: outbox_write_def\<close>)
next
  fix r :: "(mem_store, 'a pipe_world) relay" and faults res
  assume relayed_pass: "relay_ok r" "rl_store r = faulty_outbox faults" "relay_flush r (s, w) = (res, s', w')"
  note moved = fo.flush_moves [OF relayed_pass(2) assms(6) relayed_pass(1,3)]
  have "live_copy (rt_syntax rt) E body"
    using assms(3,5) by (auto simp: live_copy_def handled_message_def envelope_ok_def intro!: exI [of _ "env_attempts E"])
  then have "held ((=) body) q w' \<Longrightarrow> held (live_copy (rt_syntax rt) E) q w'" by (auto simp: held_def)
  moreover have g: "grows w w'" using moved by blast
  ultimately have "accounted (rt_syntax rt) D k body q E (s', w')"
    using moved assms(8) held_grows [OF g] grows_seen [OF g] unfolding accounted_def prod.case by blast
  then show ?thesis using moved g assms(7) by (simp add: grows_def)
next
  fix p n m w1
  assume consumed: "s' = s" "w' = dispatch rt a m w1" "p \<noteq> D" "im_pop p n w = (Inr (Some m), w1)"
  then obtain x ms where q: "queue_of (fst w) p = x # ms" "m = received_of p x" "w1 = (smap_put p ms (fst w), snd w)"
    by (auto simp: im_pop_def split: list.splits)
  have g1: "guarded w1" using assms(7) q(3) guarded_same [of w1 w] by simp
  have g: "grows w1 w'" using grows_dispatch [OF assms(2) q(2)] consumed by simp
  have rest: "queue_of (fst w1) z = (if z = p then ms else queue_of (fst w) z)" for z by (simp add: q(3) queue_of_put)
  have "accounted (rt_syntax rt) D k body q E (s, w')"
  proof (cases "p = q \<and> live_copy (rt_syntax rt) E (im_body x)")
    case True
    have target: "D = dead_letter_target a m"
      using assms(2,4) q(2) True by (simp add: mem_target effect_app_memory dead_target_def received_of_def)
    then show ?thesis using dispatch_copy [OF assms(2,3) q(2) _ target] True consumed by (auto simp: accounted_def)
  next
    case False
    have "held (live_copy (rt_syntax rt) E) q w \<Longrightarrow> held (live_copy (rt_syntax rt) E) q w1"
      using False q(1) rest by (auto simp: held_def)
    moreover have "held (dead_copy (rt_syntax rt) E) D w \<Longrightarrow> held (dead_copy (rt_syntax rt) E) D w1"
      using consumed rest by (auto simp: held_def)
    ultimately have "accounted (rt_syntax rt) D k body q E (s, w1)" using assms(8) q(3) by (auto simp: accounted_def)
    then show ?thesis using accounted_world [OF _ refl g] by blast
  qed
  then show ?thesis using assms(6) g1 g consumed by (simp add: grows_def)
qed

lemma pipeline_run:
  assumes "(pipeline_step rt a D)\<^sup>*\<^sup>* S S'" "effect_app a" "handled_message a E" "D = dead_target a q"
    and "encode (rt_syntax rt) E = Inr body" "mo_inv (fst S)" "guarded (snd S)" "accounted (rt_syntax rt) D k body q E S"
  shows "mo_inv (fst S') \<and> guarded (snd S') \<and> accounted (rt_syntax rt) D k body q E S'"
  using assms(1)
proof (induction rule: rtranclp_induct)
  case base
  then show ?case using assms(6-8) by simp
next
  case (step T U)
  obtain s w s' w' where "T = (s, w)" "U = (s', w')" by (metis surj_pair)
  then show ?case using pipeline_keeps [OF _ assms(2-5), of s w s' w' k] step by auto
qed

lemma guarded_success: "guarded w \<Longrightarrow> i \<noteq> [] \<Longrightarrow> successes i w = (if i \<in> seen_of w then 1 else 0)"
  by (simp add: guarded_def)

end
