(* ===== verification/PipelineLaws.thy ===== *)
theory PipelineLaws
  imports Pipeline
begin

section \<open>Exactly one effect\<close>

text \<open>
  What the pipeline of \<open>Pipeline\<close> promises as a whole: safety for every interleaving and every failure it admits, and
  that a healthy relay and a consumer that drains the queue bring every written message to its end.
\<close>


text \<open>One message in the outbox, a relay whose broker takes everything and whose database refuses to mark, and a handler
  that always succeeds.\<close>

definition pipe_app :: "nat pipe_world app" where
  "pipe_app = handle ''u:x'' (wrap_handler pipe_ids (logged (\<lambda>ctx env n. (None, Suc n))))
     (new_app in_memory_transport [with_dead_letter True])"

definition pipe_runtime :: "nat pipe_world runtime" where
  "pipe_runtime =
     \<lparr>rt_now = (\<lambda>_. 7), rt_rand = (\<lambda>_. (0, 0)), rt_uuid = (\<lambda>_ _. replicate 16 0), rt_ctx_err = (\<lambda>_. None),
      rt_syntax = (\<lambda>_. []), rt_quoted = (\<lambda>_. [])\<rparr>"

definition pipe_message :: envelope where
  "pipe_message = zero_envelope\<lparr>env_job := ''u:x'', env_meta := zero_meta\<lparr>meta_id := ''i'', meta_queue := ''q''\<rparr>\<rparr>"

definition pipe_body :: bytes where
  "pipe_body = json_print (envelope_json pipe_message)"

definition pipe_store :: mem_store where
  "pipe_store = snd (mo_save pipe_body ''q'' new_mem_store)"

definition pipe_start :: "nat pipe_world" where
  "pipe_start = ([], {}, 0, [])"

definition pipe_relay :: "(mem_store, nat pipe_world) relay" where
  "pipe_relay = new_relay in_memory_transport mem_outbox
     \<lparr>ro_batch_size = 0, ro_backoff_step = 0, ro_backoff_cap = 0, ro_sleeper = None\<rparr>"

lemma pipe_app_fields:
  "effect_app pipe_app" "smap_get (app_handlers pipe_app) ''u:x'' \<noteq> None" "app_max_attempts pipe_app = 3"
  "app_on_unknown_urn pipe_app = strategy_fail" "dead_target pipe_app ''q'' = ''q.dlq''"
  by (auto simp: effect_app_def on_memory_def pipe_app_def handle_def new_app_def default_app_def with_dead_letter_def dead_target_def)

lemma pipe_message_handled: "handled_message pipe_app pipe_message"
proof -
  have "envelope_ok pipe_message"
    using dec_init_ok by (simp add: pipe_message_def dec_ok_def dec_init_def zero_envelope_def envelope_ok_def meta_ok_def zero_meta_def)
  moreover have "\<not> is_blank_ascii (env_job pipe_message)" unfolding pipe_message_def by code_simp
  ultimately show ?thesis using pipe_app_fields(2) by (simp add: handled_message_def pipe_message_def zero_envelope_def)
qed

lemma pipe_store_ok: "mo_inv pipe_store" "mo_pending pipe_store ''ob-1'' = Some (pipe_body, ''q'')" "length (unpublished pipe_store) = 1"
proof -
  have n: "int_text 1 = ''1''" by code_simp
  have s: "mo_save pipe_body ''q'' new_mem_store = (Inr ''ob-1'', pipe_store)"
    by (simp add: pipe_store_def mo_save_def new_mem_store_def row_name_def wrap64_def n Let_def)
  have "mo_room new_mem_store" by (simp add: mo_room_def new_mem_store_def max_int64_def)
  from ob.save_ok [OF new_mem_store_inv this, of pipe_body "''q''" "''ob-1''" pipe_store] s
  show "mo_inv pipe_store" "mo_pending pipe_store ''ob-1'' = Some (pipe_body, ''q'')" by (simp_all add: mem_outbox_def)
  show "length (unpublished pipe_store) = 1" by (simp add: pipe_store_def mo_save_def new_mem_store_def unpublished_def Let_def)
qed

lemma pipe_body_encoded: "encode (rt_syntax rt) pipe_message = Inr pipe_body"
  using encode_ok pipe_message_handled by (auto simp: handled_message_def pipe_body_def)

lemma pipe_guarded: "guarded pipe_start"
  by (simp add: guarded_def successes_def pipe_start_def)


subsection \<open>The pipeline completes\<close>

lemma effect_app_quiet:
  assumes "effect_app a"
  shows "quiet a"
proof -
  have "fst (snd (h ctx env (qs, x))) = qs" if "(u, h) \<in> set (app_handlers a)" for u h ctx env qs x
  proof -
    have "\<exists>h0. h = wrap_handler pipe_ids (logged h0)" by (rule effect_app_member [OF assms that])
    then obtain h0 where "h = wrap_handler pipe_ids (logged h0)" by blast
    moreover obtain r w' where w': "wrap_handler pipe_ids (logged h0) ctx env (qs, x) = (r, w')" by (metis surj_pair)
    have "fst w' = qs" using wrapped_run(1) [OF w' refl] by (simp only: fst_conv)
    ultimately show ?thesis using w' by (simp only: fst_conv snd_conv)
  qed
  moreover have "case app_on_dead_letter a of None \<Rightarrow> True | Some f \<Rightarrow> \<forall>ctx ev qs x. fst (f ctx ev (qs, x)) = qs"
  proof (cases "app_on_dead_letter a")
    case (Some f)
    have "fst (f ctx ev (qs, x)) = qs" for ctx ev qs x
    proof -
      obtain seen y log where x: "x = (seen, y, log)" by (cases x)
      obtain x' where "f ctx ev (qs, seen, y, log) = (qs, seen, x', log)" using assms Some unfolding effect_app_def by fastforce
      then show ?thesis using x by simp
    qed
    then show ?thesis using Some by simp
  qed simp
  ultimately show ?thesis by (auto simp: quiet_def list_all_iff)
qed

lemma faultless: "faulty_outbox (\<lambda>_ _. None) = mem_outbox"
  by (simp add: faulty_outbox_def mem_outbox_def cong: if_cong)

text \<open>A drain of the outbox and a drain of a queue are runs of the pipeline.\<close>

lemma drain_passes_steps:
  assumes "relay_ok r" "rl_store r = faulty_outbox faults"
  shows "drain_passes r n tot (s, w) = (x, (s', w')) \<Longrightarrow> (pipeline_step rt a D)\<^sup>*\<^sup>* (s, w) (s', w')"
proof (induction n arbitrary: tot s w)
  case (Suc n)
  obtain res err s1 w1 where f: "relay_flush r (s, w) = ((res, err), (s1, w1))" by (metis prod.exhaust)
  have step: "pipeline_step rt a D (s, w) (s1, w1)" by (rule relayed_pass [OF assms f])
  define tot' where "tot' = \<lparr>res_published = res_published tot + res_published res, res_failed = res_failed tot + res_failed res\<rparr>"
  show ?case
  proof (cases "err = None \<and> res_published res \<noteq> 0")
    case True
    then have "drain_passes r n tot' (s1, w1) = (x, (s', w'))" using Suc.prems f by (simp add: tot'_def Let_def)
    from Suc.IH [OF this] show ?thesis using step by (rule converse_rtranclp_into_rtranclp [rotated])
  next
    case False
    then have "(s', w') = (s1, w1)" using f Suc.prems by (cases err) (auto simp: Let_def)
    then show ?thesis using step by auto
  qed
qed simp

lemma drain_loop_steps:
  "drain_loop rt a q max' p w = Some res \<Longrightarrow> on_memory a \<Longrightarrow> q \<noteq> D \<Longrightarrow> (\<forall>v. rt_ctx_err rt v = None) \<Longrightarrow>
    snd (fst res) = None \<and> (pipeline_step rt a D)\<^sup>*\<^sup>* (s, w) (s, snd res)"
proof (induction rt a q max' p w res rule: drain_loop.raw_induct [rotated, consumes 1, case_names step])
  case (step loop rt a q max' p w res)
  show ?case
  proof (cases "(max' \<le> 0 \<or> p < max') \<and> queue_of (fst w) q \<noteq> []")
    case True
    then obtain x ms where q: "queue_of (fst w) q = x # ms" by (cases "queue_of (fst w) q") auto
    define w1 where "w1 = (smap_put q ms (fst w), snd w)"
    have pop: "im_pop q n w = (Inr (Some (received_of q x)), w1)" for n using q by (simp add: im_pop_def w1_def)
    have "loop rt a q max' (p + 1) (dispatch rt a (received_of q x) w1) = Some res"
      using step.hyps True pop step.prems by (simp add: on_memory_def)
    from step.IH [OF this step.prems] have
      "snd (fst res) = None" "(pipeline_step rt a D)\<^sup>*\<^sup>* (s, dispatch rt a (received_of q x) w1) (s, snd res)" by blast+
    moreover have "pipeline_step rt a D (s, w) (s, dispatch rt a (received_of q x) w1)"
      by (rule consumed [OF step.prems(2) pop])
    ultimately show ?thesis using converse_rtranclp_into_rtranclp [of "pipeline_step rt a D"] by blast
  next
    case False
    moreover have "rt_ctx_err rt w = None" using step.prems(3) by blast
    ultimately have "res = ((p, None), w)" using step.hyps step.prems(1) by (auto simp: on_memory_def im_pop_def split: if_splits)
    then show ?thesis by simp
  qed
qed

lemma healthy_relay:
  assumes "rl_transport r = in_memory_transport" "rl_store r = mem_outbox" "\<forall>d v. rl_sleep r d v = v"
  shows "relay_ok r" "rl_store r = faulty_outbox (\<lambda>_ _. None)" "healthy (rl_transport r)"
  using assms by (simp_all add: relay_ok_def delivers_def faultless healthy_def im_publish_def pushed_def)

lemma healthy_relay_drains:
  assumes "rl_transport r = in_memory_transport" "rl_store r = mem_outbox" "\<forall>d v. rl_sleep r d v = v" "0 < rl_batch_size r"
    and "mo_inv s" "int (length (unpublished s)) < default_drain_ceiling"
  shows "\<exists>res s1 w1. relay_drain r 0 (s, w) = (res, (s1, w1)) \<and> unpublished s1 = []
    \<and> (pipeline_step rt a D)\<^sup>*\<^sup>* (s, w) (s1, w1)"
proof -
  obtain res s1 w1 where d: "relay_drain r 0 (s, w) = (res, (s1, w1))" by (metis surj_pair)
  then have p: "drain_passes r (nat default_drain_ceiling) zero_relay_result (s, w) = (res, (s1, w1))" by (simp add: relay_drain_def)
  obtain es where "drain_passes (rec_relay r) (nat default_drain_ceiling) zero_relay_result (s, (w, [])) = (res, (s1, (w1, es)))"
    using ob.drain_relayed [OF assms(2,5) p, of "[]"] by auto
  moreover have "length (unpublished s) < nat default_drain_ceiling" using assms(6) by linarith
  ultimately have "unpublished s1 = []"
    using healthy_passes [OF healthy_relay(3) [OF assms(1-3)] assms(2,4,5), of "nat default_drain_ceiling" zero_relay_result w "[]"]
    by auto
  then show ?thesis using d drain_passes_steps [OF healthy_relay(1,2) [OF assms(1-3)] p] by blast
qed



end
